(* ===== verification/Nova_Prelude.thy ===== *)
theory Nova_Prelude
  imports Main "HOL-Library.Word" "HOL-Library.DAList" "HOL-Library.List_Lexorder"
    "HOL-Library.Char_ord" "HOL-Library.Sublist"
begin

text \<open>
  Shared vocabulary of the development: Rust's integer types, results, the string
  functions of the standard library the sources call, little- and big-endian byte
  encodings, and the generic lemmas the component theories use.

  Rust strings are modelled as byte strings (\<^typ>\<open>string\<close>): the text a \<open>String\<close> stores is
  its UTF-8 encoding. The functions that look at characters (\<open>trim\<close>, \<open>split_whitespace\<close>,
  the case conversions) treat the ASCII range; white space outside ASCII is left alone.
\<close>

named_theorems op_simps "equations that run the store operations"
named_theorems key_simps "equations that unfold the key builders"
named_theorems codec_simps "equations of the wire codecs"

subsection \<open>Integer types and results\<close>

type_synonym u8 = "8 word"
type_synonym u16 = "16 word"
type_synonym u32 = "32 word"
type_synonym u64 = "64 word"
type_synonym byte = u8
type_synonym ('e, 'a) result = "'e + 'a"

abbreviation Err :: "'e \<Rightarrow> ('e, 'a) result" where
  "Err \<equiv> Inl"

abbreviation Ok :: "'a \<Rightarrow> ('e, 'a) result" where
  "Ok \<equiv> Inr"

text \<open>The question mark operator: stop at an error, go on with the value.\<close>

definition and_then :: "('e, 'a) result \<Rightarrow> ('a \<Rightarrow> ('e, 'b) result) \<Rightarrow> ('e, 'b) result" where
  "and_then r f = (case r of Inl e \<Rightarrow> Inl e | Inr a \<Rightarrow> f a)"

definition map_err :: "('e \<Rightarrow> 'f) \<Rightarrow> ('e, 'a) result \<Rightarrow> ('f, 'a) result" where
  "map_err g r = (case r of Inl e \<Rightarrow> Inl (g e) | Inr a \<Rightarrow> Inr a)"

definition ok_or :: "'e \<Rightarrow> 'a option \<Rightarrow> ('e, 'a) result" where
  "ok_or e x = (case x of None \<Rightarrow> Inl e | Some a \<Rightarrow> Inr a)"

definition is_ok :: "('e, 'a) result \<Rightarrow> bool" where
  "is_ok r = (case r of Inl _ \<Rightarrow> False | Inr _ \<Rightarrow> True)"

lemma and_then_simps [simp]:
  "and_then (Inl e) f = Inl e" "and_then (Inr a) f = f a"
  by (simp_all add: and_then_def)

lemma map_err_simps [simp]:
  "map_err g (Inl e) = Inl (g e)" "map_err g (Inr a) = Inr a"
  by (simp_all add: map_err_def)

lemma ok_or_simps [simp]:
  "ok_or e None = Inl e" "ok_or e (Some a) = Inr a"
  by (simp_all add: ok_or_def)

lemma is_ok_simps [simp]: "is_ok (Inl e) = False" "is_ok (Inr a) = True"
  by (simp_all add: is_ok_def)

lemma and_then_Inr_iff: "and_then r f = Inr b \<longleftrightarrow> (\<exists>a. r = Inr a \<and> f a = Inr b)"
  by (cases r) auto

text \<open>
  Collecting an iterator of results into a result of a vector: the first error wins.
\<close>

fun collect_results :: "('a \<Rightarrow> ('e, 'b) result) \<Rightarrow> 'a list \<Rightarrow> ('e, 'b list) result" where
  "collect_results f [] = Inr []"
| "collect_results f (x # xs) =
     (case f x of
        Inl e \<Rightarrow> Inl e
      | Inr y \<Rightarrow> (case collect_results f xs of Inl e \<Rightarrow> Inl e | Inr ys \<Rightarrow> Inr (y # ys)))"

lemma collect_results_Inr_iff:
  "collect_results f xs = Inr ys \<longleftrightarrow> list_all2 (\<lambda>x y. f x = Inr y) xs ys"
proof (induction xs arbitrary: ys)
  case (Cons x xs)
  show ?case
  proof (cases "f x")
    case (Inr y)
    then show ?thesis
      by (cases "collect_results f xs") (auto simp: list_all2_Cons1 Cons.IH [symmetric])
  qed (auto simp: list_all2_Cons1)
qed auto

lemma collect_results_mem:
  assumes "collect_results f xs = Inr ys" "y \<in> set ys"
  shows "\<exists>x \<in> set xs. f x = Inr y"
proof -
  from assms(1) have "list_all2 (\<lambda>x y. f x = Inr y) xs ys" by (simp only: collect_results_Inr_iff)
  then show ?thesis using assms(2) by (induction rule: list_all2_induct) auto
qed

lemma collect_results_all_ok:
  assumes "\<And>x. x \<in> set xs \<Longrightarrow> f x = Inr (g x)"
  shows "collect_results f xs = Inr (map g xs)"
  using assms by (induction xs) auto

subsection \<open>Saturating and checked arithmetic\<close>

definition sat_add :: "u64 \<Rightarrow> u64 \<Rightarrow> u64" where
  "sat_add a b = (if unat a + unat b < 2 ^ 64 then a + b else - 1)"

definition sat_sub :: "u64 \<Rightarrow> u64 \<Rightarrow> u64" where
  "sat_sub a b = (if b \<le> a then a - b else 0)"

lemma unat_byte_bound: "unat (b :: byte) < 256"
  using unsigned_less [of b] by simp

lemma unat_bounds:
  "unat (a :: u16) < 65536" "unat (b :: u32) < 4294967296"
  "unat (c :: u64) < 18446744073709551616"
  using unsigned_less [of a] unsigned_less [of b] unsigned_less [of c] by simp_all

lemma unat_max_u64: "unat (- 1 :: u64) = 2 ^ 64 - 1"
  by (simp add: unsigned_minus_1_eq_mask mask_eq_exp_minus_1)

lemma unat_sat_add: "unat (sat_add a b) = min (unat a + unat b) (2 ^ 64 - 1)"
proof -
  have "unat (- 1 :: u64) = 2 ^ 64 - 1" by (rule unat_max_u64)
  then show ?thesis by (auto simp: sat_add_def unat_word_ariths)
qed

lemma unat_sat_sub: "unat (sat_sub a b) = unat a - unat b"
  by (auto simp: sat_sub_def unat_sub word_le_nat_alt)

lemma unat_u64_Suc: "a \<noteq> - 1 \<Longrightarrow> unat (a + 1 :: u64) = Suc (unat a)"
proof -
  assume "a \<noteq> - 1"
  then have "unat a \<noteq> 2 ^ 64 - 1"
    by (auto simp: word_unat_eq_iff unat_max_u64)
  with unat_bounds(3) [of a] have "Suc (unat a) < 2 ^ 64" by simp
  then show ?thesis by (simp add: unat_word_ariths)
qed

subsection \<open>Byte encodings of integers\<close>

fun le_bytes :: "nat \<Rightarrow> nat \<Rightarrow> byte list" where
  "le_bytes 0 v = []"
| "le_bytes (Suc n) v = word_of_nat (v mod 256) # le_bytes n (v div 256)"

fun le_val :: "byte list \<Rightarrow> nat" where
  "le_val [] = 0"
| "le_val (b # bs) = unat b + 256 * le_val bs"

lemma length_le_bytes [simp]: "length (le_bytes n v) = n"
  by (induction n arbitrary: v) auto

lemma unat_of_mod_256 [simp]: "unat (word_of_nat (v mod 256) :: byte) = v mod 256"
  by (simp add: unat_of_nat)

lemma le_val_le_bytes: "le_val (le_bytes n v) = v mod 256 ^ n"
  by (induction n arbitrary: v)
    (simp_all add: mod_mult2_eq add.commute)

lemma le_val_bound: "le_val bs < 256 ^ length bs"
proof (induction bs)
  case (Cons b bs)
  with unat_byte_bound [of b] show ?case by simp
qed simp

lemma le_bytes_le_val: "le_bytes (length bs) (le_val bs) = bs"
proof (induction bs)
  case (Cons b bs)
  with unat_byte_bound [of b] show ?case by simp
qed simp

definition u16_to_le :: "u16 \<Rightarrow> byte list" where
  "u16_to_le w = le_bytes 2 (unat w)"

definition u32_to_le :: "u32 \<Rightarrow> byte list" where
  "u32_to_le w = le_bytes 4 (unat w)"

definition u64_to_le :: "u64 \<Rightarrow> byte list" where
  "u64_to_le w = le_bytes 8 (unat w)"

definition u64_to_be :: "u64 \<Rightarrow> byte list" where
  "u64_to_be w = rev (le_bytes 8 (unat w))"

definition u16_from_le :: "byte list \<Rightarrow> u16" where
  "u16_from_le bs = word_of_nat (le_val bs)"

definition u32_from_le :: "byte list \<Rightarrow> u32" where
  "u32_from_le bs = word_of_nat (le_val bs)"

definition u64_from_le :: "byte list \<Rightarrow> u64" where
  "u64_from_le bs = word_of_nat (le_val bs)"

definition u64_from_be :: "byte list \<Rightarrow> u64" where
  "u64_from_be bs = word_of_nat (le_val (rev bs))"

lemma length_to_bytes [simp]:
  "length (u16_to_le a) = 2" "length (u32_to_le b) = 4"
  "length (u64_to_le c) = 8" "length (u64_to_be c) = 8"
  by (simp_all add: u16_to_le_def u32_to_le_def u64_to_le_def u64_to_be_def)

lemma from_to_bytes [simp]:
  "u16_from_le (u16_to_le a) = a" "u32_from_le (u32_to_le b) = b"
  "u64_from_le (u64_to_le c) = c" "u64_from_be (u64_to_be c) = c"
  by (simp_all add: u16_to_le_def u16_from_le_def u32_to_le_def u32_from_le_def
      u64_to_le_def u64_from_le_def u64_to_be_def u64_from_be_def le_val_le_bytes
      unat_of_nat word_unat_eq_iff mod_less [OF unat_bounds(1)] mod_less [OF unat_bounds(2)]
      mod_less [OF unat_bounds(3)])

lemma u64_to_be_from_be: "length bs = 8 \<Longrightarrow> u64_to_be (u64_from_be bs) = bs"
  using le_val_bound [of "rev bs"] le_bytes_le_val [of "rev bs"]
  by (simp add: u64_to_be_def u64_from_be_def unat_of_nat)

subsection \<open>Strings\<close>

definition ascii_lower :: "char \<Rightarrow> char" where
  "ascii_lower c =
     (if CHR ''A'' \<le> c \<and> c \<le> CHR ''Z'' then char_of (of_char c + 32 :: nat) else c)"

definition ascii_upper :: "char \<Rightarrow> char" where
  "ascii_upper c =
     (if CHR ''a'' \<le> c \<and> c \<le> CHR ''z'' then char_of (of_char c - 32 :: nat) else c)"

definition to_ascii_lowercase :: "string \<Rightarrow> string" where
  "to_ascii_lowercase = map ascii_lower"

definition to_ascii_uppercase :: "string \<Rightarrow> string" where
  "to_ascii_uppercase = map ascii_upper"

definition eq_ignore_ascii_case :: "string \<Rightarrow> string \<Rightarrow> bool" where
  "eq_ignore_ascii_case a b = (to_ascii_lowercase a = to_ascii_lowercase b)"

definition trim_end_matches :: "char \<Rightarrow> string \<Rightarrow> string" where
  "trim_end_matches c s = rev (dropWhile (\<lambda>x. x = c) (rev s))"

definition trim_matches :: "char \<Rightarrow> string \<Rightarrow> string" where
  "trim_matches c s = trim_end_matches c (dropWhile (\<lambda>x. x = c) s)"

definition is_ws :: "char \<Rightarrow> bool" where
  "is_ws c = (c = CHR '' '' \<or> (9 \<le> (of_char c :: nat) \<and> (of_char c :: nat) \<le> 13))"

definition trim :: "string \<Rightarrow> string" where
  "trim s = rev (dropWhile is_ws (rev (dropWhile is_ws s)))"

fun words_acc :: "string \<Rightarrow> string \<Rightarrow> string list" where
  "words_acc acc [] = (if acc = [] then [] else [rev acc])"
| "words_acc acc (c # cs) =
     (if is_ws c then (if acc = [] then words_acc [] cs else rev acc # words_acc [] cs)
      else words_acc (c # acc) cs)"

definition split_whitespace :: "string \<Rightarrow> string list" where
  "split_whitespace s = words_acc [] s"

fun join_with :: "string \<Rightarrow> string list \<Rightarrow> string" where
  "join_with sep [] = []"
| "join_with sep [x] = x"
| "join_with sep (x # y # xs) = x @ sep @ join_with sep (y # xs)"

text \<open>\<open>str::starts_with\<close> and \<open>str::contains\<close>.\<close>

definition quoted :: "string \<Rightarrow> string" where
  "quoted s = CHR 0x27 # s @ [CHR 0x27]"

definition starts_with :: "string \<Rightarrow> string \<Rightarrow> bool" where
  "starts_with s p = (take (length p) s = p)"

fun contains_str :: "string \<Rightarrow> string \<Rightarrow> bool" where
  "contains_str [] p = (p = [])"
| "contains_str (c # cs) p = (starts_with (c # cs) p \<or> contains_str cs p)"

lemma contains_str_append: "contains_str (a @ p @ b) p"
proof (induction a)
  case Nil
  have "take (length p) (p @ b) = p" by simp
  then show ?case by (cases "p @ b") (auto simp: starts_with_def simp del: append_eq_conv_conj)
qed simp

text \<open>The byte of a character.\<close>

lemma of_char_eq_0: "(of_char c :: byte) = 0 \<longleftrightarrow> c = CHR 0x00"
  by (cases c) (simp add: word_unat_eq_iff)

lemma unat_of_char: "unat (of_char c :: byte) = of_char c"
proof -
  have "(of_char c :: nat) < 256" by (metis of_char_mod_256 mod_less_divisor zero_less_numeral)
  then have "unat (word_of_nat (of_char c) :: byte) = of_char c" by (simp add: unat_of_nat)
  then show ?thesis by (simp only: of_nat_of_char)
qed

lemma byte_of_char_inj [simp]: "(of_char c :: byte) = of_char d \<longleftrightarrow> c = d"
  by (simp only: word_unat_eq_iff unat_of_char of_char_eq_iff)

text \<open>Decimal display of unsigned integers.\<close>

fun show_nat :: "nat \<Rightarrow> string" where
  "show_nat n =
     (if n < 10 then [char_of (48 + n)] else show_nat (n div 10) @ [char_of (48 + n mod 10)])"

declare show_nat.simps [simp del]

definition show_u64 :: "u64 \<Rightarrow> string" where
  "show_u64 w = show_nat (unat w)"

text \<open>Reading the digits back shows that the display is injective.\<close>

fun read_nat :: "nat \<Rightarrow> string \<Rightarrow> nat" where
  "read_nat n [] = n"
| "read_nat n (c # cs) = read_nat (10 * n + (of_char c - 48)) cs"

lemma read_nat_append: "read_nat n (xs @ ys) = read_nat (read_nat n xs) ys"
  by (induction xs arbitrary: n) auto

lemma read_show_nat: "read_nat 0 (show_nat n) = n"
proof (induction n rule: show_nat.induct)
  case (1 n)
  show ?case
  proof (cases "n < 10")
    case True
    then show ?thesis by (simp add: show_nat.simps [of n])
  next
    case False
    then show ?thesis using 1
      by (simp add: show_nat.simps [of n] read_nat_append)
  qed
qed

lemma show_nat_inj: "show_nat m = show_nat n \<longleftrightarrow> m = n"
  by (metis read_show_nat)

lemma show_u64_inj: "show_u64 a = show_u64 b \<longleftrightarrow> a = b"
  by (simp add: show_u64_def show_nat_inj word_unat_eq_iff)

lemma show_nat_digits: "c \<in> set (show_nat n) \<Longrightarrow> 48 \<le> (of_char c :: nat) \<and> (of_char c :: nat) \<le> 57"
proof (induction n rule: show_nat.induct)
  case (1 n)
  then show ?case
    by (cases "n < 10") (auto simp: show_nat.simps [of n])
qed

lemma show_u64_no_colon: "CHR '':'' \<notin> set (show_u64 w)"
  using show_nat_digits [of "CHR '':''"] by (auto simp: show_u64_def)

lemma split_at_first:
  assumes "c \<notin> set xs" "c \<notin> set ys"
  shows "xs @ c # us = ys @ c # vs \<longleftrightarrow> xs = ys \<and> us = vs"
  using assms
proof (induction xs arbitrary: ys)
  case Nil
  then show ?case by (cases ys) auto
next
  case (Cons x xs)
  then show ?case by (cases ys) auto
qed

end
