(* ===== verification/Nova_Types.thy ===== *)
theory Nova_Types
  imports Nova_Prelude
begin

unbundle bit_operations_syntax

text \<open>
  The shared data model, \<^verbatim>\<open>crates/nova-common/src/types.rs\<close> and \<^verbatim>\<open>error.rs\<close>: identifiers,
  the enumerations and metadata structs every component stores or passes around, the
  privilege bit set with its operations, the session's security context and the
  identifier helpers. A Rust struct is a \<^theory_text>\<open>record\<close> with the struct's fields in order, each
  field carrying a short prefix of its struct (HOL field names are global); an enum is a
  \<^theory_text>\<open>datatype\<close> with the same variants in the same order.

  The lemmas show that the 64-bit privilege word implements a set of privileges, that the
  active roles of a session are its primary role and, when enabled, its secondary ones
  without repetition, and that row identifiers of change streams are unique.
\<close>

subsection \<open>Identifiers\<close>

type_synonym DatabaseId = u64
type_synonym SchemaId = u64
type_synonym TableId = u64
type_synonym FunctionId = u64
type_synonym MpId = u64
type_synonym TxnId = u64
type_synonym StreamId = u64
type_synonym UserId = u64
type_synonym RoleId = u64
type_synonym ColumnId = u32
type_synonym Timestamp = u64

definition ACCOUNT_OBJECT_ID :: u64 where "ACCOUNT_OBJECT_ID = 0"
definition ROOT_USER_ID :: UserId where "ROOT_USER_ID = 1"
definition ACCOUNTADMIN_ROLE_ID :: RoleId where "ACCOUNTADMIN_ROLE_ID = 1"
definition PUBLIC_ROLE_ID :: RoleId where "PUBLIC_ROLE_ID = 2"

lemmas id_consts = ACCOUNT_OBJECT_ID_def ROOT_USER_ID_def ACCOUNTADMIN_ROLE_ID_def
  PUBLIC_ROLE_ID_def

subsection \<open>Errors\<close>

text \<open>
  \<^verbatim>\<open>NovaError\<close>. The boxed sources of the wrapping variants are kept as the text they display;
  the \<^verbatim>\<open>bincode\<close> error inside \<open>MetadataSerialization\<close> is dropped.
\<close>

datatype NovaError =
    MpNotFound (mnf_table_id: TableId) (mnf_mp_id: MpId)
  | TableNotFound string
  | DatabaseNotFound string
  | SchemaNotFound string
  | TransactionConflict TxnId
  | TransactionAborted string
  | FdbError string
  | MetadataSerialization
  | ParquetError string
  | ArrowError string
  | ObjectStoreError string
  | SqlParseError string
  | SqlAnalysisError string
  | AuthFailed string
  | PermissionDenied string string
  | StreamNotFound string
  | StreamAlreadyExists string
  | StreamConcurrentConsume StreamId
  | StreamStale StreamId u64 u64
  | StreamPayloadMissing StreamId string
  | UnsupportedStreamSyntax string
  | AmbiguousRelationName string
  | Internal string

subsection \<open>Securable objects and privileges\<close>

datatype ObjectType =
    OT_Account | OT_Database | OT_Schema | OT_Table | OT_DynamicTable | OT_Stream
  | OT_Role | OT_User | OT_Function

fun object_type_name :: "ObjectType \<Rightarrow> string" where
  "object_type_name OT_Account = ''ACCOUNT''"
| "object_type_name OT_Database = ''DATABASE''"
| "object_type_name OT_Schema = ''SCHEMA''"
| "object_type_name OT_Table = ''TABLE''"
| "object_type_name OT_Function = ''FUNCTION''"
| "object_type_name OT_DynamicTable = ''DYNAMIC TABLE''"
| "object_type_name OT_Stream = ''STREAM''"
| "object_type_name OT_Role = ''ROLE''"
| "object_type_name OT_User = ''USER''"

record ObjectRef =
  obj_type :: ObjectType
  obj_id :: u64

definition object_ref :: "ObjectType \<Rightarrow> u64 \<Rightarrow> ObjectRef" where
  "object_ref t i = \<lparr>obj_type = t, obj_id = i\<rparr>"

datatype SecurityPrivilege =
    SP_Usage | SP_Select | SP_Insert | SP_Update | SP_Delete | SP_References | SP_Monitor
  | SP_Modify | SP_Operate | SP_CreateDatabase | SP_CreateSchema | SP_CreateTable
  | SP_CreateDynamicTable | SP_CreateStream | SP_CreateRole | SP_CreateUser
  | SP_ManageGrants | SP_Ownership | SP_CreateFunction

text \<open>The discriminant (\<open>self as u8\<close>) of a privilege: its position in the enum.\<close>

fun privilege_index :: "SecurityPrivilege \<Rightarrow> nat" where
  "privilege_index SP_Usage = 0"
| "privilege_index SP_Select = 1"
| "privilege_index SP_Insert = 2"
| "privilege_index SP_Update = 3"
| "privilege_index SP_Delete = 4"
| "privilege_index SP_References = 5"
| "privilege_index SP_Monitor = 6"
| "privilege_index SP_Modify = 7"
| "privilege_index SP_Operate = 8"
| "privilege_index SP_CreateDatabase = 9"
| "privilege_index SP_CreateSchema = 10"
| "privilege_index SP_CreateTable = 11"
| "privilege_index SP_CreateDynamicTable = 12"
| "privilege_index SP_CreateStream = 13"
| "privilege_index SP_CreateRole = 14"
| "privilege_index SP_CreateUser = 15"
| "privilege_index SP_ManageGrants = 16"
| "privilege_index SP_Ownership = 17"
| "privilege_index SP_CreateFunction = 18"

definition privilege_bit :: "SecurityPrivilege \<Rightarrow> u64" where
  "privilege_bit p = push_bit (privilege_index p) 1"

fun privilege_name :: "SecurityPrivilege \<Rightarrow> string" where
  "privilege_name SP_Usage = ''USAGE''"
| "privilege_name SP_Select = ''SELECT''"
| "privilege_name SP_Insert = ''INSERT''"
| "privilege_name SP_Update = ''UPDATE''"
| "privilege_name SP_Delete = ''DELETE''"
| "privilege_name SP_References = ''REFERENCES''"
| "privilege_name SP_Monitor = ''MONITOR''"
| "privilege_name SP_Modify = ''MODIFY''"
| "privilege_name SP_Operate = ''OPERATE''"
| "privilege_name SP_CreateDatabase = ''CREATE DATABASE''"
| "privilege_name SP_CreateSchema = ''CREATE SCHEMA''"
| "privilege_name SP_CreateTable = ''CREATE TABLE''"
| "privilege_name SP_CreateFunction = ''CREATE FUNCTION''"
| "privilege_name SP_CreateDynamicTable = ''CREATE DYNAMIC TABLE''"
| "privilege_name SP_CreateStream = ''CREATE STREAM''"
| "privilege_name SP_CreateRole = ''CREATE ROLE''"
| "privilege_name SP_CreateUser = ''CREATE USER''"
| "privilege_name SP_ManageGrants = ''MANAGE GRANTS''"
| "privilege_name SP_Ownership = ''OWNERSHIP''"

record PrivilegeSet =
  ps_bits :: u64

definition ps_empty :: PrivilegeSet where
  "ps_empty = \<lparr>ps_bits = 0\<rparr>"

definition from_privileges :: "SecurityPrivilege list \<Rightarrow> PrivilegeSet" where
  "from_privileges ps = \<lparr>ps_bits = foldl (\<lambda>acc p. acc OR privilege_bit p) 0 ps\<rparr>"

definition ps_contains :: "PrivilegeSet \<Rightarrow> SecurityPrivilege \<Rightarrow> bool" where
  "ps_contains s p = (ps_bits s AND privilege_bit p \<noteq> 0)"

definition ps_insert :: "SecurityPrivilege \<Rightarrow> PrivilegeSet \<Rightarrow> PrivilegeSet" where
  "ps_insert p s = s\<lparr>ps_bits := ps_bits s OR privilege_bit p\<rparr>"

definition ps_remove :: "SecurityPrivilege \<Rightarrow> PrivilegeSet \<Rightarrow> PrivilegeSet" where
  "ps_remove p s = s\<lparr>ps_bits := ps_bits s AND NOT (privilege_bit p)\<rparr>"

definition ps_is_empty :: "PrivilegeSet \<Rightarrow> bool" where
  "ps_is_empty s = (ps_bits s = 0)"

subsection \<open>Security metadata\<close>

record UserMeta =
  usr_id :: UserId
  usr_name :: string
  usr_password_hash :: string
  usr_mysql_native_hash :: "byte list"
  usr_default_role_id :: RoleId
  usr_disabled :: bool
  usr_created_at :: Timestamp
  usr_created_by_user_id :: UserId
  usr_created_by_role_id :: RoleId
  usr_comment :: "string option"

record RoleMeta =
  rol_id :: RoleId
  rol_name :: string
  rol_owner_role_id :: RoleId
  rol_system :: bool
  rol_created_at :: Timestamp
  rol_created_by_user_id :: UserId
  rol_comment :: "string option"

record RoleGrantMeta =
  rg_granted_by_role_id :: RoleId
  rg_created_at :: Timestamp

record ObjectOwnerMeta =
  own_object :: ObjectRef
  own_owner_role_id :: RoleId
  own_created_by_user_id :: UserId
  own_created_at :: Timestamp
  own_transferred_at :: "Timestamp option"

record GrantSetMeta =
  gr_role_id :: RoleId
  gr_object :: ObjectRef
  gr_privileges :: PrivilegeSet
  gr_grant_options :: PrivilegeSet
  gr_granted_by_role_id :: RoleId
  gr_updated_at :: Timestamp

record SecurityContext =
  sec_user_id :: UserId
  sec_username :: string
  sec_primary_role_id :: RoleId
  sec_secondary_role_ids :: "RoleId list"
  sec_secondary_all :: bool

definition security_context_root :: SecurityContext where
  "security_context_root =
     \<lparr>sec_user_id = ROOT_USER_ID, sec_username = ''root'',
      sec_primary_role_id = ACCOUNTADMIN_ROLE_ID, sec_secondary_role_ids = [],
      sec_secondary_all = True\<rparr>"

fun push_roles :: "RoleId list \<Rightarrow> RoleId list \<Rightarrow> RoleId list" where
  "push_roles roles [] = roles"
| "push_roles roles (r # rs) =
     (if r \<in> set roles then push_roles roles rs else push_roles (roles @ [r]) rs)"

definition active_role_ids :: "SecurityContext \<Rightarrow> RoleId list" where
  "active_role_ids sc =
     (if sec_secondary_all sc
      then push_roles [sec_primary_role_id sc] (sec_secondary_role_ids sc)
      else [sec_primary_role_id sc])"

definition normalize_ident :: "string \<Rightarrow> string" where
  "normalize_ident s =
     to_ascii_lowercase (trim_matches (CHR 0x22) (trim_matches (CHR ''`'') s))"

subsection \<open>Column types and micro-partition metadata\<close>

datatype Compression = Snappy | Zstd | Lz4

datatype NovaType =
    NT_Boolean | NT_Int8 | NT_Int16 | NT_Int32 | NT_Int64 | NT_Float32 | NT_Float64
  | NT_Decimal u8 "8 word" | NT_Utf8 | NT_Date32 | NT_Timestamp | NT_Binary
  | NT_List NovaType

record ColumnStats =
  cs_min_value :: "byte list option"
  cs_max_value :: "byte list option"
  cs_null_count :: u64
  cs_distinct_count :: u64
  cs_byte_size :: u64

record MicroPartitionMeta =
  mpm_id :: MpId
  mpm_table_id :: TableId
  mpm_partition_id :: "u64 option"
  mpm_version :: u64
  mpm_s3_path :: string
  mpm_s3_temp_path :: "string option"
  mpm_row_count :: u64
  mpm_byte_size :: u64
  mpm_compression :: Compression
  mpm_column_stats :: "ColumnId \<rightharpoonup> ColumnStats"
  mpm_commit_ts :: Timestamp
  mpm_txn_id :: TxnId
  mpm_supersedes :: "MpId option"
  mpm_superseded_by :: "MpId option"
  mpm_active :: bool

record DatabaseMeta =
  dbm_id :: DatabaseId
  dbm_name :: string
  dbm_created_at :: Timestamp
  dbm_owner :: UserId

record SchemaMeta =
  sch_id :: SchemaId
  sch_db_id :: DatabaseId
  sch_name :: string
  sch_created_at :: Timestamp

record ColumnDef =
  cd_id :: ColumnId
  cd_name :: string
  cd_data_type :: NovaType
  cd_nullable :: bool
  cd_default_value :: "string option"
  cd_comment :: "string option"

record TableMeta =
  tbl_id :: TableId
  tbl_db_id :: DatabaseId
  tbl_schema_id :: SchemaId
  tbl_name :: string
  tbl_columns :: "ColumnDef list"
  tbl_created_at :: Timestamp
  tbl_owner :: UserId
  tbl_comment :: "string option"
  tbl_version :: u64
  tbl_properties :: "string \<rightharpoonup> string"

subsection \<open>Functions\<close>

definition normalize_function_type :: "string \<Rightarrow> string" where
  "normalize_function_type t = to_ascii_uppercase (join_with '' '' (split_whitespace t))"

record FunctionSignature =
  sig_arg_types :: "string list"

definition function_signature_new :: "string list \<Rightarrow> FunctionSignature" where
  "function_signature_new ts = \<lparr>sig_arg_types = map normalize_function_type ts\<rparr>"

definition signature_key :: "FunctionSignature \<Rightarrow> string" where
  "signature_key sg = join_with '','' (sig_arg_types sg)"

record FunctionArg =
  fa_name :: string
  fa_data_type :: string
  fa_default_expr :: "string option"

definition normalized_type :: "FunctionArg \<Rightarrow> string" where
  "normalized_type a = normalize_function_type (fa_data_type a)"

datatype FunctionLanguage =
  FL_Sql | FL_Python | FL_JavaScript | FL_Wasm | FL_Remote | FL_Other string

definition function_language_from_name :: "string \<Rightarrow> FunctionLanguage" where
  "function_language_from_name n =
     (let u = to_ascii_uppercase (trim n) in
      if u = ''SQL'' then FL_Sql
      else if u = ''PYTHON'' then FL_Python
      else if u = ''JAVASCRIPT'' \<or> u = ''JS'' then FL_JavaScript
      else if u = ''WASM'' \<or> u = ''WEBASSEMBLY'' then FL_Wasm
      else if u = ''REMOTE'' then FL_Remote
      else FL_Other u)"

fun function_language_name :: "FunctionLanguage \<Rightarrow> string" where
  "function_language_name FL_Sql = ''SQL''"
| "function_language_name FL_Python = ''PYTHON''"
| "function_language_name FL_JavaScript = ''JAVASCRIPT''"
| "function_language_name FL_Wasm = ''WASM''"
| "function_language_name FL_Remote = ''REMOTE''"
| "function_language_name (FL_Other n) = n"

datatype FunctionBody =
    SqlExpression string
  | External (ext_handler: "string option") (ext_source: string) (ext_imports: "string list")

datatype FunctionVolatility = FV_Immutable | FV_Stable | FV_Volatile

datatype FunctionNullHandling = CalledOnNullInput | ReturnsNullOnNullInput | NH_Strict

record FunctionMeta =
  fn_id :: FunctionId
  fn_db_id :: DatabaseId
  fn_schema_id :: SchemaId
  fn_name :: string
  fn_signature :: FunctionSignature
  fn_args :: "FunctionArg list"
  fn_return_type :: string
  fn_language :: FunctionLanguage
  fn_body :: FunctionBody
  fn_volatility :: FunctionVolatility
  fn_null_handling :: FunctionNullHandling
  fn_created_at :: Timestamp
  fn_updated_at :: Timestamp
  fn_owner_role_id :: RoleId
  fn_comment :: "string option"
  fn_properties :: "string \<rightharpoonup> string"

subsection \<open>Transactions, streams, clones, dynamic tables\<close>

datatype TxnStatus = TxnActive | TxnCommitted | TxnAborted

record TransactionMeta =
  tm_id :: TxnId
  tm_status :: TxnStatus
  tm_snapshot_ts :: Timestamp
  tm_commit_ts :: "Timestamp option"
  tm_affected_tables :: "TableId list"

datatype StreamReadMode = ReadCommit | ReadPreview

record StreamMeta =
  str_stream_id :: StreamId
  str_db_id :: DatabaseId
  str_schema_id :: SchemaId
  str_source_table_id :: TableId
  str_name :: string
  str_created_at :: Timestamp
  str_updated_at :: Timestamp
  str_owner_role_id :: RoleId
  str_comment :: "string option"
  str_stale_after :: "Timestamp option"
  str_dropped :: bool

record StreamOffset =
  off_table_id :: TableId
  off_committed_sequence :: u64
  off_committed_ts :: Timestamp
  off_last_consumed_at :: "Timestamp option"
  off_last_consumed_txn_id :: "TxnId option"

record ChangeActionCounts =
  cac_inserts :: u64
  cac_deletes :: u64
  cac_update_pairs :: u64

record ChangePayloadRef =
  cpr_path :: string
  cpr_row_start :: u64
  cpr_row_count :: u64

record ChangeRecordMeta =
  cr_table_id :: TableId
  cr_sequence :: u64
  cr_txn_id :: TxnId
  cr_commit_ts :: Timestamp
  cr_payload :: ChangePayloadRef
  cr_action_counts :: ChangeActionCounts
  cr_min_row_id :: "string option"
  cr_max_row_id :: "string option"

datatype ChangeAction = CA_Insert | CA_Delete

fun change_action_name :: "ChangeAction \<Rightarrow> string" where
  "change_action_name CA_Insert = ''INSERT''"
| "change_action_name CA_Delete = ''DELETE''"

record CdcRowRef =
  cdc_action :: ChangeAction
  cdc_is_update :: bool
  cdc_row_id :: string
  cdc_sequence :: u64
  cdc_txn_id :: TxnId
  cdc_commit_ts :: Timestamp

definition stream_row_id :: "TableId \<Rightarrow> MpId \<Rightarrow> u64 \<Rightarrow> u64 \<Rightarrow> string" where
  "stream_row_id tid mid row_ordinal generation =
     show_u64 tid @ '':'' @ show_u64 mid @ '':'' @ show_u64 row_ordinal @ '':'' @
     show_u64 generation"

record CloneMeta =
  cl_clone_table_id :: TableId
  cl_source_table_id :: TableId
  cl_clone_ts :: Timestamp

datatype DtRefreshMode = DtFull | DtIncremental | DtAuto

fun dt_refresh_mode_name :: "DtRefreshMode \<Rightarrow> string" where
  "dt_refresh_mode_name DtFull = ''FULL''"
| "dt_refresh_mode_name DtIncremental = ''INCREMENTAL''"
| "dt_refresh_mode_name DtAuto = ''AUTO''"

datatype DtRefreshStatus = DtPending | DtRunning | DtSuccess | DtFailed string

fun dt_refresh_status_name :: "DtRefreshStatus \<Rightarrow> string" where
  "dt_refresh_status_name DtPending = ''pending''"
| "dt_refresh_status_name DtRunning = ''running''"
| "dt_refresh_status_name DtSuccess = ''success''"
| "dt_refresh_status_name (DtFailed e) = ''failed: '' @ e"

record DynamicTableMeta =
  dtm_id :: TableId
  dtm_db_id :: DatabaseId
  dtm_schema_id :: SchemaId
  dtm_name :: string
  dtm_query_definition :: string
  dtm_target_lag_seconds :: u64
  dtm_refresh_mode :: DtRefreshMode
  dtm_initialize_on_create :: bool
  dtm_output_table_id :: TableId
  dtm_last_refresh_ts :: "Timestamp option"
  dtm_refresh_status :: DtRefreshStatus
  dtm_comment :: "string option"
  dtm_created_at :: Timestamp
  dtm_scheduler_enabled :: bool

text \<open>
  \<^verbatim>\<open>generate_id\<close> adds the clock (nanoseconds, truncated to 64 bits) and eight random bytes
  with wrap-around; both are inputs of the model.
\<close>

definition generate_id :: "u64 \<Rightarrow> byte list \<Rightarrow> u64" where
  "generate_id nanos uuid_bytes = nanos + u64_from_le (take 8 uuid_bytes)"

subsection \<open>The privilege word is a set of privileges\<close>

lemma privilege_index_bound: "privilege_index p < 64"
  by (cases p) auto

lemma privilege_index_inj: "privilege_index p = privilege_index q \<longleftrightarrow> p = q"
  by (cases p; cases q) simp_all

lemma bit_privilege_bit: "bit (privilege_bit p) n \<longleftrightarrow> n = privilege_index p"
  using privilege_index_bound [of p]
  by (auto simp: privilege_bit_def bit_exp_iff)

lemma ps_contains_bit: "ps_contains s p \<longleftrightarrow> bit (ps_bits s) (privilege_index p)"
  by (simp add: ps_contains_def privilege_bit_def and_exp_eq_0_iff_not_bit)

text \<open>
  The interface of a set of flags: what membership says after an insertion and a removal.
\<close>

locale bitset_spec =
  fixes bs_empty :: 's
    and bs_insert :: "'a \<Rightarrow> 's \<Rightarrow> 's"
    and bs_remove :: "'a \<Rightarrow> 's \<Rightarrow> 's"
    and bs_member :: "'s \<Rightarrow> 'a \<Rightarrow> bool"
  assumes member_empty: "\<not> bs_member bs_empty x"
    and member_insert: "bs_member (bs_insert x s) y \<longleftrightarrow> y = x \<or> bs_member s y"
    and member_remove: "bs_member (bs_remove x s) y \<longleftrightarrow> y \<noteq> x \<and> bs_member s y"
begin

lemma member_foldl_insert:
  "bs_member (foldl (\<lambda>s x. bs_insert x s) s xs) y \<longleftrightarrow> y \<in> set xs \<or> bs_member s y"
  by (induction xs arbitrary: s) (auto simp: member_insert)

lemma member_foldl_remove:
  "bs_member (foldl (\<lambda>s x. bs_remove x s) s xs) y \<longleftrightarrow> y \<notin> set xs \<and> bs_member s y"
  by (induction xs arbitrary: s) (auto simp: member_remove)

end

text \<open>The 64-bit privilege word provides it.\<close>

interpretation ps: bitset_spec ps_empty ps_insert ps_remove ps_contains
proof unfold_locales
  show "\<not> ps_contains ps_empty x" for x
    by (simp add: ps_contains_def ps_empty_def)
  show "ps_contains (ps_insert x s) y \<longleftrightarrow> y = x \<or> ps_contains s y" for x s y
    by (auto simp: ps_contains_bit ps_insert_def bit_or_iff bit_privilege_bit
        privilege_index_inj)
  show "ps_contains (ps_remove x s) y \<longleftrightarrow> y \<noteq> x \<and> ps_contains s y" for x s y
    using privilege_index_bound [of y]
    by (auto simp: ps_contains_bit ps_remove_def bit_and_iff bit_not_iff bit_privilege_bit
        privilege_index_inj)
qed

lemma from_privileges_foldl: "from_privileges ps = foldl (\<lambda>s p. ps_insert p s) ps_empty ps"
proof -
  have "\<lparr>ps_bits = foldl (\<lambda>acc p. acc OR privilege_bit p) b ps\<rparr> =
      foldl (\<lambda>s p. ps_insert p s) \<lparr>ps_bits = b\<rparr> ps" for b
    by (induction ps arbitrary: b) (simp_all add: ps_insert_def)
  then show ?thesis by (simp add: from_privileges_def ps_empty_def)
qed

lemma from_privileges_set: "ps_contains (from_privileges ps) p \<longleftrightarrow> p \<in> set ps"
  by (simp add: from_privileges_foldl ps.member_foldl_insert ps.member_empty)

lemma set_push_roles [simp]: "set (push_roles roles rs) = set roles \<union> set rs"
  by (induction roles rs rule: push_roles.induct) auto

lemma distinct_push_roles: "distinct roles \<Longrightarrow> distinct (push_roles roles rs)"
  by (induction roles rs rule: push_roles.induct) auto

text \<open>
  The roles a session acts with are its primary role first, followed by its secondary
  roles when they are switched on, each role once.
\<close>

lemma active_role_ids_spec:
  "distinct (active_role_ids sc) \<and>
   set (active_role_ids sc) =
     insert (sec_primary_role_id sc)
       (if sec_secondary_all sc then set (sec_secondary_role_ids sc) else {}) \<and>
   hd (active_role_ids sc) = sec_primary_role_id sc"
proof -
  have "hd (push_roles (r # rs) qs) = r" for r rs qs
    by (induction "r # rs" qs arbitrary: rs rule: push_roles.induct) auto
  then show ?thesis by (simp add: active_role_ids_def distinct_push_roles)
qed

text \<open>
  C12. Every sequence of insertions and removals on a privilege word computes the set of
  privileges the same sequence computes on sets: after \<^verbatim>\<open>from_privileges\<close>, any number of
  \<^verbatim>\<open>insert\<close> calls and then any number of \<^verbatim>\<open>remove\<close> calls, \<^verbatim>\<open>contains\<close> answers exactly
  membership in the resulting set.
\<close>

theorem privilege_set_refines_set:
  "{p. ps_contains (foldl (\<lambda>s p. ps_remove p s)
        (foldl (\<lambda>s p. ps_insert p s) (from_privileges init) ins) rem) p}
     = (set init \<union> set ins) - set rem"
  by (auto simp: ps.member_foldl_insert ps.member_foldl_remove from_privileges_set)

subsection \<open>Row identifiers and names\<close>

text \<open>
  Row identifiers of a change stream are unique: two rows have the same identifier only
  if they agree on table, micro-partition, ordinal and generation.
\<close>

lemma stream_row_id_inj:
  "stream_row_id t m r g = stream_row_id t' m' r' g' \<longleftrightarrow>
     t = t' \<and> m = m' \<and> r = r' \<and> g = g'"
  by (simp add: stream_row_id_def split_at_first show_u64_no_colon show_u64_inj)

lemma function_language_roundtrip:
  "(\<forall>n. l \<noteq> FL_Other n) \<Longrightarrow> function_language_from_name (function_language_name l) = l"
  by (cases l; simp; code_simp)

subsection \<open>A concrete partition\<close>

definition sample_mp :: "MpId \<Rightarrow> Timestamp \<Rightarrow> MicroPartitionMeta" where
  "sample_mp m ts =
     \<lparr>mpm_id = m, mpm_table_id = 7, mpm_partition_id = None, mpm_version = 1, mpm_s3_path = ''p'',
      mpm_s3_temp_path = None, mpm_row_count = 10, mpm_byte_size = 100, mpm_compression = Zstd,
      mpm_column_stats = Map.empty, mpm_commit_ts = ts, mpm_txn_id = 1, mpm_supersedes = None,
      mpm_superseded_by = None, mpm_active = True\<rparr>"

end
