(* ===== verification/Fdb_Tuple.thy ===== *)
theory Fdb_Tuple
  imports Nova_Prelude
begin

text \<open>
  Keys of the metadata store (\<^verbatim>\<open>crates/nova-storage/src/metadata/fdb_store.rs\<close>, the key
  layout of its header comment and the tuples its methods pack).

  A key is a category tag followed by a tuple of strings and unsigned integers. The bytes
  come from the tuple layer of the FoundationDB binding, which is not part of this
  repository: it is the parameter \<open>pk\<close> of the scans, and the locale \<open>tuple_layer\<close> states the
  parts of its documented format the store relies on. The documented format itself,
  \<open>tuple_pack\<close>, satisfies the laws.

  The store scans a category by taking the packed prefix as the lower bound and the prefix
  with its last byte increased by one as the upper bound (\<^verbatim>\<open>category_range\<close>). The lemmas show
  that such a scan returns exactly the keys below the prefix when the last byte is not 255,
  and that the bounds are inverted when it is.
\<close>

subsection \<open>Keys\<close>

datatype category =
    C_db | C_schema | C_table | C_function | C_function_by_name | C_function_by_id | C_mp
  | C_table_mps | C_table_version | C_txn | C_stream | C_stream_by_name
  | C_streams_by_table | C_stream_offset | C_table_change_seq | C_table_change_next_seq
  | C_table_change_log | C_table_change_log_by_txn | C_clone | C_dynamic_table | C_next_id
  | C_user | C_user_by_name | C_user_role | C_role_user | C_role | C_role_by_name
  | C_role_child | C_role_parent | C_object_owner | C_grant | C_grant_by_object
  | C_security_epoch

fun category_name :: "category \<Rightarrow> string" where
  "category_name C_db = ''db''"
| "category_name C_schema = ''schema''"
| "category_name C_table = ''table''"
| "category_name C_function = ''function''"
| "category_name C_function_by_name = ''function_by_name''"
| "category_name C_function_by_id = ''function_by_id''"
| "category_name C_mp = ''mp''"
| "category_name C_table_mps = ''table_mps''"
| "category_name C_table_version = ''table_version''"
| "category_name C_txn = ''txn''"
| "category_name C_stream = ''stream''"
| "category_name C_stream_by_name = ''stream_by_name''"
| "category_name C_streams_by_table = ''streams_by_table''"
| "category_name C_stream_offset = ''stream_offset''"
| "category_name C_table_change_seq = ''table_change_seq''"
| "category_name C_table_change_next_seq = ''table_change_next_seq''"
| "category_name C_table_change_log = ''table_change_log''"
| "category_name C_table_change_log_by_txn = ''table_change_log_by_txn''"
| "category_name C_clone = ''clone''"
| "category_name C_dynamic_table = ''dynamic_table''"
| "category_name C_next_id = ''next_id''"
| "category_name C_user = ''user''"
| "category_name C_user_by_name = ''user_by_name''"
| "category_name C_user_role = ''user_role''"
| "category_name C_role_user = ''role_user''"
| "category_name C_role = ''role''"
| "category_name C_role_by_name = ''role_by_name''"
| "category_name C_role_child = ''role_child''"
| "category_name C_role_parent = ''role_parent''"
| "category_name C_object_owner = ''object_owner''"
| "category_name C_grant = ''grant''"
| "category_name C_grant_by_object = ''grant_by_object''"
| "category_name C_security_epoch = ''security_epoch''"

datatype telem = TStr string | TInt u64

type_synonym key = "category \<times> telem list"

abbreviation int_key :: "category \<Rightarrow> u64 list \<Rightarrow> key" where
  "int_key c ns \<equiv> (c, map TInt ns)"

definition all_categories :: "category list" where
  "all_categories =
     [C_db, C_schema, C_table, C_function, C_function_by_name, C_function_by_id, C_mp,
      C_table_mps, C_table_version, C_txn, C_stream, C_stream_by_name, C_streams_by_table,
      C_stream_offset, C_table_change_seq, C_table_change_next_seq, C_table_change_log,
      C_table_change_log_by_txn, C_clone, C_dynamic_table, C_next_id, C_user,
      C_user_by_name, C_user_role, C_role_user, C_role, C_role_by_name, C_role_child,
      C_role_parent, C_object_owner, C_grant, C_grant_by_object, C_security_epoch]"

lemma category_of_name:
  "find (\<lambda>d. category_name d = category_name c) all_categories = Some c"
  by (cases c) (simp_all add: all_categories_def)

lemma category_name_inj: "category_name c = category_name d \<longleftrightarrow> c = d"
  by (metis category_of_name option.inject)

lemma category_name_nul_free: "CHR 0x00 \<notin> set (category_name c)"
  by (cases c) simp_all

subsection \<open>Scan bounds\<close>

text \<open>The upper bound of \<^verbatim>\<open>category_range\<close>: \<open>last.wrapping_add(1)\<close> on the last byte.\<close>

definition incr_last :: "byte list \<Rightarrow> byte list" where
  "incr_last p = (if p = [] then [] else butlast p @ [last p + 1])"

text \<open>
  The upper bound of the role hierarchy scan in \<^verbatim>\<open>security_impl.rs\<close>: trailing 255 bytes are
  dropped before the last byte is increased.
\<close>

definition strip_ff :: "byte list \<Rightarrow> byte list" where
  "strip_ff p = rev (dropWhile (\<lambda>b. b = 255) (rev p))"

definition prefix_end :: "byte list \<Rightarrow> byte list" where
  "prefix_end p = incr_last (strip_ff p)"

lemma lex_prefix_le: "p \<le> p @ (w :: byte list)"
  by (induction p) auto

lemma unat_byte_Suc: "b \<noteq> 255 \<Longrightarrow> unat (b + 1 :: byte) = Suc (unat b)"
proof -
  assume "b \<noteq> 255"
  then have "unat b \<noteq> 255" by (simp add: word_unat_eq_iff)
  with unat_byte_bound [of b] have "unat b + 1 < 256" by linarith
  then show ?thesis using unat_add_lem [of b 1] by simp
qed

lemma byte_less_Suc: "b \<noteq> 255 \<Longrightarrow> c < (b + 1 :: byte) \<longleftrightarrow> c \<le> b"
proof -
  assume "b \<noteq> 255"
  then have "unat (b + 1) = Suc (unat b)" by (rule unat_byte_Suc)
  then show ?thesis by (simp only: word_less_nat_alt word_le_nat_alt less_Suc_eq_le)
qed

lemma lex_between_prefix:
  assumes "(b :: byte) \<noteq> 255"
  shows "p @ [b] \<le> w \<and> w < p @ [b + 1] \<longleftrightarrow> prefix (p @ [b]) w"
proof (induction p arbitrary: w)
  case Nil
  show ?case
  proof (cases w)
    case (Cons c cs)
    have "[b] \<le> c # cs \<longleftrightarrow> b \<le> c" by (simp only: Cons_le_Cons Nil_le_Cons simp_thms le_less [of b c])
    moreover have "c # cs < [b + 1] \<longleftrightarrow> c \<le> b"
      using byte_less_Suc [OF assms, of c] by (simp only: Cons_less_Cons not_less_Nil simp_thms)
    moreover have "prefix [b] (c # cs) \<longleftrightarrow> b = c" by simp
    ultimately show ?thesis unfolding Cons append_Nil by (metis order.antisym order.refl)
  qed simp
next
  case (Cons a p)
  show ?case
  proof (cases w)
    case (Cons c cs)
    show ?thesis
      unfolding Cons append_Cons Cons_le_Cons Cons_less_Cons Cons_prefix_Cons
      using Cons.IH [of cs] by (metis less_asym less_irrefl)
  qed simp
qed

lemma incr_last_snoc [simp]: "incr_last (p @ [b]) = p @ [b + 1]"
  by (simp add: incr_last_def)

lemma incr_last_range:
  assumes "p \<noteq> []" "last p \<noteq> 255"
  shows "p \<le> w \<and> w < incr_last p \<longleftrightarrow> prefix p w"
proof -
  obtain q b where p: "p = q @ [b]" using assms(1) by (cases p rule: rev_cases) auto
  with assms(2) have "b \<noteq> 255" by simp
  from lex_between_prefix [OF this, of q w] show ?thesis by (simp only: p incr_last_snoc)
qed

text \<open>With a last byte of 255 the bound wraps around and falls below the prefix itself.\<close>

lemma byte_255_wraps: "(255 :: byte) + 1 = 0"
  by (rule word_unat_eq_iff [THEN iffD2]) simp

lemma incr_last_inverted:
  assumes "p \<noteq> []" "last p = 255"
  shows "incr_last p < p"
proof -
  obtain q where p: "p = q @ [255]" using assms by (cases p rule: rev_cases) auto
  have "q @ [0 :: byte] < q @ [255]" by (induction q) auto
  then show ?thesis by (simp only: p incr_last_snoc byte_255_wraps)
qed

lemma strip_ff_simps [simp]:
  "strip_ff [] = []" "strip_ff (p @ [b]) = (if b = 255 then strip_ff p else p @ [b])"
  by (simp_all add: strip_ff_def)

lemma strip_ff_decomp: "\<exists>k. p = strip_ff p @ replicate k 255"
proof (induction p rule: rev_induct)
  case (snoc b p)
  show ?case
  proof (cases "b = 255")
    case True
    from snoc obtain k where "p = strip_ff p @ replicate k 255" ..
    then have "p @ [b] = strip_ff (p @ [b]) @ replicate (Suc k) 255"
      using True by (metis append_assoc replicate_append_same strip_ff_simps(2) replicate_Suc)
    then show ?thesis ..
  next
    case False
    then have "p @ [b] = strip_ff (p @ [b]) @ replicate 0 255" by simp
    then show ?thesis ..
  qed
qed simp

lemma strip_ff_last: "strip_ff p \<noteq> [] \<Longrightarrow> last (strip_ff p) \<noteq> 255"
  by (induction p rule: rev_induct) auto

lemma byte_255_le: "(255 :: byte) \<le> b \<longleftrightarrow> b = 255"
proof -
  have "unat (255 :: byte) \<le> unat b \<longleftrightarrow> unat b = unat (255 :: byte)"
    using unat_byte_bound [of b] by (simp only: unat_numeral) auto
  then show ?thesis by (simp only: word_le_nat_alt word_unat_eq_iff)
qed

lemma lex_ff_le: "replicate k (255 :: byte) \<le> r \<longleftrightarrow> prefix (replicate k 255) r"
proof (induction k arbitrary: r)
  case (Suc k)
  show ?case
  proof (cases r)
    case (Cons c cs)
    have "255 < c \<longleftrightarrow> False" using byte_255_le [of c] by (metis less_le)
    with Cons Suc show ?thesis by (simp only: replicate_Suc Cons_le_Cons Cons_prefix_Cons) blast
  qed simp
qed (simp only: replicate_0 Nil_le_Cons Nil_prefix)

lemma lex_append_le: "q @ (v :: byte list) \<le> q @ w \<longleftrightarrow> v \<le> w"
  by (induction q) auto

text \<open>The role hierarchy bound covers exactly the prefix whatever its last bytes are.\<close>

lemma prefix_end_range:
  assumes "strip_ff p \<noteq> []"
  shows "p \<le> w \<and> w < prefix_end p \<longleftrightarrow> prefix p w"
proof -
  let ?q = "strip_ff p"
  obtain k where p: "p = ?q @ replicate k 255" using strip_ff_decomp by blast
  have q_le: "?q \<le> w" if "p \<le> w"
    using that lex_prefix_le [of ?q "replicate k 255"] p by (metis order.trans)
  have in_q: "?q \<le> w \<and> w < prefix_end p \<longleftrightarrow> prefix ?q w"
    unfolding prefix_end_def by (rule incr_last_range [OF assms strip_ff_last [OF assms]])
  have "p \<le> ?q @ r \<longleftrightarrow> prefix p (?q @ r)" for r
    by (subst p, subst p) (simp only: lex_append_le lex_ff_le same_prefix_prefix)
  then have "prefix ?q w \<Longrightarrow> p \<le> w \<longleftrightarrow> prefix p w" by (auto simp: prefix_def)
  moreover have "prefix p w \<Longrightarrow> prefix ?q w" using p by (metis append_prefixD)
  ultimately show ?thesis using q_le in_q by blast
qed

subsection \<open>What the store relies on in the tuple layer\<close>

locale tuple_layer =
  fixes pk :: "key \<Rightarrow> byte list"
  assumes pk_nonempty: "pk k \<noteq> []"
    and pk_prefix: "prefix (pk (int_key c ns)) (pk (d, es)) \<longleftrightarrow> c = d \<and> prefix (map TInt ns) es"
    and pk_last_tag: "last (pk (c, [])) = 0"
    and pk_last_int: "last (pk (int_key c (ns @ [n]))) = (if n = 0 then 20 else ucast n)"
    and pk_between: "pk (int_key c (ns @ [a])) \<le> pk (d, es) \<and>
          pk (d, es) < pk (int_key c (ns @ [b])) \<longleftrightarrow>
        c = d \<and> (\<exists>n rest. es = map TInt ns @ TInt n # rest \<and> a \<le> n \<and> n < b)"
begin

text \<open>The scan bounds of a category, or of a category and leading identifiers.\<close>

lemma last_not_ff_tag: "last (pk (c, [])) \<noteq> 255"
  by (simp add: pk_last_tag)

lemma last_ff_iff: "last (pk (int_key c (ns @ [n]))) = 255 \<longleftrightarrow> (ucast n :: byte) = 255"
  using pk_last_int [of c ns n] by (cases "n = 0") auto

lemma scan_tag:
  "pk (c, []) \<le> pk (d, es) \<and> pk (d, es) < incr_last (pk (c, [])) \<longleftrightarrow> c = d"
  using incr_last_range [of "pk (c, [])" "pk (d, es)"] pk_nonempty last_not_ff_tag
    pk_prefix [of c "[]" d es] by simp

lemma scan_ints:
  assumes "(ucast n :: byte) \<noteq> 255"
  shows "pk (int_key c (ns @ [n])) \<le> pk (d, es) \<and>
      pk (d, es) < incr_last (pk (int_key c (ns @ [n]))) \<longleftrightarrow>
    c = d \<and> prefix (map TInt (ns @ [n])) es"
  using incr_last_range [of "pk (int_key c (ns @ [n]))" "pk (d, es)"] pk_nonempty assms
    last_ff_iff [of c ns n] pk_prefix [of c "ns @ [n]" d es] by blast

lemma scan_inverted:
  assumes "(ucast n :: byte) = 255"
  shows "incr_last (pk (int_key c (ns @ [n]))) < pk (int_key c (ns @ [n]))"
  using incr_last_inverted [of "pk (int_key c (ns @ [n]))"] pk_nonempty last_ff_iff assms by blast

end

subsection \<open>The documented format\<close>

text \<open>
  Strings are the code 2, the bytes with every zero byte followed by 255, and a zero byte.
  Unsigned integers are the code 20 plus the number of bytes of their shortest big-endian
  form, followed by that form; zero is the code 20 alone. A subspace prepends its raw
  prefix.
\<close>

definition be_bytes :: "nat \<Rightarrow> nat \<Rightarrow> byte list" where
  "be_bytes n v = rev (le_bytes n v)"

fun byte_len :: "nat \<Rightarrow> nat" where
  "byte_len n = (if n = 0 then 0 else Suc (byte_len (n div 256)))"

declare byte_len.simps [simp del]

definition enc_int :: "u64 \<Rightarrow> byte list" where
  "enc_int w = (let n = unat w; k = byte_len n in word_of_nat (20 + k) # be_bytes k n)"

definition enc_str :: "string \<Rightarrow> byte list" where
  "enc_str s = 2 # concat (map (\<lambda>c. if c = CHR 0x00 then [0, 255] else [of_char c]) s) @ [0]"

fun enc_elem :: "telem \<Rightarrow> byte list" where
  "enc_elem (TStr s) = enc_str s"
| "enc_elem (TInt n) = enc_int n"

definition enc_elems :: "telem list \<Rightarrow> byte list" where
  "enc_elems es = concat (map enc_elem es)"

definition tuple_pack :: "byte list \<Rightarrow> key \<Rightarrow> byte list" where
  "tuple_pack pre k = pre @ enc_str (category_name (fst k)) @ enc_elems (snd k)"

lemma enc_elems_simps [simp]:
  "enc_elems [] = []" "enc_elems (e # es) = enc_elem e @ enc_elems es"
  "enc_elems (es @ fs) = enc_elems es @ enc_elems fs"
  by (simp_all add: enc_elems_def)

lemma byte_len_bound: "n < 256 ^ byte_len n"
proof (induction n rule: byte_len.induct)
  case (1 n)
  show ?case
  proof (cases "n = 0")
    case False
    then have "n div 256 < 256 ^ byte_len (n div 256)" using 1 by simp
    then have "n < 256 * 256 ^ byte_len (n div 256)" by simp
    then show ?thesis using False by (simp add: byte_len.simps [of n])
  qed (simp add: byte_len.simps)
qed

lemma byte_len_le: "n < 256 ^ k \<Longrightarrow> byte_len n \<le> k"
proof (induction n arbitrary: k rule: byte_len.induct)
  case (1 n)
  show ?case
  proof (cases "n = 0")
    case False
    with 1(2) obtain j where k: "k = Suc j" by (cases k) auto
    with 1(2) have "n div 256 < 256 ^ j" by (simp add: less_mult_imp_div_less mult.commute)
    with 1(1) [OF False] k False show ?thesis by (simp add: byte_len.simps [of n])
  qed (simp add: byte_len.simps)
qed

lemma byte_len_mono: "m \<le> n \<Longrightarrow> byte_len m \<le> byte_len n"
  using byte_len_bound [of n] by (intro byte_len_le) simp

lemma byte_len_u64: "byte_len (unat (w :: u64)) \<le> 8"
  using unat_bounds(3) [of w] by (intro byte_len_le) simp

lemma byte_len_pos: "0 < n \<Longrightarrow> 0 < byte_len n"
  by (subst byte_len.simps) simp

lemma length_be_bytes [simp]: "length (be_bytes n v) = n"
  by (simp add: be_bytes_def)

lemma be_bytes_Suc: "be_bytes (Suc n) v = be_bytes n (v div 256) @ [word_of_nat (v mod 256)]"
  by (simp add: be_bytes_def)

lemma lex_append_same_length:
  "length xs = length ys \<Longrightarrow>
     (xs @ v < ys @ (w :: byte list)) \<longleftrightarrow> xs < ys \<or> xs = ys \<and> v < w"
proof (induction xs ys rule: list_induct2)
  case (Cons x xs y ys)
  then show ?case by (simp only: append_Cons Cons_less_Cons list.inject) blast
qed simp

lemma be_bytes_less:
  "m < 256 ^ k \<Longrightarrow> n < 256 ^ k \<Longrightarrow> m < n \<Longrightarrow> be_bytes k m < be_bytes k n"
proof (induction k arbitrary: m n)
  case (Suc k)
  have bounds: "m div 256 < 256 ^ k" "n div 256 < 256 ^ k"
    using Suc.prems by (simp_all add: less_mult_imp_div_less mult.commute)
  consider "m div 256 < n div 256" | "m div 256 = n div 256" "m mod 256 < n mod 256"
    using Suc.prems(3) div_le_mono [of m n 256] mod_div_mult_eq [of m 256] mod_div_mult_eq [of n 256]
    by (metis add_less_cancel_left le_neq_implies_less less_imp_le add.commute)
  then show ?case
  proof cases
    case 1
    with Suc.IH [OF bounds] show ?thesis
      by (simp only: be_bytes_Suc lex_append_same_length length_be_bytes simp_thms)
  next
    case 2
    then have "(word_of_nat (m mod 256) :: byte) < word_of_nat (n mod 256)"
      by (simp add: word_less_nat_alt unat_of_nat)
    with 2(1) show ?thesis
      by (simp only: be_bytes_Suc lex_append_same_length length_be_bytes Cons_less_Cons) simp
  qed
qed simp

lemma enc_int_nonempty: "enc_int w \<noteq> []"
  by (simp add: enc_int_def Let_def)

lemma enc_code_less: "i < j \<Longrightarrow> j \<le> 8 \<Longrightarrow> (word_of_nat (20 + i) :: byte) < word_of_nat (20 + j)"
  by (simp only: word_less_nat_alt unat_of_nat) simp

text \<open>Encoded integers compare as the integers do, whatever follows them.\<close>

lemma enc_int_less:
  assumes "m < n"
  shows "enc_int m @ v < enc_int n @ w"
proof -
  let ?m = "unat m" and ?n = "unat n"
  have mn: "?m < ?n" using assms by (simp only: word_less_nat_alt)
  consider "byte_len ?m < byte_len ?n" | "byte_len ?m = byte_len ?n"
    using byte_len_mono [of ?m ?n] mn by linarith
  then show ?thesis
  proof cases
    case 1
    from enc_code_less [OF 1 byte_len_u64] show ?thesis
      by (simp only: enc_int_def Let_def append_Cons Cons_less_Cons) simp
  next
    case 2
    have "be_bytes (byte_len ?n) ?m < be_bytes (byte_len ?n) ?n"
      using byte_len_bound [of ?m] byte_len_bound [of ?n] 2 mn by (simp add: be_bytes_less)
    then show ?thesis
      by (simp only: enc_int_def Let_def append_Cons Cons_less_Cons 2
          lex_append_same_length length_be_bytes) simp
  qed
qed

lemma enc_int_prefix: "prefix (enc_int m @ v) (enc_int n @ w) \<longleftrightarrow> m = n \<and> prefix v w"
proof
  assume p: "prefix (enc_int m @ v) (enc_int n @ w)"
  then obtain z where z: "enc_int n @ w = (enc_int m @ v) @ z" by (auto simp: prefix_def)
  have "\<not> m < n" using enc_int_less [of m n "v @ z" w] z by (metis append_assoc less_irrefl)
  moreover have "\<not> n < m" using enc_int_less [of n m w "v @ z"] z by (metis append_assoc less_irrefl)
  ultimately have "m = n" by simp
  with p show "m = n \<and> prefix v w" by simp
qed simp

lemma enc_str_nul_free:
  "CHR 0x00 \<notin> set s \<Longrightarrow> enc_str s = 2 # map of_char s @ [0]"
  by (induction s) (auto simp: enc_str_def)

lemma enc_str_prefix:
  assumes "CHR 0x00 \<notin> set s" "CHR 0x00 \<notin> set t"
  shows "prefix (enc_str s @ v) (enc_str t @ w) \<longleftrightarrow> s = t \<and> prefix v w"
proof -
  have "prefix (map of_char s @ (0 :: byte) # v) (map of_char t @ 0 # w) \<longleftrightarrow> s = t \<and> prefix v w"
    using assms
  proof (induction s arbitrary: t)
    case Nil
    then show ?case by (cases t) (auto simp: of_char_eq_0 eq_commute [of 0])
  next
    case (Cons x s)
    then show ?case by (cases t) (auto simp: of_char_eq_0)
  qed
  then show ?thesis by (simp add: enc_str_nul_free assms)
qed

lemma enc_code_str: "(2 :: byte) < word_of_nat (20 + byte_len (unat (n :: u64)))"
  using byte_len_u64 [of n] by (simp only: word_less_nat_alt unat_of_nat) simp

lemma enc_int_not_prefix_str: "\<not> prefix (enc_int n @ v) (enc_str s @ w)"
  unfolding enc_int_def enc_str_def Let_def append_Cons Cons_prefix_Cons
  using enc_code_str [of n] by (metis less_irrefl)

lemma enc_str_less_int: "enc_str s @ w < enc_int n @ v"
  using enc_code_str [of n]
  by (simp only: enc_int_def enc_str_def Let_def append_Cons Cons_less_Cons simp_thms)

lemma enc_elems_prefix:
  "prefix (enc_elems (map TInt ns)) (enc_elems es) \<longleftrightarrow> prefix (map TInt ns) es"
proof (induction ns arbitrary: es)
  case (Cons n ns)
  show ?case
  proof (cases es)
    case Nil
    then show ?thesis by (simp add: enc_int_nonempty)
  next
    case (Cons e es')
    with Cons.IH [of es'] show ?thesis
      by (cases e) (simp_all add: enc_int_prefix enc_int_not_prefix_str)
  qed
qed simp

lemma tuple_pack_prefix:
  "prefix (tuple_pack pre (int_key c ns)) (tuple_pack pre (d, es)) \<longleftrightarrow>
     c = d \<and> prefix (map TInt ns) es"
  by (simp add: tuple_pack_def enc_str_prefix category_name_nul_free category_name_inj
      enc_elems_prefix)

lemma last_enc_int: "last (enc_int n) = (if n = 0 then 20 else ucast n)"
proof (cases "n = 0")
  case True
  then show ?thesis by (simp add: enc_int_def byte_len.simps be_bytes_def)
next
  case False
  then have "0 < unat n" by (simp add: unat_gt_0)
  then obtain k where k: "byte_len (unat n) = Suc k" using byte_len_pos gr0_implies_Suc by blast
  have "(word_of_nat (unat n mod 256) :: byte) = ucast n"
    by (simp add: word_unat_eq_iff unat_of_nat unsigned_ucast_eq unsigned_take_bit_eq
        take_bit_eq_mod)
  with False k show ?thesis by (simp add: enc_int_def Let_def be_bytes_Suc)
qed

lemma lex_between_common:
  "p @ u \<le> w \<Longrightarrow> w < p @ v \<Longrightarrow> prefix p (w :: byte list)"
proof (induction p arbitrary: w)
  case (Cons x p)
  then obtain y w' where w: "w = y # w'" by (cases w) auto
  have "x = y \<and> p @ u \<le> w' \<and> w' < p @ v"
    using Cons.prems unfolding w append_Cons Cons_le_Cons Cons_less_Cons
    by (metis less_asym less_irrefl)
  with Cons.IH [of w'] w show ?case by simp
qed simp

lemma lex_append_less: "q @ (v :: byte list) < q @ w \<longleftrightarrow> v < w"
  using lex_append_same_length [of q q v w] by simp

lemma enc_int_le_iff: "enc_int a \<le> enc_int n @ r \<longleftrightarrow> a \<le> n"
proof -
  have "a \<le> n" if "enc_int a \<le> enc_int n @ r"
    using that enc_int_less [of n a r "[]"] by (metis append_Nil2 linorder_not_less)
  moreover have "enc_int a \<le> enc_int n @ r" if "a \<le> n"
  proof (cases "a = n")
    case False
    then have "enc_int a @ [] < enc_int n @ r" using that by (intro enc_int_less) simp
    then show ?thesis by simp
  qed (simp only: lex_prefix_le)
  ultimately show ?thesis by blast
qed

lemma enc_int_less_iff: "enc_int n @ r < enc_int b \<longleftrightarrow> n < b"
  using enc_int_le_iff [of b n r] by (metis linorder_not_less)

lemma enc_elems_between:
  "enc_int a \<le> enc_elems es \<and> enc_elems es < enc_int b \<longleftrightarrow>
     (\<exists>n rest. es = TInt n # rest \<and> a \<le> n \<and> n < b)"
proof (cases es)
  case Nil
  then show ?thesis by (simp add: enc_int_nonempty)
next
  case (Cons e rest)
  show ?thesis
  proof (cases e)
    case (TStr s)
    have "\<not> enc_int a \<le> enc_str s @ enc_elems rest"
      using enc_str_less_int [of s "enc_elems rest" a "[]"] by simp
    with Cons TStr show ?thesis by simp
  next
    case (TInt n)
    with Cons show ?thesis by (simp add: enc_int_le_iff enc_int_less_iff)
  qed
qed

lemma tuple_pack_append:
  "tuple_pack pre (c, es @ fs) = tuple_pack pre (c, es) @ enc_elems fs"
  by (simp add: tuple_pack_def)

lemma tuple_pack_between:
  "tuple_pack pre (int_key c (ns @ [a])) \<le> tuple_pack pre (d, es) \<and>
     tuple_pack pre (d, es) < tuple_pack pre (int_key c (ns @ [b])) \<longleftrightarrow>
   c = d \<and> (\<exists>n rest. es = map TInt ns @ TInt n # rest \<and> a \<le> n \<and> n < b)"
  (is "?L \<longleftrightarrow> ?R")
proof -
  let ?p = "tuple_pack pre (int_key c ns)"
  have bounds: "tuple_pack pre (int_key c (ns @ [x])) = ?p @ enc_int x" for x
    by (simp add: tuple_pack_append)
  have iff: "?L \<longleftrightarrow> (\<exists>n rest. fs = TInt n # rest \<and> a \<le> n \<and> n < b)"
    if "d = c" "es = map TInt ns @ fs" for fs
    by (simp only: that bounds tuple_pack_append lex_append_le lex_append_less enc_elems_between)
  show ?thesis
  proof
    assume l: ?L
    then have "prefix ?p (tuple_pack pre (d, es))"
      unfolding bounds by (blast intro: lex_between_common)
    then obtain fs where fs: "d = c" "es = map TInt ns @ fs"
      unfolding tuple_pack_prefix by (auto simp: prefix_def)
    with iff [OF fs] l show ?R by simp
  next
    assume ?R
    then obtain n rest where "d = c" "es = map TInt ns @ TInt n # rest" "a \<le> n" "n < b" by blast
    then show ?L using iff [of "TInt n # rest"] by blast
  qed
qed

interpretation tp: tuple_layer "tuple_pack pre"
proof
  show "tuple_pack pre k \<noteq> []" for k by (simp add: tuple_pack_def enc_str_def)
  show "last (tuple_pack pre (c, [])) = 0" for c by (simp add: tuple_pack_def enc_str_def)
  show "last (tuple_pack pre (int_key c (ns @ [n]))) = (if n = 0 then 20 else ucast n)" for c ns n
    using last_enc_int [of n] by (simp add: tuple_pack_append enc_int_nonempty)
qed (rule tuple_pack_prefix tuple_pack_between)+
end
