(* ===== verification/Fdb_Kv.thy ===== *)
theory Fdb_Kv
  imports Nova_Types Fdb_Tuple
begin

text \<open>
  The key-value layer of the metadata store: the helpers of \<^verbatim>\<open>FdbMetadataStore\<close>
  (\<^verbatim>\<open>crates/nova-storage/src/metadata/fdb_store.rs\<close>, lines 144 to 383) that every metadata
  operation is written with.

  The database is a finite association of keys with values. A value is the structure the
  code serialises under the key (a variant of \<open>value\<close>), or raw bytes where the code stores
  them itself (counters and identifiers, eight bytes big-endian, and the empty markers of
  the index entries). Reading a record of another type than the one asked for is the
  deserialisation error.

  \<^verbatim>\<open>db.run\<close> runs its closure as one transaction: on \<open>Err\<close> the database keeps its state, on
  \<open>Ok\<close> all writes appear together. A metadata method is an \<open>op\<close>, a function from the
  database to a result and the new database; methods made of several transactions are
  composed with \<open>op_bind\<close>, in the order of the code.

  What the FoundationDB client does beyond that is a parameter, the record \<open>fdb\<close>: the packed
  bytes of a key, how many pairs one \<open>get_range\<close> call returns of a range, what it reports for
  a range whose end lies before its start, and the text of its errors.
\<close>

subsection \<open>Database contents\<close>

datatype "value" =
    VDatabase DatabaseMeta | VSchema SchemaMeta | VTable TableMeta | VFunction FunctionMeta
  | VFunctionRef "DatabaseId \<times> SchemaId \<times> FunctionId" | VMp MicroPartitionMeta
  | VTxn TransactionMeta | VStream StreamMeta | VOffset StreamOffset
  | VChange ChangeRecordMeta | VClone CloneMeta | VDynamicTable DynamicTableMeta
  | VUser UserMeta | VRole RoleMeta | VRoleGrant RoleGrantMeta | VOwner ObjectOwnerMeta
  | VGrant GrantSetMeta | VBytes "byte list"

type_synonym store = "(key, value) alist"

abbreviation db_get :: "store \<Rightarrow> key \<Rightarrow> value option" where
  "db_get \<equiv> DAList.lookup"

abbreviation db_set :: "key \<Rightarrow> value \<Rightarrow> store \<Rightarrow> store" where
  "db_set \<equiv> DAList.update"

abbreviation db_clear :: "key \<Rightarrow> store \<Rightarrow> store" where
  "db_clear \<equiv> DAList.delete"

abbreviation db_size :: "store \<Rightarrow> nat" where
  "db_size s \<equiv> length (DAList.impl_of s)"

lemma db_get_set [simp]: "db_get (db_set k v s) k' = (if k' = k then Some v else db_get s k')"
  by simp

lemma db_get_clear [simp]: "db_get (db_clear k s) k' = (if k' = k then None else db_get s k')"
  by (simp add: lookup_delete)

lemma db_get_empty [simp]: "db_get DAList.empty k = None"
  by (simp add: lookup_empty)

lemma db_size_set: "db_get s k \<noteq> None \<Longrightarrow> db_size (db_set k v s) = db_size s"
proof -
  have "k \<in> fst ` set al \<Longrightarrow> length (AList.update k v al) = length al" for al :: "(key \<times> value) list"
    by (induction al) auto
  moreover assume "db_get s k \<noteq> None"
  then have "k \<in> fst ` set (DAList.impl_of s)"
    by (simp add: DAList.lookup.rep_eq map_of_eq_None_iff)
  ultimately show ?thesis by (simp add: DAList.update.rep_eq)
qed

lemma db_size_set_le: "db_size (db_set k v s) \<le> Suc (db_size s)"
proof -
  have "length (AList.update k v al) \<le> Suc (length al)" for al :: "(key \<times> value) list"
    by (induction al) auto
  then show ?thesis by (simp add: DAList.update.rep_eq)
qed

datatype FdbBindingError = CustomError string | CustomBincode | NativeError string

record fdb =
  fdb_pack :: "key \<Rightarrow> byte list"
  fdb_batch :: "(key \<times> value) list \<Rightarrow> (key \<times> value) list"
  fdb_inverted :: "string option"
  fdb_show :: "FdbBindingError \<Rightarrow> string"
  fdb_unpack_error :: "key \<Rightarrow> string"

subsection \<open>Operations\<close>

type_synonym 'a op = "store \<Rightarrow> (NovaError, 'a) result \<times> store"
type_synonym 'a query = "store \<Rightarrow> (NovaError, 'a) result"
type_synonym 'a trx = "store \<Rightarrow> (FdbBindingError, 'a \<times> store) result"

definition op_ret :: "'a \<Rightarrow> 'a op" where
  "op_ret x s = (Ok x, s)"

definition op_fail :: "NovaError \<Rightarrow> 'a op" where
  "op_fail e s = (Err e, s)"

definition op_query :: "'a query \<Rightarrow> 'a op" where
  "op_query q s = (q s, s)"

definition op_bind :: "'a op \<Rightarrow> ('a \<Rightarrow> 'b op) \<Rightarrow> 'b op" where
  "op_bind m f s = (case m s of (r, s') \<Rightarrow> (case r of Inl e \<Rightarrow> (Err e, s') | Inr a \<Rightarrow> f a s'))"

fun op_for :: "('a \<Rightarrow> unit op) \<Rightarrow> 'a list \<Rightarrow> unit op" where
  "op_for f [] = op_ret ()"
| "op_for f (x # xs) = op_bind (f x) (\<lambda>_. op_for f xs)"

definition db_run :: "(FdbBindingError \<Rightarrow> NovaError) \<Rightarrow> 'a trx \<Rightarrow> 'a op" where
  "db_run h t s = (case t s of Inl e \<Rightarrow> (Err (h e), s) | Inr (a, s') \<Rightarrow> (Ok a, s'))"

definition internal_err :: "fdb \<Rightarrow> string \<Rightarrow> FdbBindingError \<Rightarrow> NovaError" where
  "internal_err fx msg e = Internal (msg @ fdb_show fx e)"

lemma op_run_simps [simp, op_simps]:
  "op_ret x s = (Ok x, s)" "op_fail e s = (Err e, s)" "op_query q s = (q s, s)"
  by (simp_all add: op_ret_def op_fail_def op_query_def)

lemma op_bind_simps [op_simps]:
  "m s = (Err e, s') \<Longrightarrow> op_bind m f s = (Err e, s')"
  "m s = (Ok a, s') \<Longrightarrow> op_bind m f s = f a s'"
  by (simp_all add: op_bind_def)

lemma op_bind_Ok_iff:
  "op_bind m f s = (Ok b, s'') \<longleftrightarrow> (\<exists>a s'. m s = (Ok a, s') \<and> f a s' = (Ok b, s''))"
  by (auto simp: op_bind_def split: prod.splits sum.splits)

text \<open>An assertion that every run of an operation keeps.\<close>

definition keeps :: "(store \<Rightarrow> bool) \<Rightarrow> 'a op \<Rightarrow> bool" where
  "keeps P m = (\<forall>s. P s \<longrightarrow> P (snd (m s)))"

lemma keepsI: "(\<And>s. P s \<Longrightarrow> P (snd (m s))) \<Longrightarrow> keeps P m"
  by (simp add: keeps_def)

lemma keepsD: "keeps P m \<Longrightarrow> P s \<Longrightarrow> P (snd (m s))"
  by (simp add: keeps_def)

lemma keeps_bind: "keeps P m \<Longrightarrow> (\<And>a. keeps P (f a)) \<Longrightarrow> keeps P (op_bind m f)"
  by (fastforce simp: keeps_def op_bind_def split: prod.splits sum.splits)

lemma keeps_basic [intro, simp]: "keeps P (op_ret x)" "keeps P (op_fail e)" "keeps P (op_query q)"
  by (simp_all add: keeps_def)

lemma keeps_for: "(\<And>x. x \<in> set xs \<Longrightarrow> keeps P (f x)) \<Longrightarrow> keeps P (op_for f xs)"
  by (induction xs) (auto intro: keeps_bind)

lemma keeps_run:
  "(\<And>s a s'. P s \<Longrightarrow> t s = Ok (a, s') \<Longrightarrow> P s') \<Longrightarrow> keeps P (db_run h t)"
  by (force simp: keeps_def db_run_def split: sum.splits)

subsection \<open>Stored integers\<close>

text \<open>
  \<open>read_u64\<close> insists on eight bytes; the other readers take anything else as eight zero
  bytes. A value that is not raw bytes cannot stand under a counter key.
\<close>

definition u64_bytes :: "u64 \<Rightarrow> value" where
  "u64_bytes n = VBytes (u64_to_be n)"

fun value_u64 :: "value \<Rightarrow> u64 option" where
  "value_u64 (VBytes bs) = (if length bs = 8 then Some (u64_from_be bs) else None)"
| "value_u64 _ = None"

definition read_u64 :: "value \<Rightarrow> (NovaError, u64) result" where
  "read_u64 v = ok_or (Internal ''invalid u64 metadata value'') (value_u64 v)"

definition lenient_u64 :: "value \<Rightarrow> u64" where
  "lenient_u64 v = (case value_u64 v of Some n \<Rightarrow> n | None \<Rightarrow> 0)"

definition counter :: "key \<Rightarrow> store \<Rightarrow> u64" where
  "counter k s = (case db_get s k of Some v \<Rightarrow> lenient_u64 v | None \<Rightarrow> 0)"

lemma stored_u64 [simp]:
  "value_u64 (u64_bytes n) = Some n" "read_u64 (u64_bytes n) = Ok n" "lenient_u64 (u64_bytes n) = n"
  by (simp_all add: u64_bytes_def read_u64_def lenient_u64_def)

lemma counter_set: "counter k (db_set k' v s) = (if k = k' then lenient_u64 v else counter k s)"
  by (simp add: counter_def)

lemma counter_clear: "counter k (db_clear k' s) = (if k = k' then 0 else counter k s)"
  by (simp add: counter_def lookup_delete)

subsection \<open>Single keys\<close>

definition deserialize :: "(value \<Rightarrow> 'a option) \<Rightarrow> value \<Rightarrow> (NovaError, 'a) result" where
  "deserialize p v = ok_or MetadataSerialization (p v)"

definition deserialize_trx :: "(value \<Rightarrow> 'a option) \<Rightarrow> value \<Rightarrow> (FdbBindingError, 'a) result" where
  "deserialize_trx p v = ok_or CustomBincode (p v)"

definition fdb_get :: "key \<Rightarrow> value option query" where
  "fdb_get k s = Ok (db_get s k)"

definition fdb_set :: "key \<Rightarrow> value \<Rightarrow> unit op" where
  "fdb_set k v s = (Ok (), db_set k v s)"

definition fdb_clear :: "key \<Rightarrow> unit op" where
  "fdb_clear k s = (Ok (), db_clear k s)"

text \<open>The pattern of the getters: read a key and decode the record, when there is one.\<close>

definition get_record :: "(value \<Rightarrow> 'a option) \<Rightarrow> key \<Rightarrow> 'a option query" where
  "get_record p k s =
     (case db_get s k of
        None \<Rightarrow> Ok None
      | Some v \<Rightarrow> and_then (deserialize p v) (\<lambda>d. Ok (Some d)))"

lemma single_key_simps [simp, op_simps]:
  "fdb_get k s = Ok (db_get s k)"
  "fdb_set k v s = (Ok (), db_set k v s)"
  "fdb_clear k s = (Ok (), db_clear k s)"
  by (simp_all add: fdb_get_def fdb_set_def fdb_clear_def)

lemma get_record_simps [op_simps]:
  "db_get s k = None \<Longrightarrow> get_record p k s = Ok None"
  "db_get s k = Some v \<Longrightarrow> p v = Some d \<Longrightarrow> get_record p k s = Ok (Some d)"
  "db_get s k = Some v \<Longrightarrow> p v = None \<Longrightarrow> get_record p k s = Err MetadataSerialization"
  by (simp_all add: get_record_def deserialize_def)

lemma get_record_Some_iff:
  "get_record p k s = Ok (Some d) \<longleftrightarrow> (\<exists>v. db_get s k = Some v \<and> p v = Some d)"
  by (auto simp: get_record_def deserialize_def ok_or_def split: option.splits)

lemma get_record_None_iff: "get_record p k s = Ok None \<longleftrightarrow> db_get s k = None"
  by (auto simp: get_record_def deserialize_def ok_or_def split: option.splits)

subsection \<open>Range reads\<close>

definition in_range :: "fdb \<Rightarrow> byte list \<Rightarrow> byte list \<Rightarrow> key \<Rightarrow> bool" where
  "in_range fx lo hi k = (lo \<le> fdb_pack fx k \<and> fdb_pack fx k < hi)"

definition trx_get_range ::
  "fdb \<Rightarrow> byte list \<Rightarrow> byte list \<Rightarrow> store \<Rightarrow> (FdbBindingError, (key \<times> value) list) result" where
  "trx_get_range fx lo hi s =
     (if hi < lo then (case fdb_inverted fx of None \<Rightarrow> Ok [] | Some e \<Rightarrow> Err (NativeError e))
      else Ok (fdb_batch fx (sort_key (\<lambda>kv. fdb_pack fx (fst kv))
             (filter (\<lambda>kv. in_range fx lo hi (fst kv)) (DAList.impl_of s)))))"

definition trx_clear_range :: "fdb \<Rightarrow> byte list \<Rightarrow> byte list \<Rightarrow> unit trx" where
  "trx_clear_range fx lo hi s =
     (if hi < lo then (case fdb_inverted fx of None \<Rightarrow> Ok ((), s) | Some e \<Rightarrow> Err (NativeError e))
      else Ok ((), fold db_clear (filter (in_range fx lo hi) (map fst (DAList.impl_of s))) s))"

definition category_range :: "fdb \<Rightarrow> key \<Rightarrow> byte list \<times> byte list" where
  "category_range fx t = (fdb_pack fx t, incr_last (fdb_pack fx t))"

definition fdb_get_range :: "fdb \<Rightarrow> byte list \<times> byte list \<Rightarrow> (key \<times> value) list query" where
  "fdb_get_range fx r s =
     map_err (internal_err fx ''FDB get_range failed: '') (trx_get_range fx (fst r) (snd r) s)"

text \<open>
  Unpacking a key into a category and \<open>n\<close> integers (\<open>subspace.unpack\<close> at a tuple type).
\<close>

fun int_elems :: "telem list \<Rightarrow> u64 list option" where
  "int_elems [] = Some []"
| "int_elems (TInt n # es) = map_option ((#) n) (int_elems es)"
| "int_elems (TStr _ # es) = None"

definition subspace_unpack :: "fdb \<Rightarrow> nat \<Rightarrow> key \<Rightarrow> (string, u64 list) result" where
  "subspace_unpack fx n k =
     (case int_elems (snd k) of
        Some ns \<Rightarrow> if length ns = n then Ok ns else Err (fdb_unpack_error fx k)
      | None \<Rightarrow> Err (fdb_unpack_error fx k))"

definition unpack_ids :: "fdb \<Rightarrow> nat \<Rightarrow> key \<Rightarrow> (NovaError, u64 list) result" where
  "unpack_ids fx n k =
     map_err (\<lambda>e. Internal (''FDB tuple unpack failed: '' @ e)) (subspace_unpack fx n k)"

lemma int_elems_ints [simp]: "int_elems (map TInt ns) = Some ns"
  by (induction ns) simp_all

lemma unpack_int_key [simp]:
  "length ns = n \<Longrightarrow> subspace_unpack fx n (int_key c ns) = Ok ns"
  "length ns = n \<Longrightarrow> unpack_ids fx n (int_key c ns) = Ok ns"
  by (simp_all add: subspace_unpack_def unpack_ids_def)

subsection \<open>Write batches\<close>

definition apply_sets :: "(key \<times> value) list \<Rightarrow> store \<Rightarrow> store" where
  "apply_sets sets s = fold (\<lambda>(k, v). db_set k v) sets s"

definition apply_clears :: "key list \<Rightarrow> store \<Rightarrow> store" where
  "apply_clears ks s = fold db_clear ks s"

definition epoch_key :: key where
  "epoch_key = (C_security_epoch, [])"

definition next_id_key :: "string \<Rightarrow> key" where
  "next_id_key name = (C_next_id, [TStr name])"

definition write_batch_trx :: "(key \<times> value) list \<Rightarrow> key list \<Rightarrow> bool \<Rightarrow> u64 trx" where
  "write_batch_trx sets clears bump_epoch s =
     (let s1 = apply_clears clears (apply_sets sets s) in
      if \<not> bump_epoch then Ok (0, s1)
      else (let next = counter epoch_key s1 + 1 in
            Ok (next, db_set epoch_key (u64_bytes next) s1)))"

definition fdb_write_batch ::
  "fdb \<Rightarrow> (key \<times> value) list \<Rightarrow> key list \<Rightarrow> bool \<Rightarrow> u64 op" where
  "fdb_write_batch fx sets clears bump_epoch =
     db_run (internal_err fx ''FDB write batch failed: '') (write_batch_trx sets clears bump_epoch)"

definition precondition_failed :: FdbBindingError where
  "precondition_failed = CustomError ''FDB checked write precondition failed''"

definition checked_write_msg :: string where
  "checked_write_msg = ''FDB checked write batch failed: ''"

definition fdb_checked_write_batch ::
  "fdb \<Rightarrow> key list \<Rightarrow> (key \<times> value) list \<Rightarrow> key list \<Rightarrow> bool \<Rightarrow> u64 op" where
  "fdb_checked_write_batch fx must_not_exist sets clears bump_epoch =
     db_run (internal_err fx checked_write_msg)
       (\<lambda>s. if list_ex (\<lambda>k. db_get s k \<noteq> None) must_not_exist then Err precondition_failed
            else write_batch_trx sets clears bump_epoch s)"

definition fdb_atomic_inc :: "key \<Rightarrow> u64 op" where
  "fdb_atomic_inc k s =
     (let new_val = counter k s + 1 in (Ok new_val, db_set k (u64_bytes new_val) s))"

lemma apply_sets_simps [simp]:
  "apply_sets [] s = s" "apply_sets ((k, v) # kvs) s = apply_sets kvs (db_set k v s)"
  by (simp_all add: apply_sets_def)

lemma apply_clears_simps [simp]:
  "apply_clears [] s = s" "apply_clears (k # ks) s = apply_clears ks (db_clear k s)"
  by (simp_all add: apply_clears_def)

lemma db_size_apply_sets: "db_size (apply_sets sets s) \<le> db_size s + length sets"
proof (induction sets arbitrary: s)
  case (Cons kv sets)
  obtain k v where "kv = (k, v)" by fastforce
  with Cons [of "db_set k v s"] db_size_set_le [of k v s] show ?case by simp
qed simp

lemma db_get_apply_sets:
  "db_get (apply_sets sets s) k =
     (case map_of (rev sets) k of Some v \<Rightarrow> Some v | None \<Rightarrow> db_get s k)"
  by (induction sets arbitrary: s) (auto simp: map_add_def split: option.splits)

lemma db_get_apply_clears:
  "db_get (apply_clears ks s) k = (if k \<in> set ks then None else db_get s k)"
  by (induction ks arbitrary: s) (auto simp: lookup_delete)

text \<open>What a batch leaves behind.\<close>

lemma write_batch_run:
  "fdb_write_batch fx sets clears b s =
     (let s1 = apply_clears clears (apply_sets sets s); n = counter epoch_key s1 + 1 in
      if b then (Ok n, db_set epoch_key (u64_bytes n) s1) else (Ok 0, s1))"
  by (simp add: fdb_write_batch_def db_run_def write_batch_trx_def Let_def)

lemma checked_write_batch_run:
  "fdb_checked_write_batch fx must_not_exist sets clears b s =
     (if list_ex (\<lambda>k. db_get s k \<noteq> None) must_not_exist
      then (Err (internal_err fx checked_write_msg precondition_failed), s)
      else fdb_write_batch fx sets clears b s)"
  by (simp add: fdb_checked_write_batch_def fdb_write_batch_def db_run_def write_batch_trx_def
      Let_def)

lemma atomic_inc_run [simp, op_simps]:
  "fdb_atomic_inc k s = (Ok (counter k s + 1), db_set k (u64_bytes (counter k s + 1)) s)"
  by (simp add: fdb_atomic_inc_def Let_def)

lemma atomic_inc_counter: "fdb_atomic_inc k s = (Ok n, s') \<Longrightarrow> counter k s' = n"
  by (auto simp: counter_set)

subsection \<open>What a range read returns\<close>

text \<open>
  The laws of the client the scans rely on: the tuple layer packs keys as documented, a reply
  is an initial part of the range, and a range of at most \<open>lim\<close> pairs comes in one reply.
\<close>

locale fdb_client =
  fixes fx :: fdb and lim :: nat
  assumes layout: "tuple_layer (fdb_pack fx)"
    and batch_prefix: "prefix (fdb_batch fx kvs) kvs"
    and batch_small: "length kvs \<le> lim \<Longrightarrow> fdb_batch fx kvs = kvs"
begin

lemma scan_run:
  assumes "\<not> hi < lo" "db_size s \<le> lim"
  shows "\<exists>kvs. trx_get_range fx lo hi s = Ok kvs \<and>
     set kvs = {(k, v). db_get s k = Some v \<and> in_range fx lo hi k} \<and> distinct (map fst kvs)"
proof -
  let ?f = "filter (\<lambda>kv. in_range fx lo hi (fst kv)) (DAList.impl_of s)"
  let ?kvs = "sort_key (\<lambda>kv. fdb_pack fx (fst kv)) ?f"
  have d: "distinct (map fst (DAList.impl_of s))" using DAList.impl_of [of s] by simp
  then have df: "distinct (map fst ?f)" by (rule distinct_map_filter)
  have "length ?kvs \<le> lim"
    using assms(2) by (metis length_filter_le length_sort le_trans)
  then have "trx_get_range fx lo hi s = Ok ?kvs"
    using assms(1) by (simp add: trx_get_range_def batch_small)
  moreover have "set ?kvs = {(k, v). db_get s k = Some v \<and> in_range fx lo hi k}"
    using d by (auto simp: DAList.lookup.rep_eq)
  moreover have "distinct (map fst ?kvs)"
    using df by (simp add: distinct_map)
  ultimately show ?thesis by blast
qed

lemma scan_sound:
  assumes "trx_get_range fx lo hi s = Ok kvs" "(k, v) \<in> set kvs"
  shows "db_get s k = Some v \<and> in_range fx lo hi k"
proof -
  let ?f = "filter (\<lambda>kv. in_range fx lo hi (fst kv)) (DAList.impl_of s)"
  let ?kvs = "sort_key (\<lambda>kv. fdb_pack fx (fst kv)) ?f"
  have d: "distinct (map fst (DAList.impl_of s))" using DAList.impl_of [of s] by simp
  have "kvs = [] \<or> kvs = fdb_batch fx ?kvs"
    using assms(1) by (auto simp: trx_get_range_def split: if_splits option.splits)
  then have "(k, v) \<in> set ?kvs"
    using assms(2) set_mono_prefix [OF batch_prefix [of ?kvs]] by auto
  then show ?thesis using d by (auto simp: DAList.lookup.rep_eq)
qed

text \<open>
  The keys a category scan covers. Below identifiers the last of which is 255 modulo 256 the
  bounds are inverted and the scan covers nothing.
\<close>

definition covered :: "key \<Rightarrow> key \<Rightarrow> bool" where
  "covered t k \<longleftrightarrow> in_range fx (fst (category_range fx t)) (snd (category_range fx t)) k"

lemma covered_tag: "covered (c, []) k \<longleftrightarrow> fst k = c"
  using tuple_layer.scan_tag [OF layout, of c "fst k" "snd k"]
  by (auto simp: covered_def in_range_def category_range_def)

lemma covered_ints:
  assumes "(ucast m :: byte) \<noteq> 255"
  shows "covered (int_key c (ns @ [m])) k \<longleftrightarrow> fst k = c \<and> prefix (map TInt (ns @ [m])) (snd k)"
  using tuple_layer.scan_ints [OF layout assms, of c ns "fst k" "snd k"]
  by (auto simp: covered_def in_range_def category_range_def)

lemma category_range_ordered:
  assumes "last (fdb_pack fx t) \<noteq> 255"
  shows "\<not> snd (category_range fx t) < fst (category_range fx t)"
proof -
  have "fdb_pack fx t \<le> fdb_pack fx t \<and> fdb_pack fx t < incr_last (fdb_pack fx t)"
    using incr_last_range [of "fdb_pack fx t" "fdb_pack fx t"] assms
      tuple_layer.pk_nonempty [OF layout, of t] by blast
  then show ?thesis by (simp add: category_range_def)
qed

lemma get_range_tag:
  assumes "db_size s \<le> lim"
  shows "\<exists>kvs. fdb_get_range fx (category_range fx (c, [])) s = Ok kvs \<and>
     set kvs = {(k, v). db_get s k = Some v \<and> fst k = c} \<and> distinct (map fst kvs)"
  using scan_run [OF category_range_ordered [OF tuple_layer.last_not_ff_tag [OF layout]] assms, of c]
    covered_tag [of c] by (auto simp: fdb_get_range_def covered_def)

lemma get_range_ints:
  assumes "db_size s \<le> lim" "(ucast m :: byte) \<noteq> 255"
  shows "\<exists>kvs. fdb_get_range fx (category_range fx (int_key c (ns @ [m]))) s = Ok kvs \<and>
     set kvs = {(k, v). db_get s k = Some v \<and> fst k = c \<and> prefix (map TInt (ns @ [m])) (snd k)} \<and>
     distinct (map fst kvs)"
proof -
  have "last (fdb_pack fx (int_key c (ns @ [m]))) \<noteq> 255"
    using tuple_layer.last_ff_iff [OF layout, of c ns m] assms(2) by blast
  from scan_run [OF category_range_ordered [OF this] assms(1)] covered_ints [OF assms(2), of c ns]
  show ?thesis by (auto simp: fdb_get_range_def covered_def)
qed

lemma get_range_ff:
  assumes "(ucast m :: byte) = 255"
  shows "fdb_get_range fx (category_range fx (int_key c (ns @ [m]))) s =
     (case fdb_inverted fx of
        None \<Rightarrow> Ok []
      | Some e \<Rightarrow> Err (internal_err fx ''FDB get_range failed: '' (NativeError e)))"
  using tuple_layer.scan_inverted [OF layout assms, of c ns]
  by (auto simp: fdb_get_range_def category_range_def trx_get_range_def split: option.splits)

lemma get_range_sound:
  assumes "fdb_get_range fx (category_range fx (int_key c (ns @ [m]))) s = Ok kvs"
    "(k, v) \<in> set kvs"
  shows "db_get s k = Some v \<and> fst k = c \<and> prefix (map TInt (ns @ [m])) (snd k)"
proof -
  from assms(1) have r: "trx_get_range fx (fst (category_range fx (int_key c (ns @ [m]))))
      (snd (category_range fx (int_key c (ns @ [m])))) s = Ok kvs"
    by (auto simp: fdb_get_range_def map_err_def split: sum.splits)
  note m = scan_sound [OF r assms(2)]
  show ?thesis
  proof (cases "(ucast m :: byte) = 255")
    case True
    then show ?thesis using get_range_ff [OF True, of c ns s] assms by (auto split: option.splits)
  next
    case False
    with m covered_ints [OF False, of c ns k] show ?thesis by (simp add: covered_def)
  qed
qed

end

text \<open>A client with the documented key format whose replies hold at most \<open>lim\<close> pairs.\<close>

definition documented_fdb ::
  "byte list \<Rightarrow> nat \<Rightarrow> (FdbBindingError \<Rightarrow> string) \<Rightarrow> (key \<Rightarrow> string) \<Rightarrow> fdb" where
  "documented_fdb pre lim show_err show_unpack =
     \<lparr>fdb_pack = tuple_pack pre, fdb_batch = take lim, fdb_inverted = None, fdb_show = show_err,
      fdb_unpack_error = show_unpack\<rparr>"

interpretation doc: fdb_client "documented_fdb pre lim show_err show_unpack" lim
  by (rule fdb_client.intro)
    (simp_all add: documented_fdb_def take_is_prefix tp.tuple_layer_axioms)

definition sample_fdb :: fdb where
  "sample_fdb = documented_fdb [] 100 (\<lambda>_. ''error'') (\<lambda>_. ''unpack'')"

lemma sample_client: "fdb_client sample_fdb 100"
  unfolding sample_fdb_def by (rule doc.fdb_client_axioms)

end
