(* ===== verification/Meta_Records.thy ===== *)
theory Meta_Records
  imports Fdb_Kv
begin

text \<open>
  Which record stands under which key. Every record of the metadata store determines its
  key, index entries and counters have a fixed shape, and \<open>store_wf\<close> says the whole database
  respects this. The metadata theories prove that each of their operations keeps
  \<open>store_wf\<close>; under it every getter decodes, and what a getter returns carries the
  identifiers it was asked for.
\<close>

subsection \<open>Decoding\<close>

definition as_database :: "value \<Rightarrow> DatabaseMeta option" where
  "as_database v = (case v of VDatabase d \<Rightarrow> Some d | _ \<Rightarrow> None)"
definition as_schema :: "value \<Rightarrow> SchemaMeta option" where
  "as_schema v = (case v of VSchema d \<Rightarrow> Some d | _ \<Rightarrow> None)"
definition as_table :: "value \<Rightarrow> TableMeta option" where
  "as_table v = (case v of VTable d \<Rightarrow> Some d | _ \<Rightarrow> None)"
definition as_function :: "value \<Rightarrow> FunctionMeta option" where
  "as_function v = (case v of VFunction d \<Rightarrow> Some d | _ \<Rightarrow> None)"
definition as_function_ref :: "value \<Rightarrow> (DatabaseId \<times> SchemaId \<times> FunctionId) option" where
  "as_function_ref v = (case v of VFunctionRef d \<Rightarrow> Some d | _ \<Rightarrow> None)"
definition as_mp :: "value \<Rightarrow> MicroPartitionMeta option" where
  "as_mp v = (case v of VMp d \<Rightarrow> Some d | _ \<Rightarrow> None)"
definition as_txn :: "value \<Rightarrow> TransactionMeta option" where
  "as_txn v = (case v of VTxn d \<Rightarrow> Some d | _ \<Rightarrow> None)"
definition as_stream :: "value \<Rightarrow> StreamMeta option" where
  "as_stream v = (case v of VStream d \<Rightarrow> Some d | _ \<Rightarrow> None)"
definition as_offset :: "value \<Rightarrow> StreamOffset option" where
  "as_offset v = (case v of VOffset d \<Rightarrow> Some d | _ \<Rightarrow> None)"
definition as_change :: "value \<Rightarrow> ChangeRecordMeta option" where
  "as_change v = (case v of VChange d \<Rightarrow> Some d | _ \<Rightarrow> None)"
definition as_clone :: "value \<Rightarrow> CloneMeta option" where
  "as_clone v = (case v of VClone d \<Rightarrow> Some d | _ \<Rightarrow> None)"
definition as_dynamic_table :: "value \<Rightarrow> DynamicTableMeta option" where
  "as_dynamic_table v = (case v of VDynamicTable d \<Rightarrow> Some d | _ \<Rightarrow> None)"
definition as_user :: "value \<Rightarrow> UserMeta option" where
  "as_user v = (case v of VUser d \<Rightarrow> Some d | _ \<Rightarrow> None)"
definition as_role :: "value \<Rightarrow> RoleMeta option" where
  "as_role v = (case v of VRole d \<Rightarrow> Some d | _ \<Rightarrow> None)"
definition as_role_grant :: "value \<Rightarrow> RoleGrantMeta option" where
  "as_role_grant v = (case v of VRoleGrant d \<Rightarrow> Some d | _ \<Rightarrow> None)"
definition as_owner :: "value \<Rightarrow> ObjectOwnerMeta option" where
  "as_owner v = (case v of VOwner d \<Rightarrow> Some d | _ \<Rightarrow> None)"
definition as_grant :: "value \<Rightarrow> GrantSetMeta option" where
  "as_grant v = (case v of VGrant d \<Rightarrow> Some d | _ \<Rightarrow> None)"

lemmas as_defs = as_database_def as_schema_def as_table_def as_function_def as_function_ref_def
  as_mp_def as_txn_def as_stream_def as_offset_def as_change_def as_clone_def
  as_dynamic_table_def as_user_def as_role_def as_role_grant_def as_owner_def as_grant_def

lemma as_simps [simp]:
  "as_database (VDatabase a) = Some a" "as_schema (VSchema b) = Some b"
  "as_table (VTable c) = Some c" "as_function (VFunction d) = Some d"
  "as_function_ref (VFunctionRef e) = Some e" "as_mp (VMp f) = Some f" "as_txn (VTxn g) = Some g"
  "as_stream (VStream h) = Some h" "as_offset (VOffset i) = Some i" "as_change (VChange j) = Some j"
  "as_clone (VClone k) = Some k" "as_dynamic_table (VDynamicTable l) = Some l"
  "as_user (VUser m) = Some m" "as_role (VRole n) = Some n"
  "as_role_grant (VRoleGrant q) = Some q" "as_owner (VOwner r) = Some r"
  "as_grant (VGrant t) = Some t"
  by (simp_all add: as_defs)

lemma as_iff:
  "as_database v = Some a \<longleftrightarrow> v = VDatabase a"
  "as_schema v = Some b \<longleftrightarrow> v = VSchema b"
  "as_table v = Some c \<longleftrightarrow> v = VTable c"
  "as_function v = Some d \<longleftrightarrow> v = VFunction d"
  "as_function_ref v = Some e \<longleftrightarrow> v = VFunctionRef e"
  "as_mp v = Some f \<longleftrightarrow> v = VMp f" "as_txn v = Some g \<longleftrightarrow> v = VTxn g"
  "as_stream v = Some h \<longleftrightarrow> v = VStream h"
  "as_offset v = Some i \<longleftrightarrow> v = VOffset i"
  "as_change v = Some j \<longleftrightarrow> v = VChange j"
  "as_clone v = Some k \<longleftrightarrow> v = VClone k"
  "as_dynamic_table v = Some l \<longleftrightarrow> v = VDynamicTable l"
  "as_user v = Some m \<longleftrightarrow> v = VUser m"
  "as_role v = Some n \<longleftrightarrow> v = VRole n"
  "as_role_grant v = Some q \<longleftrightarrow> v = VRoleGrant q"
  "as_owner v = Some r \<longleftrightarrow> v = VOwner r"
  "as_grant v = Some t \<longleftrightarrow> v = VGrant t"
  by (cases v; simp add: as_defs)+

subsection \<open>Records and their keys\<close>

text \<open>\<open>object_type as u64\<close>: the discriminant of \<^verbatim>\<open>ObjectType\<close>, by declaration order.\<close>

fun object_type_key :: "ObjectType \<Rightarrow> u64" where
  "object_type_key OT_Account = 0"
| "object_type_key OT_Database = 1"
| "object_type_key OT_Schema = 2"
| "object_type_key OT_Table = 3"
| "object_type_key OT_DynamicTable = 4"
| "object_type_key OT_Stream = 5"
| "object_type_key OT_Role = 6"
| "object_type_key OT_User = 7"
| "object_type_key OT_Function = 8"

lemma object_type_key_inj: "object_type_key a = object_type_key b \<longleftrightarrow> a = b"
  by (cases a; cases b) simp_all

definition owner_key :: "ObjectRef \<Rightarrow> key" where
  "owner_key ob = (C_object_owner, [TInt (object_type_key (obj_type ob)), TInt (obj_id ob)])"

definition grant_key :: "RoleId \<Rightarrow> ObjectRef \<Rightarrow> key" where
  "grant_key role_id ob = (C_grant, [TInt role_id, TInt (object_type_key (obj_type ob)), TInt (obj_id ob)])"

definition grant_by_object_key :: "ObjectRef \<Rightarrow> RoleId \<Rightarrow> key" where
  "grant_by_object_key ob role_id =
     (C_grant_by_object, [TInt (object_type_key (obj_type ob)), TInt (obj_id ob), TInt role_id])"

lemmas object_keys = owner_key_def grant_key_def grant_by_object_key_def

fun is_int :: "telem \<Rightarrow> bool" where
  "is_int (TInt _) = True"
| "is_int (TStr _) = False"

text \<open>The shape of the keys that hold raw bytes and the number of bytes they hold.\<close>

fun bytes_shape :: "category \<Rightarrow> (bool list \<times> nat) option" where
  "bytes_shape C_function_by_name = Some ([True, True, False, False], 8)"
| "bytes_shape C_table_mps = Some ([True, True], 0)"
| "bytes_shape C_table_version = Some ([True], 8)"
| "bytes_shape C_stream_by_name = Some ([True, True, False], 8)"
| "bytes_shape C_streams_by_table = Some ([True, True], 0)"
| "bytes_shape C_table_change_seq = Some ([True], 8)"
| "bytes_shape C_table_change_next_seq = Some ([True], 8)"
| "bytes_shape C_table_change_log_by_txn = Some ([True, True, True], 0)"
| "bytes_shape C_next_id = Some ([False], 8)"
| "bytes_shape C_user_by_name = Some ([False], 8)"
| "bytes_shape C_role_user = Some ([True, True], 0)"
| "bytes_shape C_role_by_name = Some ([False], 8)"
| "bytes_shape C_role_parent = Some ([True, True], 0)"
| "bytes_shape C_grant_by_object = Some ([True, True, True], 8)"
| "bytes_shape C_security_epoch = Some ([], 8)"
| "bytes_shape _ = None"

fun value_ok :: "value \<Rightarrow> key \<Rightarrow> bool" where
  "value_ok (VDatabase d) k = (k = (C_db, [TInt (dbm_id d)]))"
| "value_ok (VSchema d) k = (k = (C_schema, [TInt (sch_db_id d), TInt (sch_id d)]))"
| "value_ok (VTable d) k = (k = (C_table, [TInt (tbl_db_id d), TInt (tbl_schema_id d), TInt (tbl_id d)]))"
| "value_ok (VFunction d) k = (k = (C_function, [TInt (fn_db_id d), TInt (fn_schema_id d), TInt (fn_id d)]))"
| "value_ok (VFunctionRef r) k = (k = (C_function_by_id, [TInt (snd (snd r))]))"
| "value_ok (VMp d) k = (k = (C_mp, [TInt (mpm_id d)]))"
| "value_ok (VTxn d) k = (k = (C_txn, [TInt (tm_id d)]))"
| "value_ok (VStream d) k = (k = (C_stream, [TInt (str_stream_id d)]))"
| "value_ok (VOffset d) k = (fst k = C_stream_offset \<and> map is_int (snd k) = [True])"
| "value_ok (VChange d) k = (k = (C_table_change_log, [TInt (cr_table_id d), TInt (cr_sequence d)]))"
| "value_ok (VClone d) k = (k = (C_clone, [TInt (cl_clone_table_id d)]))"
| "value_ok (VDynamicTable d) k = (k = (C_dynamic_table, [TInt (dtm_id d)]))"
| "value_ok (VUser d) k = (k = (C_user, [TInt (usr_id d)]))"
| "value_ok (VRole d) k = (k = (C_role, [TInt (rol_id d)]))"
| "value_ok (VRoleGrant d) k =
     ((fst k = C_user_role \<or> fst k = C_role_child) \<and> map is_int (snd k) = [True, True])"
| "value_ok (VOwner d) k = (k = owner_key (own_object d))"
| "value_ok (VGrant d) k = (k = grant_key (gr_role_id d) (gr_object d))"
| "value_ok (VBytes bs) k = (bytes_shape (fst k) = Some (map is_int (snd k), length bs))"

definition store_wf :: "store \<Rightarrow> bool" where
  "store_wf s = list_all (\<lambda>(k, v). value_ok v k) (DAList.impl_of s)"

lemma store_wf_iff: "store_wf s \<longleftrightarrow> (\<forall>k v. db_get s k = Some v \<longrightarrow> value_ok v k)"
proof -
  have "distinct (map fst (DAList.impl_of s))" using DAList.impl_of [of s] by simp
  then have "db_get s k = Some v \<longleftrightarrow> (k, v) \<in> set (DAList.impl_of s)" for k v
    by (simp add: DAList.lookup.rep_eq)
  then show ?thesis by (auto simp: store_wf_def list_all_iff)
qed

lemma store_wf_empty: "store_wf DAList.empty"
  by (simp add: store_wf_iff lookup_empty)

lemma store_wfD: "store_wf s \<Longrightarrow> db_get s k = Some v \<Longrightarrow> value_ok v k"
  unfolding store_wf_iff by blast

lemma store_wf_set [intro]: "store_wf s \<Longrightarrow> value_ok v k \<Longrightarrow> store_wf (db_set k v s)"
  unfolding store_wf_iff db_get_set by (metis option.inject)

lemma store_wf_clear [intro]: "store_wf s \<Longrightarrow> store_wf (db_clear k s)"
  by (simp add: store_wf_iff lookup_delete del: split_paired_All)

lemma store_wf_sets:
  "store_wf s \<Longrightarrow> list_all (\<lambda>(k, v). value_ok v k) sets \<Longrightarrow> store_wf (apply_sets sets s)"
proof (induction sets arbitrary: s)
  case (Cons kv sets)
  then show ?case by (cases kv) (simp add: store_wf_set)
qed simp

lemma store_wf_clears: "store_wf s \<Longrightarrow> store_wf (apply_clears ks s)"
  by (simp add: store_wf_iff db_get_apply_clears del: split_paired_All)

lemma value_ok_u64 [simp]:
  "value_ok (u64_bytes n) k \<longleftrightarrow> bytes_shape (fst k) = Some (map is_int (snd k), 8)"
  by (simp add: u64_bytes_def)

lemma epoch_value_ok [simp]: "bytes_shape (fst epoch_key) = Some (map is_int (snd epoch_key), 8)"
  by (simp add: epoch_key_def)

lemma next_id_value_ok [simp]:
  "bytes_shape (fst (next_id_key n)) = Some (map is_int (snd (next_id_key n)), 8)"
  by (simp add: next_id_key_def)

text \<open>The batch helpers keep the layout when what they write respects it.\<close>

lemma wf_batch:
  "store_wf s \<Longrightarrow> list_all (\<lambda>(k, v). value_ok v k) sets \<Longrightarrow>
     store_wf (snd (fdb_write_batch fx sets clears b s))"
  by (simp add: write_batch_run Let_def store_wf_sets store_wf_clears store_wf_set)

lemma keeps_wf_batch:
  "list_all (\<lambda>(k, v). value_ok v k) sets \<Longrightarrow> keeps store_wf (fdb_write_batch fx sets clears b)"
  by (intro keepsI wf_batch)

lemma keeps_wf_checked:
  "list_all (\<lambda>(k, v). value_ok v k) sets \<Longrightarrow>
     keeps store_wf (fdb_checked_write_batch fx ks sets clears b)"
  by (intro keepsI) (simp add: checked_write_batch_run wf_batch)

lemma keeps_wf_set: "value_ok v k \<Longrightarrow> keeps store_wf (fdb_set k v)"
  by (intro keepsI) auto

lemma keeps_wf_clear: "keeps store_wf (fdb_clear k)"
  by (intro keepsI) auto

lemma keeps_wf_inc:
  "bytes_shape (fst k) = Some (map is_int (snd k), 8) \<Longrightarrow> keeps store_wf (fdb_atomic_inc k)"
  by (intro keepsI) auto

lemmas keeps_wf_intros = keeps_bind keeps_basic keeps_for keeps_wf_batch keeps_wf_checked
  keeps_wf_set keeps_wf_clear keeps_wf_inc

subsection \<open>Reading a well-formed store\<close>

lemma map_is_int_1: "map is_int es = [True] \<longleftrightarrow> (\<exists>a. es = [TInt a])"
  by (cases es rule: list.exhaust; cases "hd es") auto

lemma wf_read:
  assumes "store_wf s"
  shows "db_get s (C_db, [TInt i]) = Some v \<Longrightarrow> \<exists>d. v = VDatabase d \<and> dbm_id d = i"
    and "db_get s (C_schema, [TInt i, TInt j]) = Some v \<Longrightarrow>
      \<exists>d. v = VSchema d \<and> sch_db_id d = i \<and> sch_id d = j"
    and "db_get s (C_table, [TInt i, TInt j, TInt l]) = Some v \<Longrightarrow>
      \<exists>d. v = VTable d \<and> tbl_db_id d = i \<and> tbl_schema_id d = j \<and> tbl_id d = l"
    and "db_get s (C_function, [TInt i, TInt j, TInt l]) = Some v \<Longrightarrow>
      \<exists>d. v = VFunction d \<and> fn_db_id d = i \<and> fn_schema_id d = j \<and> fn_id d = l"
    and "db_get s (C_function_by_id, [TInt i]) = Some v \<Longrightarrow> \<exists>a b. v = VFunctionRef (a, b, i)"
    and "db_get s (C_mp, [TInt i]) = Some v \<Longrightarrow> \<exists>d. v = VMp d \<and> mpm_id d = i"
    and "db_get s (C_txn, [TInt i]) = Some v \<Longrightarrow> \<exists>d. v = VTxn d \<and> tm_id d = i"
    and "db_get s (C_stream, [TInt i]) = Some v \<Longrightarrow> \<exists>d. v = VStream d \<and> str_stream_id d = i"
    and "db_get s (C_stream_offset, [TInt i]) = Some v \<Longrightarrow> \<exists>d. v = VOffset d"
    and "db_get s (C_table_change_log, [TInt i, TInt j]) = Some v \<Longrightarrow>
      \<exists>d. v = VChange d \<and> cr_table_id d = i \<and> cr_sequence d = j"
    and "db_get s (C_clone, [TInt i]) = Some v \<Longrightarrow> \<exists>d. v = VClone d \<and> cl_clone_table_id d = i"
    and "db_get s (C_dynamic_table, [TInt i]) = Some v \<Longrightarrow> \<exists>d. v = VDynamicTable d \<and> dtm_id d = i"
    and "db_get s (C_user, [TInt i]) = Some v \<Longrightarrow> \<exists>d. v = VUser d \<and> usr_id d = i"
    and "db_get s (C_role, [TInt i]) = Some v \<Longrightarrow> \<exists>d. v = VRole d \<and> rol_id d = i"
    and "db_get s (C_user_role, [TInt i, TInt j]) = Some v \<Longrightarrow> \<exists>d. v = VRoleGrant d"
    and "db_get s (C_role_child, [TInt i, TInt j]) = Some v \<Longrightarrow> \<exists>d. v = VRoleGrant d"
    and "db_get s (owner_key ob) = Some v \<Longrightarrow> \<exists>d. v = VOwner d \<and> owner_key (own_object d) = owner_key ob"
    and "db_get s (grant_key i ob) = Some v \<Longrightarrow>
      \<exists>d. v = VGrant d \<and> grant_key (gr_role_id d) (gr_object d) = grant_key i ob"
  by (drule store_wfD [OF assms]; cases v; auto simp: object_keys)+

lemma object_key_inj:
  "grant_key i a = grant_key j b \<longleftrightarrow> i = j \<and> a = b"
  "owner_key a = owner_key b \<longleftrightarrow> a = b"
  "grant_by_object_key a i = grant_by_object_key b j \<longleftrightarrow> i = j \<and> a = b"
  by (auto simp: object_keys object_type_key_inj intro: ObjectRef.equality)

text \<open>A stored integer of a well-formed store is eight bytes.\<close>

lemma wf_u64:
  assumes "store_wf s" "db_get s k = Some v" "bytes_shape (fst k) = Some (sh, 8)"
  shows "\<exists>n. v = u64_bytes n"
proof -
  from assms(1,2) have "value_ok v k" by (rule store_wfD)
  with assms(3) obtain bs where "v = VBytes bs" "length bs = 8"
    by (cases v) (auto simp: object_keys map_is_int_1)
  then have "v = u64_bytes (u64_from_be bs)" by (simp add: u64_bytes_def u64_to_be_from_be)
  then show ?thesis ..
qed

text \<open>The keys of an index over identifiers.\<close>

lemma map_is_int_all: "map is_int es = replicate n True \<Longrightarrow> \<exists>ns. es = map TInt ns \<and> length ns = n"
proof (induction es arbitrary: n)
  case (Cons e es)
  then obtain m where n: "n = Suc m" by (cases n) auto
  with Cons.prems obtain a where e: "e = TInt a" by (cases e) auto
  from Cons n obtain ns where "es = map TInt ns" "length ns = m" by auto
  with n e have "e # es = map TInt (a # ns) \<and> length (a # ns) = n" by simp
  then show ?case by (rule exI)
qed simp

lemma wf_int_keys:
  assumes "store_wf s" "db_get s k = Some v" "bytes_shape (fst k) = Some (replicate n True, l)"
  shows "\<exists>ns. k = int_key (fst k) ns \<and> length ns = n"
proof -
  from assms(1,2) have "value_ok v k" by (rule store_wfD)
  with assms(3) have "map is_int (snd k) = replicate n True"
    by (cases v) (auto simp: object_keys)
  from map_is_int_all [OF this] show ?thesis by (metis prod.collapse)
qed

end
