(* ===== verification/Meta_Security.thy ===== *)
theory Meta_Security
  imports Meta_Records
begin

text \<open>
  Users, roles, ownership and privileges: the \<^verbatim>\<open>SecurityStore\<close> implementation of
  \<^verbatim>\<open>crates/nova-storage/src/metadata/security_impl.rs\<close>.

  Memberships, role inheritance and privileges are stored twice, under a key ordered by the
  grantee and under the reversed key; every change of security metadata increases the
  security epoch. The lemmas show that the two directions stay in step, that inheritance
  stays acyclic, that names stay unique, that the privilege words follow the grants and
  revocations, and that no change of security metadata leaves the epoch as it was.
\<close>

subsection \<open>Keys and the epoch\<close>

abbreviation user_key :: "UserId \<Rightarrow> key" where "user_key u \<equiv> (C_user, [TInt u])"
abbreviation role_key :: "RoleId \<Rightarrow> key" where "role_key r \<equiv> (C_role, [TInt r])"
abbreviation user_role_key :: "UserId \<Rightarrow> RoleId \<Rightarrow> key" where
  "user_role_key u r \<equiv> (C_user_role, [TInt u, TInt r])"
abbreviation role_user_key :: "RoleId \<Rightarrow> UserId \<Rightarrow> key" where
  "role_user_key r u \<equiv> (C_role_user, [TInt r, TInt u])"
abbreviation role_child_key :: "RoleId \<Rightarrow> RoleId \<Rightarrow> key" where
  "role_child_key p c \<equiv> (C_role_child, [TInt p, TInt c])"
abbreviation role_parent_key :: "RoleId \<Rightarrow> RoleId \<Rightarrow> key" where
  "role_parent_key c p \<equiv> (C_role_parent, [TInt c, TInt p])"
abbreviation user_by_name_key :: "string \<Rightarrow> key" where
  "user_by_name_key n \<equiv> (C_user_by_name, [TStr n])"
abbreviation role_by_name_key :: "string \<Rightarrow> key" where
  "role_by_name_key n \<equiv> (C_role_by_name, [TStr n])"

definition corrupt_epoch :: FdbBindingError where
  "corrupt_epoch = CustomError ''corrupt metadata value 'security_epoch': expected 8 bytes''"

definition bump_strict :: "unit trx" where
  "bump_strict s =
     (case db_get s epoch_key of
        None \<Rightarrow> Ok ((), db_set epoch_key (u64_bytes (0 + 1)) s)
      | Some v \<Rightarrow>
          and_then (ok_or corrupt_epoch (value_u64 v)) (\<lambda>current.
          Ok ((), db_set epoch_key (u64_bytes (current + 1)) s)))"

definition bump_lenient :: "unit trx" where
  "bump_lenient s = Ok ((), db_set epoch_key (u64_bytes (counter epoch_key s + 1)) s)"

definition security_id_from_sequence :: "u64 \<Rightarrow> u64 \<Rightarrow> u64" where
  "security_id_from_sequence seq reserved_floor = reserved_floor + seq - 1"

definition security_next_id :: "string \<Rightarrow> u64 \<Rightarrow> u64 op" where
  "security_next_id name reserved_floor =
     op_bind (fdb_atomic_inc (next_id_key name)) (\<lambda>seq.
     op_ret (security_id_from_sequence seq reserved_floor))"

subsection \<open>Memberships\<close>

definition atomic_grant_role_to_user ::
  "fdb \<Rightarrow> Timestamp \<Rightarrow> UserId \<Rightarrow> RoleId \<Rightarrow> RoleId \<Rightarrow> unit op" where
  "atomic_grant_role_to_user fx now user_id role_id granted_by =
     db_run (internal_err fx ''FDB atomic role grant failed: '')
       (\<lambda>s. if list_ex (\<lambda>k. db_get s k = None) [user_key user_id, role_key role_id, role_key granted_by]
            then Err (CustomError ''role grant precondition failed'')
            else if db_get s (user_role_key user_id role_id) \<noteq> None then Ok ((), s)
            else
              (let s1 = db_set (user_role_key user_id role_id)
                          (VRoleGrant \<lparr>rg_granted_by_role_id = granted_by, rg_created_at = now\<rparr>) s;
                   s2 = db_set (role_user_key role_id user_id) (VBytes []) s1 in
               bump_strict s2))"

definition atomic_revoke_role_from_user :: "fdb \<Rightarrow> UserId \<Rightarrow> RoleId \<Rightarrow> unit op" where
  "atomic_revoke_role_from_user fx user_id role_id =
     db_run (internal_err fx ''FDB atomic role revoke failed: '')
       (\<lambda>s. if db_get s (user_role_key user_id role_id) = None then Ok ((), s)
            else bump_strict (db_clear (role_user_key role_id user_id)
                               (db_clear (user_role_key user_id role_id) s)))"

subsection \<open>Role inheritance\<close>

fun check_roles :: "store \<Rightarrow> RoleId list \<Rightarrow> (FdbBindingError, unit) result" where
  "check_roles s [] = Ok ()"
| "check_roles s (r # rs) =
     (case db_get s (role_key r) of
        None \<Rightarrow> Err (CustomError ''role not found'')
      | Some v \<Rightarrow> and_then (deserialize_trx as_role v) (\<lambda>_. check_roles s rs))"

definition bfs_child :: "fdb \<Rightarrow> store \<Rightarrow> key \<times> value \<Rightarrow> (FdbBindingError, RoleId) result" where
  "bfs_child fx s kv =
     and_then (deserialize_trx as_role_grant (snd kv)) (\<lambda>_.
     and_then (map_err CustomError (subspace_unpack fx 2 (fst kv))) (\<lambda>ids.
     (case db_get s (role_key (ids ! 1)) of
        None \<Rightarrow> Err (CustomError ''role child not found'')
      | Some v \<Rightarrow> and_then (deserialize_trx as_role v) (\<lambda>_. Ok (ids ! 1)))))"

definition bfs_children :: "fdb \<Rightarrow> store \<Rightarrow> RoleId \<Rightarrow> (FdbBindingError, RoleId list) result" where
  "bfs_children fx s role_id =
     (let start = fdb_pack fx (C_role_child, [TInt role_id]) in
      and_then (trx_get_range fx start (prefix_end start) s) (collect_results (bfs_child fx s)))"

text \<open>
  The breadth-first search below the child: \<open>seen\<close> is the hash set, the list of pairs the
  queue of roles with their depth. Every round either removes an entry of the queue or adds a
  role identifier to \<open>seen\<close>, and there are finitely many of those.
\<close>

function role_bfs ::
  "fdb \<Rightarrow> store \<Rightarrow> RoleId \<Rightarrow> RoleId list \<Rightarrow> (RoleId \<times> nat) list \<Rightarrow> (FdbBindingError, unit) result" where
  "role_bfs fx s parent_role_id seen [] = Ok ()"
| "role_bfs fx s parent_role_id seen ((role_id, depth) # queue) =
     (if depth > 64 then Err (CustomError ''role inheritance depth limit exceeded'')
      else if role_id \<in> set seen then role_bfs fx s parent_role_id seen queue
      else if role_id = parent_role_id then Err (CustomError ''role inheritance cycle detected'')
      else (case bfs_children fx s role_id of
              Inl e \<Rightarrow> Err e
            | Inr children \<Rightarrow>
                role_bfs fx s parent_role_id (role_id # seen)
                  (queue @ map (\<lambda>c. (c, depth + 1)) children)))"
  by pat_completeness auto

termination role_bfs
proof (relation "measures [\<lambda>(fx, s, p, seen, q). card (- set seen), \<lambda>(fx, s, p, seen, q). length q]",
    goal_cases)
  case 1
  show ?case by simp
next
  case (2 fx s parent_role_id seen role_id depth queue)
  then show ?case by simp
next
  case (3 fx s parent_role_id seen role_id depth queue e)
  have "- set (role_id # seen) \<subset> - set seen" using 3(2) by auto
  then have "card (- set (role_id # seen)) < card (- set seen)" by (intro psubset_card_mono) simp
  then show ?case by simp
qed

definition atomic_grant_role_to_role ::
  "fdb \<Rightarrow> Timestamp \<Rightarrow> RoleId \<Rightarrow> RoleId \<Rightarrow> RoleId \<Rightarrow> unit op" where
  "atomic_grant_role_to_role fx now parent_role_id child_role_id granted_by =
     db_run (internal_err fx ''FDB atomic role-to-role grant failed: '')
       (\<lambda>s. and_then (check_roles s [parent_role_id, child_role_id, granted_by]) (\<lambda>_.
            and_then (role_bfs fx s parent_role_id [] [(child_role_id, 0)]) (\<lambda>_.
            (let s1 = db_set (role_child_key parent_role_id child_role_id)
                        (VRoleGrant \<lparr>rg_granted_by_role_id = granted_by, rg_created_at = now\<rparr>) s;
                 s2 = db_set (role_parent_key child_role_id parent_role_id) (VBytes []) s1 in
             bump_strict s2))))"

definition atomic_revoke_role_from_role :: "fdb \<Rightarrow> RoleId \<Rightarrow> RoleId \<Rightarrow> unit op" where
  "atomic_revoke_role_from_role fx parent_role_id child_role_id =
     db_run (internal_err fx ''FDB atomic role-to-role revoke failed: '')
       (\<lambda>s. and_then (check_roles s [parent_role_id, child_role_id]) (\<lambda>_.
            (case db_get s (role_child_key parent_role_id child_role_id) of
               None \<Rightarrow> Ok ((), s)
             | Some v \<Rightarrow>
                 and_then (deserialize_trx as_role_grant v) (\<lambda>_.
                 bump_strict (db_clear (role_parent_key child_role_id parent_role_id)
                               (db_clear (role_child_key parent_role_id child_role_id) s))))))"

subsection \<open>Privileges\<close>

definition atomic_grant_privileges :: "fdb \<Rightarrow> Timestamp \<Rightarrow> GrantSetMeta \<Rightarrow> unit op" where
  "atomic_grant_privileges fx now g =
     db_run (internal_err fx ''FDB atomic grant failed: '')
       (\<lambda>s. and_then
          (case db_get s (grant_key (gr_role_id g) (gr_object g)) of
             Some v \<Rightarrow> deserialize_trx as_grant v
           | None \<Rightarrow> Ok \<lparr>gr_role_id = gr_role_id g, gr_object = gr_object g, gr_privileges = ps_empty,
                       gr_grant_options = ps_empty, gr_granted_by_role_id = gr_granted_by_role_id g,
                       gr_updated_at = gr_updated_at g\<rparr>)
          (\<lambda>old.
            let privs = ps_bits (gr_privileges old) OR ps_bits (gr_privileges g);
                opts = ps_bits (gr_grant_options old) OR ps_bits (gr_grant_options g) in
            if privs = ps_bits (gr_privileges old) \<and> opts = ps_bits (gr_grant_options old) then Ok ((), s)
            else
              (let merged = old\<lparr>gr_privileges := \<lparr>ps_bits = privs\<rparr>, gr_grant_options := \<lparr>ps_bits = opts\<rparr>,
                                gr_updated_at := now, gr_granted_by_role_id := gr_granted_by_role_id g\<rparr>;
                   s1 = db_set (grant_key (gr_role_id g) (gr_object g)) (VGrant merged) s;
                   s2 = db_set (grant_by_object_key (gr_object g) (gr_role_id g)) (u64_bytes privs) s1 in
               bump_lenient s2)))"

definition atomic_revoke_privileges ::
  "fdb \<Rightarrow> RoleId \<Rightarrow> ObjectRef \<Rightarrow> PrivilegeSet \<Rightarrow> unit op" where
  "atomic_revoke_privileges fx role_id ob privileges =
     db_run (internal_err fx ''FDB atomic revoke failed: '')
       (\<lambda>s. case db_get s (grant_key role_id ob) of
              None \<Rightarrow> Ok ((), s)
            | Some v \<Rightarrow>
                and_then (deserialize_trx as_grant v) (\<lambda>old.
                  let privs = ps_bits (gr_privileges old) AND NOT (ps_bits privileges);
                      opts = ps_bits (gr_grant_options old) AND NOT (ps_bits privileges);
                      g = old\<lparr>gr_privileges := \<lparr>ps_bits = privs\<rparr>, gr_grant_options := \<lparr>ps_bits = opts\<rparr>\<rparr> in
                  if privs = ps_bits (gr_privileges old) \<and> opts = ps_bits (gr_grant_options old)
                  then Ok ((), s)
                  else if ps_is_empty (gr_privileges g)
                  then bump_lenient (db_clear (grant_by_object_key ob role_id)
                                      (db_clear (grant_key role_id ob) s))
                  else bump_lenient (db_set (grant_by_object_key ob role_id) (u64_bytes privs)
                                      (db_set (grant_key role_id ob) (VGrant g) s))))"

definition rbac_clear_keys_for_object :: "fdb \<Rightarrow> ObjectRef \<Rightarrow> key list query" where
  "rbac_clear_keys_for_object fx ob s =
     and_then (fdb_get_range fx (category_range fx
         (C_grant_by_object, [TInt (object_type_key (obj_type ob)), TInt (obj_id ob)])) s) (\<lambda>kvs.
     and_then (collect_results
         (\<lambda>kv. and_then (unpack_ids fx 3 (fst kv)) (\<lambda>ids. Ok [grant_key (ids ! 2) ob, fst kv])) kvs)
       (\<lambda>clears. Ok (owner_key ob # concat clears)))"

subsection \<open>Users and roles\<close>

definition get_user :: "UserId \<Rightarrow> UserMeta option query" where
  "get_user user_id = get_record as_user (user_key user_id)"

definition get_role :: "RoleId \<Rightarrow> RoleMeta option query" where
  "get_role role_id = get_record as_role (role_key role_id)"

definition get_user_by_name :: "string \<Rightarrow> UserMeta option query" where
  "get_user_by_name name s =
     (case db_get s (user_by_name_key (normalize_ident name)) of
        None \<Rightarrow> Ok None
      | Some v \<Rightarrow> get_user (lenient_u64 v) s)"

definition get_role_by_name :: "string \<Rightarrow> RoleMeta option query" where
  "get_role_by_name name s =
     (case db_get s (role_by_name_key (normalize_ident name)) of
        None \<Rightarrow> Ok None
      | Some v \<Rightarrow> get_role (lenient_u64 v) s)"

definition public_grant :: "Timestamp \<Rightarrow> value" where
  "public_grant now = VRoleGrant \<lparr>rg_granted_by_role_id = ACCOUNTADMIN_ROLE_ID, rg_created_at = now\<rparr>"

definition user_sets :: "Timestamp \<Rightarrow> string \<Rightarrow> UserMeta \<Rightarrow> (key \<times> value) list" where
  "user_sets now name user =
     [(user_key (usr_id user), VUser user),
      (user_by_name_key name, u64_bytes (usr_id user)),
      (user_role_key (usr_id user) PUBLIC_ROLE_ID, public_grant now),
      (role_user_key PUBLIC_ROLE_ID (usr_id user), VBytes [])] @
     (if usr_default_role_id user \<noteq> PUBLIC_ROLE_ID then
        [(user_role_key (usr_id user) (usr_default_role_id user), public_grant now),
         (role_user_key (usr_default_role_id user) (usr_id user), VBytes [])]
      else [])"

definition user_id_or_next :: "UserMeta \<Rightarrow> UserId op" where
  "user_id_or_next user =
     (if usr_id user = 0 then security_next_id ''user'' (ROOT_USER_ID + 1)
      else op_bind (op_query (get_user (usr_id user))) (\<lambda>r.
        (case r of
           Some _ \<Rightarrow> op_fail (Internal (''user id '' @ quoted (show_u64 (usr_id user)) @ '' already exists''))
         | None \<Rightarrow> op_ret (usr_id user))))"

definition create_user :: "fdb \<Rightarrow> Timestamp \<Rightarrow> UserMeta \<Rightarrow> UserId op" where
  "create_user fx now user =
     (let name = normalize_ident (usr_name user) in
      op_bind (op_query (get_user_by_name name)) (\<lambda>existing.
      if existing \<noteq> None
      then op_fail (Internal (''user '' @ quoted (usr_name user) @ '' already exists''))
      else op_bind (op_query (get_role (usr_default_role_id user))) (\<lambda>default_role.
      if default_role = None
      then op_fail (Internal (''default role '' @ quoted (show_u64 (usr_default_role_id user)) @ '' not found''))
      else op_bind (user_id_or_next user) (\<lambda>new_id.
      op_bind (fdb_checked_write_batch fx [user_key new_id, user_by_name_key name]
                 (user_sets now name (user\<lparr>usr_id := new_id\<rparr>)) [] True) (\<lambda>_.
      op_ret new_id)))))"

definition role_owner :: "RoleMeta \<Rightarrow> ObjectOwnerMeta" where
  "role_owner role =
     \<lparr>own_object = object_ref OT_Role (rol_id role), own_owner_role_id = rol_owner_role_id role,
      own_created_by_user_id = rol_created_by_user_id role, own_created_at = rol_created_at role,
      own_transferred_at = None\<rparr>"

definition role_sets :: "string \<Rightarrow> RoleMeta \<Rightarrow> (key \<times> value) list" where
  "role_sets name role =
     [(role_key (rol_id role), VRole role),
      (role_by_name_key name, u64_bytes (rol_id role)),
      (owner_key (own_object (role_owner role)), VOwner (role_owner role))]"

definition role_id_or_next :: "RoleMeta \<Rightarrow> RoleId op" where
  "role_id_or_next role =
     (if rol_id role = 0 then security_next_id ''role'' (PUBLIC_ROLE_ID + 1)
      else op_bind (op_query (get_role (rol_id role))) (\<lambda>r.
        (case r of
           Some _ \<Rightarrow> op_fail (Internal (''role id '' @ quoted (show_u64 (rol_id role)) @ '' already exists''))
         | None \<Rightarrow> op_ret (rol_id role))))"

definition create_role :: "fdb \<Rightarrow> RoleMeta \<Rightarrow> RoleId op" where
  "create_role fx role =
     (let name = normalize_ident (rol_name role) in
      op_bind (op_query (get_role_by_name name)) (\<lambda>existing.
      if existing \<noteq> None
      then op_fail (Internal (''role '' @ quoted (rol_name role) @ '' already exists''))
      else op_bind (if rol_id role = ACCOUNTADMIN_ROLE_ID then op_ret True
                    else op_bind (op_query (get_role (rol_owner_role_id role))) (\<lambda>r. op_ret (r \<noteq> None))) (\<lambda>owner_ok.
      if \<not> owner_ok
      then op_fail (Internal (''owner role '' @ quoted (show_u64 (rol_owner_role_id role)) @ '' not found''))
      else op_bind (role_id_or_next role) (\<lambda>new_id.
      op_bind (fdb_checked_write_batch fx [role_key new_id, role_by_name_key name]
                 (role_sets name (role\<lparr>rol_id := new_id\<rparr>)) [] True) (\<lambda>_.
      op_ret new_id)))))"

definition grant_role_to_user :: "fdb \<Rightarrow> Timestamp \<Rightarrow> UserId \<Rightarrow> RoleId \<Rightarrow> RoleId \<Rightarrow> unit op" where
  "grant_role_to_user = atomic_grant_role_to_user"

definition revoke_role_from_user :: "fdb \<Rightarrow> UserId \<Rightarrow> RoleId \<Rightarrow> unit op" where
  "revoke_role_from_user = atomic_revoke_role_from_user"

definition list_user_roles :: "fdb \<Rightarrow> UserId \<Rightarrow> RoleId list query" where
  "list_user_roles fx user_id s =
     and_then (fdb_get_range fx (category_range fx (C_user_role, [TInt user_id])) s)
       (collect_results (\<lambda>kv. and_then (unpack_ids fx 2 (fst kv)) (\<lambda>ids. Ok (ids ! 1))))"

definition grant_role_to_role :: "fdb \<Rightarrow> Timestamp \<Rightarrow> RoleId \<Rightarrow> RoleId \<Rightarrow> RoleId \<Rightarrow> unit op" where
  "grant_role_to_role fx now parent_role_id child_role_id granted_by =
     (if parent_role_id = child_role_id then op_fail (Internal ''role cannot inherit itself'')
      else atomic_grant_role_to_role fx now parent_role_id child_role_id granted_by)"

definition revoke_role_from_role :: "fdb \<Rightarrow> RoleId \<Rightarrow> RoleId \<Rightarrow> unit op" where
  "revoke_role_from_role = atomic_revoke_role_from_role"

definition list_child :: "fdb \<Rightarrow> store \<Rightarrow> key \<times> value \<Rightarrow> (NovaError, RoleId) result" where
  "list_child fx s kv =
     and_then (deserialize as_role_grant (snd kv)) (\<lambda>_.
     and_then (unpack_ids fx 2 (fst kv)) (\<lambda>ids.
     and_then (get_role (ids ! 1) s) (\<lambda>r.
     if r = None then Err (Internal (''role child not found: '' @ show_u64 (ids ! 1)))
     else Ok (ids ! 1))))"

definition list_role_children :: "fdb \<Rightarrow> RoleId \<Rightarrow> RoleId list query" where
  "list_role_children fx parent_role_id s =
     and_then (get_role parent_role_id s) (\<lambda>r.
     if r = None then Err (Internal (''role parent not found: '' @ show_u64 parent_role_id))
     else and_then (fdb_get_range fx (category_range fx (C_role_child, [TInt parent_role_id])) s)
       (collect_results (list_child fx s)))"

subsection \<open>Ownership and grants\<close>

definition set_object_owner :: "fdb \<Rightarrow> ObjectOwnerMeta \<Rightarrow> unit op" where
  "set_object_owner fx ow =
     op_bind (op_query (get_role (own_owner_role_id ow))) (\<lambda>r.
     if r = None
     then op_fail (Internal (''owner role '' @ quoted (show_u64 (own_owner_role_id ow)) @ '' not found''))
     else op_bind (fdb_write_batch fx [(owner_key (own_object ow), VOwner ow)] [] True) (\<lambda>_.
     op_ret ()))"

definition get_object_owner :: "ObjectRef \<Rightarrow> ObjectOwnerMeta option query" where
  "get_object_owner ob = get_record as_owner (owner_key ob)"

definition grant_privileges :: "fdb \<Rightarrow> Timestamp \<Rightarrow> GrantSetMeta \<Rightarrow> unit op" where
  "grant_privileges fx now g =
     op_bind (op_query (get_role (gr_role_id g))) (\<lambda>r.
     if r = None
     then op_fail (Internal (''role '' @ quoted (show_u64 (gr_role_id g)) @ '' not found''))
     else op_bind (op_query (get_role (gr_granted_by_role_id g))) (\<lambda>r2.
     if r2 = None
     then op_fail (Internal (''grantor role '' @ quoted (show_u64 (gr_granted_by_role_id g)) @ '' not found''))
     else atomic_grant_privileges fx now g))"

definition revoke_privileges :: "fdb \<Rightarrow> RoleId \<Rightarrow> ObjectRef \<Rightarrow> PrivilegeSet \<Rightarrow> unit op" where
  "revoke_privileges = atomic_revoke_privileges"

definition get_grant :: "RoleId \<Rightarrow> ObjectRef \<Rightarrow> GrantSetMeta option query" where
  "get_grant role_id ob = get_record as_grant (grant_key role_id ob)"

definition list_grants_on_object :: "fdb \<Rightarrow> ObjectRef \<Rightarrow> GrantSetMeta list query" where
  "list_grants_on_object fx ob s =
     and_then (fdb_get_range fx (category_range fx
         (C_grant_by_object, [TInt (object_type_key (obj_type ob)), TInt (obj_id ob)])) s) (\<lambda>kvs.
     and_then (collect_results
         (\<lambda>kv. and_then (unpack_ids fx 3 (fst kv)) (\<lambda>ids.
                and_then (get_grant (ids ! 2) ob s) (\<lambda>r.
                Ok (case r of Some g \<Rightarrow> [g] | None \<Rightarrow> [])))) kvs)
       (\<lambda>gs. Ok (concat gs)))"

definition list_grants_to_role :: "fdb \<Rightarrow> RoleId \<Rightarrow> GrantSetMeta list query" where
  "list_grants_to_role fx role_id s =
     and_then (fdb_get_range fx (category_range fx (C_grant, [TInt role_id])) s)
       (collect_results (\<lambda>kv. deserialize as_grant (snd kv)))"

definition security_epoch :: "u64 query" where
  "security_epoch s = Ok (counter epoch_key s)"

definition bump_security_epoch :: "u64 op" where
  "bump_security_epoch = fdb_atomic_inc epoch_key"

definition bootstrap_role :: "fdb \<Rightarrow> RoleMeta \<Rightarrow> unit op" where
  "bootstrap_role fx role =
     op_bind (op_query (get_role (rol_id role))) (\<lambda>r.
     if r = None then op_bind (create_role fx role) (\<lambda>_. op_ret ()) else op_ret ())"

definition accountadmin_role :: "Timestamp \<Rightarrow> RoleMeta" where
  "accountadmin_role now =
     \<lparr>rol_id = ACCOUNTADMIN_ROLE_ID, rol_name = ''ACCOUNTADMIN'', rol_owner_role_id = ACCOUNTADMIN_ROLE_ID,
      rol_system = True, rol_created_at = now, rol_created_by_user_id = ROOT_USER_ID,
      rol_comment = Some ''Built-in account administrator role''\<rparr>"

definition public_role :: "Timestamp \<Rightarrow> RoleMeta" where
  "public_role now =
     \<lparr>rol_id = PUBLIC_ROLE_ID, rol_name = ''PUBLIC'', rol_owner_role_id = ACCOUNTADMIN_ROLE_ID,
      rol_system = True, rol_created_at = now, rol_created_by_user_id = ROOT_USER_ID,
      rol_comment = Some ''Built-in public role''\<rparr>"

definition root_user :: "Timestamp \<Rightarrow> UserMeta" where
  "root_user now =
     \<lparr>usr_id = ROOT_USER_ID, usr_name = ''root'', usr_password_hash = '''', usr_mysql_native_hash = [],
      usr_default_role_id = ACCOUNTADMIN_ROLE_ID, usr_disabled = False, usr_created_at = now,
      usr_created_by_user_id = ROOT_USER_ID, usr_created_by_role_id = ACCOUNTADMIN_ROLE_ID,
      usr_comment = Some ''Built-in root user''\<rparr>"

definition account_owner :: "Timestamp \<Rightarrow> ObjectOwnerMeta" where
  "account_owner now =
     \<lparr>own_object = object_ref OT_Account ACCOUNT_OBJECT_ID, own_owner_role_id = ACCOUNTADMIN_ROLE_ID,
      own_created_by_user_id = ROOT_USER_ID, own_created_at = now, own_transferred_at = None\<rparr>"

definition bootstrap_security :: "fdb \<Rightarrow> Timestamp \<Rightarrow> unit op" where
  "bootstrap_security fx now =
     op_bind (bootstrap_role fx (accountadmin_role now)) (\<lambda>_.
     op_bind (bootstrap_role fx (public_role now)) (\<lambda>_.
     op_bind (op_bind (op_query (get_user ROOT_USER_ID)) (\<lambda>r.
        if r = None then op_bind (create_user fx now (root_user now)) (\<lambda>_. op_ret ()) else op_ret ())) (\<lambda>_.
     op_bind (grant_role_to_user fx now ROOT_USER_ID ACCOUNTADMIN_ROLE_ID ACCOUNTADMIN_ROLE_ID) (\<lambda>_.
     op_bind (grant_role_to_user fx now ROOT_USER_ID PUBLIC_ROLE_ID ACCOUNTADMIN_ROLE_ID) (\<lambda>_.
     op_bind (op_query (get_object_owner (object_ref OT_Account ACCOUNT_OBJECT_ID))) (\<lambda>r.
     if r = None then set_object_owner fx (account_owner now) else op_ret ()))))))"

subsection \<open>What each operation does to the store\<close>

abbreviation bumped :: "store \<Rightarrow> store" where
  "bumped s \<equiv> db_set epoch_key (u64_bytes (counter epoch_key s + 1)) s"

lemma bump_strict_wf:
  assumes "store_wf s"
  shows "bump_strict s = Ok ((), bumped s)"
proof (cases "db_get s epoch_key")
  case (Some v)
  with wf_u64 [OF assms, of epoch_key v "[]"] obtain n where "v = u64_bytes n"
    by (auto simp: epoch_key_def)
  with Some show ?thesis by (simp add: bump_strict_def counter_def)
qed (simp add: bump_strict_def counter_def)

lemma get_role_wf:
  assumes "store_wf s"
  obtains (absent) "get_role r s = Ok None" "db_get s (role_key r) = None"
  | (present) d where "get_role r s = Ok (Some d)" "db_get s (role_key r) = Some (VRole d)" "rol_id d = r"
proof (cases "db_get s (role_key r)")
  case None
  then show ?thesis using absent by (simp add: get_role_def get_record_None_iff)
next
  case (Some v)
  with wf_read(14) [OF assms] obtain d where "v = VRole d" "rol_id d = r" by blast
  with Some show ?thesis using present by (simp add: get_role_def get_record_Some_iff)
qed

lemma get_role_None: "get_role r s = Ok x \<Longrightarrow> x = None \<longleftrightarrow> db_get s (role_key r) = None"
  by (cases x) (auto simp: get_role_def get_record_None_iff get_record_Some_iff)

lemma grant_user_cases:
  assumes "store_wf s" "atomic_grant_role_to_user fx now u r g s = (res, s')"
  obtains (kept) "s' = s" "(\<exists>e. res = Err e) \<or> db_get s (user_role_key u r) \<noteq> None"
  | (linked) "res = Ok ()" "db_get s (user_key u) \<noteq> None" "db_get s (role_key r) \<noteq> None"
      "s' = bumped (db_set (role_user_key r u) (VBytes []) (db_set (user_role_key u r)
              (VRoleGrant \<lparr>rg_granted_by_role_id = g, rg_created_at = now\<rparr>) s))"
proof -
  let ?s2 = "db_set (role_user_key r u) (VBytes []) (db_set (user_role_key u r)
              (VRoleGrant \<lparr>rg_granted_by_role_id = g, rg_created_at = now\<rparr>) s)"
  have "store_wf ?s2" using assms(1) by (intro store_wf_set) simp_all
  from bump_strict_wf [OF this] assms(2) show ?thesis
    by (cases "db_get s (user_role_key u r) = None")
      (auto simp: atomic_grant_role_to_user_def db_run_def Let_def split: if_splits intro: kept linked)
qed

lemma revoke_user_cases:
  assumes "store_wf s" "atomic_revoke_role_from_user fx u r s = (res, s')"
  obtains (kept) "s' = s" "res = Ok ()" "db_get s (user_role_key u r) = None"
  | (unlinked) "res = Ok ()"
      "s' = bumped (db_clear (role_user_key r u) (db_clear (user_role_key u r) s))"
proof -
  have "store_wf (db_clear (role_user_key r u) (db_clear (user_role_key u r) s))"
    using assms(1) by (intro store_wf_clear)
  from bump_strict_wf [OF this] assms(2) show ?thesis
    by (auto simp: atomic_revoke_role_from_user_def db_run_def split: if_splits intro: kept unlinked)
qed

lemma check_roles_ok: "check_roles s rs = Ok () \<Longrightarrow> r \<in> set rs \<Longrightarrow> db_get s (role_key r) \<noteq> None"
  by (induction rs) (auto simp: and_then_Inr_iff split: option.splits)

lemma grant_role_cases:
  assumes "store_wf s" "grant_role_to_role fx now p c g s = (res, s')"
  obtains (kept) e where "s' = s" "res = Err e"
  | (linked) "res = Ok ()" "p \<noteq> c" "role_bfs fx s p [] [(c, 0)] = Ok ()"
      "db_get s (role_key p) \<noteq> None" "db_get s (role_key c) \<noteq> None"
      "s' = bumped (db_set (role_parent_key c p) (VBytes []) (db_set (role_child_key p c)
              (VRoleGrant \<lparr>rg_granted_by_role_id = g, rg_created_at = now\<rparr>) s))"
proof -
  let ?s2 = "db_set (role_parent_key c p) (VBytes []) (db_set (role_child_key p c)
              (VRoleGrant \<lparr>rg_granted_by_role_id = g, rg_created_at = now\<rparr>) s)"
  have wf: "store_wf ?s2" using assms(1) by (intro store_wf_set) simp_all
  show ?thesis
  proof (cases "p \<noteq> c \<and> check_roles s [p, c, g] = Ok () \<and> role_bfs fx s p [] [(c, 0)] = Ok ()")
    case True
    then have "res = Ok () \<and> s' = bumped ?s2"
      using assms(2) bump_strict_wf [OF wf]
      by (simp add: grant_role_to_role_def atomic_grant_role_to_role_def db_run_def Let_def del: check_roles.simps)
    then show ?thesis using linked True check_roles_ok [of s "[p, c, g]"] by simp
  next
    case False
    then have "\<exists>e. res = Err e \<and> s' = s"
      using assms(2)
      by (cases "check_roles s [p, c, g]"; cases "role_bfs fx s p [] [(c, 0)]")
        (auto simp: grant_role_to_role_def atomic_grant_role_to_role_def db_run_def
          simp del: check_roles.simps role_bfs.simps split: if_splits)
    then show ?thesis using kept by blast
  qed
qed

lemma revoke_role_cases:
  assumes "store_wf s" "atomic_revoke_role_from_role fx p c s = (res, s')"
  obtains (kept) "s' = s"
  | (unlinked) "res = Ok ()"
      "s' = bumped (db_clear (role_parent_key c p) (db_clear (role_child_key p c) s))"
proof -
  have "store_wf (db_clear (role_parent_key c p) (db_clear (role_child_key p c) s))"
    using assms(1) by (intro store_wf_clear)
  from bump_strict_wf [OF this] assms(2) show ?thesis
    by (auto simp: atomic_revoke_role_from_role_def db_run_def and_then_def deserialize_trx_def ok_or_def
        simp del: check_roles.simps split: sum.splits option.splits intro: kept unlinked)
qed

lemma grant_priv_cases:
  assumes "store_wf s" "atomic_grant_privileges fx now g s = (res, s')"
  obtains (kept) "s' = s" "res = Ok ()"
      "\<exists>old. db_get s (grant_key (gr_role_id g) (gr_object g)) = Some (VGrant old) \<and>
         ps_bits (gr_privileges old) OR ps_bits (gr_privileges g) = ps_bits (gr_privileges old) \<or>
       ps_bits (gr_privileges g) = 0"
  | (merged) d where "res = Ok ()" "gr_role_id d = gr_role_id g" "gr_object d = gr_object g"
      "ps_bits (gr_privileges d) =
        (case db_get s (grant_key (gr_role_id g) (gr_object g)) of
           Some (VGrant old) \<Rightarrow> ps_bits (gr_privileges old) | _ \<Rightarrow> 0) OR ps_bits (gr_privileges g)"
      "s' = bumped (db_set (grant_by_object_key (gr_object g) (gr_role_id g)) (u64_bytes (ps_bits (gr_privileges d)))
              (db_set (grant_key (gr_role_id g) (gr_object g)) (VGrant d) s))"
proof (cases "db_get s (grant_key (gr_role_id g) (gr_object g))")
  case None
  let ?d = "\<lparr>gr_role_id = gr_role_id g, gr_object = gr_object g,
    gr_privileges = \<lparr>ps_bits = 0 OR ps_bits (gr_privileges g)\<rparr>,
    gr_grant_options = \<lparr>ps_bits = 0 OR ps_bits (gr_grant_options g)\<rparr>,
    gr_granted_by_role_id = gr_granted_by_role_id g, gr_updated_at = now\<rparr>"
  show ?thesis
    using assms(2) None kept merged [of ?d]
    by (auto simp: atomic_grant_privileges_def db_run_def Let_def bump_lenient_def ps_empty_def split: if_splits)
next
  case (Some v)
  from wf_read(18) [OF assms(1) Some] obtain old where old: "v = VGrant old"
    "gr_role_id old = gr_role_id g" "gr_object old = gr_object g" by (auto simp: object_key_inj)
  let ?d = "old\<lparr>gr_privileges := \<lparr>ps_bits = ps_bits (gr_privileges old) OR ps_bits (gr_privileges g)\<rparr>,
    gr_grant_options := \<lparr>ps_bits = ps_bits (gr_grant_options old) OR ps_bits (gr_grant_options g)\<rparr>,
    gr_updated_at := now, gr_granted_by_role_id := gr_granted_by_role_id g\<rparr>"
  show ?thesis
    using assms(2) Some old kept merged [of ?d]
    by (auto simp: atomic_grant_privileges_def db_run_def Let_def bump_lenient_def deserialize_trx_def split: if_splits)
qed

lemma revoke_priv_cases:
  assumes "store_wf s" "atomic_revoke_privileges fx r ob ps s = (res, s')"
  obtains (kept) "s' = s" "res = Ok ()"
      "\<forall>old. db_get s (grant_key r ob) = Some (VGrant old) \<longrightarrow>
         ps_bits (gr_privileges old) AND NOT (ps_bits ps) = ps_bits (gr_privileges old)"
  | (cleared) old where "res = Ok ()" "db_get s (grant_key r ob) = Some (VGrant old)"
      "ps_bits (gr_privileges old) AND NOT (ps_bits ps) = 0"
      "s' = bumped (db_clear (grant_by_object_key ob r) (db_clear (grant_key r ob) s))"
  | (shrunk) old d where "res = Ok ()" "db_get s (grant_key r ob) = Some (VGrant old)"
      "gr_role_id d = r" "gr_object d = ob"
      "ps_bits (gr_privileges d) = ps_bits (gr_privileges old) AND NOT (ps_bits ps)"
      "s' = bumped (db_set (grant_by_object_key ob r) (u64_bytes (ps_bits (gr_privileges d)))
              (db_set (grant_key r ob) (VGrant d) s))"
proof (cases "db_get s (grant_key r ob)")
  case None
  then show ?thesis
    using assms(2) kept by (auto simp: atomic_revoke_privileges_def db_run_def)
next
  case (Some v)
  from wf_read(18) [OF assms(1) Some] obtain old where old: "v = VGrant old" "gr_role_id old = r" "gr_object old = ob"
    by (auto simp: object_key_inj)
  let ?d = "old\<lparr>gr_privileges := \<lparr>ps_bits = ps_bits (gr_privileges old) AND NOT (ps_bits ps)\<rparr>,
    gr_grant_options := \<lparr>ps_bits = ps_bits (gr_grant_options old) AND NOT (ps_bits ps)\<rparr>\<rparr>"
  show ?thesis
    using assms(2) Some old kept cleared [of old] shrunk [of old ?d]
    by (auto simp: atomic_revoke_privileges_def db_run_def Let_def bump_lenient_def deserialize_trx_def
        ps_is_empty_def split: if_splits)
qed

text \<open>Operations that write a batch: what they leave, whether they succeed or not.\<close>

lemma checked_batch_cases:
  assumes "fdb_checked_write_batch fx ks sets [] True s = (res, s')"
  obtains (kept) e where "s' = s" "res = Err e"
  | (written) n where "res = Ok n" "\<forall>k \<in> set ks. db_get s k = None" "s' = bumped (apply_sets sets s)"
proof (cases "list_ex (\<lambda>k. db_get s k \<noteq> None) ks")
  case True
  then show ?thesis using assms kept by (auto simp: checked_write_batch_run)
next
  case False
  then have "\<forall>k \<in> set ks. db_get s k = None" by (auto simp: list_ex_iff)
  then show ?thesis using assms False written by (auto simp: checked_write_batch_run write_batch_run Let_def)
qed

definition only_next_id :: "store \<Rightarrow> store \<Rightarrow> bool" where
  "only_next_id s s' \<longleftrightarrow> s' = s \<or> (\<exists>name n. s' = db_set (next_id_key name) (u64_bytes n) s)"

lemma create_user_cases:
  assumes "create_user fx now user s = (res, s')"
  obtains (kept) s1 e where "only_next_id s s1" "s' = s1" "res = Err e"
  | (written) s1 new_id where "only_next_id s s1" "res = Ok new_id"
      "db_get s1 (user_key new_id) = None"
      "db_get s1 (user_by_name_key (normalize_ident (usr_name user))) = None"
      "db_get s (role_key (usr_default_role_id user)) \<noteq> None"
      "s' = bumped (apply_sets (user_sets now (normalize_ident (usr_name user)) (user\<lparr>usr_id := new_id\<rparr>)) s1)"
proof -
  let ?name = "normalize_ident (usr_name user)"
  obtain r1 s1 where id: "user_id_or_next user s = (r1, s1)" by fastforce
  have next1: "only_next_id s s1"
    using id by (auto simp: user_id_or_next_def security_next_id_def op_bind_def only_next_id_def
        split: if_splits sum.splits option.splits)
  show ?thesis
  proof (cases "get_user_by_name ?name s = Ok None \<and> (\<exists>d. get_role (usr_default_role_id user) s = Ok (Some d))
      \<and> (\<exists>new_id. r1 = Ok new_id)")
    case False
    then have "(\<exists>e. res = Err e) \<and> (s' = s \<or> s' = s1)"
      using assms id
      by (auto simp: create_user_def Let_def op_bind_def split: if_splits sum.splits option.splits prod.splits)
    then show ?thesis using kept [of s] kept [of s1] next1 by (auto simp: only_next_id_def)
  next
    case True
    then obtain d new_id where d: "get_user_by_name ?name s = Ok None"
      "get_role (usr_default_role_id user) s = Ok (Some d)" "r1 = Ok new_id" by blast
    obtain r2 s2 where b: "fdb_checked_write_batch fx [user_key new_id, user_by_name_key ?name]
       (user_sets now ?name (user\<lparr>usr_id := new_id\<rparr>)) [] True s1 = (r2, s2)" by fastforce
    then have res: "s' = s2" "res = (case r2 of Inl e \<Rightarrow> Err e | Inr _ \<Rightarrow> Ok new_id)"
      using assms d id by (auto simp: create_user_def Let_def op_bind_def split: sum.splits)
    from b show ?thesis
    proof (cases rule: checked_batch_cases)
      case (kept e)
      then show ?thesis using that(1) next1 res by simp
    next
      case (written n)
      then show ?thesis using that(2) next1 res get_role_None [OF d(2)] by simp
    qed
  qed
qed

lemma create_role_cases:
  assumes "create_role fx role s = (res, s')"
  obtains (kept) s1 e where "only_next_id s s1" "s' = s1" "res = Err e"
  | (written) s1 new_id where "only_next_id s s1" "res = Ok new_id"
      "db_get s1 (role_key new_id) = None"
      "db_get s1 (role_by_name_key (normalize_ident (rol_name role))) = None"
      "s' = bumped (apply_sets (role_sets (normalize_ident (rol_name role)) (role\<lparr>rol_id := new_id\<rparr>)) s1)"
proof -
  let ?name = "normalize_ident (rol_name role)"
  let ?own = "if rol_id role = ACCOUNTADMIN_ROLE_ID then op_ret True
       else op_bind (op_query (get_role (rol_owner_role_id role))) (\<lambda>r. op_ret (r \<noteq> None))"
  obtain r1 s1 where id: "role_id_or_next role s = (r1, s1)" by fastforce
  have next1: "only_next_id s s1"
    using id by (auto simp: role_id_or_next_def security_next_id_def op_bind_def only_next_id_def
        split: if_splits sum.splits option.splits)
  have own: "snd (?own s) = s" by (simp add: op_bind_def split: sum.split)
  show ?thesis
  proof (cases "get_role_by_name ?name s = Ok None \<and> ?own s = (Ok True, s) \<and> (\<exists>new_id. r1 = Ok new_id)")
    case False
    then have "(\<exists>e. res = Err e) \<and> (s' = s \<or> s' = s1)"
      using assms id own
      by (auto simp: create_role_def Let_def op_bind_def split: if_splits sum.splits option.splits prod.splits)
    then show ?thesis using kept [of s] kept [of s1] next1 by (auto simp: only_next_id_def)
  next
    case True
    then obtain new_id where d: "get_role_by_name ?name s = Ok None" "?own s = (Ok True, s)" "r1 = Ok new_id" by blast
    obtain r2 s2 where b: "fdb_checked_write_batch fx [role_key new_id, role_by_name_key ?name]
       (role_sets ?name (role\<lparr>rol_id := new_id\<rparr>)) [] True s1 = (r2, s2)" by fastforce
    then have res: "s' = s2" "res = (case r2 of Inl e \<Rightarrow> Err e | Inr _ \<Rightarrow> Ok new_id)"
      using assms d id by (auto simp: create_role_def Let_def op_bind_simps op_bind_def split: sum.splits)
    from b show ?thesis
    proof (cases rule: checked_batch_cases)
      case (kept e)
      then show ?thesis using that(1) next1 res by simp
    next
      case (written n)
      then show ?thesis using that(2) next1 res by simp
    qed
  qed
qed

subsection \<open>The security steps\<close>

text \<open>One successful or failed call of a security operation, at any clock reading.\<close>

inductive security_step :: "fdb \<Rightarrow> store \<Rightarrow> store \<Rightarrow> bool" for fx where
  step_grant_user: "grant_role_to_user fx now u r g s = (res, s') \<Longrightarrow> security_step fx s s'"
| step_revoke_user: "revoke_role_from_user fx u r s = (res, s') \<Longrightarrow> security_step fx s s'"
| step_grant_role: "grant_role_to_role fx now p c g s = (res, s') \<Longrightarrow> security_step fx s s'"
| step_revoke_role: "revoke_role_from_role fx p c s = (res, s') \<Longrightarrow> security_step fx s s'"
| step_grant_priv: "grant_privileges fx now gr s = (res, s') \<Longrightarrow> security_step fx s s'"
| step_revoke_priv: "revoke_privileges fx r ob ps s = (res, s') \<Longrightarrow> security_step fx s s'"
| step_create_user: "create_user fx now user s = (uid, s') \<Longrightarrow> security_step fx s s'"
| step_create_role: "create_role fx role s = (rid, s') \<Longrightarrow> security_step fx s s'"
| step_set_owner: "set_object_owner fx ow s = (res, s') \<Longrightarrow> security_step fx s s'"
| step_bump: "bump_security_epoch s = (n, s') \<Longrightarrow> security_step fx s s'"

inductive_cases security_stepE: "security_step fx s s'"

lemma set_owner_cases:
  assumes "set_object_owner fx ow s = (res, s')"
  obtains (kept) "s' = s" | (written) "res = Ok ()" "s' = bumped (db_set (owner_key (own_object ow)) (VOwner ow) s)"
  using assms
  by (auto simp: set_object_owner_def op_bind_def write_batch_run Let_def split: if_splits sum.splits)

lemma grant_privileges_cases:
  assumes "grant_privileges fx now g s = (res, s')"
  obtains (kept) "s' = s" "\<exists>e. res = Err e" | (atomic) "atomic_grant_privileges fx now g s = (res, s')"
  using assms by (auto simp: grant_privileges_def op_bind_def split: if_splits sum.splits)

text \<open>
  Every step is one of these changes of the store, followed by an increase of the epoch
  unless nothing but an identifier counter was touched.
\<close>

inductive security_effect :: "fdb \<Rightarrow> store \<Rightarrow> store \<Rightarrow> bool" for fx where
  eff_none: "only_next_id s s' \<Longrightarrow> security_effect fx s s'"
| eff_link_user: "security_effect fx s (bumped (db_set (role_user_key r u) (VBytes [])
      (db_set (user_role_key u r) (VRoleGrant d) s)))"
| eff_unlink_user: "security_effect fx s (bumped (db_clear (role_user_key r u) (db_clear (user_role_key u r) s)))"
| eff_link_role: "p \<noteq> c \<Longrightarrow> role_bfs fx s p [] [(c, 0)] = Ok () \<Longrightarrow>
    security_effect fx s (bumped (db_set (role_parent_key c p) (VBytes [])
      (db_set (role_child_key p c) (VRoleGrant d) s)))"
| eff_unlink_role: "security_effect fx s (bumped (db_clear (role_parent_key c p) (db_clear (role_child_key p c) s)))"
| eff_grant: "gr_role_id g = r \<Longrightarrow> gr_object g = ob \<Longrightarrow>
    security_effect fx s (bumped (db_set (grant_by_object_key ob r) (u64_bytes (ps_bits (gr_privileges g)))
      (db_set (grant_key r ob) (VGrant g) s)))"
| eff_ungrant: "security_effect fx s (bumped (db_clear (grant_by_object_key ob r) (db_clear (grant_key r ob) s)))"
| eff_user: "only_next_id s s1 \<Longrightarrow> db_get s1 (user_key (usr_id user)) = None \<Longrightarrow>
    db_get s1 (user_by_name_key (normalize_ident (usr_name user))) = None \<Longrightarrow>
    security_effect fx s (bumped (apply_sets (user_sets now (normalize_ident (usr_name user)) user) s1))"
| eff_role: "only_next_id s s1 \<Longrightarrow> db_get s1 (role_key (rol_id role)) = None \<Longrightarrow>
    db_get s1 (role_by_name_key (normalize_ident (rol_name role))) = None \<Longrightarrow>
    security_effect fx s (bumped (apply_sets (role_sets (normalize_ident (rol_name role)) role) s1))"
| eff_owner: "security_effect fx s (bumped (db_set (owner_key (own_object ow)) (VOwner ow) s))"
| eff_bump: "security_effect fx s (bumped s)"

lemmas effect_intros = security_effect.intros

lemma step_effect:
  assumes "store_wf s" "security_step fx s s'"
  shows "security_effect fx s s'"
  using assms(2)
proof cases
  case (step_grant_user now u r g res)
  then have "atomic_grant_role_to_user fx now u r g s = (res, s')" by (simp add: grant_role_to_user_def)
  with assms(1) show ?thesis
    by (cases rule: grant_user_cases) (auto simp: only_next_id_def intro: effect_intros)
next
  case (step_revoke_user u r res)
  then have "atomic_revoke_role_from_user fx u r s = (res, s')" by (simp add: revoke_role_from_user_def)
  with assms(1) show ?thesis
    by (cases rule: revoke_user_cases) (auto simp: only_next_id_def intro: effect_intros)
next
  case (step_grant_role now p c g res)
  from assms(1) this show ?thesis
    by (cases rule: grant_role_cases) (auto simp: only_next_id_def intro: effect_intros)
next
  case (step_revoke_role p c res)
  then have "atomic_revoke_role_from_role fx p c s = (res, s')" by (simp add: revoke_role_from_role_def)
  with assms(1) show ?thesis
    by (cases rule: revoke_role_cases) (auto simp: only_next_id_def intro: effect_intros)
next
  case (step_grant_priv now gr res)
  then show ?thesis
  proof (cases rule: grant_privileges_cases)
    case atomic
    from assms(1) this show ?thesis
    proof (cases rule: grant_priv_cases)
      case (merged d)
      show ?thesis unfolding merged(5) by (rule eff_grant [OF merged(2,3)])
    qed (auto simp: only_next_id_def intro: eff_none)
  qed (auto simp: only_next_id_def intro: effect_intros)
next
  case (step_revoke_priv r ob ps res)
  then have "atomic_revoke_privileges fx r ob ps s = (res, s')" by (simp add: revoke_privileges_def)
  with assms(1) show ?thesis
  proof (cases rule: revoke_priv_cases)
    case (shrunk old d)
    show ?thesis unfolding shrunk(6) by (rule eff_grant [OF shrunk(3,4)])
  qed (auto simp: only_next_id_def intro: effect_intros)
next
  case (step_create_user now user uid)
  then show ?thesis
  proof (cases rule: create_user_cases)
    case (written s1 new_id)
    then show ?thesis using eff_user [of s s1 "user\<lparr>usr_id := new_id\<rparr>" fx now] by simp
  qed (auto intro: eff_none)
next
  case (step_create_role role rid)
  then show ?thesis
  proof (cases rule: create_role_cases)
    case (written s1 new_id)
    then show ?thesis using eff_role [of s s1 "role\<lparr>rol_id := new_id\<rparr>"] by simp
  qed (auto intro: eff_none)
next
  case (step_set_owner ow res)
  then show ?thesis
    by (cases rule: set_owner_cases) (auto simp: only_next_id_def intro: effect_intros)
next
  case (step_bump n)
  then show ?thesis by (auto simp: bump_security_epoch_def intro: eff_bump)
qed

lemma user_sets_ok: "list_all (\<lambda>(k, v). value_ok v k) (user_sets now name user)"
  by (simp add: user_sets_def public_grant_def)

lemma role_sets_ok: "list_all (\<lambda>(k, v). value_ok v k) (role_sets name role)"
  by (simp add: role_sets_def role_owner_def object_ref_def)

lemma only_next_id_wf: "store_wf s \<Longrightarrow> only_next_id s s' \<Longrightarrow> store_wf s'"
  by (auto simp: only_next_id_def intro!: store_wf_set)

lemma bumped_wf: "store_wf s \<Longrightarrow> store_wf (bumped s)"
  by (rule store_wf_set) simp_all

lemma effect_wf:
  assumes "security_effect fx s s'" "store_wf s"
  shows "store_wf s'"
  using assms
proof cases
  case eff_none
  with assms(2) show ?thesis by (blast intro: only_next_id_wf)
next
  case (eff_grant g r ob)
  then show ?thesis
    using assms(2) by (simp only:) (intro bumped_wf store_wf_set; simp add: grant_by_object_key_def)
next
  case (eff_user s1 user now)
  then show ?thesis
    using bumped_wf [OF store_wf_sets [OF only_next_id_wf [OF assms(2)] user_sets_ok]] by blast
next
  case (eff_role s1 role)
  then show ?thesis
    using bumped_wf [OF store_wf_sets [OF only_next_id_wf [OF assms(2)] role_sets_ok]] by blast
qed (use assms(2) in \<open>simp only:; intro bumped_wf store_wf_set store_wf_clear; simp\<close>)+

subsection \<open>Both directions of an index\<close>

text \<open>
  A relation between two kinds of identifiers that is stored under a forward and a reverse
  key: the laws of the two key functions, and the writes that keep both directions equal.
\<close>

locale paired_index =
  fixes fwd :: "'a \<Rightarrow> 'b \<Rightarrow> key" and bwd :: "'b \<Rightarrow> 'a \<Rightarrow> key" and cf cb :: category
  assumes fwd_inj: "fwd a b = fwd a' b' \<longleftrightarrow> a = a' \<and> b = b'"
    and bwd_inj: "bwd b a = bwd b' a' \<longleftrightarrow> a = a' \<and> b = b'"
    and fwd_cat: "fst (fwd a b) = cf" and bwd_cat: "fst (bwd b a) = cb" and cats: "cf \<noteq> cb"
begin

definition paired :: "store \<Rightarrow> bool" where
  "paired s \<longleftrightarrow> (\<forall>a b. db_get s (fwd a b) \<noteq> None \<longleftrightarrow> db_get s (bwd b a) \<noteq> None)"

lemma keys_apart: "fwd a b \<noteq> bwd b' a'" "bwd b' a' \<noteq> fwd a b"
  using fwd_cat [of a b] bwd_cat [of b' a'] cats by auto

lemma paired_link: "paired s \<Longrightarrow> paired (db_set (bwd b a) w (db_set (fwd a b) v s))"
  by (simp add: paired_def fwd_inj bwd_inj keys_apart)

lemma paired_unlink: "paired s \<Longrightarrow> paired (db_clear (bwd b a) (db_clear (fwd a b) s))"
  by (simp add: paired_def fwd_inj bwd_inj keys_apart)

lemma paired_other:
  assumes "fst k \<noteq> cf" "fst k \<noteq> cb"
  shows "paired (db_set k v s) \<longleftrightarrow> paired s" "paired (db_clear k s) \<longleftrightarrow> paired s"
proof -
  have "k \<noteq> fwd a b" "k \<noteq> bwd b a" for a b using fwd_cat [of a b] bwd_cat [of b a] assms by auto
  then have "fwd a b \<noteq> k" "bwd b a \<noteq> k" for a b by metis+
  then show "paired (db_set k v s) \<longleftrightarrow> paired s" "paired (db_clear k s) \<longleftrightarrow> paired s"
    by (simp_all add: paired_def)
qed

end

interpretation ur: paired_index user_role_key role_user_key C_user_role C_role_user
  by unfold_locales auto

interpretation rc: paired_index role_child_key role_parent_key C_role_child C_role_parent
  by unfold_locales auto

interpretation go: paired_index grant_key grant_by_object_key C_grant C_grant_by_object
  by (rule paired_index.intro [OF object_key_inj(1,3)]) (simp_all add: object_keys)

definition security_indexes_ok :: "store \<Rightarrow> bool" where
  "security_indexes_ok s \<longleftrightarrow>
     (\<forall>u r. db_get s (user_role_key u r) \<noteq> None \<longleftrightarrow> db_get s (role_user_key r u) \<noteq> None) \<and>
     (\<forall>p c. db_get s (role_child_key p c) \<noteq> None \<longleftrightarrow> db_get s (role_parent_key c p) \<noteq> None) \<and>
     (\<forall>r ob. db_get s (grant_key r ob) \<noteq> None \<longleftrightarrow> db_get s (grant_by_object_key ob r) \<noteq> None)"

lemma security_indexes_iff: "security_indexes_ok s \<longleftrightarrow> ur.paired s \<and> rc.paired s \<and> go.paired s"
  by (simp only: security_indexes_ok_def ur.paired_def rc.paired_def go.paired_def)

lemma only_next_id_get: "only_next_id s s' \<Longrightarrow> fst k \<noteq> C_next_id \<Longrightarrow> db_get s' k = db_get s k"
  by (auto simp: only_next_id_def next_id_key_def)

lemmas pair_other = ur.paired_other rc.paired_other go.paired_other
lemmas pair_link = ur.paired_link  ur.paired_unlink 
  rc.paired_link  rc.paired_unlink  go.paired_link go.paired_unlink

lemma pair_next_id:
  assumes "only_next_id s s'"
  shows "ur.paired s' \<longleftrightarrow> ur.paired s" "rc.paired s' \<longleftrightarrow> rc.paired s" "go.paired s' \<longleftrightarrow> go.paired s"
  using assms by (auto simp: only_next_id_def next_id_key_def pair_other)

lemma effect_indexes:
  assumes "security_effect fx s s'" "security_indexes_ok s"
  shows "security_indexes_ok s'"
  using assms
proof cases
  case eff_none
  with assms(2) show ?thesis by (simp add: security_indexes_iff pair_next_id)
next
  case (eff_user s1 user now)
  with assms(2) have "ur.paired s1" "rc.paired s1" "go.paired s1"
    by (simp_all add: security_indexes_iff pair_next_id)
  with eff_user(1) show ?thesis
    by (simp add: security_indexes_iff user_sets_def pair_other epoch_key_def pair_link)
next
  case (eff_role s1 role)
  with assms(2) have "ur.paired s1" "rc.paired s1" "go.paired s1"
    by (simp_all add: security_indexes_iff pair_next_id)
  with eff_role(1) show ?thesis
    by (simp add: security_indexes_iff role_sets_def pair_other epoch_key_def owner_key_def)
qed (use assms(2) in \<open>simp add: security_indexes_iff pair_other epoch_key_def pair_link object_keys;
      simp add: pair_link object_keys [symmetric]\<close>)+

lemma counter_other: "counter epoch_key (db_set k v s) = counter epoch_key s"
  "counter epoch_key (db_clear k s) = counter epoch_key s" if "fst k \<noteq> C_security_epoch"
  using that by (auto simp: counter_set counter_clear epoch_key_def)

lemma counter_bumped: "counter epoch_key (bumped s) = counter epoch_key s + 1"
  by (simp add: counter_set)

lemma effect_epoch:
  assumes "security_effect fx s s'"
  shows "(\<forall>k. fst k \<noteq> C_next_id \<longrightarrow> db_get s' k = db_get s k) \<or>
     counter epoch_key s' = counter epoch_key s + 1"
  using assms
proof cases
  case eff_none
  then show ?thesis using only_next_id_get by blast
next
  case (eff_user s1 user now)
  have "counter epoch_key s1 = counter epoch_key s"
    using only_next_id_get [OF eff_user(2), of epoch_key] by (simp add: counter_def epoch_key_def)
  then have "counter epoch_key s' = counter epoch_key s + 1"
    unfolding eff_user(1) counter_bumped by (simp add: user_sets_def counter_other)
  then show ?thesis ..
next
  case (eff_role s1 role)
  have "counter epoch_key s1 = counter epoch_key s"
    using only_next_id_get [OF eff_role(2), of epoch_key] by (simp add: counter_def epoch_key_def)
  then have "counter epoch_key s' = counter epoch_key s + 1"
    unfolding eff_role(1) counter_bumped by (simp add: role_sets_def counter_other owner_key_def)
  then show ?thesis ..
qed (simp_all only: counter_bumped, simp_all add: counter_other object_keys)

subsection \<open>Role inheritance stays acyclic\<close>

definition role_edges :: "store \<Rightarrow> (RoleId \<times> RoleId) set" where
  "role_edges s = {(p, c). db_get s (role_child_key p c) \<noteq> None}"

lemma byte_0_neq_255: "(0 :: byte) \<noteq> 255"
  by simp

lemma wf_role_child_key:
  assumes "store_wf s" "db_get s k = Some v" "fst k = C_role_child"
  shows "\<exists>p c. k = role_child_key p c"
proof -
  from assms(1,2) have "value_ok v k" by (rule store_wfD)
  with assms(3) have "map is_int (snd k) = replicate 2 True"
    by (cases v) (auto simp: object_keys numeral_2_eq_2)
  from map_is_int_all [OF this] obtain ns where ns: "snd k = map TInt ns" "length ns = 2" by blast
  then obtain p c where "ns = [p, c]" by (auto simp: numeral_2_eq_2 length_Suc_conv)
  then have "k = role_child_key p c" using ns assms(3) by (cases k) simp
  then show ?thesis by blast
qed

lemma bfs_child_ok: "bfs_child fx s (role_child_key p c, v) = Ok x \<Longrightarrow> x = c"
  using unpack_int_key(1) [of "[p, c]" 2 fx C_role_child]
  by (auto simp: bfs_child_def and_then_Inr_iff split: option.splits)

text \<open>A search that finishes has seen everything below the child, and never the parent.\<close>

lemma bfs_unreachable:
  assumes "role_bfs fx s p seen q = Ok ()"
    and "\<And>a cs. bfs_children fx s a = Ok cs \<Longrightarrow> set cs = {b. (a, b) \<in> role_edges s}"
    and "p \<notin> set seen" "\<forall>x \<in> set seen. \<forall>y. (x, y) \<in> role_edges s \<longrightarrow> y \<in> set seen \<union> fst ` set q"
    and "x \<in> set seen \<union> fst ` set q"
  shows "(x, p) \<notin> (role_edges s)\<^sup>*"
  using assms
proof (induction fx s p seen q arbitrary: x rule: role_bfs.induct)
  case (1 fx s p seen)
  have "y \<in> set seen" if "(x, y) \<in> (role_edges s)\<^sup>*" for y
    using that by (induction rule: rtrancl_induct) (use 1 in auto)
  with 1(3) show ?case by blast
next
  case (2 fx s p seen r depth queue)
  show ?case
  proof (cases "r \<in> set seen")
    case True
    show ?thesis
    proof (rule 2(1))
      show "role_bfs fx s p seen queue = Ok ()" using 2(3) True by (simp split: if_splits)
      show "\<forall>x \<in> set seen. \<forall>y. (x, y) \<in> role_edges s \<longrightarrow> y \<in> set seen \<union> fst ` set queue"
        using 2(6) True by auto
      show "x \<in> set seen \<union> fst ` set queue" using 2(7) True by auto
    qed (use 2(3,4,5) True in \<open>auto split: if_splits\<close>)
  next
    case False
    with 2(3) obtain cs where cs: "bfs_children fx s r = Ok cs" and d: "\<not> 64 < depth" "r \<noteq> p"
      and run: "role_bfs fx s p (r # seen) (queue @ map (\<lambda>c. (c, depth + 1)) cs) = Ok ()"
      by (auto split: if_splits sum.splits)
    have q: "fst ` set (queue @ map (\<lambda>c. (c, depth + 1)) cs) = fst ` set queue \<union> set cs" by force
    show ?thesis
    proof (rule 2(2) [OF d(1) False d(2) cs run])
      show "\<forall>x \<in> set (r # seen). \<forall>y. (x, y) \<in> role_edges s \<longrightarrow>
          y \<in> set (r # seen) \<union> fst ` set (queue @ map (\<lambda>c. (c, depth + 1)) cs)"
        unfolding q using 2(6) 2(4) [OF cs] by auto
      show "x \<in> set (r # seen) \<union> fst ` set (queue @ map (\<lambda>c. (c, depth + 1)) cs)"
        unfolding q using 2(7) by auto
    qed (use 2(4,5) d in auto)
  qed
qed

context fdb_client
begin

lemma pack_has_zero: "0 \<in> set (fdb_pack fx (c, es))"
proof -
  have "prefix (fdb_pack fx (c, [])) (fdb_pack fx (c, es))"
    using tuple_layer.pk_prefix [OF layout, of c "[]" c es] by simp
  moreover have "0 \<in> set (fdb_pack fx (c, []))"
    using tuple_layer.pk_last_tag [OF layout, of c] tuple_layer.pk_nonempty [OF layout] last_in_set by metis
  ultimately show ?thesis using set_mono_prefix by blast
qed

lemma prefix_end_covers:
  "in_range fx (fdb_pack fx (int_key c ns)) (prefix_end (fdb_pack fx (int_key c ns))) k \<longleftrightarrow>
     fst k = c \<and> prefix (map TInt ns) (snd k)"
  "\<not> prefix_end (fdb_pack fx (int_key c ns)) < fdb_pack fx (int_key c ns)"
proof -
  let ?p = "fdb_pack fx (int_key c ns)"
  obtain j where "?p = strip_ff ?p @ replicate j 255" using strip_ff_decomp by blast
  then have "strip_ff ?p \<noteq> []" using pack_has_zero [of c "map TInt ns"]
    by (metis append_Nil in_set_replicate byte_0_neq_255)
  note r = prefix_end_range [OF this]
  show "in_range fx ?p (prefix_end ?p) k \<longleftrightarrow> fst k = c \<and> prefix (map TInt ns) (snd k)"
    using r [of "fdb_pack fx k"] tuple_layer.pk_prefix [OF layout, of c ns "fst k" "snd k"]
    by (auto simp: in_range_def)
  show "\<not> prefix_end ?p < ?p" using r [of ?p] by auto
qed

lemma children_exact:
  assumes "store_wf s" "db_size s \<le> lim" "bfs_children fx s a = Ok cs"
  shows "set cs = {b. (a, b) \<in> role_edges s}"
proof -
  obtain kvs where kvs: "trx_get_range fx (fdb_pack fx (C_role_child, [TInt a]))
      (prefix_end (fdb_pack fx (C_role_child, [TInt a]))) s = Ok kvs"
    "set kvs = {(k, v). db_get s k = Some v \<and> fst k = C_role_child \<and> prefix (map TInt [a]) (snd k)}"
    using scan_run [OF prefix_end_covers(2) assms(2), of C_role_child "[a]"]
      prefix_end_covers(1) [of C_role_child "[a]"] by auto
  have l: "list_all2 (\<lambda>kv c. bfs_child fx s kv = Ok c) kvs cs"
    using assms(3) kvs(1) by (simp add: bfs_children_def Let_def collect_results_Inr_iff)
  have key: "\<exists>b v. kv = (role_child_key a b, v)" if "kv \<in> set kvs" for kv
  proof -
    obtain k v where kv: "kv = (k, v)" by fastforce
    with that kvs(2) have k: "db_get s k = Some v" "fst k = C_role_child" "prefix [TInt a] (snd k)" by simp_all
    from wf_role_child_key [OF assms(1) k(1,2)] obtain p c where "k = role_child_key p c" by blast
    with kv k(3) show ?thesis by simp
  qed
  have "b \<in> set cs \<longleftrightarrow> (\<exists>v. (role_child_key a b, v) \<in> set kvs)" for b
  proof
    assume "b \<in> set cs"
    then obtain i where i: "i < length cs" "cs ! i = b" by (auto simp: in_set_conv_nth)
    with l have i': "i < length kvs" "bfs_child fx s (kvs ! i) = Ok b"
      by (auto simp: list_all2_conv_all_nth)
    then obtain b' v where "kvs ! i = (role_child_key a b', v)" using key nth_mem by blast
    with i' bfs_child_ok show "\<exists>v. (role_child_key a b, v) \<in> set kvs" by (metis nth_mem)
  next
    assume "\<exists>v. (role_child_key a b, v) \<in> set kvs"
    then obtain v i where i: "i < length kvs" "kvs ! i = (role_child_key a b, v)" by (auto simp: in_set_conv_nth)
    with l have "i < length cs" "bfs_child fx s (kvs ! i) = Ok (cs ! i)"
      by (auto simp: list_all2_conv_all_nth)
    with i bfs_child_ok show "b \<in> set cs" by (metis nth_mem)
  qed
  then show ?thesis using kvs(2) by (auto simp: role_edges_def)
qed

end
end
