(* ===== verification/Meta_Security_Props.thy ===== *)
theory Meta_Security_Props
  imports Meta_Security
begin

text \<open>
  The properties of the security store: uniqueness of user names, the invariant of every
  reachable state, the security epoch, acyclic role inheritance, the effect of grants and
  revocations on privileges, and the bootstrap.
\<close>

subsection \<open>Names\<close>

definition user_names_ok :: "store \<Rightarrow> bool" where
  "user_names_ok s \<longleftrightarrow>
     (\<forall>u d. db_get s (user_key u) = Some (VUser d) \<longrightarrow>
        db_get s (user_by_name_key (normalize_ident (usr_name d))) = Some (u64_bytes u)) \<and>
     (\<forall>n v. db_get s (user_by_name_key n) = Some v \<longrightarrow>
        (\<exists>d. v = u64_bytes (usr_id d) \<and> db_get s (user_key (usr_id d)) = Some (VUser d) \<and>
             normalize_ident (usr_name d) = n))"

lemma user_namesD:
  assumes "user_names_ok s"
  shows "db_get s (user_key u) = Some (VUser d) \<Longrightarrow>
      db_get s (user_by_name_key (normalize_ident (usr_name d))) = Some (u64_bytes u)"
    and "db_get s (user_by_name_key n) = Some v \<Longrightarrow>
      \<exists>d. v = u64_bytes (usr_id d) \<and> db_get s (user_key (usr_id d)) = Some (VUser d) \<and>
             normalize_ident (usr_name d) = n"
  using assms unfolding user_names_ok_def by blast+

lemma user_names_same:
  assumes "\<And>k. fst k = C_user \<or> fst k = C_user_by_name \<Longrightarrow> db_get s' k = db_get s k" "user_names_ok s"
  shows "user_names_ok s'"
  using assms by (simp add: user_names_ok_def)

lemma user_sets_get:
  "fst k = C_user \<or> fst k = C_user_by_name \<Longrightarrow>
   db_get (bumped (apply_sets (user_sets now n user) s)) k =
     (if k = user_key (usr_id user) then Some (VUser user)
      else if k = user_by_name_key n then Some (u64_bytes (usr_id user)) else db_get s k)"
  by (auto simp: user_sets_def epoch_key_def)

lemma effect_user_names:
  assumes "security_effect fx s s'" "user_names_ok s" "store_wf s"
  shows "user_names_ok s'"
  using assms(1)
proof cases
  case eff_none
  have "db_get s' k = db_get s k" if "fst k = C_user \<or> fst k = C_user_by_name" for k
    using that only_next_id_get [OF eff_none, of k] by auto
  then show ?thesis using assms(2) by (rule user_names_same)
next
  case (eff_user s1 user now)
  let ?n = "normalize_ident (usr_name user)" and ?u = "usr_id user"
  have get: "db_get s' k = (if k = user_key ?u then Some (VUser user)
      else if k = user_by_name_key ?n then Some (u64_bytes ?u) else db_get s k)"
    if "fst k = C_user \<or> fst k = C_user_by_name" for k
  proof -
    have "db_get s1 k = db_get s k" using that only_next_id_get [OF eff_user(2), of k] by auto
    then show ?thesis by (simp only: eff_user(1) user_sets_get [OF that])
  qed
  have fresh: "db_get s (user_key ?u) = None" "db_get s (user_by_name_key ?n) = None"
    using eff_user(3,4) only_next_id_get [OF eff_user(2)] by simp_all
  have "db_get s' (user_by_name_key (normalize_ident (usr_name d))) = Some (u64_bytes u)"
    if "db_get s' (user_key u) = Some (VUser d)" for u d
  proof (cases "u = ?u")
    case True
    with that show ?thesis by (simp add: get)
  next
    case False
    with that have "db_get s (user_key u) = Some (VUser d)" by (simp add: get)
    then have "db_get s (user_by_name_key (normalize_ident (usr_name d))) = Some (u64_bytes u)"
      by (rule user_namesD [OF assms(2)])
    with fresh(2) show ?thesis by (auto simp: get)
  qed
  moreover have "\<exists>d. v = u64_bytes (usr_id d) \<and> db_get s' (user_key (usr_id d)) = Some (VUser d) \<and>
             normalize_ident (usr_name d) = n" if v: "db_get s' (user_by_name_key n) = Some v" for n v
  proof (cases "n = ?n")
    case True
    with v show ?thesis by (intro exI [of _ user]) (simp add: get)
  next
    case False
    with v have "db_get s (user_by_name_key n) = Some v" by (simp add: get)
    from user_namesD(2) [OF assms(2) this] obtain d where d: "v = u64_bytes (usr_id d)"
      "db_get s (user_key (usr_id d)) = Some (VUser d)" "normalize_ident (usr_name d) = n" by blast
    with fresh(1) have "usr_id d \<noteq> ?u" by auto
    with d show ?thesis by (intro exI [of _ d]) (simp add: get)
  qed
  ultimately show ?thesis by (simp add: user_names_ok_def)
next
  case (eff_role s1 role)
  have "db_get s' k = db_get s k" if "fst k = C_user \<or> fst k = C_user_by_name" for k
    using that only_next_id_get [OF eff_role(2), of k] unfolding eff_role(1)
    by (auto simp: role_sets_def epoch_key_def owner_key_def)
  then show ?thesis using assms(2) by (rule user_names_same)
qed (rule user_names_same [OF _ assms(2)]; auto simp: epoch_key_def object_keys)+

lemma security_reachable:
  assumes "(security_step fx)\<^sup>*\<^sup>* DAList.empty s"
  shows "store_wf s \<and> security_indexes_ok s \<and> user_names_ok s"
  using assms
proof (induction rule: rtranclp_induct)
  case base
  show ?case by (simp add: store_wf_empty security_indexes_ok_def user_names_ok_def)
next
  case (step s s')
  then have "security_effect fx s s'" by (blast intro: step_effect)
  with step show ?case using effect_wf effect_indexes effect_user_names by blast
qed

subsection \<open>Properties\<close>

definition sample_role :: "RoleId \<Rightarrow> string \<Rightarrow> RoleMeta" where
  "sample_role r n =
     \<lparr>rol_id = r, rol_name = n, rol_owner_role_id = ACCOUNTADMIN_ROLE_ID, rol_system = False,
      rol_created_at = 1, rol_created_by_user_id = ROOT_USER_ID, rol_comment = None\<rparr>"

definition sample_security :: store where
  "sample_security = bumped (apply_sets (role_sets ''accountadmin'' (sample_role 1 ''accountadmin'')) DAList.empty)"

lemma sample_security_run: "create_role sample_fdb (sample_role 1 ''accountadmin'') DAList.empty = (Ok 1, sample_security)"
proof -
  have n: "normalize_ident ''accountadmin'' = ''accountadmin''" by code_simp
  show ?thesis
    by (simp add: create_role_def Let_def op_bind_def get_role_by_name_def n sample_role_def
        role_id_or_next_def id_consts get_role_def get_record_def checked_write_batch_run write_batch_run
        sample_security_def)
qed

lemma sample_security_reachable: "(security_step sample_fdb)\<^sup>*\<^sup>* DAList.empty sample_security"
  using step_create_role [OF sample_security_run] by blast

definition sample_users :: store where
  "sample_users = bumped (apply_sets (user_sets 5 ''root'' (root_user 5)) sample_security)"

lemma root_name: "normalize_ident ''root'' = ''root''" "normalize_ident ''ROOT'' = ''root''"
  "usr_name (root_user n) = ''root''"
  by (code_simp, code_simp, simp add: root_user_def)

lemma sample_users_run: "create_user sample_fdb 5 (root_user 5) sample_security = (Ok 1, sample_users)"
proof -
  have none: "db_get sample_security (user_by_name_key ''root'') = None"
    "db_get sample_security (user_key 1) = None"
    and some: "db_get sample_security (role_key 1) = Some (VRole (sample_role 1 ''accountadmin''))"
    by (simp_all add: sample_security_def role_sets_def sample_role_def epoch_key_def owner_key_def)
  have "usr_id (root_user 5) = 1" "usr_default_role_id (root_user 5) = 1"
    and same: "(root_user 5)\<lparr>usr_id := 1\<rparr> = root_user 5" by (simp_all add: root_user_def id_consts)
  then show ?thesis
    using none some
    by (simp add: same create_user_def Let_def op_bind_def get_user_by_name_def root_name user_id_or_next_def
        get_user_def get_role_def get_record_def deserialize_def checked_write_batch_run write_batch_run
        sample_users_def)
qed

lemma sample_users_reachable: "(security_step sample_fdb)\<^sup>*\<^sup>* DAList.empty sample_users"
  using sample_security_reachable step_create_user [OF sample_users_run]
  by (rule rtranclp.rtrancl_into_rtrancl)

text \<open>
  C14. Security indexes. In every state the security operations can reach, each role membership,
  each inheritance edge and each grant is recorded under its forward key if and only if it is
  recorded under its reverse key, every record stands under the key it belongs to, and user
  names and user records determine each other.
\<close>

theorem security_state_invariant:
  assumes "(security_step fx)\<^sup>*\<^sup>* DAList.empty s"
  shows "store_wf s \<and> security_indexes_ok s \<and> user_names_ok s"
  using assms by (rule security_reachable)

theorem security_state_invariant_witness:
  "security_indexes_ok sample_security \<and> db_get sample_security (role_key 1) \<noteq> None"
  using security_state_invariant [OF sample_security_reachable]
  by (simp add: sample_security_def role_sets_def sample_role_def epoch_key_def owner_key_def)

text \<open>
  C15. Epoch. Whatever security operation runs, successfully or not, either nothing but an
  identifier counter has changed or the security epoch has been increased by one: a cached
  decision tagged with an epoch is never used across a change of security metadata.
\<close>

theorem security_epoch_guards_changes:
  assumes "store_wf s" "security_step fx s s'"
  shows "(\<forall>k. fst k \<noteq> C_next_id \<longrightarrow> db_get s' k = db_get s k) \<or>
    (\<exists>n. security_epoch s = Ok n \<and> security_epoch s' = Ok (n + 1))"
  using effect_epoch [OF step_effect [OF assms]] by (simp add: security_epoch_def)

theorem security_epoch_guards_changes_witness:
  "\<exists>n. security_epoch DAList.empty = Ok n \<and> security_epoch sample_security = Ok (n + 1)"
proof -
  have "db_get sample_security (role_key 1) \<noteq> db_get DAList.empty (role_key 1)"
    by (simp add: sample_security_def role_sets_def sample_role_def epoch_key_def owner_key_def)
  then show ?thesis
    using security_epoch_guards_changes [OF store_wf_empty step_create_role [OF sample_security_run]]
    by fastforce
qed

text \<open>
  Users by name. In every reachable state a lookup by name finds exactly the user whose
  normalised name it is, and no two users share a normalised name.
\<close>

theorem user_lookup_by_name:
  assumes "(security_step fx)\<^sup>*\<^sup>* DAList.empty s"
  shows "get_user_by_name name s = Ok (Some d) \<longleftrightarrow>
     get_user (usr_id d) s = Ok (Some d) \<and> normalize_ident (usr_name d) = normalize_ident name"
proof -
  have inv: "store_wf s" "user_names_ok s" using security_reachable [OF assms] by blast+
  have user: "get_user u s = Ok (Some d) \<longleftrightarrow> db_get s (user_key u) = Some (VUser d)" for u
    by (simp add: get_user_def get_record_Some_iff as_iff)
  show ?thesis
  proof
    assume "get_user_by_name name s = Ok (Some d)"
    then obtain v where v: "db_get s (user_by_name_key (normalize_ident name)) = Some v"
      "get_user (lenient_u64 v) s = Ok (Some d)"
      by (auto simp: get_user_by_name_def split: option.splits)
    from user_namesD(2) [OF inv(2) v(1)] obtain d' where "v = u64_bytes (usr_id d')"
      "db_get s (user_key (usr_id d')) = Some (VUser d')"
      "normalize_ident (usr_name d') = normalize_ident name" by blast
    with v(2) show "get_user (usr_id d) s = Ok (Some d) \<and> normalize_ident (usr_name d) = normalize_ident name"
      by (simp add: user)
  next
    assume "get_user (usr_id d) s = Ok (Some d) \<and> normalize_ident (usr_name d) = normalize_ident name"
    moreover from this have "db_get s (user_by_name_key (normalize_ident name)) = Some (u64_bytes (usr_id d))"
      using user_namesD(1) [OF inv(2), of "usr_id d" d] by (simp add: user)
    ultimately show "get_user_by_name name s = Ok (Some d)" by (simp add: get_user_by_name_def)
  qed
qed

theorem user_lookup_by_name_witness:
  "get_user_by_name ''ROOT'' sample_users = Ok (Some (root_user 5))"
proof -
  have "db_get sample_users (user_key (usr_id (root_user 5))) = Some (VUser (root_user 5))"
    unfolding sample_users_def by (subst user_sets_get) simp_all
  then have "get_user (usr_id (root_user 5)) sample_users = Ok (Some (root_user 5))"
    by (simp only: get_user_def get_record_Some_iff as_iff) simp
  then show ?thesis
    using user_lookup_by_name [OF sample_users_reachable, of "''ROOT''" "root_user 5"]
    by (simp only: root_name simp_thms)
qed

lemma role_edges_link:
  "role_edges (bumped (db_set (role_parent_key c p) w (db_set (role_child_key p c) v s))) =
     insert (p, c) (role_edges s)"
  by (auto simp: role_edges_def epoch_key_def split: if_splits)

definition sample_roles :: store where
  "sample_roles = apply_sets
     [(role_key 1, VRole (sample_role 1 ''accountadmin'')), (role_key 2, VRole (sample_role 2 ''analyst'')),
      (role_child_key 1 2, VRoleGrant \<lparr>rg_granted_by_role_id = 1, rg_created_at = 3\<rparr>),
      (role_parent_key 2 1, VBytes [])] DAList.empty"

text \<open>
  C13. Inheritance. Granting a role to a role keeps the inheritance relation acyclic; when it
  succeeds exactly the new edge is added, and when the parent can already be reached from the
  child the grant is refused and nothing changes.
\<close>

theorem grant_role_keeps_acyclic:
  assumes "fdb_client fx lim" "store_wf s" "db_size s \<le> lim" "acyclic (role_edges s)"
    and "grant_role_to_role fx now p c g s = (res, s')"
  shows "acyclic (role_edges s') \<and> (res = Ok () \<longrightarrow> role_edges s' = insert (p, c) (role_edges s)) \<and>
     ((c, p) \<in> (role_edges s)\<^sup>* \<longrightarrow> (\<exists>e. res = Err e \<and> s' = s))"
  using assms(2,5)
proof (cases rule: grant_role_cases)
  case (kept e)
  then show ?thesis using assms(4) by simp
next
  case linked
  have "(c, p) \<notin> (role_edges s)\<^sup>*"
    by (rule bfs_unreachable [OF linked(3) fdb_client.children_exact [OF assms(1-3)]]) simp_all
  moreover have "role_edges s' = insert (p, c) (role_edges s)"
    unfolding linked(6) by (rule role_edges_link)
  ultimately show ?thesis using assms(4) by (simp add: acyclic_insert)
qed

theorem grant_role_keeps_acyclic_witness:
  "\<exists>res s'. grant_role_to_role sample_fdb 9 2 1 1 sample_roles = (res, s') \<and> acyclic (role_edges s') \<and>
     (\<exists>e. res = Err e \<and> s' = sample_roles)"
proof -
  obtain res s' where run: "grant_role_to_role sample_fdb 9 2 1 1 sample_roles = (res, s')" by fastforce
  have edges: "role_edges sample_roles = {(1, 2)}"
    by (auto simp: role_edges_def sample_roles_def split: if_splits)
  have size: "db_size sample_roles \<le> 100"
    using db_size_apply_sets [of _ DAList.empty] by (simp add: sample_roles_def DAList.update.rep_eq DAList.empty.rep_eq)
  have wf: "store_wf sample_roles"
    unfolding sample_roles_def by (rule store_wf_sets [OF store_wf_empty]) (simp add: sample_role_def)
  have "acyclic (role_edges sample_roles)" by (simp add: edges acyclic_insert wf_acyclic)
  note acyc = grant_role_keeps_acyclic [OF sample_client wf size this run]
  have "(1, 2) \<in> (role_edges sample_roles)\<^sup>*" by (simp add: edges r_into_rtrancl)
  with acyc run show ?thesis by (intro exI [of _ res] exI [of _ s'] conjI) blast+
qed

definition holds_privilege :: "store \<Rightarrow> RoleId \<Rightarrow> ObjectRef \<Rightarrow> SecurityPrivilege \<Rightarrow> bool" where
  "holds_privilege s r ob p =
     (case get_grant r ob s of Ok (Some g) \<Rightarrow> ps_contains (gr_privileges g) p | _ \<Rightarrow> False)"

lemma holds_privilege_get:
  "holds_privilege s r ob p =
     (case db_get s (grant_key r ob) of Some (VGrant g) \<Rightarrow> ps_contains (gr_privileges g) p | _ \<Rightarrow> False)"
  by (auto simp: holds_privilege_def get_grant_def get_record_def deserialize_def as_grant_def
      split: option.split "value.split")

lemma ps_contains_or:
  "ps_bits d = ps_bits a OR ps_bits b \<Longrightarrow> ps_contains d p \<longleftrightarrow> ps_contains a p \<or> ps_contains b p"
  by (simp add: ps_contains_bit bit_or_iff)

lemma ps_contains_and_not:
  "ps_bits d = ps_bits a AND NOT (ps_bits b) \<Longrightarrow> ps_contains d p \<longleftrightarrow> ps_contains a p \<and> \<not> ps_contains b p"
  using privilege_index_bound [of p] by (auto simp: ps_contains_bit bit_and_iff bit_not_iff)

lemma ps_contains_zero: "ps_bits d = 0 \<Longrightarrow> \<not> ps_contains d p"
  by (simp add: ps_contains_bit)

lemma grant_privileges_effect:
  assumes "store_wf s" "atomic_grant_privileges fx now g s = (res, s')"
  shows "holds_privilege s' r ob p \<longleftrightarrow>
     holds_privilege s r ob p \<or> (r = gr_role_id g \<and> ob = gr_object g \<and> ps_contains (gr_privileges g) p)"
  using assms
proof (cases rule: grant_priv_cases)
  case kept
  show ?thesis
  proof (cases "ps_bits (gr_privileges g) = 0")
    case True
    then show ?thesis using kept(1) ps_contains_zero by auto
  next
    case False
    with kept(3) obtain old where old: "db_get s (grant_key (gr_role_id g) (gr_object g)) = Some (VGrant old)"
      "ps_bits (gr_privileges old) = ps_bits (gr_privileges old) OR ps_bits (gr_privileges g)" by auto
    show ?thesis using ps_contains_or [OF old(2), of p] old(1) kept(1) by (auto simp: holds_privilege_get)
  qed
next
  case (merged d)
  have other: "db_get s' (grant_key r ob) =
      (if r = gr_role_id g \<and> ob = gr_object g then Some (VGrant d) else db_get s (grant_key r ob))"
    unfolding merged(5) by (simp add: object_key_inj go.keys_apart) (simp add: epoch_key_def grant_key_def)
  show ?thesis
  proof (cases "r = gr_role_id g \<and> ob = gr_object g")
    case True
    have "ps_contains (gr_privileges d) p \<longleftrightarrow> holds_privilege s r ob p \<or> ps_contains (gr_privileges g) p"
      using merged(4) True
      by (auto simp: holds_privilege_get ps_contains_bit bit_or_iff split: option.split "value.split")
    with True other show ?thesis by (simp add: holds_privilege_get)
  next
    case False
    with other have "db_get s' (grant_key r ob) = db_get s (grant_key r ob)" by simp
    then show ?thesis using False by (auto simp: holds_privilege_get)
  qed
qed

lemma revoke_privileges_effect:
  assumes "store_wf s" "atomic_revoke_privileges fx r ob ps s = (res, s')"
  shows "holds_privilege s' r' ob' p \<longleftrightarrow>
     holds_privilege s r' ob' p \<and> \<not> (r' = r \<and> ob' = ob \<and> ps_contains ps p)"
  using assms
proof (cases rule: revoke_priv_cases)
  case kept
  have "\<not> ps_contains ps p" if "holds_privilege s r ob p"
  proof -
    from that obtain old where old: "db_get s (grant_key r ob) = Some (VGrant old)" "ps_contains (gr_privileges old) p"
      by (auto simp: holds_privilege_get split: option.splits "value.splits")
    with kept(3) have "ps_bits (gr_privileges old) = ps_bits (gr_privileges old) AND NOT (ps_bits ps)" by simp
    from ps_contains_and_not [OF this] old(2) show ?thesis by blast
  qed
  with kept(1) show ?thesis by auto
next
  case (cleared old)
  have other: "db_get s' (grant_key r' ob') = (if r' = r \<and> ob' = ob then None else db_get s (grant_key r' ob'))"
    unfolding cleared(4) by (simp add: object_key_inj go.keys_apart) (simp add: epoch_key_def grant_key_def)
  have "ps_contains ps p" if "ps_contains (gr_privileges old) p"
    using ps_contains_and_not [of "\<lparr>ps_bits = 0\<rparr>" "gr_privileges old" ps p] cleared(3) that
      ps_contains_zero [of "\<lparr>ps_bits = 0\<rparr>" p] by simp
  with other cleared(2) show ?thesis
    by (cases "r' = r \<and> ob' = ob") (simp_all add: holds_privilege_get, auto)
next
  case (shrunk old d)
  have other: "db_get s' (grant_key r' ob') =
      (if r' = r \<and> ob' = ob then Some (VGrant d) else db_get s (grant_key r' ob'))"
    unfolding shrunk(6) by (simp add: object_key_inj go.keys_apart) (simp add: epoch_key_def grant_key_def)
  show ?thesis
    using other shrunk(2) ps_contains_and_not [OF shrunk(5), of p]
    by (cases "r' = r \<and> ob' = ob") (simp_all add: holds_privilege_get, auto)
qed

text \<open>
  C16. Privileges. A successful grant gives the role exactly the granted privileges on the
  object in addition to those it had, a revocation takes exactly the named privileges away,
  and neither touches another role's privileges or another object's.
\<close>

theorem privileges_follow_grants:
  assumes "store_wf s"
  shows "(grant_privileges fx now g s = (Ok (), s1) \<longrightarrow>
       (holds_privilege s1 r ob p \<longleftrightarrow> holds_privilege s r ob p \<or>
          (r = gr_role_id g \<and> ob = gr_object g \<and> ps_contains (gr_privileges g) p))) \<and>
     (revoke_privileges fx r2 ob2 ps s = (Ok (), s2) \<longrightarrow>
       (holds_privilege s2 r ob p \<longleftrightarrow> holds_privilege s r ob p \<and>
          \<not> (r = r2 \<and> ob = ob2 \<and> ps_contains ps p)))"
proof (intro conjI impI)
  assume "grant_privileges fx now g s = (Ok (), s1)"
  then have "atomic_grant_privileges fx now g s = (Ok (), s1)" by (cases rule: grant_privileges_cases) auto
  from grant_privileges_effect [OF assms this]
  show "holds_privilege s1 r ob p \<longleftrightarrow> holds_privilege s r ob p \<or>
          (r = gr_role_id g \<and> ob = gr_object g \<and> ps_contains (gr_privileges g) p)" .
next
  assume "revoke_privileges fx r2 ob2 ps s = (Ok (), s2)"
  then show "holds_privilege s2 r ob p \<longleftrightarrow> holds_privilege s r ob p \<and>
          \<not> (r = r2 \<and> ob = ob2 \<and> ps_contains ps p)"
    using revoke_privileges_effect [OF assms] by (simp add: revoke_privileges_def)
qed

theorem privileges_follow_grants_witness:
  "\<exists>s1. grant_privileges sample_fdb 4
      \<lparr>gr_role_id = 2, gr_object = object_ref OT_Table 7, gr_privileges = from_privileges [SP_Select],
       gr_grant_options = ps_empty, gr_granted_by_role_id = 1, gr_updated_at = 4\<rparr> sample_roles = (Ok (), s1) \<and>
     holds_privilege s1 2 (object_ref OT_Table 7) SP_Select"
proof -
  let ?g = "\<lparr>gr_role_id = 2, gr_object = object_ref OT_Table 7, gr_privileges = from_privileges [SP_Select],
       gr_grant_options = ps_empty, gr_granted_by_role_id = 1, gr_updated_at = 4\<rparr>"
  have wf: "store_wf sample_roles"
    unfolding sample_roles_def by (rule store_wf_sets [OF store_wf_empty]) (simp add: sample_role_def)
  obtain res s1 where run: "grant_privileges sample_fdb 4 ?g sample_roles = (res, s1)" by fastforce
  then have "res = Ok ()"
    by (auto simp: grant_privileges_def op_bind_def get_role_def get_record_def deserialize_def sample_roles_def
        atomic_grant_privileges_def db_run_def bump_lenient_def Let_def grant_key_def split: if_splits)
  moreover have "ps_contains (from_privileges [SP_Select]) SP_Select"
    by (simp add: ps_contains_def from_privileges_def privilege_bit_def)
  ultimately show ?thesis using run privileges_follow_grants [OF wf, of sample_fdb 4 ?g s1] by auto
qed

subsection \<open>Bootstrap\<close>

lemma create_role_run:
  assumes "db_get s (role_key (rol_id role)) = None"
    "db_get s (role_by_name_key (normalize_ident (normalize_ident (rol_name role)))) = None"
    "db_get s (role_by_name_key (normalize_ident (rol_name role))) = None"
    "rol_id role = ACCOUNTADMIN_ROLE_ID \<or> (\<exists>d. db_get s (role_key (rol_owner_role_id role)) = Some (VRole d))"
    "rol_id role \<noteq> 0"
  shows "create_role fx role s =
     (Ok (rol_id role), bumped (apply_sets (role_sets (normalize_ident (rol_name role)) role) s))"
proof -
  have same: "role\<lparr>rol_id := x\<rparr> = role" if "rol_id role = x" for x using that by (cases role) simp
  show ?thesis
  using assms
  by (auto simp: same create_role_def Let_def op_bind_def get_role_by_name_def role_id_or_next_def get_role_def
      get_record_def deserialize_def checked_write_batch_run write_batch_run)
qed

lemma create_user_run:
  assumes "db_get s (user_key (usr_id user)) = None"
    "db_get s (user_by_name_key (normalize_ident (normalize_ident (usr_name user)))) = None"
    "db_get s (user_by_name_key (normalize_ident (usr_name user))) = None"
    "db_get s (role_key (usr_default_role_id user)) = Some (VRole d)" "usr_id user \<noteq> 0"
  shows "create_user fx now user s =
     (Ok (usr_id user), bumped (apply_sets (user_sets now (normalize_ident (usr_name user)) user) s))"
proof -
  have same: "user\<lparr>usr_id := x\<rparr> = user" if "usr_id user = x" for x using that by (cases user) simp
  show ?thesis
  using assms
  by (auto simp: same create_user_def Let_def op_bind_def get_user_by_name_def user_id_or_next_def get_user_def
      get_role_def get_record_def deserialize_def checked_write_batch_run write_batch_run)
qed

lemma grant_user_kept:
  assumes "db_get s (user_key u) \<noteq> None" "db_get s (role_key r) \<noteq> None" "db_get s (role_key g) \<noteq> None"
    "db_get s (user_role_key u r) \<noteq> None"
  shows "grant_role_to_user fx now u r g s = (Ok (), s)"
  using assms by (simp add: grant_role_to_user_def atomic_grant_role_to_user_def db_run_def)

lemma bootstrap_names:
  "normalize_ident ''ACCOUNTADMIN'' = ''accountadmin''" "normalize_ident ''accountadmin'' = ''accountadmin''"
  "normalize_ident ''PUBLIC'' = ''public''" "normalize_ident ''public'' = ''public''"
  by code_simp+

definition bootstrapped :: "Timestamp \<Rightarrow> store" where
  "bootstrapped now =
     bumped (db_set (owner_key (own_object (account_owner now))) (VOwner (account_owner now))
       (bumped (apply_sets (user_sets now ''root'' (root_user now))
         (bumped (apply_sets (role_sets ''public'' (public_role now))
           (bumped (apply_sets (role_sets ''accountadmin'' (accountadmin_role now)) DAList.empty)))))))"

text \<open>A store that already holds the built-in objects is left alone.\<close>

lemma bootstrap_kept:
  assumes "db_get s (role_key ACCOUNTADMIN_ROLE_ID) = Some (VRole a)"
    "db_get s (role_key PUBLIC_ROLE_ID) = Some (VRole b)"
    "db_get s (user_key ROOT_USER_ID) = Some (VUser c)"
    "db_get s (user_role_key ROOT_USER_ID ACCOUNTADMIN_ROLE_ID) \<noteq> None"
    "db_get s (user_role_key ROOT_USER_ID PUBLIC_ROLE_ID) \<noteq> None"
    "db_get s (owner_key (object_ref OT_Account ACCOUNT_OBJECT_ID)) = Some (VOwner d)"
  shows "bootstrap_security fx now s = (Ok (), s)"
proof -
  have roles: "bootstrap_role fx (accountadmin_role now) s = (Ok (), s)"
    "bootstrap_role fx (public_role now) s = (Ok (), s)"
    using assms(1,2) by (simp_all add: bootstrap_role_def op_bind_def accountadmin_role_def public_role_def
        get_role_def get_record_def deserialize_def)
  have grants: "grant_role_to_user fx now ROOT_USER_ID ACCOUNTADMIN_ROLE_ID ACCOUNTADMIN_ROLE_ID s = (Ok (), s)"
    "grant_role_to_user fx now ROOT_USER_ID PUBLIC_ROLE_ID ACCOUNTADMIN_ROLE_ID s = (Ok (), s)"
    using assms by (simp_all add: grant_user_kept)
  show ?thesis
    using assms(3,6)
    by (simp add: bootstrap_security_def op_bind_def roles grants get_user_def get_object_owner_def
        get_record_def deserialize_def)
qed

lemma bootstrapped_get:
  "db_get (bootstrapped now) (role_key ACCOUNTADMIN_ROLE_ID) = Some (VRole (accountadmin_role now))"
  "db_get (bootstrapped now) (role_key PUBLIC_ROLE_ID) = Some (VRole (public_role now))"
  "db_get (bootstrapped now) (user_key ROOT_USER_ID) = Some (VUser (root_user now))"
  "db_get (bootstrapped now) (user_role_key ROOT_USER_ID ACCOUNTADMIN_ROLE_ID) = Some (public_grant now)"
  "db_get (bootstrapped now) (user_role_key ROOT_USER_ID PUBLIC_ROLE_ID) = Some (public_grant now)"
  "db_get (bootstrapped now) (owner_key (object_ref OT_Account ACCOUNT_OBJECT_ID)) = Some (VOwner (account_owner now))"
  by (simp_all add: bootstrapped_def user_sets_def role_sets_def epoch_key_def owner_key_def account_owner_def
      accountadmin_role_def public_role_def root_user_def role_owner_def object_ref_def id_consts)

lemma bootstrap_empty: "bootstrap_security fx now DAList.empty = (Ok (), bootstrapped now)"
proof -
  let ?s1 = "bumped (apply_sets (role_sets ''accountadmin'' (accountadmin_role now)) DAList.empty)"
  let ?s2 = "bumped (apply_sets (role_sets ''public'' (public_role now)) ?s1)"
  let ?s3 = "bumped (apply_sets (user_sets now ''root'' (root_user now)) ?s2)"
  note flds = accountadmin_role_def public_role_def root_user_def id_consts
  note gets = role_sets_def user_sets_def epoch_key_def owner_key_def role_owner_def object_ref_def
  have 1: "bootstrap_role fx (accountadmin_role now) DAList.empty = (Ok (), ?s1)"
    using create_role_run [of DAList.empty "accountadmin_role now" fx]
    by (simp add: bootstrap_role_def op_bind_def get_role_def get_record_def bootstrap_names flds)
  have admin: "db_get ?s1 (role_key 1) = Some (VRole (accountadmin_role now))"
    and no_public: "db_get ?s1 (role_key 2) = None" "db_get ?s1 (role_by_name_key ''public'') = None"
    by (simp_all add: gets flds)
  have 2: "bootstrap_role fx (public_role now) ?s1 = (Ok (), ?s2)"
    using create_role_run [of ?s1 "public_role now" fx] admin no_public
    by (simp add: bootstrap_role_def op_bind_def get_role_def get_record_def bootstrap_names
        public_role_def id_consts del: db_get_set)
  have s2: "db_get ?s2 (role_key 1) = Some (VRole (accountadmin_role now))" "db_get ?s2 (user_key 1) = None"
    "db_get ?s2 (user_by_name_key ''root'') = None" by (simp_all add: gets flds)
  have 3: "create_user fx now (root_user now) ?s2 = (Ok 1, ?s3)"
    using create_user_run [of ?s2 "root_user now" _ fx now] s2
    by (simp add: root_name root_user_def id_consts del: db_get_set)
  have s3: "db_get ?s3 (role_key 1) = Some (VRole (accountadmin_role now))"
    "db_get ?s3 (role_key 2) = Some (VRole (public_role now))" "db_get ?s3 (user_key 1) = Some (VUser (root_user now))"
    "db_get ?s3 (user_role_key 1 1) = Some (public_grant now)" "db_get ?s3 (user_role_key 1 2) = Some (public_grant now)"
    "db_get ?s3 (owner_key (object_ref OT_Account 0)) = None" by (simp_all add: gets flds)
  have 4: "grant_role_to_user fx now 1 1 1 ?s3 = (Ok (), ?s3)" "grant_role_to_user fx now 1 2 1 ?s3 = (Ok (), ?s3)"
    using s3 by (simp_all add: grant_user_kept del: db_get_set)
  have 5: "set_object_owner fx (account_owner now) ?s3 = (Ok (), bootstrapped now)"
    using s3(1)
    by (simp add: set_object_owner_def op_bind_def get_role_def get_record_def deserialize_def account_owner_def
        id_consts write_batch_run bootstrapped_def Let_def del: db_get_set)
  have 6: "get_user 1 ?s2 = Ok None" "get_object_owner (object_ref OT_Account 0) ?s3 = Ok None"
    using s2(2) s3(6) by (simp_all only: get_user_def get_object_owner_def get_record_None_iff)
  show ?thesis
    using 1 2 3 4 5 6 by (simp add: bootstrap_security_def op_bind_def id_consts del: db_get_set)
qed

text \<open>
  Bootstrap. On an empty database the bootstrap succeeds and creates the two built-in
  roles, the root user with both roles, and the owner of the account; run again, at any later
  time, it succeeds and changes nothing.
\<close>

theorem bootstrap_security_idempotent:
  "\<exists>s. bootstrap_security fx now DAList.empty = (Ok (), s) \<and>
     get_role ACCOUNTADMIN_ROLE_ID s = Ok (Some (accountadmin_role now)) \<and>
     get_role PUBLIC_ROLE_ID s = Ok (Some (public_role now)) \<and>
     get_user ROOT_USER_ID s = Ok (Some (root_user now)) \<and>
     db_get s (user_role_key ROOT_USER_ID ACCOUNTADMIN_ROLE_ID) \<noteq> None \<and>
     db_get s (user_role_key ROOT_USER_ID PUBLIC_ROLE_ID) \<noteq> None \<and>
     get_object_owner (object_ref OT_Account ACCOUNT_OBJECT_ID) s = Ok (Some (account_owner now)) \<and>
     bootstrap_security fx later s = (Ok (), s)"
proof (intro exI conjI)
  show "bootstrap_security fx now DAList.empty = (Ok (), bootstrapped now)" by (rule bootstrap_empty)
  show "bootstrap_security fx later (bootstrapped now) = (Ok (), bootstrapped now)"
    by (rule bootstrap_kept [OF bootstrapped_get(1-3) _ _ bootstrapped_get(6)]) (simp_all only: bootstrapped_get, simp_all)
qed (simp_all only: get_role_def get_user_def get_object_owner_def get_record_Some_iff as_iff bootstrapped_get, simp_all)

end
