(* ===== verification/Meta_Mp.thy ===== *)
theory Meta_Mp
  imports Meta_Records
begin

text \<open>
  Micro-partitions, table versions and transactions of the metadata store
  (\<^verbatim>\<open>crates/nova-storage/src/metadata/fdb_store.rs\<close>, lines 712 to 947).

  A micro-partition is stored under its identifier and listed under its table by an index
  entry without content. The lemmas give the exact result of the two reads, the active set
  and the set visible at a timestamp, over a well-formed store; show that marking a
  partition as superseded makes exactly one of the two versions visible at every timestamp;
  and that the index and the records stay in step.
\<close>

subsection \<open>Micro-partitions\<close>

abbreviation mp_key :: "MpId \<Rightarrow> key" where
  "mp_key m \<equiv> (C_mp, [TInt m])"

abbreviation table_mps_key :: "TableId \<Rightarrow> MpId \<Rightarrow> key" where
  "table_mps_key t m \<equiv> (C_table_mps, [TInt t, TInt m])"

definition insert_mp :: "fdb \<Rightarrow> MicroPartitionMeta \<Rightarrow> unit op" where
  "insert_mp fx mp =
     db_run (internal_err fx ''FDB insert_mp failed: '')
       (\<lambda>s. let s1 = db_set (mp_key (mpm_id mp)) (VMp mp) s in
            Ok ((), db_set (table_mps_key (mpm_table_id mp) (mpm_id mp)) (VBytes []) s1))"

definition get_mp :: "MpId \<Rightarrow> MicroPartitionMeta option query" where
  "get_mp mp_id = get_record as_mp (mp_key mp_id)"

definition is_current :: "MicroPartitionMeta \<Rightarrow> bool" where
  "is_current mp = (mpm_active mp \<and> mpm_superseded_by mp = None)"

text \<open>
  The body of the read loops: unpack the partition's identifier from the index key, read the
  record, keep it when the filter says so.
\<close>

definition load_indexed ::
  "fdb \<Rightarrow> (MicroPartitionMeta \<Rightarrow> bool) \<Rightarrow> key \<times> value \<Rightarrow> MicroPartitionMeta list query" where
  "load_indexed fx keep kv s =
     and_then (unpack_ids fx 2 (fst kv)) (\<lambda>ids.
     and_then (get_mp (ids ! 1) s) (\<lambda>r.
     Ok (case r of Some mp \<Rightarrow> if keep mp then [mp] else [] | None \<Rightarrow> [])))"

definition get_active_mps :: "fdb \<Rightarrow> TableId \<Rightarrow> MicroPartitionMeta list query" where
  "get_active_mps fx table_id s =
     and_then (fdb_get_range fx (category_range fx (C_table_mps, [TInt table_id])) s) (\<lambda>kvs.
     and_then (collect_results (\<lambda>kv. load_indexed fx is_current kv s) kvs) (\<lambda>mps.
     Ok (concat mps)))"

definition visible_at :: "Timestamp \<Rightarrow> MicroPartitionMeta \<Rightarrow> bool query" where
  "visible_at ts mp s =
     (if mpm_commit_ts mp \<le> ts then
        (case mpm_superseded_by mp of
           None \<Rightarrow> Ok True
         | Some next_id \<Rightarrow>
             and_then (get_mp next_id s) (\<lambda>r.
             Ok (case r of Some next_mp \<Rightarrow> mpm_commit_ts next_mp > ts | None \<Rightarrow> False)))
      else Ok False)"

definition get_mps_at_timestamp ::
  "fdb \<Rightarrow> TableId \<Rightarrow> Timestamp \<Rightarrow> MicroPartitionMeta list query" where
  "get_mps_at_timestamp fx table_id ts s =
     and_then (fdb_get_range fx (category_range fx (C_table_mps, [TInt table_id])) s) (\<lambda>kvs.
     and_then (collect_results (\<lambda>kv. load_indexed fx (\<lambda>_. True) kv s) kvs) (\<lambda>all_mps.
     and_then (collect_results
         (\<lambda>mp. and_then (visible_at ts mp s) (\<lambda>b. Ok (if b then [mp] else []))) (concat all_mps))
       (\<lambda>visible. Ok (concat visible))))"

definition replace_writes ::
  "TableId \<Rightarrow> MicroPartitionMeta list \<Rightarrow> MicroPartitionMeta list \<Rightarrow> (key \<times> value) list" where
  "replace_writes table_id active_mps new_mps =
     map (\<lambda>mp. (mp_key (mpm_id mp), VMp (mp\<lparr>mpm_active := False\<rparr>))) active_mps @
     concat (map (\<lambda>mp. [(mp_key (mpm_id mp), VMp (mp\<lparr>mpm_table_id := table_id\<rparr>)),
                         (table_mps_key table_id (mpm_id mp), VBytes [])]) new_mps)"

definition replace_active_mps :: "fdb \<Rightarrow> TableId \<Rightarrow> MicroPartitionMeta list \<Rightarrow> unit op" where
  "replace_active_mps fx table_id new_mps =
     op_bind (op_query (get_active_mps fx table_id)) (\<lambda>active_mps.
     op_bind (fdb_write_batch fx (replace_writes table_id active_mps new_mps) [] True) (\<lambda>_.
     op_ret ()))"

definition mark_superseded :: "MpId \<Rightarrow> MpId \<Rightarrow> unit op" where
  "mark_superseded old_mp_id new_mp_id =
     op_bind (op_query (get_mp old_mp_id)) (\<lambda>r.
     (case r of
        None \<Rightarrow> op_fail (MpNotFound 0 old_mp_id)
      | Some old_mp \<Rightarrow>
          fdb_set (mp_key old_mp_id)
            (VMp (old_mp\<lparr>mpm_superseded_by := Some new_mp_id, mpm_active := False\<rparr>))))"

definition delete_mp :: "fdb \<Rightarrow> MpId \<Rightarrow> unit op" where
  "delete_mp fx mp_id =
     op_bind (op_query (get_mp mp_id)) (\<lambda>r.
     (case r of
        None \<Rightarrow> op_ret ()
      | Some mp \<Rightarrow>
          db_run (internal_err fx ''FDB delete_mp failed: '')
            (\<lambda>s. let s1 = db_clear (mp_key mp_id) s in
                 Ok ((), db_clear (table_mps_key (mpm_table_id mp) mp_id) s1))))"

definition get_table_version :: "TableId \<Rightarrow> u64 query" where
  "get_table_version table_id s =
     (case db_get s (C_table_version, [TInt table_id]) of
        Some v \<Rightarrow> Ok (lenient_u64 v)
      | None \<Rightarrow> Ok 0)"

definition increment_table_version :: "TableId \<Rightarrow> u64 op" where
  "increment_table_version table_id = fdb_atomic_inc (C_table_version, [TInt table_id])"

subsection \<open>Transactions\<close>

abbreviation txn_key :: "TxnId \<Rightarrow> key" where
  "txn_key t \<equiv> (C_txn, [TInt t])"

definition begin_transaction :: "Timestamp \<Rightarrow> TxnId op" where
  "begin_transaction now =
     op_bind (fdb_atomic_inc (next_id_key ''txn'')) (\<lambda>txn_id.
     op_bind (fdb_set (txn_key txn_id)
        (VTxn \<lparr>tm_id = txn_id, tm_status = TxnActive, tm_snapshot_ts = now, tm_commit_ts = None,
               tm_affected_tables = []\<rparr>)) (\<lambda>_.
     op_ret txn_id))"

definition get_transaction :: "TxnId \<Rightarrow> TransactionMeta option query" where
  "get_transaction txn_id = get_record as_txn (txn_key txn_id)"

definition txn_not_found :: "TxnId \<Rightarrow> NovaError" where
  "txn_not_found txn_id = Internal (''Transaction '' @ show_u64 txn_id @ '' not found'')"

definition commit_transaction :: "Timestamp \<Rightarrow> TxnId \<Rightarrow> unit op" where
  "commit_transaction now txn_id =
     op_bind (op_query (get_transaction txn_id)) (\<lambda>r.
     (case r of
        None \<Rightarrow> op_fail (txn_not_found txn_id)
      | Some meta \<Rightarrow>
          fdb_set (txn_key txn_id)
            (VTxn (meta\<lparr>tm_status := TxnCommitted, tm_commit_ts := Some now\<rparr>))))"

definition abort_transaction :: "TxnId \<Rightarrow> unit op" where
  "abort_transaction txn_id =
     op_bind (op_query (get_transaction txn_id)) (\<lambda>r.
     (case r of
        None \<Rightarrow> op_fail (txn_not_found txn_id)
      | Some meta \<Rightarrow> fdb_set (txn_key txn_id) (VTxn (meta\<lparr>tm_status := TxnAborted\<rparr>))))"

subsection \<open>Equations of the writes\<close>

lemma insert_mp_run [op_simps]:
  "insert_mp fx mp s =
     (Ok (), db_set (table_mps_key (mpm_table_id mp) (mpm_id mp)) (VBytes [])
               (db_set (mp_key (mpm_id mp)) (VMp mp) s))"
  by (simp add: insert_mp_def db_run_def Let_def)

lemma get_mp_Some_iff [op_simps]:
  "get_mp m s = Ok (Some mp) \<longleftrightarrow> db_get s (mp_key m) = Some (VMp mp)"
  by (simp add: get_mp_def get_record_Some_iff as_iff)

lemma get_mp_None_iff [op_simps]: "get_mp m s = Ok None \<longleftrightarrow> db_get s (mp_key m) = None"
  by (simp add: get_mp_def get_record_None_iff)

lemma get_mp_wf:
  assumes "store_wf s"
  obtains (absent) "get_mp m s = Ok None" "db_get s (mp_key m) = None"
  | (present) mp where "get_mp m s = Ok (Some mp)" "db_get s (mp_key m) = Some (VMp mp)" "mpm_id mp = m"
proof (cases "db_get s (mp_key m)")
  case None
  then show ?thesis using absent get_mp_None_iff by blast
next
  case (Some v)
  with wf_read(6) [OF assms] obtain mp where "v = VMp mp" "mpm_id mp = m" by blast
  with Some show ?thesis using present get_mp_Some_iff by blast
qed

lemma mark_superseded_run:
  "db_get s (mp_key old) = Some (VMp mp) \<Longrightarrow>
     mark_superseded old new s =
       (Ok (), db_set (mp_key old) (VMp (mp\<lparr>mpm_superseded_by := Some new, mpm_active := False\<rparr>)) s)"
  by (simp add: mark_superseded_def op_bind_def get_mp_Some_iff [THEN iffD2])

lemma get_txn_Some_iff [op_simps]:
  "get_transaction t s = Ok (Some m) \<longleftrightarrow> db_get s (txn_key t) = Some (VTxn m)"
  by (simp add: get_transaction_def get_record_Some_iff as_iff)

lemma get_txn_wf:
  assumes "store_wf s"
  obtains (absent) "get_transaction t s = Ok None" "db_get s (txn_key t) = None"
  | (present) m where "get_transaction t s = Ok (Some m)" "db_get s (txn_key t) = Some (VTxn m)" "tm_id m = t"
proof (cases "db_get s (txn_key t)")
  case None
  then show ?thesis using absent by (simp add: get_transaction_def get_record_None_iff)
next
  case (Some v)
  with wf_read(7) [OF assms] obtain m where "v = VTxn m" "tm_id m = t" by blast
  with Some show ?thesis using present get_txn_Some_iff by blast
qed

lemma begin_transaction_run [op_simps]:
  "begin_transaction now s =
     (let t = counter (next_id_key ''txn'') s + 1 in
      (Ok t, db_set (txn_key t)
         (VTxn \<lparr>tm_id = t, tm_status = TxnActive, tm_snapshot_ts = now, tm_commit_ts = None,
                tm_affected_tables = []\<rparr>)
         (db_set (next_id_key ''txn'') (u64_bytes t) s)))"
  by (simp add: begin_transaction_def op_bind_def Let_def)

lemma commit_transaction_run:
  "db_get s (txn_key t) = Some (VTxn m) \<Longrightarrow>
     commit_transaction now t s =
       (Ok (), db_set (txn_key t) (VTxn (m\<lparr>tm_status := TxnCommitted, tm_commit_ts := Some now\<rparr>)) s)"
  by (simp add: commit_transaction_def op_bind_def get_txn_Some_iff [THEN iffD2])

lemma abort_transaction_run:
  "db_get s (txn_key t) = Some (VTxn m) \<Longrightarrow>
     abort_transaction t s = (Ok (), db_set (txn_key t) (VTxn (m\<lparr>tm_status := TxnAborted\<rparr>)) s)"
  by (simp add: abort_transaction_def op_bind_def get_txn_Some_iff [THEN iffD2])


subsection \<open>What the reads return\<close>

text \<open>The partitions listed under a table, by their records.\<close>

definition indexed_mps :: "store \<Rightarrow> TableId \<Rightarrow> MicroPartitionMeta set" where
  "indexed_mps s t =
     {mp. db_get s (table_mps_key t (mpm_id mp)) \<noteq> None \<and> db_get s (mp_key (mpm_id mp)) = Some (VMp mp)}"

lemma load_indexed_run:
  assumes "store_wf s"
  shows "\<exists>xs. load_indexed fx keep (table_mps_key t m, v) s = Ok xs \<and>
     set xs = {mp. keep mp \<and> mpm_id mp = m \<and> db_get s (mp_key m) = Some (VMp mp)} \<and>
     distinct xs"
  using assms
proof (cases rule: get_mp_wf [where m = m])
  case absent
  then show ?thesis by (simp add: load_indexed_def unpack_int_key [of "[t, m]", simplified])
next
  case (present mp)
  then show ?thesis by (auto simp: load_indexed_def unpack_int_key [of "[t, m]", simplified])
qed

lemma load_indexed_all:
  assumes "store_wf s" "\<forall>k \<in> fst ` set kvs. \<exists>m. k = table_mps_key t m" "distinct (map fst kvs)"
  shows "\<exists>xs. collect_results (\<lambda>kv. load_indexed fx keep kv s) kvs = Ok xs \<and>
     set (concat xs) = {mp. keep mp \<and> db_get s (mp_key (mpm_id mp)) = Some (VMp mp) \<and>
                            table_mps_key t (mpm_id mp) \<in> fst ` set kvs} \<and>
     distinct (map mpm_id (concat xs))"
  using assms(2,3)
proof (induction kvs)
  case (Cons kv kvs)
  obtain m v where kv: "kv = (table_mps_key t m, v)" using Cons.prems(1) by (cases kv) auto
  from Cons obtain xs where xs: "collect_results (\<lambda>kv. load_indexed fx keep kv s) kvs = Ok xs"
    and set_xs: "set (concat xs) = {mp. keep mp \<and> db_get s (mp_key (mpm_id mp)) = Some (VMp mp) \<and>
                            table_mps_key t (mpm_id mp) \<in> fst ` set kvs}"
    and dist: "distinct (map mpm_id (concat xs))" by auto
  obtain ys where ys: "load_indexed fx keep kv s = Ok ys"
    and set_ys: "set ys = {mp. keep mp \<and> mpm_id mp = m \<and> db_get s (mp_key m) = Some (VMp mp)}"
    and dist_ys: "distinct ys" using load_indexed_run [OF assms(1)] kv by blast
  have "set (concat (ys # xs)) = {mp. keep mp \<and> db_get s (mp_key (mpm_id mp)) = Some (VMp mp) \<and>
                            table_mps_key t (mpm_id mp) \<in> fst ` set (kv # kvs)}"
    using set_xs set_ys kv by auto
  moreover have "m \<notin> mpm_id ` set (concat xs)" using set_xs Cons.prems(2) kv by auto
  then have "distinct (map mpm_id (concat (ys # xs)))"
    using dist dist_ys set_ys by (auto simp: distinct_map inj_on_def)
  ultimately show ?case using xs ys by auto
qed simp

text \<open>The visibility rule of a snapshot.\<close>

definition mvcc_visible :: "store \<Rightarrow> Timestamp \<Rightarrow> MicroPartitionMeta \<Rightarrow> bool" where
  "mvcc_visible s ts mp \<longleftrightarrow> mpm_commit_ts mp \<le> ts \<and>
     (\<forall>next_id. mpm_superseded_by mp = Some next_id \<longrightarrow>
        (\<exists>next_mp. db_get s (mp_key next_id) = Some (VMp next_mp) \<and> ts < mpm_commit_ts next_mp))"

lemma visible_at_wf:
  assumes "store_wf s"
  shows "visible_at ts mp s = Ok (mvcc_visible s ts mp)"
proof (cases "mpm_superseded_by mp")
  case None
  then show ?thesis by (simp add: visible_at_def mvcc_visible_def)
next
  case (Some next_id)
  show ?thesis
    using assms
  proof (cases rule: get_mp_wf [where m = next_id])
    case absent
    then show ?thesis using Some by (simp add: visible_at_def mvcc_visible_def)
  next
    case (present mp)
    then show ?thesis using Some by (simp add: visible_at_def mvcc_visible_def)
  qed
qed

lemma keep_visible:
  assumes "store_wf s"
  shows "and_then (collect_results
      (\<lambda>mp. and_then (visible_at ts mp s) (\<lambda>b. Ok (if b then [mp] else []))) mps)
      (\<lambda>vs. Ok (concat vs)) = Ok (filter (mvcc_visible s ts) mps)"
proof -
  have "collect_results (\<lambda>mp. and_then (visible_at ts mp s) (\<lambda>b. Ok (if b then [mp] else []))) mps =
      Ok (map (\<lambda>mp. if mvcc_visible s ts mp then [mp] else []) mps)"
    by (rule collect_results_all_ok) (simp add: visible_at_wf [OF assms])
  moreover have "concat (map (\<lambda>mp. if mvcc_visible s ts mp then [mp] else []) mps) =
      filter (mvcc_visible s ts) mps" by (induction mps) auto
  ultimately show ?thesis by simp
qed

context fdb_client
begin

lemma index_scan:
  assumes "store_wf s" "db_size s \<le> lim" "(ucast t :: byte) \<noteq> 255"
  obtains kvs where
    "fdb_get_range fx (category_range fx (C_table_mps, [TInt t])) s = Ok kvs"
    "\<forall>k \<in> fst ` set kvs. \<exists>m. k = table_mps_key t m"
    "\<And>m. table_mps_key t m \<in> fst ` set kvs \<longleftrightarrow> db_get s (table_mps_key t m) \<noteq> None"
    "distinct (map fst kvs)"
proof -
  from get_range_ints [OF assms(2,3), of C_table_mps "[]"] obtain kvs where
    r: "fdb_get_range fx (category_range fx (C_table_mps, [TInt t])) s = Ok kvs"
    and set_kvs: "set kvs = {(k, v). db_get s k = Some v \<and> fst k = C_table_mps \<and> prefix [TInt t] (snd k)}"
    and dist: "distinct (map fst kvs)" by auto
  have "\<exists>m. k = table_mps_key t m" if "k \<in> fst ` set kvs" for k
  proof -
    from that set_kvs obtain v where v: "db_get s k = Some v" "fst k = C_table_mps" "prefix [TInt t] (snd k)"
      by auto
    from wf_int_keys [OF assms(1) v(1), of 2 0] v(2) obtain ns
      where ns: "k = int_key C_table_mps ns" "length ns = 2" by (auto simp: numeral_2_eq_2)
    then obtain a b where "ns = [a, b]" by (auto simp: numeral_2_eq_2 length_Suc_conv)
    with ns v(3) show ?thesis by auto
  qed
  moreover have "table_mps_key t m \<in> fst ` set kvs \<longleftrightarrow> db_get s (table_mps_key t m) \<noteq> None" for m
    unfolding set_kvs image_iff by force
  ultimately show ?thesis using r dist by (intro that) simp_all
qed

lemma active_set:
  assumes "store_wf s" "db_size s \<le> lim" "(ucast t :: byte) \<noteq> 255"
  shows "\<exists>mps. get_active_mps fx t s = Ok mps \<and> set mps = {mp \<in> indexed_mps s t. is_current mp} \<and>
     distinct (map mpm_id mps)"
proof -
  obtain kvs where kvs: "fdb_get_range fx (category_range fx (C_table_mps, [TInt t])) s = Ok kvs"
    "\<forall>k \<in> fst ` set kvs. \<exists>m. k = table_mps_key t m"
    "\<And>m. table_mps_key t m \<in> fst ` set kvs \<longleftrightarrow> db_get s (table_mps_key t m) \<noteq> None"
    "distinct (map fst kvs)" by (rule index_scan [OF assms]) iprover
  obtain xs where xs: "collect_results (\<lambda>kv. load_indexed fx is_current kv s) kvs = Ok xs"
    "set (concat xs) = {mp. is_current mp \<and> db_get s (mp_key (mpm_id mp)) = Some (VMp mp) \<and>
                            table_mps_key t (mpm_id mp) \<in> fst ` set kvs}"
    "distinct (map mpm_id (concat xs))"
    using load_indexed_all [OF assms(1) kvs(2,4), of fx is_current] by (elim exE conjE)
  have "get_active_mps fx t s = Ok (concat xs)" using kvs(1) xs(1) by (simp add: get_active_mps_def)
  moreover have "set (concat xs) = {mp \<in> indexed_mps s t. is_current mp}"
    unfolding xs(2) kvs(3) indexed_mps_def by blast
  ultimately show ?thesis using xs(3) by (intro exI conjI)
qed

lemma timestamp_set:
  assumes "store_wf s" "db_size s \<le> lim" "(ucast t :: byte) \<noteq> 255"
  shows "\<exists>mps. get_mps_at_timestamp fx t ts s = Ok mps \<and>
     set mps = {mp \<in> indexed_mps s t. mvcc_visible s ts mp} \<and> distinct (map mpm_id mps)"
proof -
  obtain kvs where kvs: "fdb_get_range fx (category_range fx (C_table_mps, [TInt t])) s = Ok kvs"
    "\<forall>k \<in> fst ` set kvs. \<exists>m. k = table_mps_key t m"
    "\<And>m. table_mps_key t m \<in> fst ` set kvs \<longleftrightarrow> db_get s (table_mps_key t m) \<noteq> None"
    "distinct (map fst kvs)" by (rule index_scan [OF assms]) iprover
  obtain xs where xs: "collect_results (\<lambda>kv. load_indexed fx (\<lambda>_. True) kv s) kvs = Ok xs"
    "set (concat xs) = {mp. True \<and> db_get s (mp_key (mpm_id mp)) = Some (VMp mp) \<and>
                            table_mps_key t (mpm_id mp) \<in> fst ` set kvs}"
    "distinct (map mpm_id (concat xs))"
    using load_indexed_all [OF assms(1) kvs(2,4), of fx "\<lambda>_. True"] by (elim exE conjE)
  let ?vs = "filter (mvcc_visible s ts) (concat xs)"
  have "get_mps_at_timestamp fx t ts s = Ok ?vs"
    using kvs(1) xs(1) by (simp add: get_mps_at_timestamp_def keep_visible [OF assms(1)])
  moreover have "set ?vs = {mp \<in> indexed_mps s t. mvcc_visible s ts mp}"
    unfolding set_filter xs(2) kvs(3) indexed_mps_def by blast
  moreover have "distinct (map mpm_id ?vs)" using xs(3) by (rule distinct_map_filter)
  ultimately show ?thesis by (intro exI conjI)
qed

end


subsection \<open>The layout is kept\<close>

lemma keeps_insert_mp: "keeps store_wf (insert_mp fx mp)"
  by (intro keepsI) (simp add: insert_mp_run store_wf_set)

lemma keeps_mark_superseded: "keeps store_wf (mark_superseded old new)"
proof (rule keepsI)
  fix s assume wf: "store_wf s"
  then show "store_wf (snd (mark_superseded old new s))"
  proof (cases rule: get_mp_wf [where m = old])
    case absent
    with wf show ?thesis by (simp add: mark_superseded_def op_bind_def)
  next
    case (present mp)
    with wf show ?thesis by (simp add: mark_superseded_run store_wf_set)
  qed
qed

lemma keeps_delete_mp: "keeps store_wf (delete_mp fx m)"
  unfolding delete_mp_def
  by (auto intro!: keeps_bind keeps_run store_wf_clear simp: Let_def split: option.split)

lemma keeps_increment_table_version: "keeps store_wf (increment_table_version t)"
  unfolding increment_table_version_def by (intro keeps_wf_inc) simp

lemma keeps_begin_transaction: "keeps store_wf (begin_transaction now)"
  unfolding begin_transaction_def by (intro keeps_wf_intros) simp_all

lemma keeps_finish_transaction:
  "keeps store_wf (commit_transaction now t)" "keeps store_wf (abort_transaction t)"
proof -
  have "store_wf (snd (commit_transaction now t s)) \<and> store_wf (snd (abort_transaction t s))"
    if "store_wf s" for s
    using that
  proof (cases rule: get_txn_wf [where t = t])
    case absent
    with that show ?thesis by (simp add: commit_transaction_def abort_transaction_def op_bind_def)
  next
    case (present m)
    with that show ?thesis by (simp add: commit_transaction_run abort_transaction_run store_wf_set)
  qed
  then show "keeps store_wf (commit_transaction now t)" "keeps store_wf (abort_transaction t)"
    by (auto intro: keepsI)
qed

lemma replace_writes_ok: "list_all (\<lambda>(k, v). value_ok v k) (replace_writes t act new)"
  by (auto simp: replace_writes_def list_all_iff)

lemma keeps_replace_active_mps: "keeps store_wf (replace_active_mps fx t new)"
  unfolding replace_active_mps_def by (intro keeps_wf_intros replace_writes_ok)

lemmas keeps_wf_mp = keeps_insert_mp keeps_mark_superseded keeps_delete_mp
  keeps_increment_table_version keeps_begin_transaction keeps_finish_transaction
  keeps_replace_active_mps

subsection \<open>The table index follows the records\<close>

definition mp_index_ok :: "store \<Rightarrow> bool" where
  "mp_index_ok s \<longleftrightarrow> (\<forall>t m. db_get s (table_mps_key t m) \<noteq> None \<longleftrightarrow>
     (\<exists>mp. db_get s (mp_key m) = Some (VMp mp) \<and> mpm_table_id mp = t))"

text \<open>A partition may be written again, but only for the table it already belongs to.\<close>

definition same_table :: "store \<Rightarrow> MpId \<Rightarrow> TableId \<Rightarrow> bool" where
  "same_table s m t \<longleftrightarrow> (\<forall>mp. db_get s (mp_key m) = Some (VMp mp) \<longrightarrow> mpm_table_id mp = t)"

lemma mp_index_insert:
  assumes "mp_index_ok s" "same_table s (mpm_id mp) (mpm_table_id mp)"
  shows "mp_index_ok (snd (insert_mp fx mp s))"
  using assms by (auto simp: mp_index_ok_def same_table_def insert_mp_run)

lemma mp_index_update:
  assumes "mp_index_ok s" "db_get s (mp_key m) = Some (VMp mp)" "mpm_table_id mp' = mpm_table_id mp"
  shows "mp_index_ok (db_set (mp_key m) (VMp mp') s)"
  using assms by (auto simp: mp_index_ok_def)

lemma mp_index_mark_superseded:
  assumes "mp_index_ok s" "store_wf s"
  shows "mp_index_ok (snd (mark_superseded old new s))"
  using assms(2)
proof (cases rule: get_mp_wf [where m = old])
  case absent
  with assms show ?thesis by (simp add: mark_superseded_def op_bind_def)
next
  case (present mp)
  then show ?thesis
    using mp_index_update [OF assms(1) present(2)] by (simp add: mark_superseded_run)
qed

lemma delete_mp_run:
  "db_get s (mp_key m) = Some (VMp mp) \<Longrightarrow>
     delete_mp fx m s = (Ok (), db_clear (table_mps_key (mpm_table_id mp) m) (db_clear (mp_key m) s))"
  by (simp add: delete_mp_def op_bind_def db_run_def Let_def get_mp_Some_iff [THEN iffD2])

lemma mp_index_delete:
  assumes "mp_index_ok s" "store_wf s"
  shows "mp_index_ok (snd (delete_mp fx m s))"
  using assms(2)
proof (cases rule: get_mp_wf [where m = m])
  case absent
  with assms show ?thesis by (simp add: delete_mp_def op_bind_def)
next
  case (present mp)
  with assms(1) show ?thesis by (auto simp: mp_index_ok_def delete_mp_run lookup_delete)
qed

subsection \<open>Replacing the active set\<close>

lemma apply_sets_append: "apply_sets (a @ b) s = apply_sets b (apply_sets a s)"
  by (simp add: apply_sets_def)

lemma deactivate_get:
  assumes "distinct (map mpm_id act)"
  shows "db_get (apply_sets (map (\<lambda>mp. (mp_key (mpm_id mp), VMp (mp\<lparr>mpm_active := False\<rparr>))) act) s)
      (mp_key m) =
    (case find (\<lambda>mp. mpm_id mp = m) act of
       Some mp \<Rightarrow> Some (VMp (mp\<lparr>mpm_active := False\<rparr>)) | None \<Rightarrow> db_get s (mp_key m))"
  using assms
proof (induction act arbitrary: s)
  case (Cons mp act)
  have "find (\<lambda>x. mpm_id x = m) act = None" if "mpm_id mp = m"
    using Cons.prems that by (force simp: find_None_iff image_iff)
  with Cons show ?case by (cases "mpm_id mp = m") (simp_all split: option.split)
qed simp

lemma deactivate_other:
  "fst k \<noteq> C_mp \<Longrightarrow>
   db_get (apply_sets (map (\<lambda>mp. (mp_key (mpm_id mp), VMp (mp\<lparr>mpm_active := False\<rparr>))) act) s) k = db_get s k"
  by (induction act arbitrary: s) auto

definition add_writes :: "TableId \<Rightarrow> MicroPartitionMeta list \<Rightarrow> (key \<times> value) list" where
  "add_writes t new = concat (map (\<lambda>mp. [(mp_key (mpm_id mp), VMp (mp\<lparr>mpm_table_id := t\<rparr>)),
                         (table_mps_key t (mpm_id mp), VBytes [])]) new)"

lemma add_writes_Cons:
  "add_writes t (mp # new) =
     (mp_key (mpm_id mp), VMp (mp\<lparr>mpm_table_id := t\<rparr>)) # (table_mps_key t (mpm_id mp), VBytes []) #
     add_writes t new"
  by (simp add: add_writes_def)

lemma add_get:
  assumes "distinct (map mpm_id new)"
  shows "db_get (apply_sets (add_writes t new) s) (mp_key m) =
    (case find (\<lambda>mp. mpm_id mp = m) new of
       Some mp \<Rightarrow> Some (VMp (mp\<lparr>mpm_table_id := t\<rparr>)) | None \<Rightarrow> db_get s (mp_key m))"
  using assms
proof (induction new arbitrary: s)
  case (Cons mp new)
  have "find (\<lambda>x. mpm_id x = m) new = None" if "mpm_id mp = m"
    using Cons.prems that by (force simp: find_None_iff image_iff)
  with Cons show ?case by (cases "mpm_id mp = m") (simp_all add: add_writes_Cons split: option.split)
qed (simp add: add_writes_def)

lemma add_index:
  "db_get (apply_sets (add_writes t new) s) (table_mps_key t m) =
     (if m \<in> mpm_id ` set new then Some (VBytes []) else db_get s (table_mps_key t m))"
  by (induction new arbitrary: s) (auto simp: add_writes_Cons add_writes_def)

subsection \<open>Properties\<close>

text \<open>A table with two micro-partitions, for the examples below.\<close>

definition sample_mps :: store where
  "sample_mps = snd (insert_mp sample_fdb (sample_mp 12 20)
                 (snd (insert_mp sample_fdb (sample_mp 11 10) DAList.empty)))"

lemma sample_mps_wf: "store_wf sample_mps"
  unfolding sample_mps_def by (intro keepsD [OF keeps_insert_mp] store_wf_empty)

lemma sample_mps_get:
  "db_get sample_mps (mp_key 11) = Some (VMp (sample_mp 11 10))"
  "db_get sample_mps (mp_key 12) = Some (VMp (sample_mp 12 20))"
  "db_get sample_mps (table_mps_key 7 11) = Some (VBytes [])"
  "db_get sample_mps (table_mps_key 7 12) = Some (VBytes [])"
  by (simp_all add: sample_mps_def insert_mp_run sample_mp_def)

lemma sample_mps_ids: "db_get sample_mps (mp_key m) \<noteq> None \<Longrightarrow> m \<in> {11, 12}"
  by (simp add: sample_mps_def insert_mp_run sample_mp_def split: if_splits)

lemma sample_mps_size: "db_size sample_mps = 4"
  by (simp add: sample_mps_def insert_mp_run sample_mp_def DAList.update.rep_eq DAList.empty.rep_eq)

text \<open>
  C8. The active set. Over a well-formed store the read of a table's active micro-partitions
  succeeds and returns, each once, exactly the partitions that are listed under the table,
  still active and not superseded.
\<close>

theorem active_mps_exact:
  assumes "fdb_client fx lim" "store_wf s" "db_size s \<le> lim" "(ucast t :: byte) \<noteq> 255"
  shows "\<exists>mps. get_active_mps fx t s = Ok mps \<and> distinct (map mpm_id mps) \<and>
     (\<forall>mp. mp \<in> set mps \<longleftrightarrow> db_get s (table_mps_key t (mpm_id mp)) \<noteq> None \<and>
        get_mp (mpm_id mp) s = Ok (Some mp) \<and> mpm_active mp \<and> mpm_superseded_by mp = None)"
  using fdb_client.active_set [OF assms]
  by (auto simp: indexed_mps_def is_current_def get_mp_Some_iff)

theorem active_mps_exact_witness:
  "\<exists>mps. get_active_mps sample_fdb 7 sample_mps = Ok mps \<and> sample_mp 11 10 \<in> set mps \<and>
     sample_mp 12 20 \<in> set mps"
proof -
  obtain mps where mps: "get_active_mps sample_fdb 7 sample_mps = Ok mps"
    "\<forall>mp. mp \<in> set mps \<longleftrightarrow> db_get sample_mps (table_mps_key 7 (mpm_id mp)) \<noteq> None \<and>
        get_mp (mpm_id mp) sample_mps = Ok (Some mp) \<and> mpm_active mp \<and> mpm_superseded_by mp = None"
    using active_mps_exact [OF sample_client sample_mps_wf, of 7] by (auto simp: sample_mps_size)
  have "mpm_id (sample_mp a b) = a" "mpm_active (sample_mp a b)" "mpm_superseded_by (sample_mp a b) = None"
    for a b by (simp_all add: sample_mp_def)
  then show ?thesis using mps sample_mps_get by (simp add: get_mp_Some_iff)
qed

lemma indexed_id:
  assumes "db_get s (mp_key m) = Some (VMp mp)" "mpm_id mp = m" "mps \<subseteq> indexed_mps s t"
  shows "m \<in> mpm_id ` mps \<longleftrightarrow> mp \<in> mps"
proof
  assume "m \<in> mpm_id ` mps"
  then obtain x where x: "x \<in> mps" "mpm_id x = m" by auto
  then have "db_get s (mp_key m) = Some (VMp x)" using assms(3) by (auto simp: indexed_mps_def)
  with assms(1) x show "mp \<in> mps" by simp
qed (use assms(2) in auto)

text \<open>
  C9. Version switch. After a partition has been marked as superseded by a later one of the
  same table, every snapshot at or after the old version's commit sees exactly one of the two:
  the old one before the new commit, the new one from then on.
\<close>

theorem supersede_switches_version:
  assumes "fdb_client fx lim" "store_wf s" "db_size s \<le> lim" "(ucast t :: byte) \<noteq> 255"
    and "old \<in> indexed_mps s t" "new \<in> indexed_mps s t" "mpm_id old \<noteq> mpm_id new"
    and "mpm_superseded_by new = None" "mpm_commit_ts old \<le> mpm_commit_ts new"
    and "mark_superseded (mpm_id old) (mpm_id new) s = (r, s')"
  shows "r = Ok () \<and> (\<exists>mps. get_mps_at_timestamp fx t ts s' = Ok mps \<and>
     (mpm_id old \<in> mpm_id ` set mps \<longleftrightarrow> mpm_commit_ts old \<le> ts \<and> ts < mpm_commit_ts new) \<and>
     (mpm_id new \<in> mpm_id ` set mps \<longleftrightarrow> mpm_commit_ts new \<le> ts))"
proof -
  let ?old = "old\<lparr>mpm_superseded_by := Some (mpm_id new), mpm_active := False\<rparr>"
  have get: "db_get s (mp_key (mpm_id old)) = Some (VMp old)" "db_get s (mp_key (mpm_id new)) = Some (VMp new)"
    "db_get s (table_mps_key t (mpm_id old)) \<noteq> None" "db_get s (table_mps_key t (mpm_id new)) \<noteq> None"
    using assms(5,6) by (auto simp: indexed_mps_def)
  have r: "r = Ok ()" and s': "s' = db_set (mp_key (mpm_id old)) (VMp ?old) s"
    using assms(10) mark_superseded_run [OF get(1), of "mpm_id new"] by auto
  have wf: "store_wf s'" using s' assms(2) by (simp add: store_wf_set)
  have size: "db_size s' \<le> lim" using assms(3) get(1) by (simp add: s' db_size_set)
  obtain mps where mps: "get_mps_at_timestamp fx t ts s' = Ok mps"
    "set mps = {mp \<in> indexed_mps s' t. mvcc_visible s' ts mp}"
    using fdb_client.timestamp_set [OF assms(1) wf size assms(4)] by blast
  have sub: "set mps \<subseteq> indexed_mps s' t" using mps(2) by blast
  have get': "db_get s' (mp_key (mpm_id old)) = Some (VMp ?old)"
    "db_get s' (mp_key (mpm_id new)) = Some (VMp new)" using get assms(7) by (simp_all add: s')
  have mem: "?old \<in> indexed_mps s' t" "new \<in> indexed_mps s' t"
    using get get' by (simp_all add: indexed_mps_def) (simp_all add: s')
  have "mpm_id old \<in> mpm_id ` set mps \<longleftrightarrow> ?old \<in> set mps"
    by (rule indexed_id [OF get'(1) _ sub]) simp
  moreover have "?old \<in> set mps \<longleftrightarrow> mpm_commit_ts old \<le> ts \<and> ts < mpm_commit_ts new"
    using mem(1) get'(2) by (simp add: mps(2) mvcc_visible_def)
  moreover have "mpm_id new \<in> mpm_id ` set mps \<longleftrightarrow> new \<in> set mps"
    by (rule indexed_id [OF get'(2) _ sub]) simp
  moreover have "new \<in> set mps \<longleftrightarrow> mpm_commit_ts new \<le> ts"
    using mem(2) assms(8) by (simp add: mps(2) mvcc_visible_def)
  ultimately show ?thesis using mps(1) r by (intro conjI exI [of _ mps]) simp_all
qed

theorem supersede_switches_version_witness:
  "\<exists>s'. mark_superseded 11 12 sample_mps = (Ok (), s') \<and>
     (\<exists>mps. get_mps_at_timestamp sample_fdb 7 15 s' = Ok mps \<and> 11 \<in> mpm_id ` set mps)"
proof -
  obtain r s' where run: "mark_superseded 11 12 sample_mps = (r, s')" by fastforce
  have ids: "mpm_id (sample_mp a b) = a" "mpm_commit_ts (sample_mp a b) = b"
    "mpm_superseded_by (sample_mp a b) = None" for a b by (simp_all add: sample_mp_def)
  have "sample_mp 11 10 \<in> indexed_mps sample_mps 7" "sample_mp 12 20 \<in> indexed_mps sample_mps 7"
    using sample_mps_get by (simp_all add: indexed_mps_def ids)
  from supersede_switches_version [OF sample_client sample_mps_wf _ _ this, of r s' 15] run
  show ?thesis by (auto simp: ids sample_mps_size)
qed

lemma replace_active_run:
  assumes "get_active_mps fx t s = Ok act"
  shows "\<exists>n. replace_active_mps fx t new s =
     (Ok (), db_set epoch_key (u64_bytes n) (apply_sets (add_writes t new)
        (apply_sets (map (\<lambda>mp. (mp_key (mpm_id mp), VMp (mp\<lparr>mpm_active := False\<rparr>))) act) s)))"
  by (rule exI) (simp add: replace_active_mps_def op_bind_def assms write_batch_run Let_def
      replace_writes_def apply_sets_append add_writes_def)

lemma replace_active_size:
  assumes "get_active_mps fx t s = Ok act"
  shows "db_size (snd (replace_active_mps fx t new s)) \<le> db_size s + length act + 2 * length new + 1"
proof -
  let ?w = "replace_writes t act new"
  have "length ?w = length act + 2 * length new"
    by (induction new) (simp_all add: replace_writes_def)
  moreover obtain n where "snd (replace_active_mps fx t new s) = db_set epoch_key (u64_bytes n) (apply_sets ?w s)"
    by (simp add: replace_active_mps_def op_bind_def assms write_batch_run Let_def)
  ultimately show ?thesis
    using db_size_apply_sets [of ?w s] db_size_set_le [of epoch_key "u64_bytes n" "apply_sets ?w s"] by simp
qed

lemma find_id:
  assumes "distinct (map mpm_id mps)" "mp \<in> set mps"
  shows "find (\<lambda>x. mpm_id x = mpm_id mp) mps = Some mp"
  using assms
proof (induction mps)
  case (Cons a mps)
  then show ?case by (cases "a = mp") (auto simp: image_iff)
qed simp

lemma find_id_None: "m \<notin> mpm_id ` set mps \<longleftrightarrow> find (\<lambda>x. mpm_id x = m) mps = None"
  by (auto simp: find_None_iff image_iff)

text \<open>
  The records and the index after the active set of a table has been replaced.
\<close>

lemma replaced_get:
  assumes act: "get_active_mps fx t s = Ok act" "distinct (map mpm_id act)"
    and new: "distinct (map mpm_id new)"
    and run: "replace_active_mps fx t new s = (r, s')"
  shows "r = Ok ()"
    and "mp \<in> set new \<Longrightarrow> db_get s' (mp_key (mpm_id mp)) = Some (VMp (mp\<lparr>mpm_table_id := t\<rparr>))"
    and "m \<notin> mpm_id ` set new \<Longrightarrow> mp \<in> set act \<Longrightarrow> mpm_id mp = m \<Longrightarrow>
      db_get s' (mp_key m) = Some (VMp (mp\<lparr>mpm_active := False\<rparr>))"
    and "m \<notin> mpm_id ` set new \<Longrightarrow> m \<notin> mpm_id ` set act \<Longrightarrow> db_get s' (mp_key m) = db_get s (mp_key m)"
    and "db_get s' (table_mps_key t m) \<noteq> None \<longleftrightarrow>
      m \<in> mpm_id ` set new \<or> db_get s (table_mps_key t m) \<noteq> None"
proof -
  let ?d = "map (\<lambda>mp. (mp_key (mpm_id mp), VMp (mp\<lparr>mpm_active := False\<rparr>))) act"
  obtain n where "replace_active_mps fx t new s = (Ok (), db_set epoch_key (u64_bytes n)
      (apply_sets (add_writes t new) (apply_sets ?d s)))" using replace_active_run [OF act(1)] by blast
  with run have r: "r = Ok ()" and
    s': "s' = db_set epoch_key (u64_bytes n) (apply_sets (add_writes t new) (apply_sets ?d s))" by auto
  show "r = Ok ()" by (rule r)
  have g: "db_get s' (mp_key m) = (case find (\<lambda>mp. mpm_id mp = m) new of
       Some mp \<Rightarrow> Some (VMp (mp\<lparr>mpm_table_id := t\<rparr>))
     | None \<Rightarrow> (case find (\<lambda>mp. mpm_id mp = m) act of
         Some mp \<Rightarrow> Some (VMp (mp\<lparr>mpm_active := False\<rparr>)) | None \<Rightarrow> db_get s (mp_key m)))" for m
    by (simp only: s' db_get_set add_get [OF new] deactivate_get [OF act(2)]) (simp add: epoch_key_def)
  show "db_get s' (mp_key (mpm_id mp)) = Some (VMp (mp\<lparr>mpm_table_id := t\<rparr>))" if "mp \<in> set new"
    by (simp only: g find_id [OF new that] option.case)
  show "db_get s' (mp_key m) = Some (VMp (mp\<lparr>mpm_active := False\<rparr>))"
    if "m \<notin> mpm_id ` set new" "mp \<in> set act" "mpm_id mp = m"
    using find_id [OF act(2) that(2)] that(1,3) by (simp only: g find_id_None option.case)
  show "db_get s' (mp_key m) = db_get s (mp_key m)"
    if "m \<notin> mpm_id ` set new" "m \<notin> mpm_id ` set act"
    using that by (simp only: g find_id_None option.case)
  show "db_get s' (table_mps_key t m) \<noteq> None \<longleftrightarrow>
      m \<in> mpm_id ` set new \<or> db_get s (table_mps_key t m) \<noteq> None"
  proof -
    have d: "db_get (apply_sets ?d s) (table_mps_key t m) = db_get s (table_mps_key t m)"
      by (rule deactivate_other) simp
    show ?thesis by (simp only: s' db_get_set add_index d) (simp add: epoch_key_def)
  qed
qed

text \<open>
  C10. Replacing the active set. After \<open>replace_active_mps\<close> the active set of the table is
  exactly the given partitions (those of them that are active and not superseded), filed under
  the table: nothing of the previous set is left and nothing is lost.
\<close>

theorem replace_active_mps_exact:
  assumes "fdb_client fx lim" "store_wf s" "db_size s \<le> lim" "(ucast t :: byte) \<noteq> 255"
    and "distinct (map mpm_id new)"
    and "replace_active_mps fx t new s = (r, s')" "db_size s' \<le> lim"
  shows "r = Ok () \<and> (\<exists>mps. get_active_mps fx t s' = Ok mps \<and>
     set mps = (\<lambda>mp. mp\<lparr>mpm_table_id := t\<rparr>) ` {mp \<in> set new. is_current mp})"
proof -
  obtain act where act: "get_active_mps fx t s = Ok act"
    "set act = {mp \<in> indexed_mps s t. is_current mp}" "distinct (map mpm_id act)"
    using fdb_client.active_set [OF assms(1-4)] by (elim exE conjE)
  note get = replaced_get [OF act(1,3) assms(5,6)]
  have wf: "store_wf s'" using keepsD [OF keeps_replace_active_mps assms(2)] assms(6) by (metis snd_conv)
  obtain mps where mps: "get_active_mps fx t s' = Ok mps" "set mps = {mp \<in> indexed_mps s' t. is_current mp}"
    using fdb_client.active_set [OF assms(1) wf assms(7,4)] by (elim exE conjE)
  have in_new: "mp \<in> (\<lambda>mp. mp\<lparr>mpm_table_id := t\<rparr>) ` {mp \<in> set new. is_current mp}"
    if mp: "mp \<in> indexed_mps s' t" "is_current mp" for mp
  proof (cases "mpm_id mp \<in> mpm_id ` set new")
    case True
    then obtain x where x: "x \<in> set new" "mpm_id x = mpm_id mp" by auto
    with get(2) [OF x(1)] mp(1) have "mp = x\<lparr>mpm_table_id := t\<rparr>" by (simp add: indexed_mps_def)
    with x(1) mp(2) show ?thesis by (auto simp: is_current_def)
  next
    case False
    then have idx: "db_get s (table_mps_key t (mpm_id mp)) \<noteq> None"
      using mp(1) get(5) [of "mpm_id mp"] by (simp add: indexed_mps_def)
    have "\<not> mpm_id mp \<in> mpm_id ` set act"
      using get(3) [OF False] mp by (auto simp: indexed_mps_def is_current_def)
    then have "mp \<notin> set act" by auto
    moreover have "db_get s (mp_key (mpm_id mp)) = Some (VMp mp)"
      using get(4) [OF False \<open>\<not> mpm_id mp \<in> mpm_id ` set act\<close>] mp(1) by (simp add: indexed_mps_def)
    ultimately show ?thesis using act(2) idx mp(2) by (simp add: indexed_mps_def)
  qed
  have "x\<lparr>mpm_table_id := t\<rparr> \<in> indexed_mps s' t" if "x \<in> set new" for x
    using get(2) [OF that] get(5) [of "mpm_id x"] that by (simp add: indexed_mps_def)
  then have "set mps = (\<lambda>mp. mp\<lparr>mpm_table_id := t\<rparr>) ` {mp \<in> set new. is_current mp}"
    using mps(2) in_new by (auto simp: is_current_def)
  then show ?thesis using get(1) mps(1) by (intro conjI exI)
qed

theorem replace_active_mps_exact_witness:
  "\<exists>s' mps. replace_active_mps sample_fdb 7 [sample_mp 13 30] sample_mps = (Ok (), s') \<and>
     get_active_mps sample_fdb 7 s' = Ok mps \<and> set mps = {sample_mp 13 30}"
proof -
  obtain r s' where run: "replace_active_mps sample_fdb 7 [sample_mp 13 30] sample_mps = (r, s')"
    by fastforce
  obtain act where act: "get_active_mps sample_fdb 7 sample_mps = Ok act" "distinct (map mpm_id act)"
    "set act = {mp \<in> indexed_mps sample_mps 7. is_current mp}"
    using fdb_client.active_set [OF sample_client sample_mps_wf, of 7] by (auto simp: sample_mps_size)
  have "mpm_id mp \<in> {11, 12}" if "mp \<in> set act" for mp
    using that sample_mps_ids [of "mpm_id mp"] unfolding act(3) indexed_mps_def by simp
  then have "mpm_id ` set act \<subseteq> {11, 12}" by blast
  then have "card (mpm_id ` set act) \<le> card {11, 12 :: MpId}" by (intro card_mono) simp_all
  then have "card (mpm_id ` set act) \<le> 2" by simp
  then have len: "length act \<le> 2" using act(2) by (metis distinct_card length_map set_map)
  have size: "db_size s' \<le> 100"
    using run replace_active_size [OF act(1), of "[sample_mp 13 30]"] len
    by (simp add: sample_mps_size)
  have "(sample_mp 13 30)\<lparr>mpm_table_id := 7\<rparr> = sample_mp 13 30" "is_current (sample_mp 13 30)"
    by (simp_all add: sample_mp_def is_current_def)
  then show ?thesis
    using replace_active_mps_exact [OF sample_client sample_mps_wf _ _ _ run size] run
    by (auto simp: sample_mps_size)
qed

text \<open>The transaction identifiers in use are covered by the counter.\<close>

definition txn_ids_ok :: "store \<Rightarrow> bool" where
  "txn_ids_ok s \<longleftrightarrow> (\<forall>t. db_get s (txn_key t) \<noteq> None \<longrightarrow> t \<le> counter (next_id_key ''txn'') s)"

text \<open>
  C11. Fresh transactions. A transaction begins with an identifier no transaction has used, is
  active with the given snapshot time, and leaves every other transaction as it was, as long
  as the identifiers in use do not exceed the counter and the counter is not exhausted.
\<close>

theorem begin_transaction_fresh:
  assumes "txn_ids_ok s" "counter (next_id_key ''txn'') s \<noteq> - 1"
    and "begin_transaction now s = (r, s')"
  shows "\<exists>t. r = Ok t \<and> db_get s (txn_key t) = None \<and>
     get_transaction t s' =
       Ok (Some \<lparr>tm_id = t, tm_status = TxnActive, tm_snapshot_ts = now, tm_commit_ts = None,
                 tm_affected_tables = []\<rparr>) \<and>
     (\<forall>t'. t' \<noteq> t \<longrightarrow> get_transaction t' s' = get_transaction t' s) \<and> txn_ids_ok s'"
proof -
  let ?c = "counter (next_id_key ''txn'') s" and ?t = "counter (next_id_key ''txn'') s + 1"
  have suc: "unat ?t = Suc (unat ?c)" by (rule unat_u64_Suc [OF assms(2)])
  then have less: "?c < ?t" by (simp only: word_less_nat_alt)
  have fresh: "db_get s (txn_key ?t) = None"
    using assms(1) less unfolding txn_ids_ok_def by (meson linorder_not_less)
  have r: "r = Ok ?t" using assms(3) by (simp add: begin_transaction_run Let_def)
  have s': "s' = snd (begin_transaction now s)" using assms(3) by simp
  have "get_transaction t' s' = get_transaction t' s" if "t' \<noteq> ?t" for t'
    using that by (simp add: s' begin_transaction_run Let_def get_transaction_def get_record_def next_id_key_def)
  moreover have "txn_ids_ok s'"
    unfolding txn_ids_ok_def
  proof (intro allI impI)
    fix t assume "db_get s' (txn_key t) \<noteq> None"
    then have "t = ?t \<or> db_get s (txn_key t) \<noteq> None"
      by (auto simp: s' begin_transaction_run Let_def next_id_key_def)
    then have "t = ?t \<or> t \<le> ?c" using assms(1) unfolding txn_ids_ok_def by blast
    then have "t \<le> ?t" using less by (elim disjE) simp_all
    moreover have "counter (next_id_key ''txn'') s' = ?t"
      by (simp add: s' begin_transaction_run Let_def counter_set) (simp add: next_id_key_def)
    ultimately show "t \<le> counter (next_id_key ''txn'') s'" by simp
  qed
  ultimately show ?thesis
    using r fresh by (intro exI [of _ ?t]) (simp add: s' begin_transaction_run Let_def get_txn_Some_iff)
qed

theorem begin_transaction_fresh_witness:
  "\<exists>s'. begin_transaction 5 DAList.empty = (Ok 1, s') \<and> txn_ids_ok s'"
  using begin_transaction_fresh [of DAList.empty 5]
  by (auto simp: txn_ids_ok_def counter_def begin_transaction_run Let_def)

text \<open>
  A partition that was taken out of the active set by a replacement carries no successor and
  stays visible in every later snapshot.
\<close>

lemma replaced_stays_visible:
  assumes "get_active_mps fx t s = Ok act" "distinct (map mpm_id act)" "distinct (map mpm_id new)"
    and "replace_active_mps fx t new s = (r, s')"
    and "mp \<in> set act" "mpm_id mp \<notin> mpm_id ` set new"
    and "mpm_superseded_by mp = None" "mpm_commit_ts mp \<le> ts"
  shows "db_get s' (mp_key (mpm_id mp)) = Some (VMp (mp\<lparr>mpm_active := False\<rparr>)) \<and>
     mvcc_visible s' ts (mp\<lparr>mpm_active := False\<rparr>)"
  using replaced_get(3) [OF assms(1-4) assms(6,5)] assms(7,8) by (simp add: mvcc_visible_def)

text \<open>Superseding a partition twice keeps only the second link.\<close>

lemma second_supersede_wins:
  assumes "db_get s (mp_key old) = Some (VMp mp)"
  shows "db_get (snd (mark_superseded old n2 (snd (mark_superseded old n1 s)))) (mp_key old) =
     Some (VMp (mp\<lparr>mpm_superseded_by := Some n2, mpm_active := False\<rparr>))"
  using mark_superseded_run [OF assms, of n1]
  by (simp add: mark_superseded_run)

end
