(* ===== verification/Meta_Catalog.thy ===== *)
theory Meta_Catalog
  imports Meta_Mp Meta_Security
begin

text \<open>
  Databases, schemas, tables and functions of the metadata store
  (\<^verbatim>\<open>crates/nova-storage/src/metadata/fdb_store.rs\<close>, lines 385 to 710).

  The lemmas give the exact result of the list operations and of the guarded drops, the
  invariant that ties the function records to their two indexes, and what dropping a table
  removes.
\<close>

subsection \<open>Databases\<close>

abbreviation database_key :: "DatabaseId \<Rightarrow> key" where "database_key d \<equiv> (C_db, [TInt d])"
abbreviation schema_key :: "DatabaseId \<Rightarrow> SchemaId \<Rightarrow> key" where
  "schema_key d sc \<equiv> (C_schema, [TInt d, TInt sc])"
abbreviation table_key :: "DatabaseId \<Rightarrow> SchemaId \<Rightarrow> TableId \<Rightarrow> key" where
  "table_key d sc t \<equiv> (C_table, [TInt d, TInt sc, TInt t])"
abbreviation function_key :: "DatabaseId \<Rightarrow> SchemaId \<Rightarrow> FunctionId \<Rightarrow> key" where
  "function_key d sc f \<equiv> (C_function, [TInt d, TInt sc, TInt f])"
abbreviation function_by_id_key :: "FunctionId \<Rightarrow> key" where
  "function_by_id_key f \<equiv> (C_function_by_id, [TInt f])"

definition list_records :: "fdb \<Rightarrow> (value \<Rightarrow> 'a option) \<Rightarrow> key \<Rightarrow> 'a list query" where
  "list_records fx p t s =
     and_then (fdb_get_range fx (category_range fx t) s) (collect_results (\<lambda>kv. deserialize p (snd kv)))"

definition create_database :: "DatabaseMeta \<Rightarrow> unit op" where
  "create_database db =
     op_bind (if dbm_id db = 0 then fdb_atomic_inc (next_id_key ''database'') else op_ret (dbm_id db)) (\<lambda>i.
     fdb_set (database_key i) (VDatabase (db\<lparr>dbm_id := i\<rparr>)))"

definition get_database :: "DatabaseId \<Rightarrow> DatabaseMeta option query" where
  "get_database i = get_record as_database (database_key i)"

definition list_databases :: "fdb \<Rightarrow> DatabaseMeta list query" where
  "list_databases fx = list_records fx as_database (C_db, [])"

definition list_schemas :: "fdb \<Rightarrow> DatabaseId \<Rightarrow> SchemaMeta list query" where
  "list_schemas fx db_id = list_records fx as_schema (C_schema, [TInt db_id])"

definition drop_database :: "fdb \<Rightarrow> DatabaseId \<Rightarrow> unit op" where
  "drop_database fx i =
     op_bind (op_query (list_schemas fx i)) (\<lambda>schemas.
     if schemas \<noteq> []
     then op_fail (Internal (''Cannot drop database '' @ show_u64 i @ '': has '' @
            show_nat (length schemas) @ '' schemas''))
     else fdb_clear (database_key i))"

subsection \<open>Schemas\<close>

definition create_schema :: "SchemaMeta \<Rightarrow> unit op" where
  "create_schema sc = fdb_set (schema_key (sch_db_id sc) (sch_id sc)) (VSchema sc)"

definition get_schema :: "DatabaseId \<Rightarrow> SchemaId \<Rightarrow> SchemaMeta option query" where
  "get_schema db_id schema_id = get_record as_schema (schema_key db_id schema_id)"

definition list_tables :: "fdb \<Rightarrow> DatabaseId \<Rightarrow> SchemaId \<Rightarrow> TableMeta list query" where
  "list_tables fx db_id schema_id = list_records fx as_table (C_table, [TInt db_id, TInt schema_id])"

definition drop_schema :: "fdb \<Rightarrow> DatabaseId \<Rightarrow> SchemaId \<Rightarrow> unit op" where
  "drop_schema fx db_id schema_id =
     op_bind (op_query (list_tables fx db_id schema_id)) (\<lambda>tables.
     if tables \<noteq> []
     then op_fail (Internal (''Cannot drop schema: has '' @ show_nat (length tables) @ '' tables''))
     else fdb_clear (schema_key db_id schema_id))"

subsection \<open>Tables\<close>

definition create_table :: "TableMeta \<Rightarrow> unit op" where
  "create_table tbl =
     op_bind (if tbl_id tbl = 0 then fdb_atomic_inc (next_id_key ''table'') else op_ret (tbl_id tbl)) (\<lambda>i.
     fdb_set (table_key (tbl_db_id tbl) (tbl_schema_id tbl) i) (VTable (tbl\<lparr>tbl_id := i\<rparr>)))"

definition get_table :: "DatabaseId \<Rightarrow> SchemaId \<Rightarrow> TableId \<Rightarrow> TableMeta option query" where
  "get_table db_id schema_id table_id = get_record as_table (table_key db_id schema_id table_id)"

definition drop_table :: "fdb \<Rightarrow> TableId \<Rightarrow> unit op" where
  "drop_table fx table_id =
     op_bind (op_query (get_active_mps fx table_id)) (\<lambda>active_mps.
     op_bind (fdb_clear (C_table_version, [TInt table_id])) (\<lambda>_.
     (let (mp_start, mp_end) = category_range fx (C_table_mps, [TInt table_id]) in
      db_run (internal_err fx ''FDB drop_table failed: '')
        (\<lambda>s. and_then (trx_clear_range fx mp_start mp_end s) (\<lambda>(u, s1).
             Ok ((), apply_clears (map (\<lambda>mp. mp_key (mpm_id mp)) active_mps) s1))))))"

subsection \<open>Functions\<close>

definition function_by_name_key :: "DatabaseId \<Rightarrow> SchemaId \<Rightarrow> string \<Rightarrow> FunctionSignature \<Rightarrow> key" where
  "function_by_name_key db_id schema_id name sg =
     (C_function_by_name, [TInt db_id, TInt schema_id, TStr (normalize_ident name), TStr (signature_key sg)])"

abbreviation fn_name_key :: "FunctionMeta \<Rightarrow> key" where
  "fn_name_key f \<equiv> function_by_name_key (fn_db_id f) (fn_schema_id f) (fn_name f) (fn_signature f)"

abbreviation fn_key :: "FunctionMeta \<Rightarrow> key" where
  "fn_key f \<equiv> function_key (fn_db_id f) (fn_schema_id f) (fn_id f)"

definition function_sets :: "FunctionMeta \<Rightarrow> (key \<times> value) list" where
  "function_sets f =
     [(fn_key f, VFunction f), (fn_name_key f, u64_bytes (fn_id f)),
      (function_by_id_key (fn_id f), VFunctionRef (fn_db_id f, fn_schema_id f, fn_id f))]"

definition create_function :: "fdb \<Rightarrow> FunctionMeta \<Rightarrow> unit op" where
  "create_function fx f0 =
     op_bind (if fn_id f0 = 0 then fdb_atomic_inc (next_id_key ''function'') else op_ret (fn_id f0)) (\<lambda>i.
     (let f = f0\<lparr>fn_id := i\<rparr> in
      op_bind (fdb_checked_write_batch fx [fn_key f, fn_name_key f, function_by_id_key (fn_id f)]
                 (function_sets f) [] False) (\<lambda>_.
      op_ret ())))"

definition get_function :: "DatabaseId \<Rightarrow> SchemaId \<Rightarrow> FunctionId \<Rightarrow> FunctionMeta option query" where
  "get_function db_id schema_id function_id = get_record as_function (function_key db_id schema_id function_id)"

definition get_function_by_id :: "FunctionId \<Rightarrow> FunctionMeta option query" where
  "get_function_by_id function_id s =
     (case db_get s (function_by_id_key function_id) of
        None \<Rightarrow> Ok None
      | Some v \<Rightarrow> and_then (deserialize as_function_ref v) (\<lambda>(db_id, schema_id, i).
                 get_function db_id schema_id i s))"

definition replace_function :: "fdb \<Rightarrow> FunctionMeta \<Rightarrow> unit op" where
  "replace_function fx f =
     op_bind (op_query (get_function_by_id (fn_id f))) (\<lambda>r.
     (case r of
        None \<Rightarrow> op_fail (Internal (''function '' @ quoted (show_u64 (fn_id f)) @ '' not found''))
      | Some old \<Rightarrow>
          op_bind (op_query (fdb_get (fn_name_key f))) (\<lambda>existing.
          if (case existing of Some v \<Rightarrow> lenient_u64 v \<noteq> fn_id f | None \<Rightarrow> False)
          then op_fail (Internal (''function '' @ quoted (fn_name f) @ '' with signature '' @
                 quoted (signature_key (fn_signature f)) @ '' already exists''))
          else op_bind (fdb_write_batch fx (function_sets f)
                 ((if fn_key old \<noteq> fn_key f then [fn_key old] else []) @
                  (if fn_name_key old \<noteq> fn_name_key f then [fn_name_key old] else [])) False) (\<lambda>_.
               op_ret ()))))"

definition get_function_by_signature ::
  "DatabaseId \<Rightarrow> SchemaId \<Rightarrow> string \<Rightarrow> FunctionSignature \<Rightarrow> FunctionMeta option query" where
  "get_function_by_signature db_id schema_id name sg s =
     (case db_get s (function_by_name_key db_id schema_id name sg) of
        None \<Rightarrow> Ok None
      | Some v \<Rightarrow> get_function db_id schema_id (lenient_u64 v) s)"

definition list_functions :: "fdb \<Rightarrow> DatabaseId \<Rightarrow> SchemaId \<Rightarrow> FunctionMeta list query" where
  "list_functions fx db_id schema_id = list_records fx as_function (C_function, [TInt db_id, TInt schema_id])"

definition drop_function :: "fdb \<Rightarrow> FunctionId \<Rightarrow> unit op" where
  "drop_function fx function_id =
     op_bind (op_query (get_function_by_id function_id)) (\<lambda>r.
     (case r of
        None \<Rightarrow> op_ret ()
      | Some f \<Rightarrow>
          op_bind (op_query (rbac_clear_keys_for_object fx (object_ref OT_Function function_id))) (\<lambda>rbac.
          op_bind (fdb_write_batch fx []
                     ([fn_key f, fn_name_key f, function_by_id_key function_id] @ rbac) True) (\<lambda>_.
          op_ret ()))))"

subsection \<open>Listing and guarded drops\<close>

lemma wf_category:
  assumes "store_wf s" "db_get s k = Some v"
  shows "fst k = C_db \<Longrightarrow> \<exists>d. v = VDatabase d \<and> k = database_key (dbm_id d)"
    and "fst k = C_schema \<Longrightarrow> \<exists>d. v = VSchema d \<and> k = schema_key (sch_db_id d) (sch_id d)"
    and "fst k = C_table \<Longrightarrow> \<exists>d. v = VTable d \<and> k = table_key (tbl_db_id d) (tbl_schema_id d) (tbl_id d)"
    and "fst k = C_function \<Longrightarrow> \<exists>d. v = VFunction d \<and> k = fn_key d"
  using store_wfD [OF assms] by (cases v; auto simp: object_keys)+

context fdb_client
begin

lemma list_records_ints:
  assumes "db_size s \<le> lim" "(ucast m :: byte) \<noteq> 255"
    and "\<forall>k v. db_get s k = Some v \<and> fst k = c \<longrightarrow> (\<exists>d. p v = Some d)"
  shows "\<exists>ds. list_records fx p (int_key c (ns @ [m])) s = Ok ds \<and>
     set ds = {d. \<exists>k v. db_get s k = Some v \<and> p v = Some d \<and> fst k = c \<and> prefix (map TInt (ns @ [m])) (snd k)}"
proof -
  obtain kvs where kvs: "fdb_get_range fx (category_range fx (int_key c (ns @ [m]))) s = Ok kvs"
    "set kvs = {(k, v). db_get s k = Some v \<and> fst k = c \<and> prefix (map TInt (ns @ [m])) (snd k)}"
    using get_range_ints [OF assms(1,2), of c ns] by (elim exE conjE)
  let ?ds = "map (\<lambda>kv. the (p (snd kv))) kvs"
  have dec: "\<exists>d. p (snd kv) = Some d" if "kv \<in> set kvs" for kv
  proof -
    obtain k v where kv: "kv = (k, v)" by fastforce
    with that kvs(2) have "db_get s k = Some v" "fst k = c" by simp_all
    then have "\<exists>d. p v = Some d" using assms(3) by blast
    with kv show ?thesis by simp
  qed
  have "list_records fx p (int_key c (ns @ [m])) s = Ok ?ds"
    unfolding list_records_def kvs(1) and_then_simps
    by (intro collect_results_all_ok) (auto dest!: dec simp: deserialize_def)
  moreover have "set ?ds = {d. \<exists>k v. db_get s k = Some v \<and> p v = Some d \<and> fst k = c \<and>
      prefix (map TInt (ns @ [m])) (snd k)}"
  proof -
    have mem: "(k, v) \<in> set kvs \<longleftrightarrow> db_get s k = Some v \<and> fst k = c \<and> prefix (map TInt (ns @ [m])) (snd k)"
      for k v by (simp add: kvs(2))
    have the_p: "d = the (p v) \<longleftrightarrow> p v = Some d" if "(k, v) \<in> set kvs" for d k v
      using dec [OF that] by auto
    have "d \<in> set ?ds \<longleftrightarrow> (\<exists>k v. (k, v) \<in> set kvs \<and> p v = Some d)" for d
      unfolding set_map image_iff using the_p by (metis prod.collapse snd_conv)
    then show ?thesis unfolding mem by blast
  qed
  ultimately show ?thesis by (intro exI conjI)
qed

lemma schemas_exact:
  assumes "store_wf s" "db_size s \<le> lim" "(ucast i :: byte) \<noteq> 255"
  shows "\<exists>ds. list_schemas fx i s = Ok ds \<and> set ds = {d. db_get s (schema_key i (sch_id d)) = Some (VSchema d)}"
proof -
  have "\<forall>k v. db_get s k = Some v \<and> fst k = C_schema \<longrightarrow> (\<exists>d. as_schema v = Some d)"
    using wf_category(2) [OF assms(1)] by (metis as_simps(2))
  from list_records_ints [OF assms(2,3) this, of "[]"] obtain ds where
    ds: "list_schemas fx i s = Ok ds" "set ds = {d. \<exists>k v. db_get s k = Some v \<and> as_schema v = Some d \<and>
      fst k = C_schema \<and> prefix [TInt i] (snd k)}" by (auto simp: list_schemas_def)
  have "(\<exists>k v. db_get s k = Some v \<and> as_schema v = Some d \<and> fst k = C_schema \<and> prefix [TInt i] (snd k)) \<longleftrightarrow>
      db_get s (schema_key i (sch_id d)) = Some (VSchema d)" for d
  proof
    assume "\<exists>k v. db_get s k = Some v \<and> as_schema v = Some d \<and> fst k = C_schema \<and> prefix [TInt i] (snd k)"
    then obtain k v where k: "db_get s k = Some v" "v = VSchema d" "fst k = C_schema" "prefix [TInt i] (snd k)"
      by (auto simp: as_iff)
    with wf_category(2) [OF assms(1) k(1,3)] show "db_get s (schema_key i (sch_id d)) = Some (VSchema d)" by auto
  qed force
  with ds show ?thesis by simp
qed

lemma tables_exact:
  assumes "store_wf s" "db_size s \<le> lim" "(ucast j :: byte) \<noteq> 255"
  shows "\<exists>ds. list_tables fx i j s = Ok ds \<and> set ds = {d. db_get s (table_key i j (tbl_id d)) = Some (VTable d)}"
proof -
  have "\<forall>k v. db_get s k = Some v \<and> fst k = C_table \<longrightarrow> (\<exists>d. as_table v = Some d)"
    using wf_category(3) [OF assms(1)] by (metis as_simps(3))
  from list_records_ints [OF assms(2,3) this, of "[i]"] obtain ds where
    ds: "list_tables fx i j s = Ok ds" "set ds = {d. \<exists>k v. db_get s k = Some v \<and> as_table v = Some d \<and>
      fst k = C_table \<and> prefix [TInt i, TInt j] (snd k)}" by (auto simp: list_tables_def)
  have "(\<exists>k v. db_get s k = Some v \<and> as_table v = Some d \<and> fst k = C_table \<and> prefix [TInt i, TInt j] (snd k)) \<longleftrightarrow>
      db_get s (table_key i j (tbl_id d)) = Some (VTable d)" for d
  proof
    assume "\<exists>k v. db_get s k = Some v \<and> as_table v = Some d \<and> fst k = C_table \<and> prefix [TInt i, TInt j] (snd k)"
    then obtain k v where k: "db_get s k = Some v" "v = VTable d" "fst k = C_table"
      "prefix [TInt i, TInt j] (snd k)" by (auto simp: as_iff)
    with wf_category(3) [OF assms(1) k(1,3)] show "db_get s (table_key i j (tbl_id d)) = Some (VTable d)" by auto
  qed force
  with ds show ?thesis by simp
qed

lemma clear_category_range:
  assumes "(ucast m :: byte) \<noteq> 255"
  shows "\<exists>s1. trx_clear_range fx (fst (category_range fx (int_key c (ns @ [m]))))
      (snd (category_range fx (int_key c (ns @ [m])))) s = Ok ((), s1) \<and>
    (\<forall>k. db_get s1 k = (if fst k = c \<and> prefix (map TInt (ns @ [m])) (snd k) then None else db_get s k))"
proof -
  let ?t = "int_key c (ns @ [m])"
  let ?in = "in_range fx (fst (category_range fx ?t)) (snd (category_range fx ?t))"
  let ?s1 = "fold db_clear (filter ?in (map fst (DAList.impl_of s))) s"
  have "last (fdb_pack fx ?t) \<noteq> 255" using tuple_layer.last_ff_iff [OF layout, of c ns m] assms by blast
  from category_range_ordered [OF this]
  have run: "trx_clear_range fx (fst (category_range fx ?t)) (snd (category_range fx ?t)) s = Ok ((), ?s1)"
    by (simp add: trx_clear_range_def)
  have dom: "db_get s k = None" if "k \<notin> set (map fst (DAList.impl_of s))" for k
    using that by (simp add: DAList.lookup.rep_eq map_of_eq_None_iff)
  have "db_get ?s1 k = (if fst k = c \<and> prefix (map TInt (ns @ [m])) (snd k) then None else db_get s k)" for k
    using covered_ints [OF assms, of c ns k] db_get_apply_clears [of "filter ?in (map fst (DAList.impl_of s))" s k] dom [of k]
    by (auto simp: covered_def apply_clears_def)
  with run show ?thesis by (intro exI conjI allI)
qed

end

subsection \<open>The layout is kept\<close>

lemma keeps_create_database: "keeps store_wf (create_database db)"
  unfolding create_database_def by (auto intro!: keeps_bind keeps_wf_inc keeps_wf_set)

lemma keeps_create_schema: "keeps store_wf (create_schema sc)"
  unfolding create_schema_def by (auto intro!: keeps_wf_set)

lemma keeps_create_table: "keeps store_wf (create_table t)"
  unfolding create_table_def by (auto intro!: keeps_bind keeps_wf_inc keeps_wf_set)

lemma keeps_drop_database: "keeps store_wf (drop_database fx i)"
  unfolding drop_database_def by (auto intro!: keeps_bind keeps_wf_clear)

lemma keeps_drop_schema: "keeps store_wf (drop_schema fx i j)"
  unfolding drop_schema_def by (auto intro!: keeps_bind keeps_wf_clear)

lemma store_wf_fold_clear: "store_wf s \<Longrightarrow> store_wf (fold db_clear ks s)"
  using store_wf_clears [of s ks] by (simp add: apply_clears_def)

lemma keeps_drop_table: "keeps store_wf (drop_table fx t)"
  unfolding drop_table_def
  by (auto intro!: keeps_bind keeps_wf_clear keeps_run store_wf_clears store_wf_fold_clear
      simp: and_then_Inr_iff trx_clear_range_def split: prod.splits if_splits option.splits)

lemma function_sets_ok: "list_all (\<lambda>(k, v). value_ok v k) (function_sets f)"
  by (simp add: function_sets_def function_by_name_key_def)

lemma keeps_create_function: "keeps store_wf (create_function fx f)"
  unfolding create_function_def Let_def
  by (auto intro!: keeps_bind keeps_wf_inc keeps_wf_checked function_sets_ok)

lemma keeps_replace_function: "keeps store_wf (replace_function fx f)"
  unfolding replace_function_def
  by (auto intro!: keeps_bind keeps_wf_batch function_sets_ok split: option.split)

lemma keeps_drop_function: "keeps store_wf (drop_function fx f)"
  unfolding drop_function_def
  by (auto intro!: keeps_bind keeps_wf_batch split: option.split)

lemmas keeps_wf_catalog = keeps_create_database keeps_create_schema keeps_create_table
  keeps_drop_database keeps_drop_schema keeps_drop_table keeps_create_function
  keeps_replace_function keeps_drop_function

subsection \<open>Function records and their indexes\<close>

definition function_index_ok :: "store \<Rightarrow> bool" where
  "function_index_ok s \<longleftrightarrow>
     (\<forall>k f. db_get s k = Some (VFunction f) \<longrightarrow>
        db_get s (fn_name_key f) = Some (u64_bytes (fn_id f)) \<and>
        db_get s (function_by_id_key (fn_id f)) = Some (VFunctionRef (fn_db_id f, fn_schema_id f, fn_id f))) \<and>
     (\<forall>d sc i. db_get s (function_by_id_key i) = Some (VFunctionRef (d, sc, i)) \<longrightarrow>
        (\<exists>f. db_get s (function_key d sc i) = Some (VFunction f))) \<and>
     (\<forall>d sc n g v. db_get s (C_function_by_name, [TInt d, TInt sc, TStr n, TStr g]) = Some v \<longrightarrow>
        (\<exists>f. v = u64_bytes (fn_id f) \<and> db_get s (fn_key f) = Some (VFunction f) \<and>
             fn_name_key f = (C_function_by_name, [TInt d, TInt sc, TStr n, TStr g])))"

lemma function_indexD:
  assumes "function_index_ok s"
  shows "db_get s k = Some (VFunction f) \<Longrightarrow> db_get s (fn_name_key f) = Some (u64_bytes (fn_id f))"
    and "db_get s k = Some (VFunction f) \<Longrightarrow>
      db_get s (function_by_id_key (fn_id f)) = Some (VFunctionRef (fn_db_id f, fn_schema_id f, fn_id f))"
    and "db_get s (function_by_id_key i) = Some (VFunctionRef (d, sc, i)) \<Longrightarrow>
      \<exists>f. db_get s (function_key d sc i) = Some (VFunction f)"
    and "db_get s (C_function_by_name, [TInt d, TInt sc, TStr n, TStr g]) = Some v \<Longrightarrow>
      \<exists>f. v = u64_bytes (fn_id f) \<and> db_get s (fn_key f) = Some (VFunction f) \<and>
             fn_name_key f = (C_function_by_name, [TInt d, TInt sc, TStr n, TStr g])"
  using assms unfolding function_index_ok_def by blast+

text \<open>
  C18. Functions by signature. When records and indexes agree, a lookup by name and signature
  finds exactly the function that is stored under that normalised name and signature.
\<close>

theorem function_lookup_by_signature:
  assumes "store_wf s" "function_index_ok s"
  shows "get_function_by_signature d sc name sg s = Ok (Some f) \<longleftrightarrow>
     get_function_by_id (fn_id f) s = Ok (Some f) \<and> fn_name_key f = function_by_name_key d sc name sg"
proof -
  have by_id: "get_function_by_id (fn_id f) s = Ok (Some f) \<longleftrightarrow> db_get s (fn_key f) = Some (VFunction f)"
  proof
    assume "get_function_by_id (fn_id f) s = Ok (Some f)"
    then obtain a b i where "db_get s (function_key a b i) = Some (VFunction f)"
      by (auto simp: get_function_by_id_def get_function_def get_record_Some_iff as_iff and_then_Inr_iff
          split: option.splits)
    with wf_read(4) [OF assms(1) this] show "db_get s (fn_key f) = Some (VFunction f)" by auto
  next
    assume a: "db_get s (fn_key f) = Some (VFunction f)"
    from function_indexD(2) [OF assms(2) a] a
    show "get_function_by_id (fn_id f) s = Ok (Some f)"
      by (simp add: get_function_by_id_def get_function_def get_record_Some_iff deserialize_def)
  qed
  show ?thesis
  proof
    assume "get_function_by_signature d sc name sg s = Ok (Some f)"
    then obtain v where v: "db_get s (function_by_name_key d sc name sg) = Some v"
      "db_get s (function_key d sc (lenient_u64 v)) = Some (VFunction f)"
      by (auto simp: get_function_by_signature_def get_function_def get_record_Some_iff as_iff split: option.splits)
    from function_indexD(4) [OF assms(2) v(1) [unfolded function_by_name_key_def]] obtain f' where
      f': "v = u64_bytes (fn_id f')" "db_get s (fn_key f') = Some (VFunction f')"
      "fn_name_key f' = function_by_name_key d sc name sg" by (auto simp: function_by_name_key_def)
    then have "fn_db_id f' = d" "fn_schema_id f' = sc" by (simp_all add: function_by_name_key_def)
    with f' v(2) have "f' = f" by simp
    with f' show "get_function_by_id (fn_id f) s = Ok (Some f) \<and> fn_name_key f = function_by_name_key d sc name sg"
      by (simp add: by_id)
  next
    assume a: "get_function_by_id (fn_id f) s = Ok (Some f) \<and> fn_name_key f = function_by_name_key d sc name sg"
    then have f: "db_get s (fn_key f) = Some (VFunction f)" by (simp add: by_id)
    have "fn_db_id f = d" "fn_schema_id f = sc" using a by (simp_all add: function_by_name_key_def)
    with f function_indexD(1) [OF assms(2) f] a show "get_function_by_signature d sc name sg s = Ok (Some f)"
      by (simp add: get_function_by_signature_def get_function_def get_record_Some_iff)
  qed
qed

lemma function_unique:
  assumes "function_index_ok s" "db_get s (fn_key a) = Some (VFunction a)" "db_get s (fn_key b) = Some (VFunction b)"
  shows "fn_id a = fn_id b \<Longrightarrow> a = b" "fn_name_key a = fn_name_key b \<Longrightarrow> a = b"
proof -
  show id: "a = b" if "fn_id a = fn_id b"
    using function_indexD(2) [OF assms(1,2)] function_indexD(2) [OF assms(1,3)] that assms(2,3) by simp
  show "a = b" if "fn_name_key a = fn_name_key b"
  proof -
    have "u64_bytes (fn_id a) = u64_bytes (fn_id b)"
      using function_indexD(1) [OF assms(1,2)] function_indexD(1) [OF assms(1,3)] that by simp
    then have "fn_id a = fn_id b" by (metis stored_u64(3))
    then show ?thesis by (rule id)
  qed
qed

definition fn_keys :: "FunctionMeta \<Rightarrow> key set" where
  "fn_keys f = {fn_key f, fn_name_key f, function_by_id_key (fn_id f)}"

abbreviation fn_categories :: "category set" where
  "fn_categories \<equiv> {C_function, C_function_by_name, C_function_by_id}"

text \<open>
  The common step of create, replace and drop: the entries of one function are taken out and
  those of another are put in, in this order.
\<close>

definition function_swap ::
  "store \<Rightarrow> FunctionMeta option \<Rightarrow> FunctionMeta option \<Rightarrow> store \<Rightarrow> bool" where
  "function_swap s old new s' \<longleftrightarrow>
     function_index_ok s \<and> store_wf s \<and> store_wf s' \<and>
     (\<forall>g. old = Some g \<longrightarrow> db_get s (fn_key g) = Some (VFunction g)) \<and>
     (\<forall>f v. new = Some f \<longrightarrow> db_get s (fn_name_key f) = Some v \<longrightarrow> v = u64_bytes (fn_id f)) \<and>
     (\<forall>f. new = Some f \<longrightarrow> db_get s (function_by_id_key (fn_id f)) \<noteq> None \<longrightarrow>
        (\<exists>g. old = Some g \<and> fn_id g = fn_id f)) \<and>
     (\<forall>f. new = Some f \<longrightarrow> db_get s' (fn_key f) = Some (VFunction f) \<and>
        db_get s' (fn_name_key f) = Some (u64_bytes (fn_id f)) \<and>
        db_get s' (function_by_id_key (fn_id f)) = Some (VFunctionRef (fn_db_id f, fn_schema_id f, fn_id f))) \<and>
     (\<forall>g k. old = Some g \<longrightarrow> k \<in> fn_keys g \<longrightarrow> (\<forall>f. new = Some f \<longrightarrow> k \<notin> fn_keys f) \<longrightarrow>
        db_get s' k = None) \<and>
     (\<forall>k. fst k \<in> fn_categories \<longrightarrow> (\<forall>g. old = Some g \<longrightarrow> k \<notin> fn_keys g) \<longrightarrow>
        (\<forall>f. new = Some f \<longrightarrow> k \<notin> fn_keys f) \<longrightarrow> db_get s' k = db_get s k)"

lemmas function_swapD =
  function_swap_def [THEN iffD1, THEN conjunct1]
  function_swap_def [THEN iffD1, THEN conjunct2, THEN conjunct1]
  function_swap_def [THEN iffD1, THEN conjunct2, THEN conjunct2, THEN conjunct1]
  function_swap_def [THEN iffD1, THEN conjunct2, THEN conjunct2, THEN conjunct2, THEN
    conjunct1, THEN spec, THEN mp]
  function_swap_def [THEN iffD1, THEN conjunct2, THEN conjunct2, THEN conjunct2, THEN
    conjunct2, THEN conjunct1, THEN spec, THEN spec, THEN mp, THEN mp]
  function_swap_def [THEN iffD1, THEN conjunct2, THEN conjunct2, THEN conjunct2, THEN
    conjunct2, THEN conjunct2, THEN conjunct1, THEN spec, THEN mp, THEN mp]
  function_swap_def [THEN iffD1, THEN conjunct2, THEN conjunct2, THEN conjunct2, THEN
    conjunct2, THEN conjunct2, THEN conjunct2, THEN conjunct1, THEN spec, THEN mp]
  function_swap_def [THEN iffD1, THEN conjunct2, THEN conjunct2, THEN conjunct2, THEN
      conjunct2, THEN conjunct2, THEN conjunct2, THEN conjunct2, THEN conjunct1, THEN spec, THEN
    spec, THEN mp, THEN mp, THEN mp]
  function_swap_def [THEN iffD1, THEN conjunct2, THEN conjunct2, THEN conjunct2, THEN
      conjunct2, THEN conjunct2, THEN conjunct2, THEN conjunct2, THEN conjunct2, THEN spec, THEN
    mp, THEN mp, THEN mp]

lemma swap_ident:
  assumes "function_swap s old new s'" "db_get s (fn_key a) = Some (VFunction a)" "old \<noteq> Some a" "new = Some f"
  shows "fn_id a \<noteq> fn_id f"
proof
  note sw = function_swapD [OF assms(1)]
  assume eq: "fn_id a = fn_id f"
  with function_indexD(2) [OF sw(1) assms(2)] sw(6) [OF assms(4)] obtain g where
    g: "old = Some g" "fn_id g = fn_id f" by fastforce
  from function_unique(1) [OF sw(1) assms(2) sw(4) [OF g(1)]] eq g assms(3) show False by simp
qed

lemma swap_keep:
  assumes "function_swap s old new s'" "db_get s (fn_key a) = Some (VFunction a)" "old \<noteq> Some a" "k \<in> fn_keys a"
  shows "db_get s' k = db_get s k"
proof (rule function_swapD(9) [OF assms(1)])
  note sw = function_swapD [OF assms(1)]
  show "fst k \<in> fn_categories" using assms(4) by (auto simp: fn_keys_def function_by_name_key_def)
  show "\<forall>g. old = Some g \<longrightarrow> k \<notin> fn_keys g"
  proof (intro allI impI)
    fix g assume g: "old = Some g"
    from function_unique [OF sw(1) assms(2) sw(4) [OF g]] assms(3) g
    have "fn_id a \<noteq> fn_id g" "fn_name_key a \<noteq> fn_name_key g" by auto
    with assms(4) show "k \<notin> fn_keys g" by (auto simp: fn_keys_def function_by_name_key_def)
  qed
  show "\<forall>f. new = Some f \<longrightarrow> k \<notin> fn_keys f"
  proof (intro allI impI)
    fix f assume f: "new = Some f"
    have id: "fn_id a \<noteq> fn_id f" by (rule swap_ident [OF assms(1-3) f])
    have "fn_name_key a \<noteq> fn_name_key f"
      using function_indexD(1) [OF sw(1) assms(2)] sw(5) [OF f, of "u64_bytes (fn_id a)"] id
      by (metis stored_u64(3))
    with id assms(4) show "k \<notin> fn_keys f" by (auto simp: fn_keys_def function_by_name_key_def)
  qed
qed

lemma swap_from:
  assumes "function_swap s old new s'" "db_get s' k = Some v" "fst k \<in> fn_categories"
    and "\<forall>f. new = Some f \<longrightarrow> k \<notin> fn_keys f"
  shows "db_get s k = Some v" "old = Some g \<Longrightarrow> k \<notin> fn_keys g"
proof -
  note sw = function_swapD [OF assms(1)]
  show no: "k \<notin> fn_keys g" if "old = Some g" for g using sw(8) [OF that _ assms(4)] assms(2) by auto
  then show "db_get s k = Some v" using sw(9) [OF assms(3) _ assms(4)] assms(2) by auto
qed

lemma swap_stored:
  assumes "function_swap s old new s'" "db_get s' (fn_key a) = Some (VFunction a)" "new \<noteq> Some a"
  shows "db_get s (fn_key a) = Some (VFunction a)" "old \<noteq> Some a"
proof -
  have "\<forall>f. new = Some f \<longrightarrow> fn_key a \<notin> fn_keys f"
    using function_swapD(7) [OF assms(1)] assms(2,3) by (fastforce simp: fn_keys_def function_by_name_key_def)
  note from_s = swap_from [OF assms(1,2) _ this]
  show "db_get s (fn_key a) = Some (VFunction a)" using from_s(1) by simp
  show "old \<noteq> Some a" using from_s(2) [of a] by (auto simp: fn_keys_def)
qed

lemma function_index_swap:
  assumes "function_swap s old new s'"
  shows "function_index_ok s'"
  unfolding function_index_ok_def
proof (intro conjI allI impI)
  note sw = function_swapD [OF assms]
  {
    fix k f assume kf: "db_get s' k = Some (VFunction f)"
    then have f: "db_get s' (fn_key f) = Some (VFunction f)" using store_wfD [OF sw(3) kf] by simp
    have "db_get s' (fn_name_key f) = Some (u64_bytes (fn_id f)) \<and>
        db_get s' (function_by_id_key (fn_id f)) = Some (VFunctionRef (fn_db_id f, fn_schema_id f, fn_id f))"
    proof (cases "new = Some f")
      case False
      note st = swap_stored [OF assms f False]
      from swap_keep [OF assms st] function_indexD(1,2) [OF sw(1) st(1)] show ?thesis by (simp add: fn_keys_def)
    qed (use sw(7) in blast)
    then show "db_get s' (fn_name_key f) = Some (u64_bytes (fn_id f))"
      and "db_get s' (function_by_id_key (fn_id f)) = Some (VFunctionRef (fn_db_id f, fn_schema_id f, fn_id f))" by blast+
  }
  show "\<exists>f. db_get s' (function_key d sc i) = Some (VFunction f)"
    if i: "db_get s' (function_by_id_key i) = Some (VFunctionRef (d, sc, i))" for d sc i
  proof (cases "\<exists>f. new = Some f \<and> fn_id f = i")
    case True
    with sw(7) i show ?thesis by auto
  next
    case False
    then have nf: "\<forall>f. new = Some f \<longrightarrow> function_by_id_key i \<notin> fn_keys f"
      by (auto simp: fn_keys_def function_by_name_key_def)
    note from_s = swap_from [OF assms i _ nf, simplified]
    obtain f where fk: "db_get s (function_key d sc i) = Some (VFunction f)"
      using function_indexD(3) [OF sw(1) from_s(1)] by blast
    with wf_read(4) [OF sw(2) fk] have f: "db_get s (fn_key f) = Some (VFunction f)" "fn_id f = i"
      "fn_db_id f = d" "fn_schema_id f = sc" by auto
    have "old \<noteq> Some f" using from_s(2) f(2) by (auto simp: fn_keys_def)
    from swap_keep [OF assms f(1) this, of "fn_key f"] f show ?thesis by (auto simp: fn_keys_def)
  qed
  fix d sc n g v
  let ?k = "(C_function_by_name, [TInt d, TInt sc, TStr n, TStr g])"
  assume v: "db_get s' ?k = Some v"
  show "\<exists>f. v = u64_bytes (fn_id f) \<and> db_get s' (fn_key f) = Some (VFunction f) \<and> fn_name_key f = ?k"
  proof (cases "\<exists>f. new = Some f \<and> fn_name_key f = ?k")
    case True
    with sw(7) v show ?thesis by (metis option.inject)
  next
    case False
    then have nf: "\<forall>f. new = Some f \<longrightarrow> ?k \<notin> fn_keys f" by (auto simp: fn_keys_def)
    note from_s = swap_from [OF assms v _ nf, simplified]
    obtain f where f: "v = u64_bytes (fn_id f)" "db_get s (fn_key f) = Some (VFunction f)" "fn_name_key f = ?k"
      using function_indexD(4) [OF sw(1) from_s(1)] by blast
    have "old \<noteq> Some f" using from_s(2) f(3) by (auto simp: fn_keys_def)
    from swap_keep [OF assms f(2) this, of "fn_key f"] f show ?thesis by (auto simp: fn_keys_def)
  qed
qed

lemma function_sets_get:
  "db_get (apply_sets (function_sets f) s) k =
     (if k = function_by_id_key (fn_id f) then Some (VFunctionRef (fn_db_id f, fn_schema_id f, fn_id f))
      else if k = fn_name_key f then Some (u64_bytes (fn_id f))
      else if k = fn_key f then Some (VFunction f) else db_get s k)"
  by (simp add: function_sets_def function_by_name_key_def)

lemma fn_keys_apart: "fn_key f \<noteq> fn_name_key g" "function_by_id_key i \<noteq> fn_name_key g" "function_by_id_key i \<noteq> fn_key g"
  "fn_name_key g \<noteq> fn_key f" "fn_name_key g \<noteq> function_by_id_key i" "fn_key g \<noteq> function_by_id_key i"
  by (simp_all add: function_by_name_key_def)

lemma function_index_other:
  assumes "function_index_ok s" "\<forall>k. fst k \<in> fn_categories \<longrightarrow> db_get s' k = db_get s k" "store_wf s'" "store_wf s"
  shows "function_index_ok s'"
  by (rule function_index_swap [of s None None]) (use assms in \<open>simp add: function_swap_def\<close>)

lemma create_function_index:
  assumes "function_index_ok s" "store_wf s"
  shows "function_index_ok (snd (create_function fx f s))"
proof -
  define i where "i = (if fn_id f = 0 then counter (next_id_key ''function'') s + 1 else fn_id f)"
  define s1 where "s1 = (if fn_id f = 0 then db_set (next_id_key ''function'') (u64_bytes i) s else s)"
  let ?f = "f\<lparr>fn_id := i\<rparr>"
  have wf1: "store_wf s1" using assms(2) by (simp add: s1_def store_wf_set)
  have ok1: "function_index_ok s1"
    using function_index_other [OF assms(1) _ wf1 assms(2)] by (auto simp: s1_def next_id_key_def)
  have run: "snd (create_function fx f s) =
      (if list_ex (\<lambda>k. db_get s1 k \<noteq> None) [fn_key ?f, fn_name_key ?f, function_by_id_key i]
       then s1 else apply_sets (function_sets ?f) s1)"
    by (simp add: create_function_def op_bind_def Let_def checked_write_batch_run write_batch_run i_def s1_def)
  show ?thesis
  proof (cases "list_ex (\<lambda>k. db_get s1 k \<noteq> None) [fn_key ?f, fn_name_key ?f, function_by_id_key i]")
    case True
    with run ok1 show ?thesis by (simp only: if_True)
  next
    case False
    then have "function_swap s1 None (Some ?f) (apply_sets (function_sets ?f) s1)"
      using ok1 wf1 store_wf_sets [OF wf1 function_sets_ok, of ?f]
      by (auto simp: function_swap_def function_sets_get fn_keys_apart fn_keys_def)
    from function_index_swap [OF this] run False show ?thesis by (simp only: if_False)
  qed
qed

lemma get_function_by_id_stored:
  assumes "function_index_ok s" "store_wf s" "get_function_by_id i s = Ok (Some f)"
  shows "db_get s (fn_key f) = Some (VFunction f)" "fn_id f = i"
proof -
  from assms(3) obtain v where v: "db_get s (function_by_id_key i) = Some v"
    by (auto simp: get_function_by_id_def split: option.splits)
  with wf_read(5) [OF assms(2)] obtain a b where "v = VFunctionRef (a, b, i)" by blast
  with v assms(3) have k: "db_get s (function_key a b i) = Some (VFunction f)"
    by (simp add: get_function_by_id_def get_function_def deserialize_def get_record_Some_iff as_iff)
  with wf_read(4) [OF assms(2) k] show "db_get s (fn_key f) = Some (VFunction f)" "fn_id f = i" by auto
qed

lemma replace_function_index:
  assumes "function_index_ok s" "store_wf s"
  shows "function_index_ok (snd (replace_function fx f s))"
proof (cases "\<exists>old. get_function_by_id (fn_id f) s = Ok (Some old) \<and>
    \<not> (case db_get s (fn_name_key f) of Some v \<Rightarrow> lenient_u64 v \<noteq> fn_id f | None \<Rightarrow> False)")
  case False
  then have "snd (replace_function fx f s) = s"
    by (auto simp: replace_function_def op_bind_def split: sum.splits option.splits)
  with assms show ?thesis by simp
next
  case True
  then obtain old where old: "get_function_by_id (fn_id f) s = Ok (Some old)"
    and free: "\<not> (case db_get s (fn_name_key f) of Some v \<Rightarrow> lenient_u64 v \<noteq> fn_id f | None \<Rightarrow> False)" by blast
  note st = get_function_by_id_stored [OF assms old]
  let ?c = "(if fn_key old \<noteq> fn_key f then [fn_key old] else []) @
            (if fn_name_key old \<noteq> fn_name_key f then [fn_name_key old] else [])"
  let ?s = "apply_clears ?c (apply_sets (function_sets f) s)"
  have run: "snd (replace_function fx f s) = ?s"
    using old free by (simp add: replace_function_def op_bind_def write_batch_run)
  have wf: "store_wf ?s" by (intro store_wf_clears store_wf_sets function_sets_ok assms(2))
  have name: "v = u64_bytes (fn_id f)" if v: "db_get s (fn_name_key f) = Some v" for v
    using wf_u64 [OF assms(2) v, of "[True, True, False, False]"] free v
    by (auto simp: function_by_name_key_def)
  have get: "db_get ?s k = (if k = fn_key f then Some (VFunction f)
      else if k = fn_name_key f then Some (u64_bytes (fn_id f))
      else if k = function_by_id_key (fn_id f) then Some (VFunctionRef (fn_db_id f, fn_schema_id f, fn_id f))
      else if k = fn_key old \<or> k = fn_name_key old then None else db_get s k)" for k
    by (auto simp: db_get_apply_clears function_sets_get fn_keys_apart)
  have "function_swap s (Some old) (Some f) ?s"
    unfolding function_swap_def get
    using assms wf st name by (auto simp: fn_keys_def fn_keys_apart)
  from function_index_swap [OF this] run show ?thesis by (simp only:)
qed

lemma rbac_keys_categories:
  assumes "rbac_clear_keys_for_object fx ob s = Ok ks" "k \<in> set ks"
    and "\<And>kvs k v. fdb_get_range fx (category_range fx
       (C_grant_by_object, [TInt (object_type_key (obj_type ob)), TInt (obj_id ob)])) s = Ok kvs \<Longrightarrow>
       (k, v) \<in> set kvs \<Longrightarrow> fst k = C_grant_by_object"
  shows "fst k \<in> {C_object_owner, C_grant, C_grant_by_object}"
proof -
  let ?g = "\<lambda>kv. and_then (unpack_ids fx 3 (fst kv)) (\<lambda>ids. Ok [grant_key (ids ! 2) ob, fst kv])"
  from assms(1) obtain kvs xs where kvs: "fdb_get_range fx (category_range fx
       (C_grant_by_object, [TInt (object_type_key (obj_type ob)), TInt (obj_id ob)])) s = Ok kvs"
    "collect_results ?g kvs = Ok xs" "ks = owner_key ob # concat xs"
    by (auto simp: rbac_clear_keys_for_object_def and_then_Inr_iff)
  have "fst k \<in> {C_grant, C_grant_by_object}" if x: "x \<in> set xs" "k \<in> set x" for x
  proof -
    from collect_results_mem [OF kvs(2) x(1)] obtain kv where kv: "kv \<in> set kvs" "?g kv = Ok x" by blast
    then obtain ids where "x = [grant_key (ids ! 2) ob, fst kv]" by (auto simp: and_then_Inr_iff)
    with x(2) assms(3) [OF kvs(1), of "fst kv" "snd kv"] kv(1) show ?thesis by (auto simp: grant_key_def)
  qed
  with assms(2) kvs(3) show ?thesis by (auto simp: owner_key_def)
qed

lemma drop_function_index:
  assumes "function_index_ok s" "store_wf s" "fdb_client fx lim"
  shows "function_index_ok (snd (drop_function fx i s))"
proof (cases "\<exists>f ks. get_function_by_id i s = Ok (Some f) \<and>
    rbac_clear_keys_for_object fx (object_ref OT_Function i) s = Ok ks")
  case False
  then have "snd (drop_function fx i s) = s"
    by (auto simp: drop_function_def op_bind_def split: sum.splits option.splits)
  with assms show ?thesis by simp
next
  case True
  then obtain f ks where f: "get_function_by_id i s = Ok (Some f)"
    and ks: "rbac_clear_keys_for_object fx (object_ref OT_Function i) s = Ok ks" by blast
  note st = get_function_by_id_stored [OF assms(1,2) f]
  have cat: "fst k \<in> {C_object_owner, C_grant, C_grant_by_object}" if "k \<in> set ks" for k
    by (rule rbac_keys_categories [OF ks that])
      (use fdb_client.get_range_sound [OF assms(3), of C_grant_by_object "[8]" i s] in
        \<open>auto simp: object_ref_def\<close>)
  let ?s1 = "apply_clears ([fn_key f, fn_name_key f, function_by_id_key i] @ ks) s"
  obtain n where run: "snd (drop_function fx i s) = db_set epoch_key (u64_bytes n) ?s1"
    using f ks by (simp add: drop_function_def op_bind_def write_batch_run Let_def)
  define s2 where "s2 = db_set epoch_key (u64_bytes n) ?s1"
  have wf: "store_wf s2" unfolding s2_def by (intro store_wf_set store_wf_clears assms(2)) simp
  have get: "db_get s2 k = (if k \<in> fn_keys f then None else db_get s k)" if "fst k \<in> fn_categories" for k
    using that cat [of k] st(2) by (auto simp: s2_def db_get_apply_clears fn_keys_def epoch_key_def)
  have "fst k \<in> fn_categories" if "k \<in> fn_keys f" for k
    using that by (auto simp: fn_keys_def function_by_name_key_def)
  then have "function_swap s (Some f) None s2"
    unfolding function_swap_def using assms(1,2) wf st(1) get by auto
  from function_index_swap [OF this] run show ?thesis by (simp only: s2_def)
qed

inductive function_step :: "fdb \<Rightarrow> store \<Rightarrow> store \<Rightarrow> bool" for fx where
  fn_create: "create_function fx f s = (res, s') \<Longrightarrow> function_step fx s s'"
| fn_replace: "replace_function fx f s = (res, s') \<Longrightarrow> function_step fx s s'"
| fn_drop: "drop_function fx i s = (res, s') \<Longrightarrow> function_step fx s s'"

lemma function_step_index:
  assumes "function_step fx s s'" "fdb_client fx lim" "store_wf s \<and> function_index_ok s"
  shows "store_wf s' \<and> function_index_ok s'"
  using assms(1)
proof cases
  case (fn_create f res)
  then have "s' = snd (create_function fx f s)" by simp
  with assms(3) show ?thesis using keepsD [OF keeps_create_function] create_function_index by simp
next
  case (fn_replace f res)
  then have "s' = snd (replace_function fx f s)" by simp
  with assms(3) show ?thesis using keepsD [OF keeps_replace_function] replace_function_index by simp
next
  case (fn_drop i res)
  then have "s' = snd (drop_function fx i s)" by simp
  with assms(2,3) show ?thesis using keepsD [OF keeps_drop_function] drop_function_index by simp
qed

definition sample_function :: FunctionMeta where
  "sample_function =
     \<lparr>fn_id = 5, fn_db_id = 1, fn_schema_id = 2, fn_name = ''f'', fn_signature = \<lparr>sig_arg_types = [''INT'']\<rparr>,
      fn_args = [], fn_return_type = ''INT'', fn_language = FL_Sql, fn_body = SqlExpression ''1'',
      fn_volatility = FV_Immutable, fn_null_handling = CalledOnNullInput, fn_created_at = 1,
      fn_updated_at = 1, fn_owner_role_id = 1, fn_comment = None, fn_properties = Map.empty\<rparr>"

text \<open>
  C17. Function indexes. After any sequence of creations, replacements and drops of functions,
  starting from an empty database, every function record has its entry in the index by name
  and signature and in the index by identifier, and every index entry leads to such a record.
\<close>

theorem function_indexes_consistent:
  assumes "fdb_client fx lim" "(function_step fx)\<^sup>*\<^sup>* DAList.empty s"
  shows "store_wf s \<and> function_index_ok s"
  using assms(2)
proof (induction rule: rtranclp_induct)
  case base
  show ?case by (simp add: store_wf_empty function_index_ok_def)
next
  case (step s s')
  show ?case by (rule function_step_index [OF step(2) assms(1) step(3)])
qed

theorem function_indexes_consistent_witness:
  "\<exists>s. create_function sample_fdb sample_function DAList.empty = (Ok (), s) \<and> function_index_ok s \<and>
     db_get s (function_by_id_key 5) = Some (VFunctionRef (1, 2, 5))"
proof -
  obtain res s where run: "create_function sample_fdb sample_function DAList.empty = (res, s)" by fastforce
  then have "(function_step sample_fdb)\<^sup>*\<^sup>* DAList.empty s" by (blast intro: fn_create)
  from function_indexes_consistent [OF sample_client this] have "function_index_ok s" by blast
  moreover have "res = Ok () \<and> db_get s (function_by_id_key 5) = Some (VFunctionRef (1, 2, 5))"
    using run by (auto simp: create_function_def op_bind_def sample_function_def Let_def checked_write_batch_run
        write_batch_run function_sets_def function_by_name_key_def)
  ultimately show ?thesis using run by blast
qed

theorem function_lookup_by_signature_witness:
  "get_function_by_signature 1 2 ''F'' \<lparr>sig_arg_types = [''INT'']\<rparr>
     (apply_sets (function_sets sample_function) DAList.empty) = Ok (Some sample_function)"
proof -
  let ?s = "apply_sets (function_sets sample_function) DAList.empty"
  have f: "fn_id sample_function = 5" "fn_db_id sample_function = 1" "fn_schema_id sample_function = 2"
    "fn_name sample_function = ''f''" "fn_signature sample_function = \<lparr>sig_arg_types = [''INT'']\<rparr>"
    by (simp_all add: sample_function_def)
  have names: "normalize_ident ''F'' = normalize_ident ''f''" by code_simp
  have wf: "store_wf ?s" by (intro store_wf_sets store_wf_empty function_sets_ok)
  have "function_swap DAList.empty None (Some sample_function) ?s"
    using wf by (auto simp: function_swap_def function_sets_get fn_keys_apart fn_keys_def store_wf_empty
        function_index_ok_def)
  from function_index_swap [OF this] have ok: "function_index_ok ?s" .
  have "get_function_by_id 5 ?s = Ok (Some sample_function)"
    by (simp add: get_function_by_id_def function_sets_get f deserialize_def get_function_def get_record_Some_iff
        fn_keys_apart function_by_name_key_def)
  with function_lookup_by_signature [OF wf ok, of 1 2 "''F''" "\<lparr>sig_arg_types = [''INT'']\<rparr>" sample_function]
  show ?thesis by (simp add: f function_by_name_key_def names)
qed


definition sample_schema :: SchemaMeta where
  "sample_schema = \<lparr>sch_id = 4, sch_db_id = 3, sch_name = ''s'', sch_created_at = 1\<rparr>"


lemma db_size_card: "db_size s = card (dom (db_get s))"
proof -
  have "card (dom (map_of al)) = length al" if "distinct (map fst al)" for al :: "(key \<times> value) list"
    using distinct_card [OF that] by (simp add: dom_map_of_conv_image_fst)
  then show ?thesis using impl_of [of s] by (simp add: DAList.lookup.rep_eq)
qed

lemma db_size_mono:
  assumes "\<And>k. db_get s' k \<noteq> None \<Longrightarrow> db_get s k \<noteq> None"
  shows "db_size s' \<le> db_size s"
proof -
  have "finite (dom (db_get s))" by (simp add: DAList.lookup.rep_eq finite_dom_map_of)
  moreover have "dom (db_get s') \<subseteq> dom (db_get s)" using assms by auto
  ultimately show ?thesis unfolding db_size_card by (rule card_mono)
qed

definition dropped_key :: "store \<Rightarrow> TableId \<Rightarrow> key \<Rightarrow> bool" where
  "dropped_key s t k \<longleftrightarrow> k = (C_table_version, [TInt t]) \<or>
     fst k = C_table_mps \<and> prefix [TInt t] (snd k) \<or>
     (\<exists>mp \<in> indexed_mps s t. is_current mp \<and> k = mp_key (mpm_id mp))"

lemma drop_table_run:
  assumes "fdb_client fx lim" "store_wf s" "db_size s \<le> lim" "(ucast t :: byte) \<noteq> 255"
  shows "\<exists>s'. drop_table fx t s = (Ok (), s') \<and> (\<forall>k. db_get s' k = (if dropped_key s t k then None else db_get s k))"
proof -
  obtain mps where mps: "get_active_mps fx t s = Ok mps" "set mps = {mp \<in> indexed_mps s t. is_current mp}"
    using fdb_client.active_set [OF assms] by (elim exE conjE)
  define s0 where "s0 = db_clear (C_table_version, [TInt t]) s"
  obtain s1 where s1: "trx_clear_range fx (fst (category_range fx (C_table_mps, [TInt t])))
      (snd (category_range fx (C_table_mps, [TInt t]))) s0 = Ok ((), s1)"
    "\<forall>k. db_get s1 k = (if fst k = C_table_mps \<and> prefix [TInt t] (snd k) then None else db_get s0 k)"
    using fdb_client.clear_category_range [OF assms(1,4), of C_table_mps "[]" s0] by auto
  let ?s' = "apply_clears (map (\<lambda>mp. mp_key (mpm_id mp)) mps) s1"
  have "drop_table fx t s = (Ok (), ?s')"
    using s1(1) by (simp add: drop_table_def op_bind_def mps(1) s0_def [symmetric] db_run_def case_prod_beta)
  moreover have "db_get ?s' k = (if dropped_key s t k then None else db_get s k)" for k
  proof -
    define rec where "rec \<longleftrightarrow> (\<exists>mp \<in> indexed_mps s t. is_current mp \<and> k = mp_key (mpm_id mp))"
    have "k \<in> set (map (\<lambda>mp. mp_key (mpm_id mp)) mps) \<longleftrightarrow> rec"
      unfolding set_map mps(2) rec_def by blast
    then show ?thesis
      unfolding db_get_apply_clears s1(2) [THEN spec] s0_def db_get_clear dropped_key_def rec_def [symmetric]
      by (simp only: split: if_split) blast
  qed
  ultimately show ?thesis by blast
qed



text \<open>
  The record of the table itself is stored under its database and schema, which the call is not
  given, so a dropped table can still be read; and so can the record of a superseded partition.
\<close>

lemma dropped_table_stays_listed:
  assumes "fdb_client fx lim" "store_wf s" "db_size s \<le> lim" "(ucast t :: byte) \<noteq> 255"
    "get_table d sc t s = Ok (Some tb)"
  shows "get_table d sc t (snd (drop_table fx t s)) = Ok (Some tb)"
proof -
  obtain s' where "drop_table fx t s = (Ok (), s')" "\<forall>k. db_get s' k = (if dropped_key s t k then None else db_get s k)"
    using drop_table_run [OF assms(1-4)] by (elim exE conjE)
  with assms(5) show ?thesis by (simp add: get_table_def get_record_Some_iff dropped_key_def)
qed

text \<open>
  The upper end of a range is its prefix with the last byte incremented, and that byte wraps:
  for a database whose identifier ends in the byte 255 the scan of its schemas fails, or finds
  nothing.
\<close>

lemma schemas_of_id_255:
  assumes "fdb_client fx lim" "(ucast i :: byte) = 255"
  shows "list_schemas fx i s = (case fdb_inverted fx of
       None \<Rightarrow> Ok []
     | Some e \<Rightarrow> Err (internal_err fx ''FDB get_range failed: '' (NativeError e)))"
  using fdb_client.get_range_ff [OF assms(1,2), of C_schema "[]" s]
  by (simp add: list_schemas_def list_records_def split: option.split)

end
