(* ===== verification/Meta_Stream.thy ===== *)
theory Meta_Stream
  imports Meta_Catalog
begin

text \<open>
  Streams, the change log of the tables, clones and dynamic tables of the metadata store
  (\<^verbatim>\<open>crates/nova-storage/src/metadata/fdb_store.rs\<close>, lines 949 to 1448).

  A table has two counters: the last sequence number handed out to a writer and the
  published watermark, up to which readers may consume. A change record covers the numbers
  from its sequence on, one for each row of its payload. The lemmas give the exact result of
  reading the log, the invariant that ties stream records to their indexes, and the
  comparison that lets one of two concurrent consumers win.
\<close>

subsection \<open>Streams\<close>

abbreviation stream_key :: "StreamId \<Rightarrow> key" where "stream_key i \<equiv> (C_stream, [TInt i])"
abbreviation offset_key :: "StreamId \<Rightarrow> key" where "offset_key i \<equiv> (C_stream_offset, [TInt i])"
abbreviation stream_name_key :: "DatabaseId \<Rightarrow> SchemaId \<Rightarrow> string \<Rightarrow> key" where
  "stream_name_key d sc n \<equiv> (C_stream_by_name, [TInt d, TInt sc, TStr (normalize_ident n)])"
abbreviation stream_table_key :: "TableId \<Rightarrow> StreamId \<Rightarrow> key" where
  "stream_table_key t i \<equiv> (C_streams_by_table, [TInt t, TInt i])"
abbreviation change_seq_key :: "TableId \<Rightarrow> key" where
  "change_seq_key t \<equiv> (C_table_change_seq, [TInt t])"
abbreviation next_seq_key :: "TableId \<Rightarrow> key" where
  "next_seq_key t \<equiv> (C_table_change_next_seq, [TInt t])"
abbreviation change_log_key :: "TableId \<Rightarrow> u64 \<Rightarrow> key" where
  "change_log_key t n \<equiv> (C_table_change_log, [TInt t, TInt n])"
abbreviation change_txn_key :: "TxnId \<Rightarrow> TableId \<Rightarrow> u64 \<Rightarrow> key" where
  "change_txn_key x t n \<equiv> (C_table_change_log_by_txn, [TInt x, TInt t, TInt n])"

definition stream_sets :: "StreamMeta \<Rightarrow> (key \<times> value) list" where
  "stream_sets st =
     [(stream_key (str_stream_id st), VStream st),
      (stream_name_key (str_db_id st) (str_schema_id st) (str_name st), u64_bytes (str_stream_id st)),
      (stream_table_key (str_source_table_id st) (str_stream_id st), VBytes [])]"

definition op_map_err :: "(NovaError \<Rightarrow> NovaError) \<Rightarrow> 'a op \<Rightarrow> 'a op" where
  "op_map_err f m s = (case m s of (r, s') \<Rightarrow> (map_err f r, s'))"

definition already_exists :: "string \<Rightarrow> NovaError \<Rightarrow> NovaError" where
  "already_exists name err =
     (case err of
        Internal message \<Rightarrow> if contains_str message ''checked write'' then StreamAlreadyExists name else err
      | _ \<Rightarrow> err)"

definition create_stream :: "fdb \<Rightarrow> StreamMeta \<Rightarrow> unit op" where
  "create_stream fx st0 =
     op_bind (if str_stream_id st0 = 0 then fdb_atomic_inc (next_id_key ''stream'') else op_ret (str_stream_id st0)) (\<lambda>i.
     (let st = st0\<lparr>str_stream_id := i\<rparr> in
      op_bind (op_map_err (already_exists (str_name st))
         (fdb_checked_write_batch fx
            [stream_key (str_stream_id st), stream_name_key (str_db_id st) (str_schema_id st) (str_name st)]
            (stream_sets st) [] False)) (\<lambda>_.
      op_ret ())))"

definition get_stream :: "StreamId \<Rightarrow> StreamMeta option query" where
  "get_stream stream_id = get_record as_stream (stream_key stream_id)"

definition get_stream_by_name :: "DatabaseId \<Rightarrow> SchemaId \<Rightarrow> string \<Rightarrow> StreamMeta option query" where
  "get_stream_by_name db_id schema_id name s =
     (case db_get s (stream_name_key db_id schema_id name) of
        Some v \<Rightarrow> and_then (read_u64 v) (\<lambda>i. get_stream i s)
      | None \<Rightarrow> Ok None)"

definition list_streams :: "fdb \<Rightarrow> DatabaseId \<Rightarrow> SchemaId \<Rightarrow> StreamMeta list query" where
  "list_streams fx db_id schema_id s =
     and_then (fdb_get_range fx (category_range fx (C_stream_by_name, [TInt db_id, TInt schema_id])) s) (\<lambda>kvs.
     and_then (collect_results (\<lambda>kv. and_then (read_u64 (snd kv)) (\<lambda>i.
         and_then (get_stream i s) (\<lambda>r. Ok (case r of Some st \<Rightarrow> [st] | None \<Rightarrow> [])))) kvs) (\<lambda>found.
     Ok (sort_key str_name (concat found))))"

definition drop_stream :: "fdb \<Rightarrow> StreamId \<Rightarrow> unit op" where
  "drop_stream fx stream_id =
     op_bind (op_query (get_stream stream_id)) (\<lambda>r.
     (case r of
        None \<Rightarrow> op_ret ()
      | Some st \<Rightarrow>
          op_bind (fdb_write_batch fx []
             [stream_key stream_id, offset_key stream_id,
              stream_name_key (str_db_id st) (str_schema_id st) (str_name st),
              stream_table_key (str_source_table_id st) stream_id] False) (\<lambda>_.
          op_ret ())))"

subsection \<open>Stream offsets\<close>

definition get_stream_offset :: "StreamId \<Rightarrow> StreamOffset option query" where
  "get_stream_offset stream_id = get_record as_offset (offset_key stream_id)"

definition set_stream_offset :: "StreamId \<Rightarrow> StreamOffset \<Rightarrow> unit op" where
  "set_stream_offset stream_id offset = fdb_set (offset_key stream_id) (VOffset offset)"

definition compare_and_set_stream_offset :: "StreamId \<Rightarrow> u64 \<Rightarrow> StreamOffset \<Rightarrow> unit op" where
  "compare_and_set_stream_offset stream_id expected_sequence new_offset =
     db_run (\<lambda>_. StreamConcurrentConsume stream_id)
       (\<lambda>s. case db_get s (offset_key stream_id) of
              None \<Rightarrow> Err (CustomError ''stream offset missing'')
            | Some v \<Rightarrow>
                and_then (deserialize_trx as_offset v) (\<lambda>offset.
                if off_committed_sequence offset \<noteq> expected_sequence
                then Err (CustomError ''stream offset conflict'')
                else Ok ((), db_set (offset_key stream_id) (VOffset new_offset) s)))"

subsection \<open>Sequence numbers\<close>

definition get_table_change_sequence :: "TableId \<Rightarrow> u64 query" where
  "get_table_change_sequence table_id s =
     (case db_get s (change_seq_key table_id) of Some v \<Rightarrow> read_u64 v | None \<Rightarrow> Ok 0)"

definition trx_read_u64 :: "string \<Rightarrow> value \<Rightarrow> (FdbBindingError, u64) result" where
  "trx_read_u64 message v = ok_or (CustomError message) (value_u64 v)"

definition allocate_table_change_sequences :: "fdb \<Rightarrow> TableId \<Rightarrow> u64 \<Rightarrow> u64 op" where
  "allocate_table_change_sequences fx table_id count =
     db_run (internal_err fx ''allocate table change sequence failed: '')
       (\<lambda>s. and_then
              (case db_get s (next_seq_key table_id) of
                 Some v \<Rightarrow> trx_read_u64 ''invalid table change allocation sequence'' v
               | None \<Rightarrow>
                   (case db_get s (change_seq_key table_id) of
                      Some v \<Rightarrow> trx_read_u64 ''invalid table change sequence'' v
                    | None \<Rightarrow> Ok 0)) (\<lambda>current_allocated.
            Ok (current_allocated + 1,
                db_set (next_seq_key table_id) (u64_bytes (sat_add current_allocated count)) s)))"

subsection \<open>Committing changes\<close>

definition change_end :: "ChangeRecordMeta \<Rightarrow> u64" where
  "change_end r = sat_sub (sat_add (cr_sequence r) (cpr_row_count (cr_payload r))) 1"

text \<open>
  The ranges of the records by table, tables in order and ranges by their start. Ranges of
  one table with the same start, whose order \<^verbatim>\<open>sort_unstable_by_key\<close> leaves open, keep the
  order of the records here.
\<close>

definition table_ranges :: "ChangeRecordMeta list \<Rightarrow> (TableId \<times> (u64 \<times> u64) list) list" where
  "table_ranges records =
     map (\<lambda>t. (t, sort_key fst (map (\<lambda>r. (cr_sequence r, change_end r)) (filter (\<lambda>r. cr_table_id r = t) records))))
       (sort (remdups (map cr_table_id records)))"

fun publish_through :: "u64 \<Rightarrow> u64 \<Rightarrow> (u64 \<times> u64) list \<Rightarrow> u64" where
  "publish_through next_sequence published [] = published"
| "publish_through next_sequence published ((record_start, record_end) # ranges) =
     (if record_end < next_sequence then publish_through next_sequence published ranges
      else if record_start > next_sequence then published
      else publish_through (sat_add record_end 1) record_end ranges)"

definition put_mps :: "MicroPartitionMeta list \<Rightarrow> store \<Rightarrow> store" where
  "put_mps new_mps s =
     fold (\<lambda>mp s. db_set (table_mps_key (mpm_table_id mp) (mpm_id mp)) (VBytes []) (db_set (mp_key (mpm_id mp)) (VMp mp) s))
       new_mps s"

fun supersede_mps :: "(MpId \<times> MpId) list \<Rightarrow> store \<Rightarrow> (FdbBindingError, store) result" where
  "supersede_mps [] s = Ok s"
| "supersede_mps ((old_mp_id, new_mp_id) # rest) s =
     (case db_get s (mp_key old_mp_id) of
        None \<Rightarrow> Err (CustomError ''micro-partition not found while committing CDC'')
      | Some v \<Rightarrow>
          and_then (deserialize_trx as_mp v) (\<lambda>old_mp.
          supersede_mps rest
            (db_set (mp_key old_mp_id) (VMp (old_mp\<lparr>mpm_superseded_by := Some new_mp_id, mpm_active := False\<rparr>)) s)))"

definition put_records :: "ChangeRecordMeta list \<Rightarrow> store \<Rightarrow> store" where
  "put_records records s =
     fold (\<lambda>r s. db_set (change_txn_key (cr_txn_id r) (cr_table_id r) (cr_sequence r)) (VBytes [])
                  (db_set (change_log_key (cr_table_id r) (cr_sequence r)) (VChange r) s))
       records s"

definition publish_table :: "TableId \<Rightarrow> (u64 \<times> u64) list \<Rightarrow> store \<Rightarrow> (FdbBindingError, store) result" where
  "publish_table table_id ranges s =
     and_then
       (case db_get s (change_seq_key table_id) of
          Some v \<Rightarrow> trx_read_u64 ''invalid table change sequence'' v
        | None \<Rightarrow> Ok 0) (\<lambda>current.
     (let published = publish_through (sat_add current 1) current ranges in
      Ok (if published > current then db_set (change_seq_key table_id) (u64_bytes published) s else s)))"

fun publish_tables :: "(TableId \<times> (u64 \<times> u64) list) list \<Rightarrow> store \<Rightarrow> (FdbBindingError, store) result" where
  "publish_tables [] s = Ok s"
| "publish_tables ((t, ranges) # rest) s = and_then (publish_table t ranges s) (publish_tables rest)"

definition finish_txn :: "Timestamp \<Rightarrow> TxnId \<Rightarrow> store \<Rightarrow> (FdbBindingError, store) result" where
  "finish_txn now txn_id s =
     (if txn_id = 0 then Ok s
      else
        (case db_get s (txn_key txn_id) of
           None \<Rightarrow> Err (CustomError ''transaction not found while committing CDC'')
         | Some v \<Rightarrow>
             and_then (deserialize_trx as_txn v) (\<lambda>meta.
             Ok (db_set (txn_key txn_id) (VTxn (meta\<lparr>tm_status := TxnCommitted, tm_commit_ts := Some now\<rparr>)) s))))"

definition commit_table_cdc ::
  "fdb \<Rightarrow> Timestamp \<Rightarrow> TxnId \<Rightarrow> MicroPartitionMeta list \<Rightarrow> (MpId \<times> MpId) list \<Rightarrow> ChangeRecordMeta list \<Rightarrow> unit op" where
  "commit_table_cdc fx now txn_id new_mps superseded_mps records =
     db_run (internal_err fx ''commit table CDC failed: '')
       (\<lambda>s. and_then (supersede_mps superseded_mps (put_mps new_mps s)) (\<lambda>s1.
            and_then (publish_tables (table_ranges records) (put_records records s1)) (\<lambda>s2.
            and_then (finish_txn now txn_id s2) (\<lambda>s3.
            Ok ((), s3)))))"

definition insert_change_records :: "fdb \<Rightarrow> Timestamp \<Rightarrow> ChangeRecordMeta list \<Rightarrow> unit op" where
  "insert_change_records fx now records = commit_table_cdc fx now 0 [] [] records"

definition get_change_records :: "fdb \<Rightarrow> TableId \<Rightarrow> u64 \<Rightarrow> u64 \<Rightarrow> ChangeRecordMeta list query" where
  "get_change_records fx table_id after_sequence through_sequence s =
     (if through_sequence \<le> after_sequence then Ok []
      else
        and_then (fdb_get_range fx
            (fdb_pack fx (change_log_key table_id (after_sequence + 1)),
             fdb_pack fx (change_log_key table_id (through_sequence + 1))) s) (\<lambda>kvs.
        and_then (collect_results (\<lambda>kv. deserialize as_change (snd kv)) kvs) (\<lambda>records.
        Ok (sort_key cr_sequence records))))"

definition stream_has_data :: "StreamId \<Rightarrow> bool query" where
  "stream_has_data stream_id s =
     and_then (and_then (get_stream stream_id s) (ok_or (StreamNotFound (show_u64 stream_id)))) (\<lambda>st.
     and_then (and_then (get_stream_offset stream_id s) (ok_or (StreamNotFound (str_name st)))) (\<lambda>offset.
     and_then (get_table_change_sequence (str_source_table_id st) s) (\<lambda>current.
     Ok (current > off_committed_sequence offset))))"

subsection \<open>Clones and dynamic tables\<close>

definition create_clone :: "CloneMeta \<Rightarrow> unit op" where
  "create_clone clone = fdb_set (C_clone, [TInt (cl_clone_table_id clone)]) (VClone clone)"

definition get_clone :: "TableId \<Rightarrow> CloneMeta option query" where
  "get_clone clone_table_id = get_record as_clone (C_clone, [TInt clone_table_id])"

abbreviation dynamic_table_key :: "TableId \<Rightarrow> key" where
  "dynamic_table_key t \<equiv> (C_dynamic_table, [TInt t])"

definition create_dynamic_table :: "DynamicTableMeta \<Rightarrow> unit op" where
  "create_dynamic_table dt = fdb_set (dynamic_table_key (dtm_id dt)) (VDynamicTable dt)"

definition get_dynamic_table :: "TableId \<Rightarrow> DynamicTableMeta option query" where
  "get_dynamic_table dt_id = get_record as_dynamic_table (dynamic_table_key dt_id)"

definition list_dynamic_tables :: "fdb \<Rightarrow> DatabaseId \<Rightarrow> DynamicTableMeta list query" where
  "list_dynamic_tables fx db_id s =
     and_then (list_records fx as_dynamic_table (C_dynamic_table, []) s) (\<lambda>dts.
     Ok (filter (\<lambda>dt. dtm_db_id dt = db_id) dts))"

definition update_dynamic_table :: "DynamicTableMeta \<Rightarrow> unit op" where
  "update_dynamic_table dt = create_dynamic_table dt"

definition begin_dynamic_table_refresh :: "DynamicTableMeta \<Rightarrow> DynamicTableMeta op" where
  "begin_dynamic_table_refresh dt0 =
     (let dt = dt0\<lparr>dtm_refresh_status := DtRunning\<rparr> in
      op_bind (update_dynamic_table dt) (\<lambda>_. op_ret dt))"

definition finish_dynamic_table_refresh :: "Timestamp \<Rightarrow> DynamicTableMeta \<Rightarrow> unit op" where
  "finish_dynamic_table_refresh now dt =
     update_dynamic_table (dt\<lparr>dtm_refresh_status := DtSuccess, dtm_last_refresh_ts := Some now\<rparr>)"

definition finish_dynamic_table_refresh_with_mps ::
  "fdb \<Rightarrow> Timestamp \<Rightarrow> DynamicTableMeta \<Rightarrow> MicroPartitionMeta list \<Rightarrow> bool \<Rightarrow> unit op" where
  "finish_dynamic_table_refresh_with_mps fx now dt new_mps replace_active_set =
     op_bind (if replace_active_set then replace_active_mps fx (dtm_output_table_id dt) new_mps
              else op_for (insert_mp fx) new_mps) (\<lambda>_.
     finish_dynamic_table_refresh now dt)"

definition drop_dynamic_table :: "TableId \<Rightarrow> unit op" where
  "drop_dynamic_table dt_id = fdb_clear (dynamic_table_key dt_id)"

subsection \<open>The layout is kept\<close>

lemma ok_or_Inr_iff: "ok_or e x = Inr a \<longleftrightarrow> x = Some a"
  by (cases x) simp_all

lemma stream_sets_ok: "list_all (\<lambda>(k, v). value_ok v k) (stream_sets st)"
  by (simp add: stream_sets_def)

lemma keeps_map_err: "keeps P m \<Longrightarrow> keeps P (op_map_err f m)"
  by (simp add: keeps_def op_map_err_def split: prod.splits) (metis snd_conv)

lemma keeps_create_stream: "keeps store_wf (create_stream fx st)"
  unfolding create_stream_def Let_def
  by (auto intro!: keeps_bind keeps_wf_inc keeps_map_err keeps_wf_checked stream_sets_ok)

lemma keeps_drop_stream: "keeps store_wf (drop_stream fx i)"
  unfolding drop_stream_def by (auto intro!: keeps_bind keeps_wf_batch split: option.split)

lemma keeps_set_offset: "keeps store_wf (set_stream_offset i off)"
  unfolding set_stream_offset_def by (auto intro!: keeps_wf_set)

lemma keeps_cas_offset: "keeps store_wf (compare_and_set_stream_offset i n off)"
  unfolding compare_and_set_stream_offset_def
  by (rule keeps_run) (auto simp: and_then_Inr_iff split: option.splits if_splits)

lemma keeps_allocate: "keeps store_wf (allocate_table_change_sequences fx t n)"
  unfolding allocate_table_change_sequences_def
  by (rule keeps_run) (auto simp: and_then_Inr_iff)

lemma put_mps_wf: "store_wf s \<Longrightarrow> store_wf (put_mps mps s)"
  unfolding put_mps_def
  by (induction mps arbitrary: s) (simp_all add: store_wf_set)

lemma supersede_mps_wf: "store_wf s \<Longrightarrow> supersede_mps ps s = Ok s' \<Longrightarrow> store_wf s'"
proof (induction ps s rule: supersede_mps.induct)
  case (2 old new rest s)
  then obtain mp where mp: "db_get s (mp_key old) = Some (VMp mp)"
    "supersede_mps rest (db_set (mp_key old) (VMp (mp\<lparr>mpm_superseded_by := Some new, mpm_active := False\<rparr>)) s) = Ok s'"
    by (auto simp: and_then_Inr_iff deserialize_trx_def ok_or_Inr_iff as_iff split: option.splits)
  have "mpm_id mp = old" using wf_read(6) [OF "2.prems"(1) mp(1)] by simp
  then have wf: "store_wf (db_set (mp_key old) (VMp (mp\<lparr>mpm_superseded_by := Some new, mpm_active := False\<rparr>)) s)"
    using "2.prems"(1) by (intro store_wf_set) simp_all
  show ?case by (rule "2.IH" [OF mp(1) wf mp(2)])
qed simp

lemma put_records_wf: "store_wf s \<Longrightarrow> store_wf (put_records rs s)"
  unfolding put_records_def
  by (induction rs arbitrary: s) (simp_all add: store_wf_set)

lemma publish_tables_wf: "store_wf s \<Longrightarrow> publish_tables ts s = Ok s' \<Longrightarrow> store_wf s'"
proof (induction ts s rule: publish_tables.induct)
  case (2 t ranges rest s)
  then obtain s1 where s1: "publish_table t ranges s = Ok s1" "publish_tables rest s1 = Ok s'"
    by (auto simp: and_then_Inr_iff)
  have "store_wf s1" using s1(1) "2.prems"(1)
    by (auto simp: publish_table_def and_then_Inr_iff Let_def split: if_splits)
  from "2.IH" [OF this s1(2)] show ?case .
qed simp

lemma finish_txn_wf: "store_wf s \<Longrightarrow> finish_txn now x s = Ok s' \<Longrightarrow> store_wf s'"
  using wf_read(7) [of s x]
  by (fastforce simp: finish_txn_def and_then_Inr_iff deserialize_trx_def ok_or_Inr_iff as_iff
      split: if_splits option.splits)

lemma keeps_commit_cdc: "keeps store_wf (commit_table_cdc fx now x mps sups rs)"
  unfolding commit_table_cdc_def
  by (rule keeps_run)
    (auto simp: and_then_Inr_iff, metis finish_txn_wf publish_tables_wf put_records_wf supersede_mps_wf put_mps_wf)

lemma keeps_clone: "keeps store_wf (create_clone c)"
  unfolding create_clone_def by (auto intro!: keeps_wf_set)

lemma keeps_dynamic:
  "keeps store_wf (create_dynamic_table dt)" "keeps store_wf (update_dynamic_table dt)"
  "keeps store_wf (begin_dynamic_table_refresh dt)" "keeps store_wf (finish_dynamic_table_refresh now dt)"
  "keeps store_wf (drop_dynamic_table i)"
  unfolding begin_dynamic_table_refresh_def finish_dynamic_table_refresh_def update_dynamic_table_def
    create_dynamic_table_def drop_dynamic_table_def Let_def
  by (auto intro!: keeps_bind keeps_wf_set keeps_wf_clear)

lemmas keeps_wf_stream = keeps_create_stream keeps_drop_stream keeps_set_offset keeps_cas_offset
  keeps_allocate keeps_commit_cdc keeps_clone keeps_dynamic

subsection \<open>Streams and their indexes\<close>

abbreviation str_name_key :: "StreamMeta \<Rightarrow> key" where
  "str_name_key st \<equiv> stream_name_key (str_db_id st) (str_schema_id st) (str_name st)"

lemma get_stream_Some_iff [op_simps]: "get_stream i s = Ok (Some st) \<longleftrightarrow> db_get s (stream_key i) = Some (VStream st)"
  by (simp add: get_stream_def get_record_Some_iff as_iff)

lemma get_stream_None_iff [op_simps]: "get_stream i s = Ok None \<longleftrightarrow> db_get s (stream_key i) = None"
  by (simp add: get_stream_def get_record_None_iff)

lemma get_offset_Some_iff [op_simps]: "get_stream_offset i s = Ok (Some off) \<longleftrightarrow> db_get s (offset_key i) = Some (VOffset off)"
  by (simp add: get_stream_offset_def get_record_Some_iff as_iff)

definition stream_index_ok :: "store \<Rightarrow> bool" where
  "stream_index_ok s \<longleftrightarrow>
     (\<forall>i st. db_get s (stream_key i) = Some (VStream st) \<longrightarrow>
        db_get s (str_name_key st) = Some (u64_bytes i) \<and> db_get s (stream_table_key (str_source_table_id st) i) \<noteq> None) \<and>
     (\<forall>d sc n v. db_get s (C_stream_by_name, [TInt d, TInt sc, TStr n]) = Some v \<longrightarrow>
        (\<exists>i st. v = u64_bytes i \<and> db_get s (stream_key i) = Some (VStream st) \<and>
               str_name_key st = (C_stream_by_name, [TInt d, TInt sc, TStr n]))) \<and>
     (\<forall>t i v. db_get s (stream_table_key t i) = Some v \<longrightarrow>
        (\<exists>st. db_get s (stream_key i) = Some (VStream st) \<and> str_source_table_id st = t))"

lemma stream_indexD:
  assumes "stream_index_ok s"
  shows "db_get s (stream_key i) = Some (VStream st) \<Longrightarrow> db_get s (str_name_key st) = Some (u64_bytes i)"
    and "db_get s (stream_key i) = Some (VStream st) \<Longrightarrow> db_get s (stream_table_key (str_source_table_id st) i) \<noteq> None"
    and "db_get s (C_stream_by_name, [TInt d, TInt sc, TStr n]) = Some v \<Longrightarrow>
      \<exists>i st. v = u64_bytes i \<and> db_get s (stream_key i) = Some (VStream st) \<and>
               str_name_key st = (C_stream_by_name, [TInt d, TInt sc, TStr n])"
    and "db_get s (stream_table_key t i) = Some v \<Longrightarrow>
      \<exists>st. db_get s (stream_key i) = Some (VStream st) \<and> str_source_table_id st = t"
  using assms unfolding stream_index_ok_def by blast+

lemma u64_bytes_inj [simp]: "u64_bytes a = u64_bytes b \<longleftrightarrow> a = b"
  by (metis stored_u64(3))

text \<open>Entering a stream whose identifier and name are free.\<close>

lemma stream_index_create:
  assumes ok: "stream_index_ok s" and fresh: "db_get s (stream_key (str_stream_id st)) = None" "db_get s (str_name_key st) = None"
  shows "stream_index_ok (apply_sets (stream_sets st) s)"
proof -
  let ?s = "apply_sets (stream_sets st) s"
  have get: "db_get ?s k = (if k = stream_table_key (str_source_table_id st) (str_stream_id st) then Some (VBytes [])
      else if k = str_name_key st then Some (u64_bytes (str_stream_id st))
      else if k = stream_key (str_stream_id st) then Some (VStream st) else db_get s k)" for k
    by (simp add: stream_sets_def)
  show ?thesis
    unfolding stream_index_ok_def
  proof (intro conjI allI impI)
    fix i st' assume a: "db_get ?s (stream_key i) = Some (VStream st')"
    show "db_get ?s (str_name_key st') = Some (u64_bytes i)"
    proof (cases "i = str_stream_id st")
      case False
      with a have o: "db_get s (stream_key i) = Some (VStream st')" by (simp add: get)
      from stream_indexD(1) [OF ok o] fresh(2) have "str_name_key st' \<noteq> str_name_key st" by (metis option.distinct(1))
      with stream_indexD(1) [OF ok o] show ?thesis by (auto simp: get)
    next
      case True
      with a have "st' = st" by (simp add: get)
      with True show ?thesis by (simp add: get)
    qed
    show "db_get ?s (stream_table_key (str_source_table_id st') i) \<noteq> None"
    proof (cases "i = str_stream_id st")
      case False
      with a have o: "db_get s (stream_key i) = Some (VStream st')" by (simp add: get)
      from stream_indexD(2) [OF ok o] show ?thesis by (simp add: get)
    next
      case True
      with a have "st' = st" by (simp add: get)
      with True show ?thesis by (simp add: get)
    qed
  next
    fix d sc n v assume a: "db_get ?s (C_stream_by_name, [TInt d, TInt sc, TStr n]) = Some v"
    show "\<exists>i st'. v = u64_bytes i \<and> db_get ?s (stream_key i) = Some (VStream st') \<and>
        str_name_key st' = (C_stream_by_name, [TInt d, TInt sc, TStr n])"
    proof (cases "(C_stream_by_name, [TInt d, TInt sc, TStr n]) = str_name_key st")
      case True
      with a show ?thesis by (intro exI [of _ "str_stream_id st"] exI [of _ st]) (simp add: get)
    next
      case False
      then have "db_get s (C_stream_by_name, [TInt d, TInt sc, TStr n]) = Some v" using a by (auto simp: get split: if_splits)
      from stream_indexD(3) [OF ok this] obtain i st' where o: "v = u64_bytes i" "db_get s (stream_key i) = Some (VStream st')"
        "str_name_key st' = (C_stream_by_name, [TInt d, TInt sc, TStr n])" by blast
      with fresh(1) have "i \<noteq> str_stream_id st" by auto
      with o show ?thesis by (intro exI [of _ i] exI [of _ st']) (simp add: get)
    qed
  next
    fix t i v assume a: "db_get ?s (stream_table_key t i) = Some v"
    show "\<exists>st'. db_get ?s (stream_key i) = Some (VStream st') \<and> str_source_table_id st' = t"
    proof (cases "t = str_source_table_id st \<and> i = str_stream_id st")
      case False
      then have "db_get s (stream_table_key t i) = Some v" using a by (simp add: get split: if_splits)
      from stream_indexD(4) [OF ok this] obtain st' where o: "db_get s (stream_key i) = Some (VStream st')"
        "str_source_table_id st' = t" by blast
      with fresh(1) have "i \<noteq> str_stream_id st" by auto
      with o show ?thesis by (intro exI [of _ st']) (simp add: get)
    qed (use a in \<open>simp add: get\<close>)
  qed
qed

text \<open>Taking out a stored stream.\<close>

lemma stream_index_drop:
  assumes ok: "stream_index_ok s" and st: "db_get s (stream_key i) = Some (VStream st)"
  shows "stream_index_ok (apply_clears [stream_key i, offset_key i, str_name_key st,
           stream_table_key (str_source_table_id st) i] s)"
proof -
  let ?ks = "[stream_key i, offset_key i, str_name_key st, stream_table_key (str_source_table_id st) i]"
  let ?s = "apply_clears ?ks s"
  have get: "db_get ?s k = Some v \<longleftrightarrow> db_get s k = Some v \<and> k \<notin> set ?ks" for k v
    by (simp only: db_get_apply_clears) simp
  show ?thesis
    unfolding stream_index_ok_def
  proof (intro conjI allI impI)
    fix j st' assume "db_get ?s (stream_key j) = Some (VStream st')"
    then have o: "db_get s (stream_key j) = Some (VStream st')" "j \<noteq> i" unfolding get by simp_all
    have "str_name_key st' \<noteq> str_name_key st"
      using stream_indexD(1) [OF ok o(1)] stream_indexD(1) [OF ok st] o(2) by auto
    then show "db_get ?s (str_name_key st') = Some (u64_bytes j)"
      unfolding get using stream_indexD(1) [OF ok o(1)] by auto
    from stream_indexD(2) [OF ok o(1)] obtain v where "db_get s (stream_table_key (str_source_table_id st') j) = Some v" by blast
    then have "db_get ?s (stream_table_key (str_source_table_id st') j) = Some v" unfolding get using o(2) by simp
    then show "db_get ?s (stream_table_key (str_source_table_id st') j) \<noteq> None" by simp
  next
    fix d sc n v assume "db_get ?s (C_stream_by_name, [TInt d, TInt sc, TStr n]) = Some v"
    then have o: "db_get s (C_stream_by_name, [TInt d, TInt sc, TStr n]) = Some v"
      "(C_stream_by_name, [TInt d, TInt sc, TStr n]) \<noteq> str_name_key st" unfolding get by simp_all
    from stream_indexD(3) [OF ok o(1)] obtain j st' where j: "v = u64_bytes j" "db_get s (stream_key j) = Some (VStream st')"
        "str_name_key st' = (C_stream_by_name, [TInt d, TInt sc, TStr n])" by blast
    with o(2) st have "j \<noteq> i" by auto
    with j show "\<exists>j st'. v = u64_bytes j \<and> db_get ?s (stream_key j) = Some (VStream st') \<and>
        str_name_key st' = (C_stream_by_name, [TInt d, TInt sc, TStr n])"
      unfolding get by (intro exI [of _ j] exI [of _ st']) simp
  next
    fix t j v assume "db_get ?s (stream_table_key t j) = Some v"
    then have o: "db_get s (stream_table_key t j) = Some v" "t = str_source_table_id st \<longrightarrow> j \<noteq> i" unfolding get by simp_all
    from stream_indexD(4) [OF ok o(1)] obtain st' where st': "db_get s (stream_key j) = Some (VStream st')"
        "str_source_table_id st' = t" by blast
    with o(2) st have "j \<noteq> i" by auto
    with st' show "\<exists>st'. db_get ?s (stream_key j) = Some (VStream st') \<and> str_source_table_id st' = t"
      unfolding get by (intro exI [of _ st']) simp
  qed
qed

lemma only_next_id_streams:
  assumes "only_next_id s s'"
  shows "stream_index_ok s' \<longleftrightarrow> stream_index_ok s"
proof -
  have "db_get s' k = db_get s k" if "fst k \<noteq> C_next_id" for k using only_next_id_get [OF assms that] .
  then have "db_get s' (stream_key i) = db_get s (stream_key i)"
    "db_get s' (C_stream_by_name, es) = db_get s (C_stream_by_name, es)"
    "db_get s' (stream_table_key t i) = db_get s (stream_table_key t i)" for i t es by simp_all
  then show ?thesis unfolding stream_index_ok_def by simp
qed

lemma stream_exists_error:
  "already_exists n (internal_err fx checked_write_msg e) = StreamAlreadyExists n"
  by (simp add: already_exists_def internal_err_def checked_write_msg_def starts_with_def)

lemma create_stream_cases:
  assumes "create_stream fx st0 s = (r, s')"
  obtains (created) i s1 st where "only_next_id s s1" "st = st0\<lparr>str_stream_id := i\<rparr>" "r = Ok ()"
      "db_get s1 (stream_key i) = None" "db_get s1 (str_name_key st) = None" "s' = apply_sets (stream_sets st) s1"
  | (refused) i where "r = Err (StreamAlreadyExists (str_name st0))" "only_next_id s s'"
      "db_get s' (stream_key i) \<noteq> None \<or> db_get s' (str_name_key st0) \<noteq> None"
proof -
  let ?get = "if str_stream_id st0 = 0 then fdb_atomic_inc (next_id_key ''stream'') else op_ret (str_stream_id st0)"
  obtain i s1 where i: "?get s = (Ok i, s1)" "only_next_id s s1"
    by (cases "str_stream_id st0 = 0") (auto simp: only_next_id_def next_id_key_def)
  let ?st = "st0\<lparr>str_stream_id := i\<rparr>"
  have run: "create_stream fx st0 s =
      op_bind (op_map_err (already_exists (str_name ?st)) (fdb_checked_write_batch fx [stream_key i, str_name_key ?st]
        (stream_sets ?st) [] False)) (\<lambda>_. op_ret ()) s1"
    unfolding create_stream_def op_bind_def [of ?get] i(1) by (simp add: Let_def)
  show thesis
  proof (cases "db_get s1 (stream_key i) = None \<and> db_get s1 (str_name_key ?st) = None")
    case True
    with run assms have "r = Ok ()" "s' = apply_sets (stream_sets ?st) s1"
      by (auto simp: op_bind_def op_map_err_def checked_write_batch_run write_batch_run)
    with True show thesis by (intro created [OF i(2) refl]) simp_all
  next
    case False
    with run assms have "r = Err (StreamAlreadyExists (str_name st0))" "s' = s1"
      by (auto simp: op_bind_def op_map_err_def checked_write_batch_run stream_exists_error)
    with False i(2) show thesis by (intro refused [of i]) simp_all
  qed
qed

lemma drop_stream_cases:
  assumes "store_wf s" "drop_stream fx i s = (r, s')"
  obtains (absent) "db_get s (stream_key i) = None" "r = Ok ()" "s' = s"
  | (dropped) st where "db_get s (stream_key i) = Some (VStream st)" "r = Ok ()"
      "s' = apply_clears [stream_key i, offset_key i, str_name_key st, stream_table_key (str_source_table_id st) i] s"
proof (cases "db_get s (stream_key i)")
  case None
  then have "get_stream i s = Ok None" by (simp add: get_stream_None_iff)
  with assms(2) None show ?thesis by (intro absent) (simp_all add: drop_stream_def op_bind_def)
next
  case (Some v)
  with wf_read(8) [OF assms(1)] obtain st where st: "db_get s (stream_key i) = Some (VStream st)" by blast
  then have "get_stream i s = Ok (Some st)" by (simp add: get_stream_Some_iff)
  with assms(2) have "r = Ok ()"
    "s' = apply_clears [stream_key i, offset_key i, str_name_key st, stream_table_key (str_source_table_id st) i] s"
    by (auto simp: drop_stream_def op_bind_def write_batch_run Let_def)
  with st show ?thesis by (intro dropped)
qed

lemma stream_by_name:
  assumes "stream_index_ok s"
  shows "get_stream_by_name d sc n s = Ok (Some st) \<longleftrightarrow>
    (\<exists>i. db_get s (stream_key i) = Some (VStream st) \<and> str_name_key st = stream_name_key d sc n)"
proof
  assume "get_stream_by_name d sc n s = Ok (Some st)"
  then obtain v i where v: "db_get s (stream_name_key d sc n) = Some v" "read_u64 v = Ok i"
    "db_get s (stream_key i) = Some (VStream st)"
    by (auto simp: get_stream_by_name_def and_then_Inr_iff get_stream_Some_iff split: option.splits)
  from stream_indexD(3) [OF assms v(1)] v(2,3)
  show "\<exists>i. db_get s (stream_key i) = Some (VStream st) \<and> str_name_key st = stream_name_key d sc n" by auto
next
  assume "\<exists>i. db_get s (stream_key i) = Some (VStream st) \<and> str_name_key st = stream_name_key d sc n"
  then obtain i where i: "db_get s (stream_key i) = Some (VStream st)" "str_name_key st = stream_name_key d sc n" by blast
  from stream_indexD(1) [OF assms i(1)] i show "get_stream_by_name d sc n s = Ok (Some st)"
    by (simp add: get_stream_by_name_def get_stream_Some_iff)
qed

text \<open>The streams a lookup by name finds.\<close>

definition streams_by_name :: "store \<Rightarrow> DatabaseId \<Rightarrow> SchemaId \<Rightarrow> string \<Rightarrow> StreamMeta option" where
  "streams_by_name s d sc n = (case get_stream_by_name d sc n s of Inr r \<Rightarrow> r | Inl _ \<Rightarrow> None)"

lemma streams_by_name_iff:
  "stream_index_ok s \<Longrightarrow> streams_by_name s d sc n = Some st \<longleftrightarrow>
     (\<exists>i. db_get s (stream_key i) = Some (VStream st) \<and> str_name_key st = stream_name_key d sc n)"
  using stream_by_name [of s d sc n st] by (auto simp: streams_by_name_def split: sum.splits)

lemma create_stream_names:
  assumes "stream_index_ok s" "create_stream fx st s = (Ok (), s')"
  shows "stream_index_ok s' \<and> (\<exists>i. \<forall>d sc n. streams_by_name s' d sc n =
     (if stream_name_key d sc n = str_name_key st then Some (st\<lparr>str_stream_id := i\<rparr>) else streams_by_name s d sc n))"
  using assms(2)
proof (cases rule: create_stream_cases)
  case (created i s1 st')
  have s1: "stream_index_ok s1" using only_next_id_streams [OF created(1)] assms(1) by simp
  have s': "stream_index_ok s'"
    using stream_index_create [OF s1, of st'] created by simp
  have old: "db_get s1 (stream_key j) = db_get s (stream_key j)" for j
    using only_next_id_get [OF created(1)] by simp
  have get: "db_get s' (stream_key j) = (if j = i then Some (VStream st') else db_get s (stream_key j))" for j
    using created old by (simp add: stream_sets_def)
  have free: "str_name_key r \<noteq> str_name_key st" if "db_get s (stream_key j) = Some (VStream r)" for r j
    using stream_indexD(1) [OF s1, of j r] old [of j] that created(2,5) by auto
  have nk: "str_name_key st' = str_name_key st" using created(2) by simp
  have "db_get s (stream_key i) = None" using created(4) old by simp
  then have stored: "(\<exists>j. db_get s' (stream_key j) = Some (VStream r)) \<longleftrightarrow> r = st' \<or> (\<exists>j. db_get s (stream_key j) = Some (VStream r))" for r
    unfolding get by (auto split: if_splits) (metis option.distinct(1))+
  have "streams_by_name s' d sc n = Some r \<longleftrightarrow>
      (if stream_name_key d sc n = str_name_key st then Some st' else streams_by_name s d sc n) = Some r" for d sc n r
    unfolding streams_by_name_iff [OF s'] ex_simps stored
    using free nk streams_by_name_iff [OF assms(1), of d sc n r] by auto
  then have "streams_by_name s' d sc n =
      (if stream_name_key d sc n = str_name_key st then Some st' else streams_by_name s d sc n)" for d sc n
    by (metis not_Some_eq)
  with s' created(2) show ?thesis by blast
qed simp

lemma drop_stream_names:
  assumes "store_wf s" "stream_index_ok s" "drop_stream fx j s = (r, s')"
  shows "r = Ok () \<and> stream_index_ok s' \<and> streams_by_name s' d sc n =
     (case streams_by_name s d sc n of Some st \<Rightarrow> if str_stream_id st = j then None else Some st | None \<Rightarrow> None)"
  using assms(1,3)
proof (cases rule: drop_stream_cases)
  case absent
  have "str_stream_id r \<noteq> j" if "db_get s (stream_key i) = Some (VStream r)" for r i
    using wf_read(8) [OF assms(1) that] that absent(1) by auto
  with absent assms(2) show ?thesis using streams_by_name_iff [OF assms(2), of d sc n] by (auto split: option.split)
next
  case (dropped st)
  have s': "stream_index_ok s'" using stream_index_drop [OF assms(2) dropped(1)] dropped(3) by simp
  have get: "db_get s' (stream_key i) = (if i = j then None else db_get s (stream_key i))" for i
    using dropped(3) by simp
  have id: "str_stream_id r = i" if "db_get s (stream_key i) = Some (VStream r)" for r i
    using wf_read(8) [OF assms(1) that] by auto
  have stored: "(\<exists>i. db_get s' (stream_key i) = Some (VStream r)) \<longleftrightarrow>
      (\<exists>i. db_get s (stream_key i) = Some (VStream r)) \<and> str_stream_id r \<noteq> j" for r
    unfolding get using id by (metis option.distinct(1))
  have names: "streams_by_name s' d sc n = Some r \<longleftrightarrow> streams_by_name s d sc n = Some r \<and> str_stream_id r \<noteq> j" for r
    unfolding streams_by_name_iff [OF s'] streams_by_name_iff [OF assms(2)] ex_simps stored by blast
  have "streams_by_name s' d sc n =
     (case streams_by_name s d sc n of Some st \<Rightarrow> if str_stream_id st = j then None else Some st | None \<Rightarrow> None)"
  proof (cases "streams_by_name s d sc n")
    case None
    then have "streams_by_name s' d sc n = None" using names by (metis option.distinct(1) option.exhaust)
    with None show ?thesis by simp
  next
    case (Some r)
    show ?thesis
    proof (cases "str_stream_id r = j")
      case True
      then have "streams_by_name s' d sc n = None" using names Some by (metis option.exhaust option.inject)
      with True Some show ?thesis by simp
    qed (use names [of r] Some in simp)
  qed
  then show ?thesis using dropped(2) s' by blast
qed

subsection \<open>Reading the change log\<close>

context fdb_client
begin

lemma log_range:
  assumes "db_size s \<le> lim" "a < b"
  shows "\<exists>kvs. fdb_get_range fx (fdb_pack fx (change_log_key t a), fdb_pack fx (change_log_key t b)) s = Ok kvs \<and>
     set kvs = {(k, v). db_get s k = Some v \<and> fst k = C_table_change_log \<and>
                (\<exists>n rest. snd k = TInt t # TInt n # rest \<and> a \<le> n \<and> n < b)} \<and> distinct (map fst kvs)"
proof -
  have between: "in_range fx (fdb_pack fx (change_log_key t a)) (fdb_pack fx (change_log_key t b)) k \<longleftrightarrow>
      fst k = C_table_change_log \<and> (\<exists>n rest. snd k = TInt t # TInt n # rest \<and> a \<le> n \<and> n < b)" for k
    using tuple_layer.pk_between [OF layout, of C_table_change_log "[t]" a "fst k" "snd k" b]
    by (auto simp: in_range_def)
  have "in_range fx (fdb_pack fx (change_log_key t a)) (fdb_pack fx (change_log_key t b)) (change_log_key t a)"
    unfolding between using assms(2) by simp
  then have "\<not> fdb_pack fx (change_log_key t b) < fdb_pack fx (change_log_key t a)" by (simp add: in_range_def)
  from scan_run [OF this assms(1)] show ?thesis by (simp add: fdb_get_range_def between) (elim exE conjE, intro exI conjI, simp_all)
qed

lemma change_log_read:
  assumes wf: "store_wf s" and "db_size s \<le> lim" "b \<noteq> - 1"
  shows "\<exists>rs. get_change_records fx t a b s = Ok rs \<and>
     set rs = {r. db_get s (change_log_key t (cr_sequence r)) = Some (VChange r) \<and> a < cr_sequence r \<and> cr_sequence r \<le> b} \<and>
     sorted_wrt (<) (map cr_sequence rs)"
proof (cases "b \<le> a")
  case True
  then show ?thesis by (auto simp: get_change_records_def)
next
  case False
  then have ab: "a < b" "a \<noteq> - 1" using word_order.extremum [of b] by (auto simp: not_le)
  have Suc: "unat (a + 1) = Suc (unat a)" "unat (b + 1) = Suc (unat b)"
    using unat_u64_Suc [OF ab(2)] unat_u64_Suc [OF assms(3)] by simp_all
  have lt: "a + 1 < b + 1" using ab(1) by (simp add: word_less_nat_alt Suc)
  have range: "a + 1 \<le> n \<and> n < b + 1 \<longleftrightarrow> a < n \<and> n \<le> b" for n
    by (simp add: word_less_nat_alt word_le_nat_alt Suc less_Suc_eq_le Suc_le_eq)
  obtain kvs where kvs: "fdb_get_range fx (fdb_pack fx (change_log_key t (a + 1)), fdb_pack fx (change_log_key t (b + 1))) s = Ok kvs"
    "set kvs = {(k, v). db_get s k = Some v \<and> fst k = C_table_change_log \<and>
                (\<exists>n rest. snd k = TInt t # TInt n # rest \<and> a + 1 \<le> n \<and> n < b + 1)}" "distinct (map fst kvs)"
    using log_range [OF assms(2) lt, of t] by (elim exE conjE)
  have elem: "\<exists>r. v = VChange r \<and> k = change_log_key t (cr_sequence r) \<and> a < cr_sequence r \<and> cr_sequence r \<le> b \<and>
      db_get s k = Some v" if "(k, v) \<in> set kvs" for k v
  proof -
    from that obtain n rest where k: "db_get s k = Some v" "fst k = C_table_change_log" "snd k = TInt t # TInt n # rest"
      "a + 1 \<le> n \<and> n < b + 1" unfolding kvs(2) by blast
    have "value_ok v k" by (rule store_wfD [OF wf k(1)])
    with k(2) obtain r where "v = VChange r" "k = change_log_key (cr_table_id r) (cr_sequence r)"
      by (cases v) (auto simp: object_keys)
    with k range show ?thesis by simp
  qed
  let ?dec = "\<lambda>kv. the (as_change (snd kv))"
  have dec: "deserialize as_change (snd kv) = Inr (?dec kv)" if "kv \<in> set kvs" for kv
    using elem [of "fst kv" "snd kv"] that by (auto simp: deserialize_def)
  let ?rs = "sort_key cr_sequence (map ?dec kvs)"
  have run: "get_change_records fx t a b s = Ok ?rs"
    using False kvs(1) collect_results_all_ok [of kvs "\<lambda>kv. deserialize as_change (snd kv)" ?dec] dec
    by (simp add: get_change_records_def)
  have keys: "fst kv = change_log_key t (cr_sequence (?dec kv))" if "kv \<in> set kvs" for kv
    using elem [of "fst kv" "snd kv"] that by auto
  have "r \<in> set ?rs \<longleftrightarrow> db_get s (change_log_key t (cr_sequence r)) = Some (VChange r) \<and> a < cr_sequence r \<and> cr_sequence r \<le> b" for r
  proof
    assume "r \<in> set ?rs"
    then obtain kv where "kv \<in> set kvs" "r = ?dec kv" by auto
    with elem [of "fst kv" "snd kv"]
    show "db_get s (change_log_key t (cr_sequence r)) = Some (VChange r) \<and> a < cr_sequence r \<and> cr_sequence r \<le> b" by auto
  next
    assume "db_get s (change_log_key t (cr_sequence r)) = Some (VChange r) \<and> a < cr_sequence r \<and> cr_sequence r \<le> b"
    then have "(change_log_key t (cr_sequence r), VChange r) \<in> set kvs" unfolding kvs(2) by (simp add: range)
    then show "r \<in> set ?rs" by force
  qed
  then have set: "set ?rs = {r. db_get s (change_log_key t (cr_sequence r)) = Some (VChange r) \<and> a < cr_sequence r \<and> cr_sequence r \<le> b}"
    by blast
  have "map fst kvs = map (\<lambda>kv. change_log_key t (cr_sequence (?dec kv))) kvs" using keys by simp
  with kvs(3) have "distinct (map (\<lambda>kv. change_log_key t (cr_sequence (?dec kv))) kvs)" by simp
  then have "distinct (map cr_sequence (map ?dec kvs))" by (auto simp: distinct_map inj_on_def)
  then have "distinct (map cr_sequence ?rs)" unfolding distinct_map [of cr_sequence] distinct_sort set_sort .
  then have "sorted_wrt (<) (map cr_sequence ?rs)" by (simp only: strict_sorted_iff sorted_sort_key)
  with run set show ?thesis by (intro exI conjI)
qed

end

subsection \<open>Two consumers\<close>

lemma cas_run:
  "compare_and_set_stream_offset i n off s =
     (case db_get s (offset_key i) of
        Some (VOffset cur) \<Rightarrow>
          if off_committed_sequence cur = n then (Ok (), db_set (offset_key i) (VOffset off) s)
          else (Err (StreamConcurrentConsume i), s)
      | _ \<Rightarrow> (Err (StreamConcurrentConsume i), s))"
  by (auto simp: compare_and_set_stream_offset_def db_run_def deserialize_trx_def as_offset_def
      split: option.split "value.split")

text \<open>
  Of two consumers that read the same offset and try to advance it, the second one is
  refused and leaves the store unchanged.
\<close>

lemma second_consumer_refused:
  assumes "compare_and_set_stream_offset i n off s = (Ok (), s')" "off_committed_sequence off \<noteq> n"
  shows "compare_and_set_stream_offset i n off' s' = (Err (StreamConcurrentConsume i), s')"
  using assms by (auto simp: cas_run split: option.splits "value.splits" if_splits)

end
