(* ===== verification/Exec_Access.thy ===== *)
theory Exec_Access
  imports Meta_Security_Props Meta_Stream
begin

text \<open>
  Access control of the statement executor
  (\<^verbatim>\<open>crates/nova-coordinator/src/executor.rs\<close>, lines 81 to 480 and 3686 to 3738): the security
  context of a user, the closure of the active roles under inheritance, the privilege
  decision, and the lookups and authorisation steps every statement starts with.

  The lemmas show that the closure is reachability in the graph of role grants, that the
  decision is exactly ownership, a grant or the administrator role somewhere in the closure,
  and what a successful authorisation guarantees.

  The executor iterates a hash set of roles; the model keeps the roles in the order in which
  they were found. Over a well-formed store the reads do not fail and the order does not
  matter for the decision.
\<close>

subsection \<open>Roles of a session\<close>

definition user_for_auth :: "string \<Rightarrow> UserMeta option query" where
  "user_for_auth username = get_user_by_name username"

definition security_context_for_user :: "fdb \<Rightarrow> string \<Rightarrow> SecurityContext query" where
  "security_context_for_user fx username s =
     and_then (get_user_by_name username s) (\<lambda>r.
     and_then (ok_or (AuthFailed (''user '' @ quoted username @ '' not found'')) r) (\<lambda>user.
     if usr_disabled user then Err (AuthFailed (''user '' @ quoted username @ '' is disabled''))
     else
       and_then (list_user_roles fx (usr_id user) s) (\<lambda>roles.
       if usr_default_role_id user \<notin> set roles
       then Err (AuthFailed (''default role '' @ quoted (show_u64 (usr_default_role_id user)) @
              '' is not granted to user '' @ quoted (usr_name user)))
       else Ok \<lparr>sec_user_id = usr_id user, sec_username = usr_name user,
                sec_primary_role_id = usr_default_role_id user,
                sec_secondary_role_ids = filter (\<lambda>r. r \<noteq> usr_default_role_id user) roles,
                sec_secondary_all = True\<rparr>)))"

definition role_id_by_name :: "string \<Rightarrow> RoleId option query" where
  "role_id_by_name role s = and_then (get_role_by_name role s) (\<lambda>r. Ok (map_option rol_id r))"

text \<open>
  The breadth-first search of \<^verbatim>\<open>active_role_closure\<close>: \<open>roles\<close> is the hash set, the list of
  pairs the queue of roles with their depth.
\<close>

function role_closure ::
  "fdb \<Rightarrow> string \<Rightarrow> store \<Rightarrow> RoleId list \<Rightarrow> (RoleId \<times> nat) list \<Rightarrow> (NovaError, RoleId list) result" where
  "role_closure fx username s roles [] = Ok roles"
| "role_closure fx username s roles ((role_id, depth) # queue) =
     (if depth > 64 then Err (PermissionDenied username ''role inheritance depth limit exceeded'')
      else if role_id \<in> set roles then role_closure fx username s roles queue
      else (case get_role role_id s of
              Inl e \<Rightarrow> Err e
            | Inr None \<Rightarrow> Err (PermissionDenied username (''use missing role '' @ show_u64 role_id))
            | Inr (Some _) \<Rightarrow>
                (case list_role_children fx role_id s of
                   Inl e \<Rightarrow> Err e
                 | Inr children \<Rightarrow>
                     role_closure fx username s (role_id # roles) (queue @ map (\<lambda>c. (c, depth + 1)) children))))"
  by pat_completeness auto

termination role_closure
proof (relation "measures [\<lambda>(fx, u, s, roles, q). card (- set roles), \<lambda>(fx, u, s, roles, q). length q]", goal_cases)
  case (3 fx username s roles role_id depth queue children)
  have "- set (role_id # roles) \<subset> - set roles" using 3(2) by auto
  then have "card (- set (role_id # roles)) < card (- set roles)" by (intro psubset_card_mono) simp
  then show ?case by simp
qed simp_all

definition active_role_closure :: "fdb \<Rightarrow> SecurityContext \<Rightarrow> RoleId list query" where
  "active_role_closure fx security s =
     role_closure fx (sec_username security) s [] (map (\<lambda>r. (r, 0)) (active_role_ids security))"

subsection \<open>The privilege decision\<close>

fun any_grant :: "ObjectRef \<Rightarrow> SecurityPrivilege \<Rightarrow> store \<Rightarrow> RoleId list \<Rightarrow> (NovaError, bool) result" where
  "any_grant ob privilege s [] = Ok False"
| "any_grant ob privilege s (role_id # roles) =
     and_then (get_grant role_id ob s) (\<lambda>g.
     if (case g of Some grant \<Rightarrow> ps_contains (gr_privileges grant) privilege | None \<Rightarrow> False) then Ok True
     else any_grant ob privilege s roles)"

definition exec_has_privilege :: "fdb \<Rightarrow> SecurityContext \<Rightarrow> ObjectRef \<Rightarrow> SecurityPrivilege \<Rightarrow> bool query" where
  "exec_has_privilege fx security ob privilege s =
     and_then (active_role_closure fx security s) (\<lambda>active_roles.
     if ACCOUNTADMIN_ROLE_ID \<in> set active_roles then Ok True
     else
       and_then (get_object_owner ob s) (\<lambda>ow.
       if (case ow of Some owner \<Rightarrow> own_owner_role_id owner \<in> set active_roles | None \<Rightarrow> False) then Ok True
       else any_grant ob privilege s active_roles))"

definition require_privilege :: "fdb \<Rightarrow> SecurityContext \<Rightarrow> ObjectRef \<Rightarrow> SecurityPrivilege \<Rightarrow> unit query" where
  "require_privilege fx security ob privilege s =
     and_then (exec_has_privilege fx security ob privilege s) (\<lambda>b.
     if b then Ok ()
     else Err (PermissionDenied (sec_username security)
            (privilege_name privilege @ '' on '' @ object_type_name (obj_type ob) @ '':'' @ show_u64 (obj_id ob))))"

definition require_primary_role_exists :: "fdb \<Rightarrow> Timestamp \<Rightarrow> SecurityContext \<Rightarrow> unit op" where
  "require_primary_role_exists fx now security =
     op_bind (if sec_primary_role_id security = ACCOUNTADMIN_ROLE_ID
              then op_bind (op_query (get_role ACCOUNTADMIN_ROLE_ID)) (\<lambda>r.
                   if r = None then bootstrap_security fx now else op_ret ())
              else op_ret ()) (\<lambda>_.
     op_bind (op_query (get_role (sec_primary_role_id security))) (\<lambda>r.
     if r = None
     then op_fail (PermissionDenied (sec_username security)
            (''use missing role '' @ show_u64 (sec_primary_role_id security)))
     else op_ret ()))"

definition set_primary_role_owner :: "fdb \<Rightarrow> Timestamp \<Rightarrow> SecurityContext \<Rightarrow> ObjectRef \<Rightarrow> unit op" where
  "set_primary_role_owner fx now security ob =
     op_bind (require_primary_role_exists fx now security) (\<lambda>_.
     set_object_owner fx
       \<lparr>own_object = ob, own_owner_role_id = sec_primary_role_id security,
        own_created_by_user_id = sec_user_id security, own_created_at = now, own_transferred_at = None\<rparr>)"

definition primary_role_decision :: "SecurityContext \<Rightarrow> ObjectRef \<Rightarrow> SecurityPrivilege \<Rightarrow> bool query" where
  "primary_role_decision security ob privilege s =
     (if sec_primary_role_id security = ACCOUNTADMIN_ROLE_ID then Ok True
      else
        and_then (get_object_owner ob s) (\<lambda>ow.
        if (case ow of Some owner \<Rightarrow> own_owner_role_id owner = sec_primary_role_id security | None \<Rightarrow> False) then Ok True
        else
          and_then (get_grant (sec_primary_role_id security) ob s) (\<lambda>g.
          Ok (case g of Some grant \<Rightarrow> ps_contains (gr_privileges grant) privilege | None \<Rightarrow> False))))"

definition has_primary_role_privilege ::
  "fdb \<Rightarrow> Timestamp \<Rightarrow> SecurityContext \<Rightarrow> ObjectRef \<Rightarrow> SecurityPrivilege \<Rightarrow> bool op" where
  "has_primary_role_privilege fx now security ob privilege =
     op_bind (require_primary_role_exists fx now security) (\<lambda>_.
     op_query (primary_role_decision security ob privilege))"

definition require_primary_role_privilege ::
  "fdb \<Rightarrow> Timestamp \<Rightarrow> SecurityContext \<Rightarrow> ObjectRef \<Rightarrow> SecurityPrivilege \<Rightarrow> unit op" where
  "require_primary_role_privilege fx now security ob privilege =
     op_bind (has_primary_role_privilege fx now security ob privilege) (\<lambda>b.
     if b then op_ret ()
     else op_fail (PermissionDenied (sec_username security)
            (privilege_name privilege @ '' on '' @ object_type_name (obj_type ob) @ '':'' @ show_u64 (obj_id ob) @
             '' with primary role '' @ show_u64 (sec_primary_role_id security))))"

subsection \<open>Lookups by name\<close>

definition find_database :: "fdb \<Rightarrow> string \<Rightarrow> DatabaseMeta query" where
  "find_database fx db s =
     and_then (list_databases fx s) (\<lambda>dbs. ok_or (DatabaseNotFound db) (find (\<lambda>d. dbm_name d = db) dbs))"

definition find_schema_meta :: "fdb \<Rightarrow> DatabaseId \<Rightarrow> string \<Rightarrow> SchemaMeta query" where
  "find_schema_meta fx db_id schema s =
     and_then (list_schemas fx db_id s) (\<lambda>scs. ok_or (SchemaNotFound schema) (find (\<lambda>sc. sch_name sc = schema) scs))"

definition find_table :: "fdb \<Rightarrow> string \<Rightarrow> string \<Rightarrow> string \<Rightarrow> TableMeta query" where
  "find_table fx db schema table s =
     and_then (and_then (list_databases fx s) (\<lambda>dbs. ok_or (DatabaseNotFound db) (find (\<lambda>d. dbm_name d = db) dbs))) (\<lambda>db_meta.
     and_then (and_then (list_schemas fx (dbm_id db_meta) s)
        (\<lambda>scs. ok_or (SchemaNotFound schema) (find (\<lambda>sc. sch_name sc = schema) scs))) (\<lambda>schema_meta.
     and_then (list_tables fx (dbm_id db_meta) (sch_id schema_meta) s) (\<lambda>tables.
     ok_or (TableNotFound table) (find (\<lambda>t. tbl_name t = table) tables))))"

definition find_stream :: "fdb \<Rightarrow> string \<Rightarrow> string \<Rightarrow> string \<Rightarrow> StreamMeta query" where
  "find_stream fx db schema stream_name s =
     and_then (find_database fx db s) (\<lambda>db_meta.
     and_then (find_schema_meta fx (dbm_id db_meta) schema s) (\<lambda>schema_meta.
     and_then (get_stream_by_name (dbm_id db_meta) (sch_id schema_meta) stream_name s)
       (ok_or (StreamNotFound stream_name))))"

definition find_dynamic_table :: "fdb \<Rightarrow> string \<Rightarrow> string \<Rightarrow> string \<Rightarrow> DynamicTableMeta query" where
  "find_dynamic_table fx db schema name s =
     and_then (find_database fx db s) (\<lambda>db_meta.
     and_then (find_schema_meta fx (dbm_id db_meta) schema s) (\<lambda>schema_meta.
     and_then (list_dynamic_tables fx (dbm_id db_meta) s) (\<lambda>dts.
     ok_or (Internal (''dynamic table '' @ quoted name @ '' not found''))
       (find (\<lambda>dt. dtm_schema_id dt = sch_id schema_meta \<and> dtm_name dt = name) dts))))"

subsection \<open>Authorisation of statements\<close>

definition authorize_table :: "fdb \<Rightarrow> SecurityContext \<Rightarrow> string \<Rightarrow> string \<Rightarrow> string \<Rightarrow> SecurityPrivilege \<Rightarrow> unit query" where
  "authorize_table fx security db schema table privilege s =
     and_then (find_database fx db s) (\<lambda>db_meta.
     and_then (find_schema_meta fx (dbm_id db_meta) schema s) (\<lambda>schema_meta.
     and_then (find_table fx db schema table s) (\<lambda>table_meta.
     and_then (require_privilege fx security (object_ref OT_Database (dbm_id db_meta)) SP_Usage s) (\<lambda>_.
     and_then (require_privilege fx security (object_ref OT_Schema (sch_id schema_meta)) SP_Usage s) (\<lambda>_.
     require_privilege fx security (object_ref OT_Table (tbl_id table_meta)) privilege s)))))"

definition authorize_stream_read :: "fdb \<Rightarrow> SecurityContext \<Rightarrow> string \<Rightarrow> string \<Rightarrow> StreamMeta \<Rightarrow> TableMeta query" where
  "authorize_stream_read fx security db schema st s =
     and_then (find_database fx db s) (\<lambda>db_meta.
     and_then (find_schema_meta fx (dbm_id db_meta) schema s) (\<lambda>schema_meta.
     and_then (require_privilege fx security (object_ref OT_Database (dbm_id db_meta)) SP_Usage s) (\<lambda>_.
     and_then (require_privilege fx security (object_ref OT_Schema (sch_id schema_meta)) SP_Usage s) (\<lambda>_.
     and_then (require_privilege fx security (object_ref OT_Stream (str_stream_id st)) SP_Select s) (\<lambda>_.
     and_then (and_then (get_table (str_db_id st) (str_schema_id st) (str_source_table_id st) s)
        (ok_or (TableNotFound (show_u64 (str_source_table_id st))))) (\<lambda>source.
     and_then (require_privilege fx security (object_ref OT_Table (tbl_id source)) SP_Select s) (\<lambda>_.
     Ok source)))))))"

definition authorize_stream_ownership :: "fdb \<Rightarrow> SecurityContext \<Rightarrow> string \<Rightarrow> string \<Rightarrow> StreamMeta \<Rightarrow> unit query" where
  "authorize_stream_ownership fx security db schema st s =
     and_then (find_database fx db s) (\<lambda>db_meta.
     and_then (find_schema_meta fx (dbm_id db_meta) schema s) (\<lambda>schema_meta.
     and_then (require_privilege fx security (object_ref OT_Database (dbm_id db_meta)) SP_Usage s) (\<lambda>_.
     and_then (require_privilege fx security (object_ref OT_Schema (sch_id schema_meta)) SP_Usage s) (\<lambda>_.
     require_privilege fx security (object_ref OT_Stream (str_stream_id st)) SP_Ownership s))))"

fun keep_if :: "('a \<Rightarrow> (NovaError, bool) result) \<Rightarrow> 'a list \<Rightarrow> (NovaError, 'a list) result" where
  "keep_if f [] = Ok []"
| "keep_if f (x # xs) = and_then (f x) (\<lambda>b. and_then (keep_if f xs) (\<lambda>ys. Ok (if b then x # ys else ys)))"

definition list_database_names :: "fdb \<Rightarrow> SecurityContext \<Rightarrow> string list query" where
  "list_database_names fx security s =
     and_then (list_databases fx s) (\<lambda>dbs.
     and_then (keep_if (\<lambda>db. exec_has_privilege fx security (object_ref OT_Database (dbm_id db)) SP_Usage s) dbs) (\<lambda>visible.
     Ok (map dbm_name visible)))"

definition visible_tables :: "fdb \<Rightarrow> SecurityContext \<Rightarrow> DatabaseId \<Rightarrow> SchemaMeta \<Rightarrow> TableMeta list query" where
  "visible_tables fx security db_id schema s =
     and_then (exec_has_privilege fx security (object_ref OT_Schema (sch_id schema)) SP_Usage s) (\<lambda>b.
     if \<not> b then Ok []
     else and_then (list_tables fx db_id (sch_id schema) s)
            (keep_if (\<lambda>t. exec_has_privilege fx security (object_ref OT_Table (tbl_id t)) SP_Select s)))"

definition list_table_names :: "fdb \<Rightarrow> string \<Rightarrow> SecurityContext \<Rightarrow> string list query" where
  "list_table_names fx db security s =
     and_then (find_database fx db s) (\<lambda>db_meta.
     and_then (list_schemas fx (dbm_id db_meta) s) (\<lambda>schemas.
     and_then (collect_results (\<lambda>schema. visible_tables fx security (dbm_id db_meta) schema s) schemas) (\<lambda>tables.
     Ok (map tbl_name (concat tables)))))"

text \<open>The matcher works on characters; over byte strings \<open>_\<close> stands for one byte.\<close>

fun sql_like_matches :: "string \<Rightarrow> string \<Rightarrow> bool" where
  "sql_like_matches val [] = (val = [])"
| "sql_like_matches val (p # rest) =
     (if p = CHR ''%'' then
        sql_like_matches val rest \<or> (case val of [] \<Rightarrow> False | _ # cs \<Rightarrow> sql_like_matches cs (p # rest))
      else if p = CHR ''_'' then (case val of [] \<Rightarrow> False | _ # cs \<Rightarrow> sql_like_matches cs rest)
      else (case val of [] \<Rightarrow> False | c # cs \<Rightarrow> c = p \<and> sql_like_matches cs rest))"

subsection \<open>The closure is reachability in the role graph\<close>

lemma list_child_ok: "list_child fx s (role_child_key p c, v) = Ok x \<Longrightarrow> x = c"
  using unpack_int_key(2) [of "[p, c]" 2 fx C_role_child]
  by (auto simp: list_child_def and_then_Inr_iff split: if_splits)

lemma list_child_run:
  assumes "store_wf s" "db_get s (role_child_key p c) = Some v" "db_get s (role_key c) \<noteq> None"
  shows "list_child fx s (role_child_key p c, v) = Ok c"
proof -
  from wf_read(16) [OF assms(1), of p c v] assms(2) obtain d where "v = VRoleGrant d" by auto
  moreover obtain r where "get_role c s = Ok (Some r)"
    using assms(3) by (cases rule: get_role_wf [OF assms(1), of c]) auto
  ultimately show ?thesis
    using unpack_int_key(2) [of "[p, c]" 2 fx C_role_child] by (simp add: list_child_def deserialize_def as_role_grant_def)
qed

context fdb_client
begin

lemma role_children_sound:
  assumes "store_wf s" "list_role_children fx r s = Ok cs" "c \<in> set cs"
  shows "(r, c) \<in> role_edges s"
proof -
  from assms(2) obtain kvs where kvs: "fdb_get_range fx (category_range fx (C_role_child, [TInt r])) s = Ok kvs"
    and l: "list_all2 (\<lambda>kv c. list_child fx s kv = Ok c) kvs cs"
    by (auto simp: list_role_children_def and_then_Inr_iff collect_results_Inr_iff split: if_splits)
  from l assms(3) obtain k v where kv: "(k, v) \<in> set kvs" "list_child fx s (k, v) = Ok c"
    by (auto simp: list_all2_conv_all_nth in_set_conv_nth) (metis nth_mem surj_pair)
  with get_range_sound [of C_role_child "[]" r s kvs k v] kvs
  have k: "db_get s k = Some v" "fst k = C_role_child" "prefix [TInt r] (snd k)" by simp_all
  with wf_role_child_key [OF assms(1) k(1,2)] obtain c' where c': "k = role_child_key r c'" by auto
  have "c = c'" using kv(2) unfolding c' by (rule list_child_ok)
  with k(1) c' show ?thesis by (simp add: role_edges_def)
qed

lemma role_children_exact:
  assumes "store_wf s" "db_size s \<le> lim" "(ucast r :: byte) \<noteq> 255" "db_get s (role_key r) \<noteq> None"
    and "\<And>c. (r, c) \<in> role_edges s \<Longrightarrow> db_get s (role_key c) \<noteq> None"
  shows "\<exists>cs. list_role_children fx r s = Ok cs \<and> set cs = {c. (r, c) \<in> role_edges s}"
proof -
  obtain kvs where kvs: "fdb_get_range fx (category_range fx (C_role_child, [TInt r])) s = Ok kvs"
    "set kvs = {(k, v). db_get s k = Some v \<and> fst k = C_role_child \<and> prefix [TInt r] (snd k)}"
    using get_range_ints [OF assms(2,3), of C_role_child "[]"] by auto
  have key: "\<exists>c. k = role_child_key r c \<and> list_child fx s (k, v) = Ok c" if "(k, v) \<in> set kvs" for k v
  proof -
    from that kvs(2) have k: "db_get s k = Some v" "fst k = C_role_child" "prefix [TInt r] (snd k)" by simp_all
    with wf_role_child_key [OF assms(1) k(1,2)] obtain c where c: "k = role_child_key r c" by auto
    with k(1) assms(5) [of c] have "db_get s (role_key c) \<noteq> None" by (auto simp: role_edges_def)
    with list_child_run [OF assms(1), of r c v] k(1) c show ?thesis by auto
  qed
  define child where "child kv = (SOME c. list_child fx s kv = Ok c)" for kv
  have run: "list_child fx s kv = Ok (child kv)" if "kv \<in> set kvs" for kv
    unfolding child_def using key [of "fst kv" "snd kv"] that by (auto intro: someI)
  obtain d where "get_role r s = Ok (Some d)" using assms(4) by (cases rule: get_role_wf [OF assms(1), of r]) auto
  then have "list_role_children fx r s = Ok (map child kvs)"
    using kvs(1) run by (simp add: list_role_children_def collect_results_all_ok)
  moreover have "set (map child kvs) = {c. (r, c) \<in> role_edges s}"
  proof (intro equalityI subsetI CollectI)
    fix c assume "c \<in> set (map child kvs)"
    with role_children_sound [OF assms(1) calculation] show "(r, c) \<in> role_edges s" .
  next
    fix c assume "c \<in> {c. (r, c) \<in> role_edges s}"
    then obtain v where "db_get s (role_child_key r c) = Some v" by (auto simp: role_edges_def)
    then have m: "(role_child_key r c, v) \<in> set kvs" using kvs(2) by simp
    from list_child_ok [OF run [OF m]] have "child (role_child_key r c, v) = c" .
    with m show "c \<in> set (map child kvs)" by force
  qed
  ultimately show ?thesis by blast
qed

end

text \<open>The search itself, over any client whose listing of children is right.\<close>

lemma closure_sound:
  assumes "role_closure fx u s roles q = Ok rs"
    and "\<And>a cs. list_role_children fx a s = Ok cs \<Longrightarrow> \<forall>c \<in> set cs. (a, c) \<in> role_edges s"
    and "\<And>x. x \<in> set roles \<union> fst ` set q \<Longrightarrow> \<exists>a \<in> A. (a, x) \<in> (role_edges s)\<^sup>*"
    and "r \<in> set rs"
  shows "\<exists>a \<in> A. (a, r) \<in> (role_edges s)\<^sup>*"
  using assms
proof (induction fx u s roles q rule: role_closure.induct)
  case (2 fx u s roles role_id depth queue)
  note prem = 2(3-6)
  show ?case
  proof (cases "role_id \<in> set roles")
    case True
    with prem(1) have d: "\<not> depth > 64" and run: "role_closure fx u s roles queue = Ok rs" by (auto split: if_splits)
    show ?thesis by (rule 2(1) [OF d True run prem(2) _ prem(4)]) (use prem(3) in auto)
  next
    case False
    with prem(1) obtain x cs where d: "\<not> depth > 64" and x: "get_role role_id s = Ok (Some x)"
      and cs: "list_role_children fx role_id s = Ok cs"
      and run: "role_closure fx u s (role_id # roles) (queue @ map (\<lambda>c. (c, depth + 1)) cs) = Ok rs"
      by (auto split: if_splits sum.splits option.splits)
    have reach: "\<exists>a \<in> A. (a, y) \<in> (role_edges s)\<^sup>*"
      if y: "y \<in> set (role_id # roles) \<union> fst ` set (queue @ map (\<lambda>c. (c, depth + 1)) cs)" for y
    proof (cases "y \<in> set cs")
      case True
      from prem(3) [of role_id] obtain a where a: "a \<in> A" "(a, role_id) \<in> (role_edges s)\<^sup>*" by auto
      from True prem(2) [OF cs] have "(role_id, y) \<in> role_edges s" by blast
      with a show ?thesis by (blast intro: rtrancl_into_rtrancl)
    next
      case False
      with y have "y \<in> set roles \<union> fst ` set ((role_id, depth) # queue)" by force
      then show ?thesis by (rule prem(3))
    qed
    show ?thesis by (rule 2(2) [OF d False x refl cs run prem(2) reach prem(4)])
  qed
qed auto

lemma closure_complete:
  assumes "role_closure fx u s roles q = Ok rs"
    and "\<And>a cs. list_role_children fx a s = Ok cs \<Longrightarrow> a \<in> R \<Longrightarrow> {b. (a, b) \<in> role_edges s} \<subseteq> set cs"
    and "\<And>x. x \<in> set roles \<union> fst ` set q \<Longrightarrow> x \<in> R" "\<And>x y. (x, y) \<in> role_edges s \<Longrightarrow> x \<in> R \<Longrightarrow> y \<in> R"
    and "\<And>a cs. list_role_children fx a s = Ok cs \<Longrightarrow> \<forall>c \<in> set cs. (a, c) \<in> role_edges s"
    and "\<And>x y. x \<in> set roles \<Longrightarrow> (x, y) \<in> role_edges s \<Longrightarrow> y \<in> set roles \<union> fst ` set q"
  shows "set roles \<union> fst ` set q \<subseteq> set rs \<and> (\<forall>x \<in> set rs. \<forall>y. (x, y) \<in> role_edges s \<longrightarrow> y \<in> set rs)"
  using assms
proof (induction fx u s roles q rule: role_closure.induct)
  case (2 fx u s roles role_id depth queue)
  note prem = 2(3-8)
  show ?case
  proof (cases "role_id \<in> set roles")
    case True
    with prem(1) have d: "\<not> depth > 64" and run: "role_closure fx u s roles queue = Ok rs" by (auto split: if_splits)
    have "set roles \<union> fst ` set queue \<subseteq> set rs \<and> (\<forall>x \<in> set rs. \<forall>y. (x, y) \<in> role_edges s \<longrightarrow> y \<in> set rs)"
    proof (rule 2(1) [OF d True run prem(2) _ prem(4,5)])
      show "x \<in> R" if "x \<in> set roles \<union> fst ` set queue" for x using that prem(3) [of x] by auto
      show "y \<in> set roles \<union> fst ` set queue" if "x \<in> set roles" "(x, y) \<in> role_edges s" for x y
        using prem(6) [OF that] True by auto
    qed
    with True show ?thesis by auto
  next
    case False
    with prem(1) obtain x cs where d: "\<not> depth > 64" and x: "get_role role_id s = Ok (Some x)"
      and cs: "list_role_children fx role_id s = Ok cs"
      and run: "role_closure fx u s (role_id # roles) (queue @ map (\<lambda>c. (c, depth + 1)) cs) = Ok rs"
      by (auto split: if_splits sum.splits option.splits)
    have q: "fst ` set (queue @ map (\<lambda>c. (c, depth + 1)) cs) = fst ` set queue \<union> set cs" by force
    have "set (role_id # roles) \<union> fst ` set (queue @ map (\<lambda>c. (c, depth + 1)) cs) \<subseteq> set rs \<and>
       (\<forall>x \<in> set rs. \<forall>y. (x, y) \<in> role_edges s \<longrightarrow> y \<in> set rs)"
    proof (rule 2(2) [OF d False x refl cs run prem(2) _ prem(4,5)])
      have r: "role_id \<in> R" using prem(3) by simp
      show "y \<in> R" if "y \<in> set (role_id # roles) \<union> fst ` set (queue @ map (\<lambda>c. (c, depth + 1)) cs)" for y
        using that prem(3) [of y] prem(4) [OF _ r] prem(5) [OF cs] unfolding q by auto
      show "y \<in> set (role_id # roles) \<union> fst ` set (queue @ map (\<lambda>c. (c, depth + 1)) cs)"
        if "x \<in> set (role_id # roles)" "(x, y) \<in> role_edges s" for x y
        using that prem(6) [of x y] prem(2) [OF cs r] unfolding q by auto
    qed
    then show ?thesis unfolding q by auto
  qed
qed auto

text \<open>It gives up only at a missing role or below more than 64 levels.\<close>

lemma closure_total:
  assumes "\<And>a. a \<in> R \<Longrightarrow> (\<exists>x. get_role a s = Ok (Some x)) \<and> (\<exists>cs. list_role_children fx a s = Ok cs)"
    and "\<And>a cs. list_role_children fx a s = Ok cs \<Longrightarrow> \<forall>c \<in> set cs. (a, c) \<in> role_edges s"
    and "\<And>x y. (x, y) \<in> role_edges s \<Longrightarrow> x \<in> R \<Longrightarrow> y \<in> R"
    and "\<And>x d. (x, d) \<in> set q \<Longrightarrow> x \<in> R \<and> (\<exists>a \<in> A. (a, x) \<in> role_edges s ^^ d)"
    and "\<And>a x. a \<in> A \<Longrightarrow> (a, x) \<notin> role_edges s ^^ 65"
  shows "\<exists>rs. role_closure fx u s roles q = Ok rs"
  using assms
proof (induction fx u s roles q rule: role_closure.induct)
  case (2 fx u s roles role_id depth queue)
  note prem = 2(3-7)
  from prem(4) [of role_id depth] obtain a where r: "role_id \<in> R" and a: "a \<in> A" "(a, role_id) \<in> role_edges s ^^ depth" by auto
  have d: "\<not> depth > 64"
  proof
    assume "depth > 64"
    then have "role_edges s ^^ depth = role_edges s ^^ 65 O role_edges s ^^ (depth - 65)"
      by (simp flip: relpow_add)
    with a prem(5) show False by auto
  qed
  show ?case
  proof (cases "role_id \<in> set roles")
    case True
    have "\<exists>rs. role_closure fx u s roles queue = Ok rs"
      by (rule 2(1) [OF d True prem(1-3) _ prem(5)]) (use prem(4) in auto)
    with d True show ?thesis by simp
  next
    case False
    from prem(1) [OF r] obtain x cs where x: "get_role role_id s = Ok (Some x)"
      and cs: "list_role_children fx role_id s = Ok cs" by blast
    have "\<exists>rs. role_closure fx u s (role_id # roles) (queue @ map (\<lambda>c. (c, depth + 1)) cs) = Ok rs"
    proof (rule 2(2) [OF d False x refl cs prem(1-3) _ prem(5)])
      fix y e assume "(y, e) \<in> set (queue @ map (\<lambda>c. (c, depth + 1)) cs)"
      then consider "(y, e) \<in> set queue" | "y \<in> set cs" "e = depth + 1" by auto
      then show "y \<in> R \<and> (\<exists>a \<in> A. (a, y) \<in> role_edges s ^^ e)"
      proof cases
        case 2
        with prem(2) [OF cs] have "(role_id, y) \<in> role_edges s" by blast
        with r a prem(3) 2 show ?thesis by (auto intro!: bexI [of _ a])
      qed (use prem(4) in auto)
    qed
    with d False x cs show ?thesis by simp
  qed
qed simp

subsection \<open>The decision\<close>

definition reachable_role :: "store \<Rightarrow> SecurityContext \<Rightarrow> RoleId \<Rightarrow> bool" where
  "reachable_role s security r \<longleftrightarrow> (\<exists>a \<in> set (active_role_ids security). (a, r) \<in> (role_edges s)\<^sup>*)"

definition owner_of :: "store \<Rightarrow> ObjectRef \<Rightarrow> RoleId option" where
  "owner_of s ob = (case get_object_owner ob s of Ok (Some ow) \<Rightarrow> Some (own_owner_role_id ow) | _ \<Rightarrow> None)"

text \<open>What the access-control model promises: the right of one role suffices.\<close>

definition role_permits :: "store \<Rightarrow> RoleId \<Rightarrow> ObjectRef \<Rightarrow> SecurityPrivilege \<Rightarrow> bool" where
  "role_permits s r ob p \<longleftrightarrow> r = ACCOUNTADMIN_ROLE_ID \<or> owner_of s ob = Some r \<or> holds_privilege s r ob p"

definition authorised :: "store \<Rightarrow> SecurityContext \<Rightarrow> ObjectRef \<Rightarrow> SecurityPrivilege \<Rightarrow> bool" where
  "authorised s security ob p \<longleftrightarrow> (\<exists>r. reachable_role s security r \<and> role_permits s r ob p)"

lemma any_grant_True: "any_grant ob p s rs = Ok True \<Longrightarrow> \<exists>r \<in> set rs. holds_privilege s r ob p"
  by (induction rs) (auto simp: and_then_Inr_iff holds_privilege_def split: if_splits option.splits)

lemma any_grant_run:
  assumes "store_wf s"
  shows "any_grant ob p s rs = Ok (\<exists>r \<in> set rs. holds_privilege s r ob p)"
proof (induction rs)
  case (Cons r rs)
  have "\<exists>g. get_grant r ob s = Ok g"
    using wf_read(18) [OF assms, of r ob]
    by (cases "db_get s (grant_key r ob)") (auto simp: get_grant_def get_record_def deserialize_def as_grant_def)
  then obtain g where "get_grant r ob s = Ok g" ..
  with Cons show ?case by (cases g) (auto simp: holds_privilege_def)
qed simp

lemma get_owner_wf:
  assumes "store_wf s"
  shows "\<exists>ow. get_object_owner ob s = Ok ow"
  using wf_read(17) [OF assms, of ob]
  by (cases "db_get s (owner_key ob)") (auto simp: get_object_owner_def get_record_def deserialize_def as_owner_def)

lemma closure_reachable:
  assumes "fdb_client fx lim" "store_wf s" "active_role_closure fx security s = Ok rs" "r \<in> set rs"
  shows "reachable_role s security r"
  unfolding reachable_role_def
proof (rule closure_sound)
  show "role_closure fx (sec_username security) s [] (map (\<lambda>r. (r, 0)) (active_role_ids security)) = Ok rs"
    using assms(3) by (simp add: active_role_closure_def)
  show "\<forall>c \<in> set cs. (a, c) \<in> role_edges s" if "list_role_children fx a s = Ok cs" for a cs
    using fdb_client.role_children_sound [OF assms(1,2) that] by blast
qed (use assms(4) in auto)

text \<open>Nothing is allowed without a right, whatever the identifiers and the size of the store.\<close>

lemma has_privilege_sound:
  assumes "fdb_client fx lim" "store_wf s" "exec_has_privilege fx security ob p s = Ok True"
  shows "authorised s security ob p"
proof -
  from assms(3) obtain rs where rs: "active_role_closure fx security s = Ok rs"
    by (auto simp: exec_has_privilege_def and_then_Inr_iff)
  from get_owner_wf [OF assms(2)] obtain ow where ow: "get_object_owner ob s = Ok ow" by blast
  have "\<exists>r \<in> set rs. role_permits s r ob p"
    using assms(3) rs ow any_grant_True [of ob p s rs]
    by (auto simp: exec_has_privilege_def role_permits_def owner_of_def split: if_splits option.splits)
  with closure_reachable [OF assms(1,2) rs] show ?thesis unfolding authorised_def by blast
qed

lemma require_privilege_sound:
  assumes "fdb_client fx lim" "store_wf s" "require_privilege fx security ob p s = Ok u"
  shows "authorised s security ob p"
  using assms by (intro has_privilege_sound [OF assms(1,2)])
    (auto simp: require_privilege_def and_then_Inr_iff split: if_splits)

text \<open>
  The conditions under which the decision is also complete: the inherited roles exist, none
  has an identifier whose listing of children is cut off, and no chain is longer than 64.
\<close>

definition roles_sane :: "store \<Rightarrow> SecurityContext \<Rightarrow> bool" where
  "roles_sane s security \<longleftrightarrow>
     (\<forall>r. reachable_role s security r \<longrightarrow> db_get s (role_key r) \<noteq> None \<and> (ucast r :: byte) \<noteq> 255) \<and>
     (\<forall>a \<in> set (active_role_ids security). \<forall>r. (a, r) \<notin> role_edges s ^^ 65)"

lemma closure_exact:
  assumes "fdb_client fx lim" "store_wf s" "db_size s \<le> lim" "roles_sane s security"
  shows "\<exists>rs. active_role_closure fx security s = Ok rs \<and> set rs = {r. reachable_role s security r}"
proof -
  let ?q = "map (\<lambda>r. (r, 0 :: nat)) (active_role_ids security)"
  let ?R = "{r. reachable_role s security r}"
  have step: "y \<in> ?R" if "(x, y) \<in> role_edges s" "x \<in> ?R" for x y
    using that by (auto simp: reachable_role_def intro: rtrancl_into_rtrancl)
  have start: "x \<in> ?R" if "x \<in> set (active_role_ids security)" for x
    using that by (auto simp: reachable_role_def)
  have sound: "\<forall>c \<in> set cs. (a, c) \<in> role_edges s" if "list_role_children fx a s = Ok cs" for a cs
    using fdb_client.role_children_sound [OF assms(1,2) that] by blast
  have children: "\<exists>cs. list_role_children fx a s = Ok cs \<and> set cs = {c. (a, c) \<in> role_edges s}" if "a \<in> ?R" for a
    using that step assms(4)
    by (intro fdb_client.role_children_exact [OF assms(1-3)]) (auto simp: roles_sane_def)
  have role: "\<exists>x. get_role a s = Ok (Some x)" if "a \<in> ?R" for a
    using that assms(4) by (cases rule: get_role_wf [OF assms(2), of a]) (auto simp: roles_sane_def)
  have "\<exists>rs. role_closure fx (sec_username security) s [] ?q = Ok rs"
  proof (rule closure_total [where R = ?R and A = "set (active_role_ids security)"])
    show "(\<exists>x. get_role a s = Ok (Some x)) \<and> (\<exists>cs. list_role_children fx a s = Ok cs)" if "a \<in> ?R" for a
      using children [OF that] role [OF that] by blast
    show "x \<in> ?R \<and> (\<exists>a \<in> set (active_role_ids security). (a, x) \<in> role_edges s ^^ d)" if "(x, d) \<in> set ?q" for x d
      using that start by auto
    show "(a, x) \<notin> role_edges s ^^ 65" if "a \<in> set (active_role_ids security)" for a x
      using that assms(4) by (simp add: roles_sane_def)
  qed (rule sound step, assumption+)+
  then obtain rs where run: "role_closure fx (sec_username security) s [] ?q = Ok rs" ..
  have "{b. (a, b) \<in> role_edges s} \<subseteq> set cs" if "list_role_children fx a s = Ok cs" "a \<in> ?R" for a cs
    using children [OF that(2)] that(1) by auto
  from closure_complete [OF run this _ step sound] start
  have closed: "set (active_role_ids security) \<subseteq> set rs" "x \<in> set rs \<Longrightarrow> (x, y) \<in> role_edges s \<Longrightarrow> y \<in> set rs" for x y
    by (fastforce simp: image_image)+
  have "y \<in> set rs" if "(x, y) \<in> (role_edges s)\<^sup>*" "x \<in> set rs" for x y
    using that by (induction rule: rtrancl_induct) (auto intro: closed(2))
  with closed(1) have "?R \<subseteq> set rs" by (auto simp: reachable_role_def)
  with closure_reachable [OF assms(1,2)] run show ?thesis by (auto simp: active_role_closure_def)
qed

lemma has_privilege_exact:
  assumes "fdb_client fx lim" "store_wf s" "db_size s \<le> lim" "roles_sane s security"
  shows "exec_has_privilege fx security ob privilege s = Ok (authorised s security ob privilege)"
proof -
  from closure_exact [OF assms] obtain rs where rs: "active_role_closure fx security s = Ok rs"
    "set rs = {r. reachable_role s security r}" by blast
  from get_owner_wf [OF assms(2)] obtain ow where ow: "get_object_owner ob s = Ok ow" by blast
  show ?thesis
  proof (cases "ACCOUNTADMIN_ROLE_ID \<in> set rs")
    case True
    with rs have "authorised s security ob privilege" unfolding authorised_def role_permits_def by blast
    with True rs(1) show ?thesis by (simp add: exec_has_privilege_def)
  next
    case False
    with rs any_grant_run [OF assms(2), of ob privilege rs] ow show ?thesis
      by (auto simp: exec_has_privilege_def authorised_def role_permits_def owner_of_def split: option.split)
  qed
qed

text \<open>
  C34. The access decision of the executor is the one the role model promises: the session may
  use the privilege on the object exactly when some role reachable from its active roles along
  role grants is the administrator role, owns the object or was granted the privilege. The
  decision is made without an error when the reachable roles exist, their identifiers are not
  255 modulo 256 and no inheritance chain from an active role has 65 steps.
\<close>

theorem access_decision_exact:
  assumes "fdb_client fx lim" "store_wf s" "db_size s \<le> lim" "roles_sane s security"
  shows "exec_has_privilege fx security ob privilege s = Ok (authorised s security ob privilege)"
  by (rule has_privilege_exact [OF assms])

definition sample_access :: store where
  "sample_access = apply_sets
     [(role_key 2, VRole (sample_role 2 ''analyst'')), (role_key 3, VRole (sample_role 3 ''reader'')),
      (role_child_key 2 3, VRoleGrant \<lparr>rg_granted_by_role_id = 1, rg_created_at = 3\<rparr>),
      (role_parent_key 3 2, VBytes []),
      (grant_key 3 (object_ref OT_Table 7),
       VGrant \<lparr>gr_role_id = 3, gr_object = object_ref OT_Table 7, gr_privileges = from_privileges [SP_Select],
               gr_grant_options = ps_empty, gr_granted_by_role_id = 1, gr_updated_at = 4\<rparr>)] DAList.empty"

definition sample_analyst :: SecurityContext where
  "sample_analyst = \<lparr>sec_user_id = 5, sec_username = ''ann'', sec_primary_role_id = 2,
     sec_secondary_role_ids = [], sec_secondary_all = True\<rparr>"

lemma sample_access_facts:
  "role_edges sample_access = {(2, 3)}"
  "store_wf sample_access"
  "db_size sample_access \<le> 100"
  "active_role_ids sample_analyst = [2]"
proof -
  show "role_edges sample_access = {(2, 3)}"
    by (auto simp: role_edges_def sample_access_def grant_key_def split: if_splits)
  show "store_wf sample_access"
    unfolding sample_access_def by (rule store_wf_sets [OF store_wf_empty]) (simp add: sample_role_def)
  show "db_size sample_access \<le> 100"
    using db_size_apply_sets [of _ DAList.empty] by (simp add: sample_access_def DAList.update.rep_eq DAList.empty.rep_eq)
  show "active_role_ids sample_analyst = [2]" by (simp add: active_role_ids_def sample_analyst_def)
qed

lemma sample_reach: "reachable_role sample_access sample_analyst r \<longleftrightarrow> r = 2 \<or> r = 3"
proof -
  have "(2, r) \<in> {(2 :: RoleId, 3 :: RoleId)}\<^sup>* \<longleftrightarrow> r = 2 \<or> r = 3"
  proof
    assume "(2, r) \<in> {(2 :: RoleId, 3 :: RoleId)}\<^sup>*"
    then show "r = 2 \<or> r = 3" by (induction rule: rtrancl_induct) auto
  qed auto
  then show ?thesis by (simp add: reachable_role_def sample_access_facts)
qed

theorem access_decision_exact_witness:
  "exec_has_privilege sample_fdb sample_analyst (object_ref OT_Table 7) SP_Select sample_access = Ok True \<and>
   exec_has_privilege sample_fdb sample_analyst (object_ref OT_Table 7) SP_Insert sample_access = Ok False"
proof -
  have none: "{(2 :: RoleId, 3 :: RoleId)} ^^ Suc (Suc n) = {}" for n by (induction n) (auto simp: relcomp_unfold)
  have no_path: "(a, r) \<notin> {(2 :: RoleId, 3 :: RoleId)} ^^ 65" for a r
    using none [of 63] by (simp add: numeral_eq_Suc)
  have "roles_sane sample_access sample_analyst"
    unfolding roles_sane_def sample_reach sample_access_facts using no_path
    by (auto simp: sample_access_def)
  note exact = access_decision_exact [OF sample_client sample_access_facts(2,3) this]
  have own: "owner_of sample_access (object_ref OT_Table 7) = None"
    by (simp add: owner_of_def get_object_owner_def get_record_def sample_access_def object_keys)
  have grant: "holds_privilege sample_access 3 (object_ref OT_Table 7) SP_Select"
    "\<not> holds_privilege sample_access 3 (object_ref OT_Table 7) SP_Insert"
    "\<not> holds_privilege sample_access 2 (object_ref OT_Table 7) p" for p
    by (simp_all add: holds_privilege_get sample_access_def object_keys ps_contains_def from_privileges_def
        privilege_bit_def)
  show ?thesis
    using grant by (auto simp: exact authorised_def sample_reach role_permits_def own ACCOUNTADMIN_ROLE_ID_def)
qed

subsection \<open>What an authorisation guarantees\<close>

context fdb_client
begin

lemma list_records_sound:
  assumes "list_records fx p (int_key c (ns @ [m])) s = Ok ds" "d \<in> set ds"
  shows "\<exists>k v. db_get s k = Some v \<and> p v = Some d \<and> fst k = c \<and> prefix (map TInt (ns @ [m])) (snd k)"
proof -
  from assms(1) obtain kvs where kvs: "fdb_get_range fx (category_range fx (int_key c (ns @ [m]))) s = Ok kvs"
    "collect_results (\<lambda>kv. deserialize p (snd kv)) kvs = Ok ds"
    by (auto simp: list_records_def and_then_Inr_iff)
  from collect_results_mem [OF kvs(2) assms(2)] obtain k v where "(k, v) \<in> set kvs" "p v = Some d"
    by (auto simp: deserialize_def ok_or_def split: option.splits)
  with get_range_sound [OF kvs(1)] show ?thesis by blast
qed

lemma list_databases_sound:
  assumes "store_wf s" "list_databases fx s = Ok ds" "d \<in> set ds"
  shows "db_get s (database_key (dbm_id d)) = Some (VDatabase d)"
proof -
  from assms(2) obtain kvs where kvs: "trx_get_range fx (fst (category_range fx (C_db, [])))
      (snd (category_range fx (C_db, []))) s = Ok kvs"
    "collect_results (\<lambda>kv. deserialize as_database (snd kv)) kvs = Ok ds"
    by (auto simp: list_databases_def list_records_def fdb_get_range_def map_err_def and_then_Inr_iff split: sum.splits)
  from collect_results_mem [OF kvs(2) assms(3)] obtain k v where k: "(k, v) \<in> set kvs" "as_database v = Some d"
    by (auto simp: deserialize_def ok_or_def split: option.splits)
  from scan_sound [OF kvs(1) k(1)] covered_tag [of C_db k] have "db_get s k = Some v" "fst k = C_db"
    by (simp_all add: covered_def)
  with wf_category(1) [OF assms(1), of k v] k(2) show ?thesis by (auto simp: as_iff)
qed

lemma list_schemas_sound:
  assumes "store_wf s" "list_schemas fx i s = Ok ds" "d \<in> set ds"
  shows "db_get s (schema_key i (sch_id d)) = Some (VSchema d)"
  using list_records_sound [of as_schema C_schema "[]" i s ds d] assms(2,3) wf_category(2) [OF assms(1)]
  by (fastforce simp: list_schemas_def as_iff)

lemma list_tables_sound:
  assumes "store_wf s" "list_tables fx i j s = Ok ds" "d \<in> set ds"
  shows "db_get s (table_key i j (tbl_id d)) = Some (VTable d)"
  using list_records_sound [of as_table C_table "[i]" j s ds d] assms(2,3) wf_category(3) [OF assms(1)]
  by (fastforce simp: list_tables_def as_iff)

end

lemma find_ok_or: "ok_or e (find P xs) = Ok x \<Longrightarrow> x \<in> set xs \<and> P x"
  by (cases "find P xs") (auto simp: find_Some_iff)

lemma find_database_sound:
  assumes "fdb_client fx lim" "store_wf s" "find_database fx db s = Ok d"
  shows "db_get s (database_key (dbm_id d)) = Some (VDatabase d) \<and> dbm_name d = db"
  using assms(3) fdb_client.list_databases_sound [OF assms(1,2)]
  by (auto simp: find_database_def and_then_Inr_iff dest!: find_ok_or)

lemma find_schema_sound:
  assumes "fdb_client fx lim" "store_wf s" "find_schema_meta fx i schema s = Ok sc"
  shows "db_get s (schema_key i (sch_id sc)) = Some (VSchema sc) \<and> sch_name sc = schema"
  using assms(3) fdb_client.list_schemas_sound [OF assms(1,2)]
  by (auto simp: find_schema_meta_def and_then_Inr_iff dest!: find_ok_or)

text \<open>The lookup of a table goes through the same database and schema as the separate lookups.\<close>

lemma find_table_split:
  "find_table fx db schema table s =
     and_then (find_database fx db s) (\<lambda>d. and_then (find_schema_meta fx (dbm_id d) schema s) (\<lambda>sc.
     and_then (list_tables fx (dbm_id d) (sch_id sc) s) (\<lambda>ts.
     ok_or (TableNotFound table) (find (\<lambda>t. tbl_name t = table) ts))))"
  by (simp add: find_table_def find_database_def find_schema_meta_def)

text \<open>The stored objects a qualified table name stands for.\<close>

definition names_table ::
  "store \<Rightarrow> string \<Rightarrow> string \<Rightarrow> string \<Rightarrow> DatabaseMeta \<Rightarrow> SchemaMeta \<Rightarrow> TableMeta \<Rightarrow> bool" where
  "names_table s db schema table d sc t \<longleftrightarrow>
     db_get s (database_key (dbm_id d)) = Some (VDatabase d) \<and> dbm_name d = db \<and>
     db_get s (schema_key (dbm_id d) (sch_id sc)) = Some (VSchema sc) \<and> sch_name sc = schema \<and>
     db_get s (table_key (dbm_id d) (sch_id sc) (tbl_id t)) = Some (VTable t) \<and> tbl_name t = table"

lemma find_table_sound:
  assumes "fdb_client fx lim" "store_wf s" "find_table fx db schema table s = Ok t"
  shows "\<exists>d sc. find_database fx db s = Ok d \<and> find_schema_meta fx (dbm_id d) schema s = Ok sc \<and>
     names_table s db schema table d sc t"
proof -
  from assms(3) obtain d sc ts where f: "find_database fx db s = Ok d" "find_schema_meta fx (dbm_id d) schema s = Ok sc"
    "list_tables fx (dbm_id d) (sch_id sc) s = Ok ts" "ok_or (TableNotFound table) (find (\<lambda>t. tbl_name t = table) ts) = Ok t"
    by (auto simp: find_table_split and_then_Inr_iff)
  from find_ok_or [OF f(4)] have "t \<in> set ts" "tbl_name t = table" by simp_all
  with fdb_client.list_tables_sound [OF assms(1,2) f(3)] f find_database_sound [OF assms(1,2) f(1)]
    find_schema_sound [OF assms(1,2) f(2)] show ?thesis unfolding names_table_def by blast
qed

text \<open>
  A table statement passes its authorisation only when the qualified name denotes a stored
  database, schema and table (the one the later lookup of the statement returns), and the
  session is authorised to use the database, to use the schema and for the privilege on the
  table. This needs no bound on the identifiers or on the size of the store.
\<close>

lemma authorize_table_sound:
  assumes "fdb_client fx lim" "store_wf s" "authorize_table fx security db schema table privilege s = Ok ()"
  shows "\<exists>d sc t. find_table fx db schema table s = Ok t \<and> names_table s db schema table d sc t \<and>
     authorised s security (object_ref OT_Database (dbm_id d)) SP_Usage \<and>
     authorised s security (object_ref OT_Schema (sch_id sc)) SP_Usage \<and>
     authorised s security (object_ref OT_Table (tbl_id t)) privilege"
proof -
  from assms(3) obtain d sc t where a: "find_database fx db s = Ok d" "find_schema_meta fx (dbm_id d) schema s = Ok sc"
    "find_table fx db schema table s = Ok t"
    "require_privilege fx security (object_ref OT_Database (dbm_id d)) SP_Usage s = Ok ()"
    "require_privilege fx security (object_ref OT_Schema (sch_id sc)) SP_Usage s = Ok ()"
    "require_privilege fx security (object_ref OT_Table (tbl_id t)) privilege s = Ok ()"
    by (auto simp: authorize_table_def and_then_Inr_iff)
  from find_table_sound [OF assms(1,2) a(3)] a(1,2) have "names_table s db schema table d sc t" by auto
  with a(3-) require_privilege_sound [OF assms(1,2)] show ?thesis by blast
qed

text \<open>The same for reading a stream, which also needs the right to read its source table.\<close>

lemma authorize_stream_read_sound:
  assumes "fdb_client fx lim" "store_wf s" "authorize_stream_read fx security db schema st s = Ok source"
  shows "authorised s security (object_ref OT_Stream (str_stream_id st)) SP_Select \<and>
     authorised s security (object_ref OT_Table (tbl_id source)) SP_Select \<and>
     db_get s (table_key (str_db_id st) (str_schema_id st) (str_source_table_id st)) = Some (VTable source)"
proof -
  from assms(3) have a: "require_privilege fx security (object_ref OT_Stream (str_stream_id st)) SP_Select s = Ok ()"
    "require_privilege fx security (object_ref OT_Table (tbl_id source)) SP_Select s = Ok ()"
    "get_table (str_db_id st) (str_schema_id st) (str_source_table_id st) s = Ok (Some source)"
    by (auto simp: authorize_stream_read_def and_then_Inr_iff ok_or_def split: option.splits)
  from a(3) have "db_get s (table_key (str_db_id st) (str_schema_id st) (str_source_table_id st)) = Some (VTable source)"
    by (auto simp: get_table_def get_record_Some_iff as_iff)
  with a(1,2) require_privilege_sound [OF assms(1,2)] show ?thesis by blast
qed

text \<open>The lookups find what is stored when the names are unique and the listings complete.\<close>

lemma find_single: "set xs = {x} \<Longrightarrow> P x \<Longrightarrow> find P xs = Some x"
  by (cases "find P xs") (auto simp: find_None_iff find_Some_iff)

lemma databases_exact:
  assumes "fdb_client fx lim" "store_wf s" "db_size s \<le> lim"
  shows "\<exists>ds. list_databases fx s = Ok ds \<and> set ds = {d. db_get s (database_key (dbm_id d)) = Some (VDatabase d)}"
proof -
  obtain kvs where kvs: "fdb_get_range fx (category_range fx (C_db, [])) s = Ok kvs"
    "set kvs = {(k, v). db_get s k = Some v \<and> fst k = C_db}"
    using fdb_client.get_range_tag [OF assms(1,3), of C_db] by blast
  have dec: "\<exists>d. v = VDatabase d \<and> k = database_key (dbm_id d)" if "(k, v) \<in> set kvs" for k v
    using that kvs(2) wf_category(1) [OF assms(2), of k v] by simp
  have "collect_results (\<lambda>kv. deserialize as_database (snd kv)) kvs = Ok (map (\<lambda>kv. the (as_database (snd kv))) kvs)"
    by (rule collect_results_all_ok) (use dec in \<open>fastforce simp: deserialize_def as_database_def\<close>)
  then have run: "list_databases fx s = Ok (map (\<lambda>kv. the (as_database (snd kv))) kvs)"
    by (simp add: list_databases_def list_records_def kvs(1))
  have "d \<in> set (map (\<lambda>kv. the (as_database (snd kv))) kvs)" if "db_get s (database_key (dbm_id d)) = Some (VDatabase d)" for d
    using that kvs(2) by (force simp: as_database_def image_iff)
  with run fdb_client.list_databases_sound [OF assms(1,2) run] show ?thesis by blast
qed

lemma find_database_run:
  assumes "fdb_client fx lim" "store_wf s" "db_size s \<le> lim"
    and "{d. db_get s (database_key (dbm_id d)) = Some (VDatabase d)} = {d}" "dbm_name d = db"
  shows "find_database fx db s = Ok d"
  using databases_exact [OF assms(1-3)] assms(4,5) by (auto simp: find_database_def find_single)

lemma find_table_run:
  assumes "fdb_client fx lim" "store_wf s" "db_size s \<le> lim"
    and "{d. db_get s (database_key (dbm_id d)) = Some (VDatabase d)} = {d}" "dbm_name d = db"
    and "{c. db_get s (schema_key (dbm_id d) (sch_id c)) = Some (VSchema c)} = {sc}" "sch_name sc = schema"
    and "{x. db_get s (table_key (dbm_id d) (sch_id sc) (tbl_id x)) = Some (VTable x)} = {t}" "tbl_name t = table"
    and "(ucast (dbm_id d) :: byte) \<noteq> 255" "(ucast (sch_id sc) :: byte) \<noteq> 255"
  shows "find_schema_meta fx (dbm_id d) schema s = Ok sc \<and> find_table fx db schema table s = Ok t"
proof -
  from fdb_client.schemas_exact [OF assms(1-3,10)] assms(6,7)
  have "find_schema_meta fx (dbm_id d) schema s = Ok sc" by (auto simp: find_schema_meta_def find_single)
  moreover from fdb_client.tables_exact [OF assms(1-3,11), of "dbm_id d"] assms(8,9)
  obtain ts where "list_tables fx (dbm_id d) (sch_id sc) s = Ok ts" "find (\<lambda>x. tbl_name x = table) ts = Some t"
    by (auto intro: find_single)
  ultimately show ?thesis using find_database_run [OF assms(1-5)] by (simp add: find_table_split)
qed

text \<open>The administrator passes every check once its role is stored.\<close>

lemma root_sane:
  assumes "db_get s (role_key ACCOUNTADMIN_ROLE_ID) \<noteq> None" "\<And>r. (ACCOUNTADMIN_ROLE_ID, r) \<notin> role_edges s"
  shows "roles_sane s security_context_root"
proof -
  have a: "active_role_ids security_context_root = [ACCOUNTADMIN_ROLE_ID]"
    by (simp add: active_role_ids_def security_context_root_def)
  have reach: "reachable_role s security_context_root r \<longleftrightarrow> r = ACCOUNTADMIN_ROLE_ID" for r
    using assms(2) by (auto simp: reachable_role_def a elim: converse_rtranclE)
  have "(ACCOUNTADMIN_ROLE_ID, r) \<notin> role_edges s ^^ Suc n" for r n
    using assms(2) relpow_Suc_D2 by metis
  from this [of _ 64] assms(1) show ?thesis by (simp add: roles_sane_def reach a ACCOUNTADMIN_ROLE_ID_def)
qed

lemma root_allowed:
  assumes "fdb_client fx lim" "store_wf s" "db_size s \<le> lim"
    and "db_get s (role_key ACCOUNTADMIN_ROLE_ID) \<noteq> None" "\<And>r. (ACCOUNTADMIN_ROLE_ID, r) \<notin> role_edges s"
  shows "exec_has_privilege fx security_context_root ob p s = Ok True"
    and "require_privilege fx security_context_root ob p s = Ok ()"
proof -
  have "authorised s security_context_root ob p"
    unfolding authorised_def reachable_role_def role_permits_def
    by (intro exI [of _ ACCOUNTADMIN_ROLE_ID]) (auto simp: active_role_ids_def security_context_root_def)
  with has_privilege_exact [OF assms(1-3) root_sane [OF assms(4,5)]]
  show "exec_has_privilege fx security_context_root ob p s = Ok True" by simp
  then show "require_privilege fx security_context_root ob p s = Ok ()" by (simp add: require_privilege_def)
qed

subsection \<open>Visible names\<close>

lemma keep_if_ok:
  assumes "keep_if f xs = Ok ys"
  shows "ys = filter (\<lambda>x. f x = Ok True) xs"
  using assms by (induction xs arbitrary: ys) (auto simp: and_then_Inr_iff split: if_splits)

lemma visible_databases_authorised:
  assumes "fdb_client fx lim" "store_wf s" "list_database_names fx security s = Ok names" "n \<in> set names"
  shows "\<exists>d. db_get s (database_key (dbm_id d)) = Some (VDatabase d) \<and> dbm_name d = n \<and>
     authorised s security (object_ref OT_Database (dbm_id d)) SP_Usage"
proof -
  from assms(3,4) obtain dbs d where d: "list_databases fx s = Ok dbs" "d \<in> set dbs" "dbm_name d = n"
    "exec_has_privilege fx security (object_ref OT_Database (dbm_id d)) SP_Usage s = Ok True"
    by (auto simp: list_database_names_def and_then_Inr_iff dest!: keep_if_ok)
  with fdb_client.list_databases_sound [OF assms(1,2) d(1,2)] has_privilege_sound [OF assms(1,2) d(4)]
  show ?thesis by blast
qed

subsection \<open>Patterns of SHOW ... LIKE\<close>

lemma like_percent:
  "sql_like_matches val (CHR ''%'' # p) \<longleftrightarrow> (\<exists>pre suf. val = pre @ suf \<and> sql_like_matches suf p)"
proof (induction val)
  case (Cons c val)
  have "(\<exists>pre suf. c # val = pre @ suf \<and> sql_like_matches suf p) \<longleftrightarrow>
      sql_like_matches (c # val) p \<or> (\<exists>pre suf. val = pre @ suf \<and> sql_like_matches suf p)"
    by (metis append_Cons append_Nil list.exhaust list.inject)
  with Cons show ?case by simp
qed simp

lemma like_char:
  "c \<noteq> CHR ''%'' \<Longrightarrow> sql_like_matches val (c # p) \<longleftrightarrow>
     (\<exists>x rest. val = x # rest \<and> (c = CHR ''_'' \<or> x = c) \<and> sql_like_matches rest p)"
  by (cases val) auto

text \<open>A pattern matches a concatenation exactly when its parts match the parts.\<close>

lemma like_append:
  "sql_like_matches val (p @ q) \<longleftrightarrow> (\<exists>u v. val = u @ v \<and> sql_like_matches u p \<and> sql_like_matches v q)"
proof (induction p arbitrary: val)
  case (Cons c p)
  show ?case
  proof (cases "c = CHR ''%''")
    case True
    show ?thesis
    proof
      assume "sql_like_matches val ((c # p) @ q)"
      then obtain w u v where "val = w @ u @ v" "sql_like_matches u p" "sql_like_matches v q"
        using Cons by (auto simp: True like_percent simp del: sql_like_matches.simps)
      then have "val = (w @ u) @ v \<and> sql_like_matches (w @ u) (c # p) \<and> sql_like_matches v q"
        unfolding True like_percent by auto
      then show "\<exists>u v. val = u @ v \<and> sql_like_matches u (c # p) \<and> sql_like_matches v q" by blast
    next
      assume "\<exists>u v. val = u @ v \<and> sql_like_matches u (c # p) \<and> sql_like_matches v q"
      then obtain w u v where "val = w @ u @ v" "sql_like_matches u p" "sql_like_matches v q"
        unfolding True like_percent by auto
      then have "val = w @ (u @ v)" "sql_like_matches (u @ v) (p @ q)" using Cons by blast+
      then show "sql_like_matches val ((c # p) @ q)" unfolding append_Cons True like_percent by blast
    qed
  next
    case False
    show ?thesis
    proof
      assume "sql_like_matches val ((c # p) @ q)"
      then obtain x u v where x: "val = x # u @ v" "c = CHR ''_'' \<or> x = c" "sql_like_matches u p" "sql_like_matches v q"
        unfolding append_Cons like_char [OF False] Cons by blast
      then have "val = (x # u) @ v \<and> sql_like_matches (x # u) (c # p) \<and> sql_like_matches v q"
        unfolding like_char [OF False] by auto
      then show "\<exists>u v. val = u @ v \<and> sql_like_matches u (c # p) \<and> sql_like_matches v q" by blast
    next
      assume "\<exists>u v. val = u @ v \<and> sql_like_matches u (c # p) \<and> sql_like_matches v q"
      then obtain x u v where x: "val = x # (u @ v)" "c = CHR ''_'' \<or> x = c" "sql_like_matches u p" "sql_like_matches v q"
        unfolding like_char [OF False] by auto
      then have "sql_like_matches (u @ v) (p @ q)" using Cons by blast
      with x show "sql_like_matches val ((c # p) @ q)" unfolding append_Cons like_char [OF False] by blast
    qed
  qed
qed auto

lemma like_literal: "\<lbrakk>CHR ''%'' \<notin> set p; CHR ''_'' \<notin> set p\<rbrakk> \<Longrightarrow> sql_like_matches val p \<longleftrightarrow> val = p"
proof (induction p arbitrary: val)
  case (Cons c p)
  then have c: "c \<noteq> CHR ''%''" "c \<noteq> CHR ''_''" and IH: "sql_like_matches rest p \<longleftrightarrow> rest = p" for rest by auto
  show ?case unfolding like_char [OF c(1)] IH using c(2) by blast
qed simp

end
