(* ===== verification/Rust_Float.thy ===== *)
theory Rust_Float
  imports Nova_Types
begin

text \<open>
  The double-precision numbers of Rust. An \<^verbatim>\<open>f64\<close> is its 64-bit pattern; \<open>f64_val\<close> reads it as
  an exact number (finite values as integer multiples of the smallest positive double), the
  comparisons follow IEEE 754 on these numbers, and \<open>f64_of_int\<close> is the cast \<^verbatim>\<open>as f64\<close> of an
  integer, which rounds to nearest with ties to even.

  The lemmas show that the cast is exact up to 2 to the power 53 and monotone everywhere, and
  that it is not injective above that bound.
\<close>

type_synonym f64 = "64 word"
type_synonym i64 = "64 word"

datatype fval = FNaN | FNegInf | FFin int | FPosInf

definition f64_exp :: "nat \<Rightarrow> nat" where
  "f64_exp w = w div 2 ^ 52 mod 2048"

definition f64_mant :: "nat \<Rightarrow> nat" where
  "f64_mant w = w mod 2 ^ 52"

text \<open>The magnitude of a finite pattern, in units of 2 to the power -1074.\<close>

definition f64_mag :: "nat \<Rightarrow> nat" where
  "f64_mag w = (if f64_exp w = 0 then f64_mant w else (2 ^ 52 + f64_mant w) * 2 ^ (f64_exp w - 1))"

definition f64_val :: "f64 \<Rightarrow> fval" where
  "f64_val x =
     (let w = unat x; neg = w \<ge> 2 ^ 63 in
      if f64_exp w = 2047
      then (if f64_mant w \<noteq> 0 then FNaN else if neg then FNegInf else FPosInf)
      else FFin (if neg then - int (f64_mag w) else int (f64_mag w)))"

fun fval_lt :: "fval \<Rightarrow> fval \<Rightarrow> bool" where
  "fval_lt FNaN _ = False"
| "fval_lt _ FNaN = False"
| "fval_lt FNegInf y = (y \<noteq> FNegInf)"
| "fval_lt (FFin a) (FFin b) = (a < b)"
| "fval_lt (FFin a) FPosInf = True"
| "fval_lt (FFin a) FNegInf = False"
| "fval_lt FPosInf _ = False"

definition fval_le :: "fval \<Rightarrow> fval \<Rightarrow> bool" where
  "fval_le x y \<longleftrightarrow> x \<noteq> FNaN \<and> y \<noteq> FNaN \<and> (fval_lt x y \<or> x = y)"

definition f64_lt :: "f64 \<Rightarrow> f64 \<Rightarrow> bool" where
  "f64_lt x y = fval_lt (f64_val x) (f64_val y)"

definition f64_le :: "f64 \<Rightarrow> f64 \<Rightarrow> bool" where
  "f64_le x y = fval_le (f64_val x) (f64_val y)"

definition f64_eq :: "f64 \<Rightarrow> f64 \<Rightarrow> bool" where
  "f64_eq x y \<longleftrightarrow> f64_le x y \<and> f64_le y x"

fun nlog :: "nat \<Rightarrow> nat" where
  "nlog a = (if a \<le> 1 then 0 else Suc (nlog (a div 2)))"

declare nlog.simps [simp del]

text \<open>Rounding a natural number to 53 significant bits, as the bits of a positive double.\<close>

definition round_shift :: "nat \<Rightarrow> nat \<Rightarrow> nat" where
  "round_shift a k =
     (let q = a div 2 ^ k; r = a mod 2 ^ k in
      q + (if 2 * r > 2 ^ k \<or> (2 * r = 2 ^ k \<and> odd q) then 1 else 0))"

definition f64_of_nat :: "nat \<Rightarrow> nat" where
  "f64_of_nat a =
     (if a = 0 then 0
      else let l = nlog a in
        (l + 1022) * 2 ^ 52 + (if l \<le> 52 then a * 2 ^ (52 - l) else round_shift a (l - 52)))"

definition f64_of_int :: "int \<Rightarrow> f64" where
  "f64_of_int n = (if n < 0 then of_nat (2 ^ 63 + f64_of_nat (nat (- n))) else of_nat (f64_of_nat (nat n)))"

definition i64_as_f64 :: "i64 \<Rightarrow> f64" where
  "i64_as_f64 x = f64_of_int (sint x)"

subsection \<open>The cast is monotone\<close>

lemma round_shift_bounds: "a div 2 ^ k \<le> round_shift a k" "round_shift a k \<le> a div 2 ^ k + 1"
  by (simp_all add: round_shift_def Let_def)

lemma round_shift_mono: "a \<le> b \<Longrightarrow> round_shift a k \<le> round_shift b k"
proof -
  assume le: "a \<le> b"
  have "a div 2 ^ k \<le> b div 2 ^ k" using le by (rule div_le_mono)
  then consider "a div 2 ^ k < b div 2 ^ k" | "a div 2 ^ k = b div 2 ^ k" by linarith
  then show ?thesis
  proof cases
    case 1
    then show ?thesis using round_shift_bounds [of a k] round_shift_bounds [of b k] by linarith
  next
    case 2
    then have "a mod 2 ^ k \<le> b mod 2 ^ k"
      using le by (metis div_mult_mod_eq add_le_cancel_left)
    with 2 show ?thesis by (auto simp: round_shift_def Let_def)
  qed
qed

lemma log_bounds: "0 < a \<Longrightarrow> 2 ^ nlog a \<le> a \<and> a < 2 ^ (nlog a + 1)"
proof (induction a rule: nlog.induct)
  case (1 a)
  show ?case
  proof (cases "a \<le> 1")
    case False
    with 1 have "2 ^ nlog (a div 2) \<le> a div 2 \<and> a div 2 < 2 ^ (nlog (a div 2) + 1)" by simp
    with False show ?thesis by (subst (1 2) nlog.simps) auto
  qed (use 1 in \<open>simp add: nlog.simps\<close>)
qed

lemma nlog_mono: "a \<le> b \<Longrightarrow> nlog a \<le> nlog b"
proof (cases "a = 0")
  case False
  assume le: "a \<le> b"
  with False have "(2 :: nat) ^ nlog a < 2 ^ (nlog b + 1)" using log_bounds [of a] log_bounds [of b] by linarith
  then have "nlog a < nlog b + 1" by (rule power_less_imp_less_exp [rotated]) simp
  then show ?thesis by simp
qed (simp add: nlog.simps)

abbreviation mantissa :: "nat \<Rightarrow> nat" where
  "mantissa a \<equiv> (if nlog a \<le> 52 then a * 2 ^ (52 - nlog a) else round_shift a (nlog a - 52))"

lemma mantissa_range:
  assumes "0 < a"
  shows "2 ^ 52 \<le> mantissa a" "mantissa a \<le> 2 ^ 53"
proof -
  let ?l = "nlog a"
  note b = log_bounds [OF assms]
  show "2 ^ 52 \<le> mantissa a"
  proof (cases "?l \<le> 52")
    case True
    have "(2 :: nat) ^ 52 = 2 ^ (?l + (52 - ?l))" using True by simp
    also have "\<dots> = 2 ^ ?l * 2 ^ (52 - ?l)" by (rule power_add)
    also have "\<dots> \<le> a * 2 ^ (52 - ?l)" using b by (intro mult_right_mono) auto
    finally show ?thesis using True by (simp only: if_True)
  next
    case False
    have "(2 :: nat) ^ 52 * 2 ^ (?l - 52) = 2 ^ (52 + (?l - 52))" by (rule power_add [symmetric])
    also have "\<dots> = 2 ^ ?l" using False by simp
    finally have "(2 :: nat) ^ 52 * 2 ^ (?l - 52) \<le> a" using b by (simp only:)
    then have "(2 :: nat) ^ 52 \<le> a div 2 ^ (?l - 52)" by (simp only: less_eq_div_iff_mult_less_eq zero_less_power zero_less_numeral)
    then have "2 ^ 52 \<le> round_shift a (?l - 52)" using round_shift_bounds(1) by (rule order_trans)
    with False show ?thesis by (simp only: if_False)
  qed
  show "mantissa a \<le> 2 ^ 53"
  proof (cases "?l \<le> 52")
    case True
    have "a * 2 ^ (52 - ?l) \<le> 2 ^ (?l + 1) * 2 ^ (52 - ?l)" using b by (intro mult_right_mono) auto
    also have "\<dots> = 2 ^ (?l + 1 + (52 - ?l))" by (rule power_add [symmetric])
    also have "\<dots> = 2 ^ 53" using True by simp
    finally show ?thesis using True by (simp only: if_True)
  next
    case False
    have "(2 :: nat) ^ 53 * 2 ^ (?l - 52) = 2 ^ (53 + (?l - 52))" by (rule power_add [symmetric])
    also have "\<dots> = 2 ^ (?l + 1)" using False by simp
    finally have "a < (2 :: nat) ^ 53 * 2 ^ (?l - 52)" using b by (simp only:)
    then have "a div 2 ^ (?l - 52) < 2 ^ 53" by (simp only: div_less_iff_less_mult zero_less_power zero_less_numeral)
    then have "round_shift a (?l - 52) \<le> 2 ^ 53" using round_shift_bounds(2) [of a "?l - 52"] by linarith
    with False show ?thesis by (simp only: if_False)
  qed
qed

lemma f64_of_nat_pos: "0 < a \<Longrightarrow> f64_of_nat a = (nlog a + 1022) * 2 ^ 52 + mantissa a"
  by (simp add: f64_of_nat_def Let_def)

lemma f64_of_nat_mono: "a \<le> b \<Longrightarrow> f64_of_nat a \<le> f64_of_nat b"
proof -
  assume le: "a \<le> b"
  show ?thesis
  proof (cases "a = 0")
    case False
    with le have pos: "0 < a" "0 < b" by simp_all
    have "nlog a \<le> nlog b" using le by (rule nlog_mono)
    then consider "nlog a = nlog b" | "nlog a + 1 \<le> nlog b" by linarith
    then show ?thesis
    proof cases
      case 1
      then show ?thesis using le round_shift_mono [OF le] pos by (simp add: f64_of_nat_def Let_def)
    next
      case 2
      have "(nlog a + 1022) * 2 ^ 52 + mantissa a \<le> (nlog a + 1022) * 2 ^ 52 + 2 ^ 53"
        using mantissa_range(2) [OF pos(1)] by (intro add_left_mono)
      also have "\<dots> = (nlog a + 1 + 1022) * 2 ^ 52 + 2 ^ 52" by (simp add: algebra_simps)
      also have "\<dots> \<le> (nlog b + 1022) * 2 ^ 52 + mantissa b"
        using 2 mantissa_range(1) [OF pos(2)] by (intro add_mono mult_right_mono) auto
      finally show ?thesis by (simp only: f64_of_nat_pos pos)
    qed
  qed (simp add: f64_of_nat_def)
qed

lemma f64_of_nat_small:
  assumes "0 < a" "a < 2 ^ 53"
  shows "f64_of_nat a = (nlog a + 1022) * 2 ^ 52 + a * 2 ^ (52 - nlog a)"
proof -
  have "(2 :: nat) ^ nlog a < 2 ^ 53" using log_bounds [OF assms(1)] assms(2) by linarith
  then have "nlog a < 53" by (rule power_less_imp_less_exp [rotated]) simp
  with assms(1) show ?thesis by (simp add: f64_of_nat_def Let_def)
qed

lemma f64_of_nat_bound:
  assumes "a < 2 ^ 64"
  shows "f64_of_nat a < 2047 * 2 ^ 52"
proof (cases "a = 0")
  case False
  then have "0 < a" by simp
  have "(2 :: nat) ^ nlog a < 2 ^ 64" using log_bounds [OF \<open>0 < a\<close>] assms by linarith
  then have "nlog a < 64" by (rule power_less_imp_less_exp [rotated]) simp
  then have "nlog a + 1022 \<le> 1085" by simp
  then have "(nlog a + 1022) * 2 ^ 52 \<le> 1085 * 2 ^ 52" by (intro mult_right_mono) simp_all
  with mantissa_range(2) [OF \<open>0 < a\<close>] False show ?thesis by (auto simp: f64_of_nat_def Let_def)
qed (simp add: f64_of_nat_def)

text \<open>The magnitude grows with the pattern.\<close>

lemma f64_mag_Suc:
  assumes "w < 2047 * 2 ^ 52"
  shows "f64_mag w < f64_mag (Suc w)"
proof -
  define e m where "e = w div 2 ^ 52" and "m = w mod 2 ^ 52"
  have m: "m < 2 ^ 52" and w: "w = e * 2 ^ 52 + m" by (simp_all add: e_def m_def)
  have e: "e < 2047" using assms by (simp add: e_def div_less_iff_less_mult)
  have lo: "f64_mag (f * 2 ^ 52 + n) = (if f = 0 then n else (2 ^ 52 + n) * 2 ^ (f - 1))" if "n < 2 ^ 52" "f < 2048" for f n
    using that by (simp add: f64_mag_def f64_exp_def f64_mant_def)
  have mw: "f64_mag w = (if e = 0 then m else (2 ^ 52 + m) * 2 ^ (e - 1))"
    unfolding w using lo [OF m, of e] e by linarith
  show ?thesis
  proof (cases "Suc m < 2 ^ 52")
    case True
    have "f64_mag (Suc w) = f64_mag (e * 2 ^ 52 + Suc m)" unfolding w by simp
    with lo [OF True, of e] e have "f64_mag (Suc w) = (if e = 0 then Suc m else (2 ^ 52 + Suc m) * 2 ^ (e - 1))" by linarith
    with mw show ?thesis by simp
  next
    case False
    with m have m': "m = 2 ^ 52 - 1" by linarith
    then have "Suc w = (e + 1) * 2 ^ 52 + 0" using w by (simp add: algebra_simps)
    then have s: "f64_mag (Suc w) = (2 ^ 52) * 2 ^ e" using lo [of 0 "e + 1"] e by (simp only:) simp
    show ?thesis
    proof (cases "e = 0")
      case True
      then show ?thesis using mw s m by simp
    next
      case False
      have "(2 ^ 52 + m) * 2 ^ (e - 1) < 2 ^ 53 * 2 ^ (e - 1)" using m by simp
      also have "(2 :: nat) ^ 53 * 2 ^ (e - 1) = 2 ^ 52 * 2 ^ e" using False by (cases e) simp_all
      finally show ?thesis using mw s False by simp
    qed
  qed
qed

lemma f64_mag_mono:
  assumes "v \<le> w" "w \<le> 2047 * 2 ^ 52"
  shows "f64_mag v \<le> f64_mag w"
  using assms
proof (induction w rule: dec_induct)
  case (step n)
  then show ?case using f64_mag_Suc [of n] by simp
qed simp

lemma f64_mag_strict:
  assumes "v < w" "w \<le> 2047 * 2 ^ 52"
  shows "f64_mag v < f64_mag w"
  using f64_mag_Suc [of v] f64_mag_mono [of "Suc v" w] assms by linarith

text \<open>The value of a cast integer.\<close>

lemma f64_exp_small: "w < 2047 * 2 ^ 52 \<Longrightarrow> f64_exp w < 2047"
  by (simp add: f64_exp_def less_mult_imp_div_less)

lemma f64_val_pos: "unat x = w \<Longrightarrow> w < 2047 * 2 ^ 52 \<Longrightarrow> f64_val x = FFin (int (f64_mag w))"
  using f64_exp_small [of w] by (simp add: f64_val_def Let_def)

lemma f64_sign_bit:
  "f64_exp (2 ^ 63 + w) = f64_exp w" "f64_mant (2 ^ 63 + w) = f64_mant w" "f64_mag (2 ^ 63 + w) = f64_mag w"
proof -
  have "(2 :: nat) ^ 63 + w = w + 2048 * 2 ^ 52" by simp
  then have "(2 ^ 63 + w) div 2 ^ 52 = w div 2 ^ 52 + 2048" "(2 ^ 63 + w) mod 2 ^ 52 = w mod 2 ^ 52"
    by (simp_all only: div_mult_self1 mod_mult_self1) simp_all
  then show "f64_exp (2 ^ 63 + w) = f64_exp w" "f64_mant (2 ^ 63 + w) = f64_mant w"
    by (simp_all only: f64_exp_def f64_mant_def) simp
  then show "f64_mag (2 ^ 63 + w) = f64_mag w" by (simp only: f64_mag_def)
qed

lemma f64_val_neg:
  assumes "unat x = 2 ^ 63 + w" "w < 2047 * 2 ^ 52"
  shows "f64_val x = FFin (- int (f64_mag w))"
proof -
  have "f64_exp (unat x) \<noteq> 2047" using f64_exp_small [OF assms(2)] unfolding assms(1) f64_sign_bit by simp
  moreover have "2 ^ 63 \<le> unat x" unfolding assms(1) by simp
  moreover have "f64_mag (unat x) = f64_mag w" unfolding assms(1) f64_sign_bit ..
  ultimately show ?thesis by (simp only: f64_val_def Let_def if_True if_False)
qed

lemma f64_val_of_int:
  assumes "\<bar>n\<bar> < 2 ^ 64"
  shows "f64_val (f64_of_int n) =
     FFin (if n < 0 then - int (f64_mag (f64_of_nat (nat (- n)))) else int (f64_mag (f64_of_nat (nat n))))"
proof -
  have un: "unat (of_nat k :: f64) = k" if "k < 2 ^ 64" for k
    using that by (simp add: unsigned_of_nat take_bit_nat_eq_self)
  have bound: "f64_of_nat (nat \<bar>n\<bar>) < 2047 * 2 ^ 52" using assms by (intro f64_of_nat_bound) (simp add: nat_less_iff)
  show ?thesis
  proof (cases "n < 0")
    case True
    with bound have b: "f64_of_nat (nat (- n)) < 2047 * 2 ^ 52" by simp
    then have "unat (f64_of_int n) = 2 ^ 63 + f64_of_nat (nat (- n))"
      unfolding f64_of_int_def using True by (simp only: if_True) (rule un, simp)
    from f64_val_neg [OF this b] True show ?thesis by simp
  next
    case False
    with bound have b: "f64_of_nat (nat n) < 2047 * 2 ^ 52" by simp
    then have "unat (f64_of_int n) = f64_of_nat (nat n)"
      unfolding f64_of_int_def using False by (simp only: if_False) (rule un, simp)
    from f64_val_pos [OF this b] False show ?thesis by simp
  qed
qed

lemma f64_of_int_mono:
  assumes "\<bar>a\<bar> < 2 ^ 64" "\<bar>b\<bar> < 2 ^ 64" "a \<le> b"
  shows "f64_le (f64_of_int a) (f64_of_int b)"
proof -
  have mono: "int (f64_mag (f64_of_nat (nat x))) \<le> int (f64_mag (f64_of_nat (nat y)))"
    if "x \<le> y" "\<bar>y\<bar> < 2 ^ 64" for x y
  proof -
    have "f64_of_nat (nat x) \<le> f64_of_nat (nat y)" using that by (intro f64_of_nat_mono) simp
    moreover have "f64_of_nat (nat y) \<le> 2047 * 2 ^ 52"
      using that by (intro less_imp_le f64_of_nat_bound) (simp add: nat_less_iff)
    ultimately show ?thesis using f64_mag_mono by simp
  qed
  consider "a < 0" "b < 0" | "a < 0" "0 \<le> b" | "0 \<le> a" "0 \<le> b" using assms(3) by linarith
  then show ?thesis
  proof cases
    case 1
    then show ?thesis using mono [of "- b" "- a"] assms
      by (auto simp: f64_le_def fval_le_def f64_val_of_int)
  next
    case 2
    then show ?thesis using assms by (auto simp: f64_le_def fval_le_def f64_val_of_int)
  next
    case 3
    then show ?thesis using mono [of a b] assms by (auto simp: f64_le_def fval_le_def f64_val_of_int)
  qed
qed

text \<open>Below 2 to the power 53 distinct integers stay distinct, so strict order is kept as well.\<close>

lemma mantissa_exact:
  assumes "0 < a" "a < 2 ^ 53"
  shows "nlog a \<le> 52" "mantissa a < 2 ^ 53"
proof -
  have "(2 :: nat) ^ nlog a < 2 ^ 53" using log_bounds [OF assms(1)] assms(2) by linarith
  then have "nlog a < 53" by (rule power_less_imp_less_exp [rotated]) simp
  then show l: "nlog a \<le> 52" by simp
  have "a * 2 ^ (52 - nlog a) < 2 ^ (nlog a + 1) * 2 ^ (52 - nlog a)"
    using log_bounds [OF assms(1)] by (intro mult_strict_right_mono) auto
  also have "\<dots> = 2 ^ (nlog a + 1 + (52 - nlog a))" by (rule power_add [symmetric])
  also have "\<dots> = 2 ^ 53" using l by simp
  finally show "mantissa a < 2 ^ 53" using l by (simp only: if_True)
qed

lemma f64_of_nat_strict:
  assumes "a < b" "b \<le> 2 ^ 53"
  shows "f64_of_nat a < f64_of_nat b"
proof (cases "a = 0")
  case True
  then show ?thesis using assms(1) by (simp add: f64_of_nat_def Let_def)
next
  case False
  with assms have pos: "0 < a" "0 < b" and a53: "a < 2 ^ 53" by simp_all
  note ex = mantissa_exact [OF pos(1) a53]
  have "nlog a \<le> nlog b" using assms(1) by (intro nlog_mono) simp
  then consider "nlog a = nlog b" | "nlog a + 1 \<le> nlog b" by linarith
  then show ?thesis
  proof cases
    case 1
    have "a * 2 ^ (52 - nlog b) < b * 2 ^ (52 - nlog b)" using assms(1) by simp
    with ex(1) 1 pos show ?thesis by (simp add: f64_of_nat_def Let_def)
  next
    case 2
    have "(nlog a + 1022) * 2 ^ 52 + mantissa a < (nlog a + 1022) * 2 ^ 52 + 2 ^ 53"
      using ex(2) by (intro add_strict_left_mono)
    also have "\<dots> = (nlog a + 1 + 1022) * 2 ^ 52 + 2 ^ 52" by (simp add: algebra_simps)
    also have "\<dots> \<le> (nlog b + 1022) * 2 ^ 52 + mantissa b"
      using 2 mantissa_range(1) [OF pos(2)] by (intro add_mono mult_right_mono) auto
    finally show ?thesis by (simp only: f64_of_nat_pos pos)
  qed
qed

lemma f64_of_int_strict:
  assumes "\<bar>a\<bar> \<le> 2 ^ 53" "\<bar>b\<bar> \<le> 2 ^ 53" "a < b"
  shows "f64_lt (f64_of_int a) (f64_of_int b)"
proof -
  have mono: "int (f64_mag (f64_of_nat (nat x))) < int (f64_mag (f64_of_nat (nat y)))"
    if "x < y" "0 \<le> x" "y \<le> 2 ^ 53" for x y :: int
  proof -
    have "f64_of_nat (nat x) < f64_of_nat (nat y)" using that by (intro f64_of_nat_strict) simp_all
    moreover have "f64_of_nat (nat y) \<le> 2047 * 2 ^ 52"
      using that by (intro less_imp_le f64_of_nat_bound) (simp add: nat_less_iff)
    ultimately show ?thesis using f64_mag_strict by simp
  qed
  have small: "\<bar>a\<bar> < 2 ^ 64" "\<bar>b\<bar> < 2 ^ 64" using assms by simp_all
  consider "a < 0" "b < 0" | "a < 0" "0 \<le> b" | "0 \<le> a" "0 \<le> b" using assms(3) by linarith
  then show ?thesis
  proof cases
    case 1
    then show ?thesis using mono [of "- b" "- a"] assms small by (simp add: f64_lt_def f64_val_of_int)
  next
    case 2
    then have "0 < int (f64_mag (f64_of_nat (nat (- a))))"
      using mono [of 0 "- a"] assms(1) by (simp add: f64_of_nat_def [of 0] f64_mag_def [of 0] f64_exp_def f64_mant_def)
    with 2 show ?thesis using small by (simp add: f64_lt_def f64_val_of_int)
  next
    case 3
    then show ?thesis using mono [of a b] assms small by (simp add: f64_lt_def f64_val_of_int)
  qed
qed

text \<open>Above the bound the cast identifies neighbours.\<close>

lemma f64_of_int_collision: "f64_of_int (2 ^ 53 + 1) = f64_of_int (2 ^ 53)"
  by (simp add: f64_of_int_def f64_of_nat_def round_shift_def nlog.simps)

lemma f64_order_simps:
  "fval_le (FFin a) (FFin b) \<longleftrightarrow> a \<le> b"
  "fval_lt (FFin a) (FFin b) \<longleftrightarrow> a < b"
  by (auto simp: fval_le_def)

lemma f64_le_trans: "f64_le x y \<Longrightarrow> f64_le y z \<Longrightarrow> f64_le x z"
  unfolding f64_le_def fval_le_def
  by (cases "f64_val x"; cases "f64_val y"; cases "f64_val z") auto

lemma f64_lt_le_trans: "f64_lt x y \<Longrightarrow> f64_le y z \<Longrightarrow> f64_lt x z" "f64_le x y \<Longrightarrow> f64_lt y z \<Longrightarrow> f64_lt x z"
  unfolding f64_le_def f64_lt_def fval_le_def
  by (cases "f64_val x"; cases "f64_val y"; cases "f64_val z"; auto)+

lemma sint_i64: "\<bar>sint (x :: i64)\<bar> < 2 ^ 64"
  using sint_lt [of x] sint_ge [of x] by (simp add: abs_less_iff)

lemma i64_as_f64_mono: "sint x \<le> sint y \<Longrightarrow> f64_le (i64_as_f64 x) (i64_as_f64 y)"
  unfolding i64_as_f64_def using sint_i64 by (intro f64_of_int_mono)

lemma i64_as_f64_strict:
  "\<lbrakk>\<bar>sint x\<bar> \<le> 2 ^ 53; \<bar>sint y\<bar> \<le> 2 ^ 53; sint x < sint y\<rbrakk> \<Longrightarrow> f64_lt (i64_as_f64 x) (i64_as_f64 y)"
  unfolding i64_as_f64_def by (rule f64_of_int_strict)

lemma i64_as_f64_above:
  assumes "\<bar>sint x\<bar> < 2 ^ 53" "sint x < sint y"
  shows "f64_lt (i64_as_f64 x) (i64_as_f64 y)"
proof (cases "sint y \<le> 2 ^ 53")
  case True
  with assms show ?thesis by (intro i64_as_f64_strict) auto
next
  case False
  have "f64_lt (f64_of_int (sint x)) (f64_of_int (2 ^ 53))" using assms by (intro f64_of_int_strict) auto
  moreover have "f64_le (f64_of_int (2 ^ 53)) (f64_of_int (sint y))"
    using False sint_i64 [of y] by (intro f64_of_int_mono) auto
  ultimately show ?thesis unfolding i64_as_f64_def by (rule f64_lt_le_trans)
qed

lemma fval_lt_not_le: "fval_lt x y \<Longrightarrow> \<not> fval_le y x"
  by (cases x; cases y) (auto simp: fval_le_def)

end
