(* ===== verification/Mysql_Codec.thy ===== *)
theory Mysql_Codec
  imports Nova_Types
begin

text \<open>
  The wire codec of the MySQL front end, \<^verbatim>\<open>crates/nova-coordinator/src/mysql_protocol/codec.rs\<close>:
  packet framing over a TCP stream with sequence numbers, payloads split over several packets,
  and length-encoded integers and strings.

  The stream is the bytes the peer still sends before it closes the connection, the bytes
  written so far, and the error a write reports once the connection is broken. Rust's
  \<open>usize\<close> is 64 bits wide. Arithmetic wraps, as in a release build, and a slice whose ends are
  out of order is the outcome \<open>Panic\<close>, apart from the errors a function returns.

  The lemmas show that what is written is read back: integers, strings, packets, and payloads
  of any non-zero length; and they characterise the one input on which the decoder panics.
\<close>

subsection \<open>Bytes of strings\<close>

definition as_bytes :: "string \<Rightarrow> byte list" where
  "as_bytes s = map of_char s"

definition of_bytes :: "byte list \<Rightarrow> string" where
  "of_bytes bs = map (\<lambda>b. char_of (unat b)) bs"

lemma length_as_bytes [simp]: "length (as_bytes s) = length s"
  by (simp add: as_bytes_def)

lemma byte_of_char: "of_char (char_of (unat b)) = (b :: byte)"
  using unat_byte_bound [of b] by (simp add: word_unat_eq_iff unat_of_char)

lemma of_bytes_as_bytes [simp]: "of_bytes (as_bytes s) = s"
  by (simp add: of_bytes_def as_bytes_def comp_def unat_of_char)

lemma as_bytes_of_bytes [simp]: "as_bytes (of_bytes bs) = bs"
  by (simp only: of_bytes_def as_bytes_def list.map_comp comp_def byte_of_char list.map_ident)

text \<open>
  \<open>String::from_utf8_lossy\<close>: well-formed UTF-8 is kept, each maximal ill-formed piece becomes
  the replacement character. The byte ranges are those of the Unicode standard.
\<close>

definition utf8_cont :: "byte \<Rightarrow> bool" where
  "utf8_cont b \<longleftrightarrow> 0x80 \<le> b \<and> b \<le> 0xBF"

definition utf8_three :: "byte \<Rightarrow> byte \<Rightarrow> bool" where
  "utf8_three a b \<longleftrightarrow> a = 0xE0 \<and> 0xA0 \<le> b \<and> b \<le> 0xBF \<or> 0xE1 \<le> a \<and> a \<le> 0xEC \<and> utf8_cont b \<or>
     a = 0xED \<and> 0x80 \<le> b \<and> b \<le> 0x9F \<or> 0xEE \<le> a \<and> a \<le> 0xEF \<and> utf8_cont b"

definition utf8_four :: "byte \<Rightarrow> byte \<Rightarrow> bool" where
  "utf8_four a b \<longleftrightarrow> a = 0xF0 \<and> 0x90 \<le> b \<and> b \<le> 0xBF \<or> 0xF1 \<le> a \<and> a \<le> 0xF3 \<and> utf8_cont b \<or>
     a = 0xF4 \<and> 0x80 \<le> b \<and> b \<le> 0x8F"

definition utf8_replacement :: "byte list" where
  "utf8_replacement = [0xEF, 0xBF, 0xBD]"

fun utf8_lossy :: "byte list \<Rightarrow> byte list" where
  "utf8_lossy [] = []"
| "utf8_lossy (a # bs) =
     (if a < 0x80 then a # utf8_lossy bs
      else if 0xC2 \<le> a \<and> a \<le> 0xDF then
        (case bs of
           b # cs \<Rightarrow> if utf8_cont b then a # b # utf8_lossy cs else utf8_replacement @ utf8_lossy bs
         | [] \<Rightarrow> utf8_replacement)
      else if 0xE0 \<le> a \<and> a \<le> 0xEF then
        (case bs of
           b # cs \<Rightarrow>
             if utf8_three a b then
               (case cs of
                  c # ds \<Rightarrow> if utf8_cont c then a # b # c # utf8_lossy ds else utf8_replacement @ utf8_lossy cs
                | [] \<Rightarrow> utf8_replacement)
             else utf8_replacement @ utf8_lossy bs
         | [] \<Rightarrow> utf8_replacement)
      else if 0xF0 \<le> a \<and> a \<le> 0xF4 then
        (case bs of
           b # cs \<Rightarrow>
             if utf8_four a b then
               (case cs of
                  c # ds \<Rightarrow>
                    if utf8_cont c then
                      (case ds of
                         d # es \<Rightarrow> if utf8_cont d then a # b # c # d # utf8_lossy es
                                   else utf8_replacement @ utf8_lossy ds
                       | [] \<Rightarrow> utf8_replacement)
                    else utf8_replacement @ utf8_lossy cs
                | [] \<Rightarrow> utf8_replacement)
             else utf8_replacement @ utf8_lossy bs
         | [] \<Rightarrow> utf8_replacement)
      else utf8_replacement @ utf8_lossy bs)"

definition from_utf8_lossy :: "byte list \<Rightarrow> string" where
  "from_utf8_lossy bs = of_bytes (utf8_lossy bs)"

text \<open>The byte sequences a Rust string can hold.\<close>

inductive utf8 :: "byte list \<Rightarrow> bool" where
  utf8_nil: "utf8 []"
| utf8_1: "utf8 bs \<Longrightarrow> a < 0x80 \<Longrightarrow> utf8 (a # bs)"
| utf8_2: "utf8 bs \<Longrightarrow> 0xC2 \<le> a \<Longrightarrow> a \<le> 0xDF \<Longrightarrow> utf8_cont b \<Longrightarrow> utf8 (a # b # bs)"
| utf8_3: "utf8 bs \<Longrightarrow> utf8_three a b \<Longrightarrow> utf8_cont c \<Longrightarrow> utf8 (a # b # c # bs)"
| utf8_4: "utf8 bs \<Longrightarrow> utf8_four a b \<Longrightarrow> utf8_cont c \<Longrightarrow> utf8_cont d \<Longrightarrow> utf8 (a # b # c # d # bs)"

lemma utf8_three_first: "utf8_three a b \<Longrightarrow> 0xE0 \<le> a \<and> a \<le> 0xEF"
  by (auto simp: utf8_three_def word_le_nat_alt)

lemma utf8_four_first: "utf8_four a b \<Longrightarrow> 0xF0 \<le> a \<and> a \<le> 0xF4"
  by (auto simp: utf8_four_def word_le_nat_alt)

lemma utf8_lossy_id: "utf8 bs \<Longrightarrow> utf8_lossy bs = bs"
proof (induction rule: utf8.induct)
  case (utf8_2 bs a b)
  then show ?case by (simp add: word_le_nat_alt word_less_nat_alt)
next
  case (utf8_3 bs a b c)
  then show ?case using utf8_three_first [of a b] by (simp add: word_le_nat_alt word_less_nat_alt)
next
  case (utf8_4 bs a b c d)
  then show ?case using utf8_four_first [of a b] by (simp add: word_le_nat_alt word_less_nat_alt)
qed simp_all

lemma utf8_ascii: "list_all (\<lambda>b. b < 0x80) bs \<Longrightarrow> utf8 bs"
  by (induction bs) (auto intro: utf8.intros)

definition rust_string :: "string \<Rightarrow> bool" where
  "rust_string s \<longleftrightarrow> utf8 (as_bytes s) \<and> length s < 2 ^ 63"

lemma from_utf8_lossy_id [simp]: "rust_string s \<Longrightarrow> from_utf8_lossy (as_bytes s) = s"
  by (simp add: rust_string_def from_utf8_lossy_def utf8_lossy_id)

subsection \<open>Length-encoded integers and strings\<close>

text \<open>The outcome of a function that may stop the task: an error it returns, or a panic.\<close>

datatype fault = Fail NovaError | Panic

definition hex_digit :: "nat \<Rightarrow> char" where
  "hex_digit n = char_of (if n < 10 then 48 + n else 87 + n)"

definition show_hex2 :: "byte \<Rightarrow> string" where
  "show_hex2 b = [hex_digit (unat b div 16), hex_digit (unat b mod 16)]"

definition encode_lenenc_int :: "byte list \<Rightarrow> u64 \<Rightarrow> byte list" where
  "encode_lenenc_int buf val =
     (if val < 251 then buf @ [ucast val]
      else if val < 65536 then buf @ [0xfc] @ u16_to_le (ucast val)
      else if val < 16777216 then buf @ [0xfd] @ take 3 (u32_to_le (ucast val))
      else buf @ [0xfe] @ u64_to_le val)"

definition decode_lenenc_int :: "byte list \<Rightarrow> (NovaError, u64 \<times> nat) result" where
  "decode_lenenc_int buf =
     (if buf = [] then Err (Internal ''empty buffer for lenenc_int'')
      else if buf ! 0 \<le> 250 then Ok (ucast (buf ! 0), 1)
      else if buf ! 0 = 0xfc then
        (if length buf < 3 then Err (Internal ''lenenc_int 0xfc needs 3 bytes'')
         else Ok (ucast (u16_from_le [buf ! 1, buf ! 2]), 3))
      else if buf ! 0 = 0xfd then
        (if length buf < 4 then Err (Internal ''lenenc_int 0xfd needs 4 bytes'')
         else Ok (ucast ((ucast (buf ! 1) :: u32) OR push_bit 8 (ucast (buf ! 2)) OR
                   push_bit 16 (ucast (buf ! 3))), 4))
      else if buf ! 0 = 0xfe then
        (if length buf < 9 then Err (Internal ''lenenc_int 0xfe needs 9 bytes'')
         else Ok (u64_from_le [buf ! 1, buf ! 2, buf ! 3, buf ! 4, buf ! 5, buf ! 6, buf ! 7, buf ! 8], 9))
      else Err (Internal (''invalid lenenc_int prefix: 0x'' @ show_hex2 (buf ! 0))))"

definition encode_lenenc_string :: "byte list \<Rightarrow> string \<Rightarrow> byte list" where
  "encode_lenenc_string buf s =
     (let bytes = as_bytes s in encode_lenenc_int buf (word_of_nat (length bytes)) @ bytes)"

definition decode_lenenc_string :: "byte list \<Rightarrow> (fault, string \<times> nat) result" where
  "decode_lenenc_string buf =
     and_then (map_err Fail (decode_lenenc_int buf)) (\<lambda>(len, len_size).
     (let total = unat (word_of_nat len_size + len) in
      if length buf < total
      then Err (Fail (Internal (''lenenc_string needs '' @ show_nat total @ '' bytes, got '' @ show_nat (length buf))))
      else if total < len_size then Err Panic
      else Ok (from_utf8_lossy (drop len_size (take total buf)), total)))"

definition encode_null_terminated_string :: "byte list \<Rightarrow> string \<Rightarrow> byte list" where
  "encode_null_terminated_string buf s = buf @ as_bytes s @ [0]"

fun position0 :: "byte list \<Rightarrow> nat option" where
  "position0 [] = None"
| "position0 (b # bs) = (if b = 0 then Some 0 else map_option Suc (position0 bs))"

definition decode_null_terminated_string :: "byte list \<Rightarrow> (NovaError, string \<times> nat) result" where
  "decode_null_terminated_string buf =
     and_then (ok_or (Internal ''null terminator not found'') (position0 buf)) (\<lambda>null_pos.
     Ok (from_utf8_lossy (take null_pos buf), null_pos + 1))"

lemma or_bytes_le_val:
  "unat ((ucast (a :: byte) :: u32) OR push_bit 8 (ucast (b :: byte)) OR push_bit 16 (ucast (c :: byte))) =
     le_val [a, b, c]"
proof -
  let ?a = "ucast a :: u32" and ?b = "push_bit 8 (ucast b) :: u32" and ?c = "push_bit 16 (ucast c) :: u32"
  have bc: "?b OR ?c = ?b + ?c"
    by (rule disjunctive_add_eq_or [symmetric], rule bit_eqI) (auto simp: bit_simps dest: bit_imp_le_length)
  have abc: "?a OR (?b + ?c) = ?a + (?b + ?c)"
    unfolding bc [symmetric] by (rule disjunctive_add_eq_or [symmetric], rule bit_eqI) (auto simp: bit_simps dest: bit_imp_le_length)
  have u: "unat ?a = unat a" "unat ?b = 256 * unat b" "unat ?c = 65536 * unat c"
    using unat_byte_bound [of a] unat_byte_bound [of b] unat_byte_bound [of c]
    by (simp_all add: unsigned_ucast_eq take_bit_eq_mod push_bit_eq_mult unat_word_ariths)
  show ?thesis
    unfolding or.assoc bc abc using unat_byte_bound [of a] unat_byte_bound [of b] unat_byte_bound [of c]
    by (simp add: unat_word_ariths u)
qed

subsection \<open>Round trips\<close>

text \<open>
  What a reader relies on: an encoded item at the head of a buffer is decoded to the item and
  its length, whatever follows. Then items can be concatenated and read back one by one.
\<close>

fun decode_items :: "(byte list \<Rightarrow> ('e, 'a \<times> nat) result) \<Rightarrow> nat \<Rightarrow> byte list \<Rightarrow> ('e, 'a list \<times> byte list) result" where
  "decode_items dec 0 buf = Ok ([], buf)"
| "decode_items dec (Suc n) buf =
     and_then (dec buf) (\<lambda>(x, k).
     and_then (decode_items dec n (drop k buf)) (\<lambda>(xs, rest). Ok (x # xs, rest)))"

locale byte_codec =
  fixes enc :: "'a \<Rightarrow> byte list"
    and dec :: "byte list \<Rightarrow> ('e, 'a \<times> nat) result"
    and valid :: "'a \<Rightarrow> bool"
  assumes dec_enc: "valid x \<Longrightarrow> dec (enc x @ rest) = Ok (x, length (enc x))"
begin

lemma enc_split:
  assumes "valid x" "valid y" "enc x @ us = enc y @ vs"
  shows "x = y \<and> us = vs"
  using dec_enc [OF assms(1), of us] dec_enc [OF assms(2), of vs] assms(3) by simp

lemma decode_concat:
  "list_all valid xs \<Longrightarrow> decode_items dec (length xs) (concat (map enc xs) @ rest) = Ok (xs, rest)"
  by (induction xs) (simp_all add: dec_enc)

end

lemma encode_lenenc_int_append: "encode_lenenc_int buf v = buf @ encode_lenenc_int [] v"
  by (simp add: encode_lenenc_int_def)

lemma take_le_bytes: "m \<le> n \<Longrightarrow> take m (le_bytes n v) = le_bytes m v"
proof (induction n arbitrary: m v)
  case (Suc n)
  then show ?case by (cases m) simp_all
qed simp

lemma u24_bytes: "take 3 (u32_to_le w) = le_bytes 3 (unat w)"
  by (simp add: u32_to_le_def take_le_bytes)

lemma list_of_nth:
  "length xs = 2 \<Longrightarrow> [xs ! 0, xs ! 1] = xs" "length xs = 3 \<Longrightarrow> [xs ! 0, xs ! 1, xs ! 2] = xs"
  "length xs = 8 \<Longrightarrow> [xs ! 0, xs ! 1, xs ! 2, xs ! 3, xs ! 4, xs ! 5, xs ! 6, xs ! 7] = xs"
  by (simp_all add: list_eq_iff_nth_eq numeral_eq_Suc All_less_Suc2 less_Suc_eq)

lemma ucast_back:
  "w < 251 \<Longrightarrow> (ucast (ucast (w :: u64) :: byte) :: u64) = w"
  "w < 65536 \<Longrightarrow> (ucast (ucast (w :: u64) :: u16) :: u64) = w"
  "w < 16777216 \<Longrightarrow> unat (ucast (w :: u64) :: u32) = unat w"
  by (simp_all add: word_unat_eq_iff unsigned_ucast_eq word_less_nat_alt take_bit_eq_mod unat_mod)

lemma decode_lenenc_int_enc:
  "decode_lenenc_int (encode_lenenc_int [] v @ rest) = Ok (v, length (encode_lenenc_int [] v))"
proof -
  consider "v < 251" | "\<not> v < 251" "v < 65536" | "\<not> v < 251" "\<not> v < 65536" "v < 16777216"
    | "\<not> v < 251" "\<not> v < 65536" "\<not> v < 16777216" by blast
  then show ?thesis
  proof cases
    case 1
    then have "(ucast v :: byte) \<le> 250"
      by (simp add: word_le_nat_alt word_less_nat_alt unsigned_ucast_eq take_bit_eq_mod)
    with 1 show ?thesis by (simp add: encode_lenenc_int_def decode_lenenc_int_def ucast_back)
  next
    case 2
    define bs where "bs = u16_to_le (ucast v)"
    have "length bs = 2" "u16_from_le bs = ucast v" by (simp_all add: bs_def)
    with 2 list_of_nth(1) [of bs] show ?thesis
      by (simp add: encode_lenenc_int_def decode_lenenc_int_def bs_def [symmetric] nth_append ucast_back)
  next
    case 3
    define bs where "bs = take 3 (u32_to_le (ucast v))"
    have len: "length bs = 3" by (simp add: bs_def)
    have "le_val bs = unat v" using 3
      by (simp add: bs_def u24_bytes le_val_le_bytes ucast_back word_less_nat_alt)
    with list_of_nth(2) [OF len] or_bytes_le_val [of "bs ! 0" "bs ! 1" "bs ! 2"]
    have "(ucast ((ucast (bs ! 0) :: u32) OR push_bit 8 (ucast (bs ! 1)) OR push_bit 16 (ucast (bs ! 2))) :: u64) = v"
      using unat_bounds(3) [of v] by (simp only: word_unat_eq_iff unsigned_ucast_eq) (simp add: take_bit_eq_mod)
    with 3 len show ?thesis
      by (simp add: encode_lenenc_int_def decode_lenenc_int_def bs_def [symmetric] nth_append)
  next
    case 4
    define bs where "bs = u64_to_le v"
    have "length bs = 8" "u64_from_le bs = v" by (simp_all add: bs_def)
    with 4 list_of_nth(3) [of bs] show ?thesis
      by (simp add: encode_lenenc_int_def decode_lenenc_int_def bs_def [symmetric] nth_append)
  qed
qed

interpretation li: byte_codec "encode_lenenc_int []" decode_lenenc_int "\<lambda>_. True"
  by unfold_locales (rule decode_lenenc_int_enc)

lemma length_lenenc_int: "length (encode_lenenc_int [] v) \<le> 9"
  by (simp add: encode_lenenc_int_def)

lemma encode_lenenc_string_append: "encode_lenenc_string buf s = buf @ encode_lenenc_string [] s"
  using encode_lenenc_int_append [of buf] by (simp add: encode_lenenc_string_def Let_def)

lemma decode_lenenc_string_enc:
  assumes "rust_string s"
  shows "decode_lenenc_string (encode_lenenc_string [] s @ rest) = Ok (s, length (encode_lenenc_string [] s))"
proof -
  define h where "h = encode_lenenc_int [] (word_of_nat (length s))"
  have len: "length s < 2 ^ 63" and h: "length h \<le> 9"
    using assms length_lenenc_int by (auto simp: rust_string_def h_def)
  have dec: "decode_lenenc_int (h @ as_bytes s @ rest) = Ok (word_of_nat (length s), length h)"
    unfolding h_def by (rule decode_lenenc_int_enc)
  have total: "unat (word_of_nat (length h) + word_of_nat (length s) :: u64) = length h + length s"
    using len h by (simp add: unat_word_ariths unat_of_nat)
  have slice: "drop (length h) (take (length h + length s) (h @ as_bytes s @ rest)) = as_bytes s"
    by simp
  show ?thesis
    using dec total slice assms
    by (simp add: encode_lenenc_string_def decode_lenenc_string_def Let_def h_def [symmetric])
qed

interpretation ls: byte_codec "encode_lenenc_string []" decode_lenenc_string rust_string
  by unfold_locales (rule decode_lenenc_string_enc)

lemma position0_first: "0 \<notin> set xs \<Longrightarrow> position0 (xs @ 0 # ys) = Some (length xs)"
  by (induction xs) auto

lemma position0_None: "position0 xs = None \<longleftrightarrow> 0 \<notin> set xs"
  by (induction xs) auto

lemma position0_bound: "position0 xs = Some n \<Longrightarrow> n < length xs"
  by (induction xs arbitrary: n) (auto split: if_splits)

lemma zero_in_as_bytes: "0 \<in> set (as_bytes s) \<longleftrightarrow> CHR 0x00 \<in> set s"
proof
  assume "0 \<in> set (as_bytes s)"
  then obtain c where "c \<in> set s" "(of_char c :: byte) = 0" unfolding as_bytes_def set_map by force
  then show "CHR 0x00 \<in> set s" by (simp only: of_char_eq_0)
next
  assume "CHR 0x00 \<in> set s"
  then have "(of_char (CHR 0x00) :: byte) \<in> set (as_bytes s)" unfolding as_bytes_def by (simp only: set_map imageI)
  then show "0 \<in> set (as_bytes s)" by simp
qed

definition c_string :: "string \<Rightarrow> bool" where
  "c_string s \<longleftrightarrow> rust_string s \<and> CHR 0x00 \<notin> set s"

lemma decode_null_terminated_enc:
  assumes "c_string s"
  shows "decode_null_terminated_string (encode_null_terminated_string [] s @ rest) =
     Ok (s, length (encode_null_terminated_string [] s))"
  using assms position0_first [of "as_bytes s" rest]
  by (simp add: c_string_def zero_in_as_bytes encode_null_terminated_string_def decode_null_terminated_string_def)

interpretation nt: byte_codec "encode_null_terminated_string []" decode_null_terminated_string c_string
  by unfold_locales (rule decode_null_terminated_enc)

text \<open>
  The decoder of strings panics on exactly one kind of input: a nine-byte length so close to
  \<open>2 ^ 64\<close> that the end of the string wraps around. Such a buffer can be sent by any client.
\<close>

lemma ucast_small:
  "(ucast (a :: byte) :: u64) < 4294967296" "(ucast (b :: u16) :: u64) < 4294967296"
  "(ucast (c :: u32) :: u64) < 4294967296"
  using unat_byte_bound [of a] unat_bounds(1) [of b] unat_bounds(2) [of c]
  by (simp_all add: word_less_nat_alt unsigned_ucast_eq take_bit_eq_mod)

lemma decode_lenenc_string_panics:
  "decode_lenenc_string buf = Err Panic \<longleftrightarrow>
     9 \<le> length buf \<and> buf ! 0 = 0xfe \<and>
     2 ^ 64 - 9 \<le> unat (u64_from_le [buf ! 1, buf ! 2, buf ! 3, buf ! 4, buf ! 5, buf ! 6, buf ! 7, buf ! 8])"
proof -
  have small: "\<not> unat (word_of_nat k + v :: u64) < k" if "unat v + k < 2 ^ 64" for v :: u64 and k
    using that by (simp add: unat_word_ariths unat_of_nat)
  have wrap: "unat (9 + v :: u64) < 9 \<longleftrightarrow> 2 ^ 64 - 9 \<le> unat v" for v :: u64
    using unat_bounds(3) [of v] by (auto simp: unat_word_ariths mod_if)
  show ?thesis
  proof (cases "9 \<le> length buf \<and> buf ! 0 = 0xfe")
    case True
    define v where "v = u64_from_le [buf ! 1, buf ! 2, buf ! 3, buf ! 4, buf ! 5, buf ! 6, buf ! 7, buf ! 8]"
    from True have "decode_lenenc_int buf = Ok (v, 9)" by (auto simp: decode_lenenc_int_def v_def)
    moreover from True wrap [of v] have "2 ^ 64 - 9 \<le> unat v \<Longrightarrow> unat (9 + v) \<le> length buf" by linarith
    ultimately show ?thesis using True wrap [of v] unfolding v_def [symmetric]
      by (auto simp: decode_lenenc_string_def Let_def)
  next
    case False
    have "unat v + k < 2 ^ 64" if "decode_lenenc_int buf = Ok (v, k)" for v k
    proof -
      have "v < 2 ^ 32" "k < 9" using that False
        by (auto simp: decode_lenenc_int_def ucast_small split: if_splits)
      then show ?thesis by (simp add: word_less_nat_alt)
    qed
    with False small show ?thesis
      by (auto simp: decode_lenenc_string_def Let_def and_then_def map_err_def split: sum.splits)
  qed
qed

subsection \<open>Packets\<close>

definition MAX_PACKET_SIZE :: u32 where "MAX_PACKET_SIZE = 0xFFFFFF"

record Packet =
  pk_seq :: u8
  pk_payload :: "byte list"

definition total_size :: "Packet \<Rightarrow> nat" where
  "total_size p = 4 + length (pk_payload p)"

record TcpStream =
  tcp_in :: "byte list"
  tcp_out :: "byte list"
  tcp_error :: "string option"

definition read_exact :: "nat \<Rightarrow> TcpStream \<Rightarrow> (string, byte list) result \<times> TcpStream" where
  "read_exact n t =
     (if n \<le> length (tcp_in t) then (Ok (take n (tcp_in t)), t\<lparr>tcp_in := drop n (tcp_in t)\<rparr>)
      else (Err ''early eof'', t\<lparr>tcp_in := []\<rparr>))"

definition write_all :: "byte list \<Rightarrow> TcpStream \<Rightarrow> (string, unit) result \<times> TcpStream" where
  "write_all bs t =
     (case tcp_error t of
        Some e \<Rightarrow> (Err e, t)
      | None \<Rightarrow> (Ok (), t\<lparr>tcp_out := tcp_out t @ bs\<rparr>))"

record PacketCodec =
  pc_stream :: TcpStream
  pc_seq :: u8

definition codec_new :: "TcpStream \<Rightarrow> PacketCodec" where
  "codec_new t = \<lparr>pc_stream = t, pc_seq = 0\<rparr>"

definition reset_seq :: "PacketCodec \<Rightarrow> PacketCodec" where
  "reset_seq c = c\<lparr>pc_seq := 0\<rparr>"

definition set_seq :: "u8 \<Rightarrow> PacketCodec \<Rightarrow> PacketCodec" where
  "set_seq seq c = c\<lparr>pc_seq := seq\<rparr>"

definition read_packet :: "PacketCodec \<Rightarrow> (NovaError, Packet) result \<times> PacketCodec" where
  "read_packet c =
     (case read_exact 4 (pc_stream c) of
        (Inl e, t) \<Rightarrow> (Err (Internal (''read packet header failed: '' @ e)), c\<lparr>pc_stream := t\<rparr>)
      | (Inr header, t) \<Rightarrow>
          (let len = (ucast (header ! 0) :: u32) OR push_bit 8 (ucast (header ! 1)) OR push_bit 16 (ucast (header ! 2));
               seq = header ! 3 in
           (case read_exact (unat len) t of
              (Inl e, t) \<Rightarrow> (Err (Internal (''read packet payload failed: '' @ e)), c\<lparr>pc_stream := t\<rparr>)
            | (Inr payload, t) \<Rightarrow>
                (Ok \<lparr>pk_seq = seq, pk_payload = payload\<rparr>, c\<lparr>pc_stream := t, pc_seq := seq + 1\<rparr>))))"

lemma read_packet_shrinks:
  assumes "read_packet c = (Ok p, c')"
  shows "length (tcp_in (pc_stream c')) < length (tcp_in (pc_stream c))"
  using assms by (auto simp: read_packet_def read_exact_def Let_def split: if_splits prod.splits sum.splits)

function read_payload_loop :: "byte list \<Rightarrow> PacketCodec \<Rightarrow> (NovaError, byte list) result \<times> PacketCodec" where
  "read_payload_loop full_payload c =
     (case read_packet c of
        (Inl e, c') \<Rightarrow> (Err e, c')
      | (Inr packet, c') \<Rightarrow>
          (let len = word_of_nat (length (pk_payload packet)) :: u32;
               full = full_payload @ pk_payload packet in
           if len < MAX_PACKET_SIZE then (Ok full, c') else read_payload_loop full c'))"
  by pat_completeness auto

termination read_payload_loop
  by (relation "measure (\<lambda>(f, c). length (tcp_in (pc_stream c)))")
    (auto intro: read_packet_shrinks [OF sym])

declare read_payload_loop.simps [simp del]

definition read_full_payload :: "PacketCodec \<Rightarrow> (NovaError, byte list) result \<times> PacketCodec" where
  "read_full_payload c = read_payload_loop [] c"

definition write_packet_with_seq :: "byte list \<Rightarrow> u8 \<Rightarrow> PacketCodec \<Rightarrow> (NovaError, unit) result \<times> PacketCodec" where
  "write_packet_with_seq payload seq c =
     (let len = word_of_nat (length payload) :: u32;
          header = [ucast (len AND 0xff), ucast (drop_bit 8 len AND 0xff), ucast (drop_bit 16 len AND 0xff), seq] in
      (case write_all (header @ payload) (pc_stream c) of
         (Inl e, t) \<Rightarrow> (Err (Internal (''write packet failed: '' @ e)), c\<lparr>pc_stream := t\<rparr>)
       | (Inr _, t) \<Rightarrow> (Ok (), c\<lparr>pc_stream := t, pc_seq := seq + 1\<rparr>)))"

definition write_packet :: "byte list \<Rightarrow> PacketCodec \<Rightarrow> (NovaError, unit) result \<times> PacketCodec" where
  "write_packet payload c = write_packet_with_seq payload (pc_seq c) c"

function write_chunks :: "byte list \<Rightarrow> nat \<Rightarrow> u8 \<Rightarrow> PacketCodec \<Rightarrow> (NovaError, unit) result \<times> PacketCodec" where
  "write_chunks payload offset seq c =
     (if offset < length payload then
        (let chunk_size = min (unat MAX_PACKET_SIZE) (length payload - offset);
             chunk = take chunk_size (drop offset payload) in
         (case write_packet_with_seq chunk seq c of
            (Inl e, c) \<Rightarrow> (Err e, c)
          | (Inr _, c) \<Rightarrow>
              (if chunk_size = unat MAX_PACKET_SIZE \<and> offset + chunk_size = length payload then
                 (case write_packet_with_seq [] (seq + 1) c of
                    (Inl e, c) \<Rightarrow> (Err e, c)
                  | (Inr _, c) \<Rightarrow> write_chunks payload (offset + chunk_size) (seq + 1) c)
               else write_chunks payload (offset + chunk_size) (seq + 1) c)))
      else (Ok (), c))"
  by pat_completeness auto

termination write_chunks
  by (relation "measure (\<lambda>(p, offset, s, c). length p - offset)") (auto simp: MAX_PACKET_SIZE_def)

declare write_chunks.simps [simp del]

definition write_large_payload :: "byte list \<Rightarrow> PacketCodec \<Rightarrow> (NovaError, unit) result \<times> PacketCodec" where
  "write_large_payload payload c = write_chunks payload 0 (pc_seq c) c"

lemma unat_MAX [simp]: "unat MAX_PACKET_SIZE = 16777215"
  by (simp add: MAX_PACKET_SIZE_def)

text \<open>The bytes of one packet, and of a payload spread over packets.\<close>

definition frame :: "u8 \<Rightarrow> byte list \<Rightarrow> byte list" where
  "frame seq p = le_bytes 3 (length p) @ [seq] @ p"

function frames :: "u8 \<Rightarrow> byte list \<Rightarrow> byte list" where
  "frames seq p =
     (if length p < 16777215 then frame seq p
      else frame seq (take 16777215 p) @ frames (seq + 1) (drop 16777215 p))"
  by pat_completeness auto

termination frames
  by (relation "measure (\<lambda>(s, p). length p)") auto

declare frames.simps [simp del]

lemma low_byte: "(ucast (w AND 0xff) :: byte) = word_of_nat (unat (w :: u32) mod 256)"
proof -
  have "w AND 0xff = take_bit 8 w" by (simp add: take_bit_eq_mask mask_eq_exp_minus_1)
  then show ?thesis
    by (simp add: word_unat_eq_iff unsigned_ucast_eq unsigned_take_bit_eq take_bit_eq_mod unat_of_nat unat_mod)
qed

lemma header_bytes:
  "[ucast (len AND 0xff), ucast (drop_bit 8 len AND 0xff), ucast (drop_bit 16 len AND 0xff)] =
     le_bytes 3 (unat (len :: u32))"
  by (simp add: low_byte unsigned_drop_bit_eq drop_bit_eq_div unat_div numeral_3_eq_3 div_mult2_eq [symmetric])

lemma le_bytes_mod: "le_bytes n (v mod (256 ^ n * k)) = le_bytes n v"
proof (induction n arbitrary: v)
  case (Suc n)
  have "v mod (256 ^ Suc n * k) mod 256 = v mod 256" by (simp add: mod_mod_cancel)
  moreover have "v mod (256 ^ Suc n * k) div 256 = v div 256 mod (256 ^ n * k)"
    by (simp add: mod_mult2_eq mult.assoc)
  ultimately show ?case using Suc [of "v div 256"] by simp
qed simp

lemma le_bytes_u32: "le_bytes 3 (unat (word_of_nat n :: u32)) = le_bytes 3 n"
  using le_bytes_mod [of 3 n 256] by (simp add: unat_of_nat)

lemma write_packet_run:
  assumes "tcp_error (pc_stream c) = None"
  shows "write_packet_with_seq p seq c =
     (Ok (), c\<lparr>pc_stream := (pc_stream c)\<lparr>tcp_out := tcp_out (pc_stream c) @ frame seq p\<rparr>, pc_seq := seq + 1\<rparr>)"
proof -
  have "[ucast ((word_of_nat (length p) :: u32) AND 0xff), ucast (drop_bit 8 (word_of_nat (length p) :: u32) AND 0xff),
      ucast (drop_bit 16 (word_of_nat (length p) :: u32) AND 0xff), seq] @ p = frame seq p"
    using header_bytes [of "word_of_nat (length p)"] le_bytes_u32 [of "length p"] by (simp add: frame_def)
  then show ?thesis using assms by (simp add: write_packet_with_seq_def write_all_def Let_def)
qed

lemma read_packet_frame:
  assumes "length p < 16777216" "tcp_in (pc_stream c) = frame seq p @ rest"
  shows "read_packet c =
     (Ok \<lparr>pk_seq = seq, pk_payload = p\<rparr>, c\<lparr>pc_stream := (pc_stream c)\<lparr>tcp_in := rest\<rparr>, pc_seq := seq + 1\<rparr>)"
proof -
  obtain x y z where h: "le_bytes 3 (length p) = [x, y, z]" by (simp add: numeral_3_eq_3)
  have "le_val [x, y, z] = length p" using assms(1) unfolding h [symmetric] by (simp add: le_val_le_bytes)
  with or_bytes_le_val [of x y z]
  have len: "unat ((ucast x :: u32) OR push_bit 8 (ucast y) OR push_bit 16 (ucast z)) = length p" by simp
  show ?thesis
    using assms(2) len by (simp add: read_packet_def read_exact_def frame_def h Let_def)
qed

lemma read_loop_frames:
  assumes "tcp_in (pc_stream c) = frames seq p @ rest"
  shows "read_payload_loop full c =
     (Ok (full @ p), c\<lparr>pc_stream := (pc_stream c)\<lparr>tcp_in := rest\<rparr>,
        pc_seq := seq + word_of_nat (length p div 16777215) + 1\<rparr>)"
  using assms
proof (induction seq p arbitrary: c full rule: frames.induct)
  case (1 seq p)
  show ?case
  proof (cases "length p < 16777215")
    case True
    then have "tcp_in (pc_stream c) = frame seq p @ rest" using 1(2) by (simp add: frames.simps)
    from read_packet_frame [OF _ this] True
    have "read_packet c = (Ok \<lparr>pk_seq = seq, pk_payload = p\<rparr>,
        c\<lparr>pc_stream := (pc_stream c)\<lparr>tcp_in := rest\<rparr>, pc_seq := seq + 1\<rparr>)" by simp
    moreover have "(word_of_nat (length p) :: u32) < MAX_PACKET_SIZE"
      using True by (simp add: word_less_nat_alt unat_of_nat)
    ultimately show ?thesis using True
      by (simp add: read_payload_loop.simps [of full c] Let_def)
  next
    case False
    let ?p = "take 16777215 p" and ?q = "drop 16777215 p"
    let ?c = "c\<lparr>pc_stream := (pc_stream c)\<lparr>tcp_in := frames (seq + 1) ?q @ rest\<rparr>, pc_seq := seq + 1\<rparr>"
    have len: "length ?p = 16777215" using False by simp
    have "tcp_in (pc_stream c) = frame seq ?p @ (frames (seq + 1) ?q @ rest)"
      using 1(2) False by (simp add: frames.simps [of seq p])
    from read_packet_frame [OF _ this] len
    have "read_packet c = (Ok \<lparr>pk_seq = seq, pk_payload = ?p\<rparr>, ?c)" by simp
    moreover have "\<not> (word_of_nat (length ?p) :: u32) < MAX_PACKET_SIZE"
      unfolding len by (simp add: MAX_PACKET_SIZE_def)
    ultimately have "read_payload_loop full c = read_payload_loop (full @ ?p) ?c"
      by (simp add: read_payload_loop.simps [of full c] Let_def)
    also have "\<dots> = (Ok ((full @ ?p) @ ?q), ?c\<lparr>pc_stream := (pc_stream ?c)\<lparr>tcp_in := rest\<rparr>,
        pc_seq := (seq + 1) + word_of_nat (length ?q div 16777215) + 1\<rparr>)"
      by (rule 1(1)) (use False in simp_all)
    also have "length p div 16777215 = Suc (length ?q div 16777215)" using False by (simp add: le_div_geq)
    then have "(seq + 1) + word_of_nat (length ?q div 16777215) + 1 = seq + word_of_nat (length p div 16777215) + 1"
      by simp
    finally show ?thesis by (simp add: algebra_simps)
  qed
qed

lemma write_chunks_done: "length p \<le> offset \<Longrightarrow> write_chunks p offset seq c = (Ok (), c)"
  by (simp add: write_chunks.simps)

lemma write_chunks_frames:
  assumes "offset < length p" "tcp_error (pc_stream c) = None"
  shows "write_chunks p offset seq c =
     (Ok (), c\<lparr>pc_stream := (pc_stream c)\<lparr>tcp_out := tcp_out (pc_stream c) @ frames seq (drop offset p)\<rparr>,
        pc_seq := seq + word_of_nat (length (drop offset p) div 16777215) + 1\<rparr>)"
  using assms
proof (induction p offset seq c rule: write_chunks.induct)
  case (1 p offset seq c)
  let ?n = "length p - offset"
  consider (short) "?n < 16777215" | (exact) "?n = 16777215" | (long) "16777215 < ?n" by linarith
  then show ?case
  proof cases
    case short
    then show ?thesis using 1(3,4)
      by (simp add: write_chunks.simps [of p offset] write_chunks_done write_packet_run frames.simps [of seq] Let_def)
  next
    case exact
    then have "length p = offset + 16777215" using 1(3) by linarith
    then show ?thesis using 1(3,4)
      by (simp add: write_chunks.simps [of p offset] write_chunks_done write_packet_run
          frames.simps [of seq] frames.simps [of _ "[]"] add.assoc Let_def)
  next
    case long
    let ?c = "c\<lparr>pc_stream := (pc_stream c)\<lparr>tcp_out := tcp_out (pc_stream c) @ frame seq (take 16777215 (drop offset p))\<rparr>,
        pc_seq := seq + 1\<rparr>"
    have m: "16777215 = min (unat MAX_PACKET_SIZE) ?n" using long by simp
    have run: "write_packet_with_seq (take 16777215 (drop offset p)) seq c = (Ok (), ?c)"
      by (rule write_packet_run [OF 1(4)])
    have rest: "drop (offset + 16777215) p = drop 16777215 (drop offset p)" by (simp add: add.commute)
    have len: "length (drop offset p) div 16777215 = Suc (length (drop (offset + 16777215) p) div 16777215)"
      using long by (simp add: le_div_geq)
    have "write_chunks p (offset + 16777215) (seq + 1) ?c =
       (Ok (), ?c\<lparr>pc_stream := (pc_stream ?c)\<lparr>tcp_out := tcp_out (pc_stream ?c) @ frames (seq + 1) (drop (offset + 16777215) p)\<rparr>,
        pc_seq := seq + 1 + word_of_nat (length (drop (offset + 16777215) p) div 16777215) + 1\<rparr>)"
      using 1(2) [OF 1(3) m refl run [symmetric] refl] long 1(4) by simp
    moreover have "offset + 16777215 \<noteq> length p" using long by linarith
    then have "write_chunks p offset seq c = write_chunks p (offset + 16777215) (seq + 1) ?c"
      using long 1(3) run by (simp add: write_chunks.simps [of p offset] Let_def)
    ultimately show ?thesis
      using long unfolding len rest by (simp add: frames.simps [of seq "drop offset p"] algebra_simps)
  qed
qed

text \<open>
  C21. Payload round trip. A non-empty payload of any length, written by the splitting writer
  and then read by the joining reader, arrives unchanged; the reader stops exactly behind it
  and both ends agree on the sequence number of the next packet.
\<close>

theorem payload_roundtrip:
  assumes "payload \<noteq> []" "tcp_error (pc_stream w) = None" "tcp_out (pc_stream w) = []"
    "write_large_payload payload w = (res, w')"
    "tcp_in (pc_stream r) = tcp_out (pc_stream w') @ rest"
    "read_full_payload r = (got, r')"
  shows "res = Ok () \<and> got = Ok payload \<and> tcp_in (pc_stream r') = rest \<and> pc_seq r' = pc_seq w'"
proof -
  have w: "write_large_payload payload w =
     (Ok (), w\<lparr>pc_stream := (pc_stream w)\<lparr>tcp_out := frames (pc_seq w) payload\<rparr>,
        pc_seq := pc_seq w + word_of_nat (length payload div 16777215) + 1\<rparr>)"
    using write_chunks_frames [of 0 payload w "pc_seq w"] assms(1-3) by (simp add: write_large_payload_def)
  then have "tcp_in (pc_stream r) = frames (pc_seq w) payload @ rest" using assms(4,5) by auto
  from read_loop_frames [OF this, of "[]"] assms(4,6) w show ?thesis
    by (auto simp: read_full_payload_def)
qed

theorem payload_roundtrip_witness:
  "\<exists>c'. read_full_payload (codec_new \<lparr>tcp_in = [3, 0, 0, 7, 1, 2, 3, 99], tcp_out = [], tcp_error = None\<rparr>) = (Ok [1, 2, 3], c') \<and>
     tcp_in (pc_stream c') = [99]"
proof -
  let ?w = "\<lparr>pc_stream = \<lparr>tcp_in = [], tcp_out = [], tcp_error = None\<rparr>, pc_seq = 7\<rparr>"
  let ?r = "codec_new \<lparr>tcp_in = [3, 0, 0, 7, 1, 2, 3, 99], tcp_out = [], tcp_error = None\<rparr>"
  obtain res w' where w: "write_large_payload [1, 2, 3] ?w = (res, w')" by (metis surj_pair)
  obtain got r' where r: "read_full_payload ?r = (got, r')" by (metis surj_pair)
  have "le_bytes 3 (Suc (Suc (Suc 0))) = [3, 0, 0]" by code_simp
  then have "frames 7 [1, 2, 3] = [3, 0, 0, 7, 1, 2, 3]" by (subst frames.simps) (simp add: frame_def)
  then have "tcp_out (pc_stream w') = [3, 0, 0, 7, 1, 2, 3]"
    using w write_chunks_frames [of 0 "[1, 2, 3]" ?w 7] by (auto simp: write_large_payload_def)
  with payload_roundtrip [OF _ _ _ w _ r, of "[99]"] r show ?thesis by (auto simp: codec_new_def)
qed

text \<open>
  An empty payload is no packet at all, so its reader waits for one that never comes; and the
  plain writer keeps only the low 24 bits of the length, so a payload of 16 MB or more leaves
  a header that announces less than what follows.
\<close>

lemma empty_payload_not_sent: "write_large_payload [] c = (Ok (), c)"
  by (simp add: write_large_payload_def write_chunks.simps)

lemma long_packet_header:
  assumes "tcp_error (pc_stream c) = None"
  shows "take 3 (drop (length (tcp_out (pc_stream c))) (tcp_out (pc_stream (snd (write_packet p c))))) =
     le_bytes 3 (length p mod 16777216)"
  using assms le_bytes_mod [of 3 "length p" 1] by (simp add: write_packet_def write_packet_run frame_def)

text \<open>
  Length-encoded integers. Every 64-bit value is read back from its encoding, whatever
  follows it in the buffer, and the reader consumes exactly the bytes of the encoding.
\<close>

lemma lenenc_int_roundtrip:
  "decode_lenenc_int (encode_lenenc_int [] v @ rest) = Ok (v, length (encode_lenenc_int [] v))"
  by (rule li.dec_enc) simp

text \<open>
  Length-encoded strings in a row. Any sequence of strings, written one after the other
  into a buffer, is read back item by item in the same order, and the rest is untouched.
\<close>

theorem lenenc_strings_roundtrip:
  assumes "list_all rust_string ss"
  shows "decode_items decode_lenenc_string (length ss) (foldl encode_lenenc_string [] ss @ rest) = Ok (ss, rest)"
proof -
  have "foldl encode_lenenc_string buf ss = buf @ concat (map (encode_lenenc_string []) ss)" for buf
  proof (induction ss arbitrary: buf)
    case (Cons s ss)
    then show ?case using encode_lenenc_string_append [of buf s] by simp
  qed simp
  with ls.decode_concat [OF assms, of rest] show ?thesis by simp
qed

lemma rust_string_ascii:
  "list_all (\<lambda>c. (of_char c :: byte) < 0x80) s \<Longrightarrow> length s < 2 ^ 63 \<Longrightarrow> rust_string s"
  by (auto simp: rust_string_def as_bytes_def list.pred_map comp_def intro!: utf8_ascii)

theorem lenenc_strings_roundtrip_witness:
  "decode_items decode_lenenc_string 2 ([3, 100, 101, 102, 0] @ [9]) = Ok ([''def'', []], [9])"
proof -
  have "list_all rust_string [''def'', []]" by (simp add: rust_string_ascii)
  moreover have "foldl encode_lenenc_string [] [''def'', []] = [3, 100, 101, 102, 0]" by code_simp
  moreover have "length [''def'', []] = 2" by simp
  ultimately show ?thesis using lenenc_strings_roundtrip [of "[''def'', []]" "[9]"] by (simp only:)
qed

end
