(* ===== verification/Mysql_Types.thy ===== *)
theory Mysql_Types
  imports Mysql_Codec
begin

text \<open>
  The constant tables of the MySQL protocol: column types and their mapping from Arrow
  (\<^verbatim>\<open>mysql_protocol/types.rs\<close>), error codes with their messages and SQL states (\<^verbatim>\<open>errors.rs\<close>)
  and the capability flags exchanged in the handshake (\<^verbatim>\<open>capabilities.rs\<close>).

  The lemmas show that column types and their wire codes determine each other, that every
  error packet carries a five-character SQL state, and that negotiating capabilities is the
  intersection of the two sets of flags.
\<close>

subsection \<open>Column types\<close>

datatype (plugins only: code size) ColumnType =
    CT_Decimal | CT_Tiny | CT_Short | CT_Long | CT_Float | CT_Double | CT_Null | CT_Timestamp |
    CT_LongLong | CT_Int24 | CT_Date | CT_Time | CT_DateTime | CT_Year | CT_NewDate | CT_Varchar |
    CT_Bit | CT_Timestamp2 | CT_DateTime2 | CT_Time2 | CT_Json | CT_NewDecimal | CT_Enum | CT_Set |
    CT_TinyBlob | CT_MediumBlob | CT_LongBlob | CT_Blob | CT_VarString | CT_String | CT_Geometry

definition column_type_from_u8 :: "u8 \<Rightarrow> ColumnType option" where
  "column_type_from_u8 val =
     (if val = 0x00 then Some CT_Decimal
      else if val = 0x01 then Some CT_Tiny
      else if val = 0x02 then Some CT_Short
      else if val = 0x03 then Some CT_Long
      else if val = 0x04 then Some CT_Float
      else if val = 0x05 then Some CT_Double
      else if val = 0x06 then Some CT_Null
      else if val = 0x07 then Some CT_Timestamp
      else if val = 0x08 then Some CT_LongLong
      else if val = 0x09 then Some CT_Int24
      else if val = 0x0a then Some CT_Date
      else if val = 0x0b then Some CT_Time
      else if val = 0x0c then Some CT_DateTime
      else if val = 0x0d then Some CT_Year
      else if val = 0x0e then Some CT_NewDate
      else if val = 0x0f then Some CT_Varchar
      else if val = 0x10 then Some CT_Bit
      else if val = 0x11 then Some CT_Timestamp2
      else if val = 0x12 then Some CT_DateTime2
      else if val = 0x13 then Some CT_Time2
      else if val = 0xf5 then Some CT_Json
      else if val = 0xf6 then Some CT_NewDecimal
      else if val = 0xf7 then Some CT_Enum
      else if val = 0xf8 then Some CT_Set
      else if val = 0xf9 then Some CT_TinyBlob
      else if val = 0xfa then Some CT_MediumBlob
      else if val = 0xfb then Some CT_LongBlob
      else if val = 0xfc then Some CT_Blob
      else if val = 0xfd then Some CT_VarString
      else if val = 0xfe then Some CT_String
      else if val = 0xff then Some CT_Geometry
      else None)"

fun column_type_to_u8 :: "ColumnType \<Rightarrow> u8" where
  "column_type_to_u8 CT_Decimal = 0x00"
| "column_type_to_u8 CT_Tiny = 0x01"
| "column_type_to_u8 CT_Short = 0x02"
| "column_type_to_u8 CT_Long = 0x03"
| "column_type_to_u8 CT_Float = 0x04"
| "column_type_to_u8 CT_Double = 0x05"
| "column_type_to_u8 CT_Null = 0x06"
| "column_type_to_u8 CT_Timestamp = 0x07"
| "column_type_to_u8 CT_LongLong = 0x08"
| "column_type_to_u8 CT_Int24 = 0x09"
| "column_type_to_u8 CT_Date = 0x0a"
| "column_type_to_u8 CT_Time = 0x0b"
| "column_type_to_u8 CT_DateTime = 0x0c"
| "column_type_to_u8 CT_Year = 0x0d"
| "column_type_to_u8 CT_NewDate = 0x0e"
| "column_type_to_u8 CT_Varchar = 0x0f"
| "column_type_to_u8 CT_Bit = 0x10"
| "column_type_to_u8 CT_Timestamp2 = 0x11"
| "column_type_to_u8 CT_DateTime2 = 0x12"
| "column_type_to_u8 CT_Time2 = 0x13"
| "column_type_to_u8 CT_Json = 0xf5"
| "column_type_to_u8 CT_NewDecimal = 0xf6"
| "column_type_to_u8 CT_Enum = 0xf7"
| "column_type_to_u8 CT_Set = 0xf8"
| "column_type_to_u8 CT_TinyBlob = 0xf9"
| "column_type_to_u8 CT_MediumBlob = 0xfa"
| "column_type_to_u8 CT_LongBlob = 0xfb"
| "column_type_to_u8 CT_Blob = 0xfc"
| "column_type_to_u8 CT_VarString = 0xfd"
| "column_type_to_u8 CT_String = 0xfe"
| "column_type_to_u8 CT_Geometry = 0xff"

fun column_type_name :: "ColumnType \<Rightarrow> string" where
  "column_type_name CT_Decimal = ''DECIMAL''"
| "column_type_name CT_Tiny = ''TINY''"
| "column_type_name CT_Short = ''SHORT''"
| "column_type_name CT_Long = ''LONG''"
| "column_type_name CT_Float = ''FLOAT''"
| "column_type_name CT_Double = ''DOUBLE''"
| "column_type_name CT_Null = ''NULL''"
| "column_type_name CT_Timestamp = ''TIMESTAMP''"
| "column_type_name CT_LongLong = ''LONGLONG''"
| "column_type_name CT_Int24 = ''INT24''"
| "column_type_name CT_Date = ''DATE''"
| "column_type_name CT_Time = ''TIME''"
| "column_type_name CT_DateTime = ''DATETIME''"
| "column_type_name CT_Year = ''YEAR''"
| "column_type_name CT_NewDate = ''NEWDATE''"
| "column_type_name CT_Varchar = ''VARCHAR''"
| "column_type_name CT_Bit = ''BIT''"
| "column_type_name CT_Timestamp2 = ''TIMESTAMP2''"
| "column_type_name CT_DateTime2 = ''DATETIME2''"
| "column_type_name CT_Time2 = ''TIME2''"
| "column_type_name CT_Json = ''JSON''"
| "column_type_name CT_NewDecimal = ''NEWDECIMAL''"
| "column_type_name CT_Enum = ''ENUM''"
| "column_type_name CT_Set = ''SET''"
| "column_type_name CT_TinyBlob = ''TINYBLOB''"
| "column_type_name CT_MediumBlob = ''MEDIUMBLOB''"
| "column_type_name CT_LongBlob = ''LONGBLOB''"
| "column_type_name CT_Blob = ''BLOB''"
| "column_type_name CT_VarString = ''VARSTRING''"
| "column_type_name CT_String = ''STRING''"
| "column_type_name CT_Geometry = ''GEOMETRY''"

definition is_numeric :: "ColumnType \<Rightarrow> bool" where
  "is_numeric t \<longleftrightarrow> t \<in> set
     [CT_Decimal, CT_Tiny, CT_Short, CT_Long, CT_Float, CT_Double, CT_LongLong, CT_Int24, CT_Year,
      CT_NewDecimal]"

definition is_string :: "ColumnType \<Rightarrow> bool" where
  "is_string t \<longleftrightarrow> t \<in> set
     [CT_Varchar, CT_VarString, CT_String, CT_Blob, CT_TinyBlob, CT_MediumBlob, CT_LongBlob]"

definition is_temporal :: "ColumnType \<Rightarrow> bool" where
  "is_temporal t \<longleftrightarrow> t \<in> set
     [CT_Date, CT_Time, CT_DateTime, CT_Timestamp, CT_Year, CT_NewDate, CT_Timestamp2,
      CT_DateTime2, CT_Time2]"


text \<open>
  The Arrow types the front end tells apart; the units, time zones and precisions some of them
  carry play no role here, and every other type is \<open>ADT_Other\<close> with its name.
\<close>

datatype (plugins only: code size) ArrowDataType =
    ADT_Null | ADT_Boolean | ADT_Int8 | ADT_Int16 | ADT_Int32 | ADT_Int64 | ADT_UInt8 |
    ADT_UInt16 | ADT_UInt32 | ADT_UInt64 | ADT_Float16 | ADT_Float32 | ADT_Float64 | ADT_Utf8 |
    ADT_LargeUtf8 | ADT_Binary | ADT_LargeBinary | ADT_Date32 | ADT_Date64 | ADT_Time32 |
    ADT_Time64 | ADT_Timestamp | ADT_Decimal128 | ADT_Decimal256 | ADT_Other string

fun arrow_to_mysql :: "ArrowDataType \<Rightarrow> ColumnType" where
  "arrow_to_mysql ADT_Null = CT_Null"
| "arrow_to_mysql ADT_Boolean = CT_Tiny"
| "arrow_to_mysql ADT_Int8 = CT_Tiny"
| "arrow_to_mysql ADT_Int16 = CT_Short"
| "arrow_to_mysql ADT_Int32 = CT_Long"
| "arrow_to_mysql ADT_Int64 = CT_LongLong"
| "arrow_to_mysql ADT_UInt8 = CT_Tiny"
| "arrow_to_mysql ADT_UInt16 = CT_Short"
| "arrow_to_mysql ADT_UInt32 = CT_Long"
| "arrow_to_mysql ADT_UInt64 = CT_LongLong"
| "arrow_to_mysql ADT_Float16 = CT_Float"
| "arrow_to_mysql ADT_Float32 = CT_Float"
| "arrow_to_mysql ADT_Float64 = CT_Double"
| "arrow_to_mysql ADT_Utf8 = CT_VarString"
| "arrow_to_mysql ADT_LargeUtf8 = CT_VarString"
| "arrow_to_mysql ADT_Binary = CT_Blob"
| "arrow_to_mysql ADT_LargeBinary = CT_Blob"
| "arrow_to_mysql ADT_Date32 = CT_Date"
| "arrow_to_mysql ADT_Date64 = CT_Date"
| "arrow_to_mysql ADT_Time32 = CT_Time"
| "arrow_to_mysql ADT_Time64 = CT_Time"
| "arrow_to_mysql ADT_Timestamp = CT_DateTime"
| "arrow_to_mysql ADT_Decimal128 = CT_NewDecimal"
| "arrow_to_mysql ADT_Decimal256 = CT_NewDecimal"
| "arrow_to_mysql (ADT_Other n) = CT_VarString"

definition column_length :: "ColumnType \<Rightarrow> u32" where
  "column_length t =
     (case t of
        CT_Tiny \<Rightarrow> 4
      | CT_Short \<Rightarrow> 6
      | CT_Long \<Rightarrow> 11
      | CT_LongLong \<Rightarrow> 20
      | CT_Float \<Rightarrow> 12
      | CT_Double \<Rightarrow> 22
      | CT_Date \<Rightarrow> 10
      | CT_Time \<Rightarrow> 10
      | CT_DateTime \<Rightarrow> 19
      | CT_Timestamp \<Rightarrow> 19
      | CT_Year \<Rightarrow> 4
      | CT_VarString \<Rightarrow> 255
      | CT_String \<Rightarrow> 255
      | CT_Blob \<Rightarrow> 65535
      | CT_TinyBlob \<Rightarrow> 255
      | CT_MediumBlob \<Rightarrow> 16777215
      | CT_LongBlob \<Rightarrow> 4294967295
      | _ \<Rightarrow> 255)"

definition column_decimals :: "ColumnType \<Rightarrow> u8" where
  "column_decimals t = (case t of CT_Float \<Rightarrow> 31 | CT_Double \<Rightarrow> 31 | CT_NewDecimal \<Rightarrow> 31 | _ \<Rightarrow> 0)"

subsection \<open>Error codes\<close>

definition ER_HANDSHAKE_ERROR :: u16 where "ER_HANDSHAKE_ERROR = 1043"
definition ER_ACCESS_DENIED_ERROR :: u16 where "ER_ACCESS_DENIED_ERROR = 1045"
definition ER_BAD_DB_ERROR :: u16 where "ER_BAD_DB_ERROR = 1049"
definition ER_DBACCESS_DENIED_ERROR :: u16 where "ER_DBACCESS_DENIED_ERROR = 1044"
definition ER_HOST_NOT_PRIVILEGED :: u16 where "ER_HOST_NOT_PRIVILEGED = 1130"
definition ER_PARSE_ERROR :: u16 where "ER_PARSE_ERROR = 1064"
definition ER_NO_SUCH_TABLE :: u16 where "ER_NO_SUCH_TABLE = 1146"
definition ER_BAD_FIELD_ERROR :: u16 where "ER_BAD_FIELD_ERROR = 1054"
definition ER_NO_TABLES_USED :: u16 where "ER_NO_TABLES_USED = 1096"
definition ER_TABLE_EXISTS_ERROR :: u16 where "ER_TABLE_EXISTS_ERROR = 1050"
definition ER_UNKNOWN_COM_ERROR :: u16 where "ER_UNKNOWN_COM_ERROR = 1047"
definition ER_NOT_SUPPORTED_YET :: u16 where "ER_NOT_SUPPORTED_YET = 1235"
definition ER_SYNTAX_ERROR :: u16 where "ER_SYNTAX_ERROR = 1149"
definition ER_QUERY_INTERRUPTED :: u16 where "ER_QUERY_INTERRUPTED = 1317"
definition ER_SERVER_SHUTDOWN :: u16 where "ER_SERVER_SHUTDOWN = 1053"
definition ER_ABORTING_CONNECTION :: u16 where "ER_ABORTING_CONNECTION = 1152"
definition ER_UNKNOWN_STMT_HANDLER :: u16 where "ER_UNKNOWN_STMT_HANDLER = 1243"
definition ER_STMT_HAS_NO_OPEN_CURSOR :: u16 where "ER_STMT_HAS_NO_OPEN_CURSOR = 1325"
definition ER_WRONG_NUMBER_OF_PARAMETERS_IN_PREPARED_CALL :: u16 where "ER_WRONG_NUMBER_OF_PARAMETERS_IN_PREPARED_CALL = 1318"

lemmas error_codes =
  ER_HANDSHAKE_ERROR_def ER_ACCESS_DENIED_ERROR_def ER_BAD_DB_ERROR_def
  ER_DBACCESS_DENIED_ERROR_def ER_HOST_NOT_PRIVILEGED_def ER_PARSE_ERROR_def ER_NO_SUCH_TABLE_def
  ER_BAD_FIELD_ERROR_def ER_NO_TABLES_USED_def ER_TABLE_EXISTS_ERROR_def ER_UNKNOWN_COM_ERROR_def
  ER_NOT_SUPPORTED_YET_def ER_SYNTAX_ERROR_def ER_QUERY_INTERRUPTED_def ER_SERVER_SHUTDOWN_def
  ER_ABORTING_CONNECTION_def ER_UNKNOWN_STMT_HANDLER_def ER_STMT_HAS_NO_OPEN_CURSOR_def
  ER_WRONG_NUMBER_OF_PARAMETERS_IN_PREPARED_CALL_def

definition error_message :: "u16 \<Rightarrow> string" where
  "error_message code =
     (if code = ER_HANDSHAKE_ERROR then ''Bad handshake''
      else if code = ER_ACCESS_DENIED_ERROR then ''Access denied for user''
      else if code = ER_BAD_DB_ERROR then ''Unknown database''
      else if code = ER_DBACCESS_DENIED_ERROR then ''Access denied for database''
      else if code = ER_HOST_NOT_PRIVILEGED then ''Host not privileged''
      else if code = ER_PARSE_ERROR then ''Parse error''
      else if code = ER_NO_SUCH_TABLE then ''Table doesn'' @ CHR 0x27 # ''t exist''
      else if code = ER_BAD_FIELD_ERROR then ''Unknown column''
      else if code = ER_NO_TABLES_USED then ''No tables used''
      else if code = ER_TABLE_EXISTS_ERROR then ''Table already exists''
      else if code = ER_UNKNOWN_COM_ERROR then ''Unknown command''
      else if code = ER_NOT_SUPPORTED_YET then ''Not supported yet''
      else if code = ER_SYNTAX_ERROR then ''Syntax error''
      else if code = ER_QUERY_INTERRUPTED then ''Query interrupted''
      else if code = ER_SERVER_SHUTDOWN then ''Server shutdown in progress''
      else if code = ER_ABORTING_CONNECTION then ''Connection aborted''
      else if code = ER_UNKNOWN_STMT_HANDLER then ''Unknown prepared statement handler''
      else if code = ER_STMT_HAS_NO_OPEN_CURSOR then ''Statement has no open cursor''
      else if code = ER_WRONG_NUMBER_OF_PARAMETERS_IN_PREPARED_CALL then ''Incorrect number of parameters''
      else ''Unknown error'')"

definition sql_state :: "u16 \<Rightarrow> string" where
  "sql_state code =
     (if code = ER_HANDSHAKE_ERROR then ''08S01''
      else if code = ER_ACCESS_DENIED_ERROR then ''28000''
      else if code = ER_BAD_DB_ERROR then ''42000''
      else if code = ER_DBACCESS_DENIED_ERROR then ''42000''
      else if code = ER_HOST_NOT_PRIVILEGED then ''HY000''
      else if code = ER_PARSE_ERROR then ''42000''
      else if code = ER_NO_SUCH_TABLE then ''42S02''
      else if code = ER_BAD_FIELD_ERROR then ''42S22''
      else if code = ER_NO_TABLES_USED then ''42S02''
      else if code = ER_TABLE_EXISTS_ERROR then ''42S01''
      else if code = ER_UNKNOWN_COM_ERROR then ''08S01''
      else if code = ER_NOT_SUPPORTED_YET then ''42000''
      else if code = ER_SYNTAX_ERROR then ''42000''
      else if code = ER_QUERY_INTERRUPTED then ''70100''
      else if code = ER_SERVER_SHUTDOWN then ''08S01''
      else if code = ER_ABORTING_CONNECTION then ''08S01''
      else if code = ER_UNKNOWN_STMT_HANDLER then ''HY000''
      else if code = ER_STMT_HAS_NO_OPEN_CURSOR then ''HY000''
      else if code = ER_WRONG_NUMBER_OF_PARAMETERS_IN_PREPARED_CALL then ''21S01''
      else ''HY000'')"

subsection \<open>Capabilities\<close>

type_synonym ClientCapabilities = u32

definition CLIENT_LONG_PASSWORD :: u32 where "CLIENT_LONG_PASSWORD = push_bit 0 1"
definition CLIENT_FOUND_ROWS :: u32 where "CLIENT_FOUND_ROWS = push_bit 1 1"
definition CLIENT_LONG_FLAG :: u32 where "CLIENT_LONG_FLAG = push_bit 2 1"
definition CLIENT_CONNECT_WITH_DB :: u32 where "CLIENT_CONNECT_WITH_DB = push_bit 3 1"
definition CLIENT_NO_SCHEMA :: u32 where "CLIENT_NO_SCHEMA = push_bit 4 1"
definition CLIENT_COMPRESS :: u32 where "CLIENT_COMPRESS = push_bit 5 1"
definition CLIENT_ODBC :: u32 where "CLIENT_ODBC = push_bit 6 1"
definition CLIENT_LOCAL_FILES :: u32 where "CLIENT_LOCAL_FILES = push_bit 7 1"
definition CLIENT_IGNORE_SPACE :: u32 where "CLIENT_IGNORE_SPACE = push_bit 8 1"
definition CLIENT_PROTOCOL_41 :: u32 where "CLIENT_PROTOCOL_41 = push_bit 9 1"
definition CLIENT_INTERACTIVE :: u32 where "CLIENT_INTERACTIVE = push_bit 10 1"
definition CLIENT_SSL :: u32 where "CLIENT_SSL = push_bit 11 1"
definition CLIENT_IGNORE_SIGPIPE :: u32 where "CLIENT_IGNORE_SIGPIPE = push_bit 12 1"
definition CLIENT_TRANSACTIONS :: u32 where "CLIENT_TRANSACTIONS = push_bit 13 1"
definition CLIENT_RESERVED :: u32 where "CLIENT_RESERVED = push_bit 14 1"
definition CLIENT_SECURE_CONNECTION :: u32 where "CLIENT_SECURE_CONNECTION = push_bit 15 1"
definition CLIENT_MULTI_STATEMENTS :: u32 where "CLIENT_MULTI_STATEMENTS = push_bit 16 1"
definition CLIENT_MULTI_RESULTS :: u32 where "CLIENT_MULTI_RESULTS = push_bit 17 1"
definition CLIENT_PS_MULTI_RESULTS :: u32 where "CLIENT_PS_MULTI_RESULTS = push_bit 18 1"
definition CLIENT_PLUGIN_AUTH :: u32 where "CLIENT_PLUGIN_AUTH = push_bit 19 1"
definition CLIENT_CONNECT_ATTRS :: u32 where "CLIENT_CONNECT_ATTRS = push_bit 20 1"
definition CLIENT_PLUGIN_AUTH_LENENC_CLIENT_DATA :: u32 where "CLIENT_PLUGIN_AUTH_LENENC_CLIENT_DATA = push_bit 21 1"
definition CLIENT_CAN_HANDLE_EXPIRED_PASSWORDS :: u32 where "CLIENT_CAN_HANDLE_EXPIRED_PASSWORDS = push_bit 22 1"
definition CLIENT_SESSION_TRACK :: u32 where "CLIENT_SESSION_TRACK = push_bit 23 1"
definition CLIENT_DEPRECATE_EOF :: u32 where "CLIENT_DEPRECATE_EOF = push_bit 24 1"
definition CLIENT_OPTIONAL_RESULTSET_METADATA :: u32 where "CLIENT_OPTIONAL_RESULTSET_METADATA = push_bit 25 1"
definition CLIENT_ZSTD_COMPRESSION_ALGORITHM :: u32 where "CLIENT_ZSTD_COMPRESSION_ALGORITHM = push_bit 26 1"
definition CLIENT_QUERY_ATTRIBUTES :: u32 where "CLIENT_QUERY_ATTRIBUTES = push_bit 27 1"
definition CLIENT_MULTI_FACTOR_AUTHENTICATION :: u32 where "CLIENT_MULTI_FACTOR_AUTHENTICATION = push_bit 28 1"
definition CLIENT_CAPABILITY_EXTENSION :: u32 where "CLIENT_CAPABILITY_EXTENSION = push_bit 29 1"
definition CLIENT_SSL_VERIFY_SERVER_CERT :: u32 where "CLIENT_SSL_VERIFY_SERVER_CERT = push_bit 30 1"
definition CLIENT_REMEMBER_OPTIONS :: u32 where "CLIENT_REMEMBER_OPTIONS = push_bit 31 1"

lemmas client_flags =
  CLIENT_LONG_PASSWORD_def CLIENT_FOUND_ROWS_def CLIENT_LONG_FLAG_def CLIENT_CONNECT_WITH_DB_def
  CLIENT_NO_SCHEMA_def CLIENT_COMPRESS_def CLIENT_ODBC_def CLIENT_LOCAL_FILES_def
  CLIENT_IGNORE_SPACE_def CLIENT_PROTOCOL_41_def CLIENT_INTERACTIVE_def CLIENT_SSL_def
  CLIENT_IGNORE_SIGPIPE_def CLIENT_TRANSACTIONS_def CLIENT_RESERVED_def
  CLIENT_SECURE_CONNECTION_def CLIENT_MULTI_STATEMENTS_def CLIENT_MULTI_RESULTS_def
  CLIENT_PS_MULTI_RESULTS_def CLIENT_PLUGIN_AUTH_def CLIENT_CONNECT_ATTRS_def
  CLIENT_PLUGIN_AUTH_LENENC_CLIENT_DATA_def CLIENT_CAN_HANDLE_EXPIRED_PASSWORDS_def
  CLIENT_SESSION_TRACK_def CLIENT_DEPRECATE_EOF_def CLIENT_OPTIONAL_RESULTSET_METADATA_def
  CLIENT_ZSTD_COMPRESSION_ALGORITHM_def CLIENT_QUERY_ATTRIBUTES_def
  CLIENT_MULTI_FACTOR_AUTHENTICATION_def CLIENT_CAPABILITY_EXTENSION_def
  CLIENT_SSL_VERIFY_SERVER_CERT_def CLIENT_REMEMBER_OPTIONS_def

definition cap_has :: "ClientCapabilities \<Rightarrow> u32 \<Rightarrow> bool" where
  "cap_has c flag \<longleftrightarrow> c AND flag \<noteq> 0"

definition cap_set :: "u32 \<Rightarrow> ClientCapabilities \<Rightarrow> ClientCapabilities" where
  "cap_set flag c = c OR flag"

definition cap_clear :: "u32 \<Rightarrow> ClientCapabilities \<Rightarrow> ClientCapabilities" where
  "cap_clear flag c = c AND NOT flag"

definition supports_protocol_41 :: "ClientCapabilities \<Rightarrow> bool" where
  "supports_protocol_41 c = cap_has c CLIENT_PROTOCOL_41"

definition supports_secure_connection :: "ClientCapabilities \<Rightarrow> bool" where
  "supports_secure_connection c = cap_has c CLIENT_SECURE_CONNECTION"

definition supports_plugin_auth :: "ClientCapabilities \<Rightarrow> bool" where
  "supports_plugin_auth c = cap_has c CLIENT_PLUGIN_AUTH"

definition supports_connect_attrs :: "ClientCapabilities \<Rightarrow> bool" where
  "supports_connect_attrs c = cap_has c CLIENT_CONNECT_ATTRS"

definition supports_deprecate_eof :: "ClientCapabilities \<Rightarrow> bool" where
  "supports_deprecate_eof c = cap_has c CLIENT_DEPRECATE_EOF"

definition supports_ssl :: "ClientCapabilities \<Rightarrow> bool" where
  "supports_ssl c = cap_has c CLIENT_SSL"

definition wants_connect_with_db :: "ClientCapabilities \<Rightarrow> bool" where
  "wants_connect_with_db c = cap_has c CLIENT_CONNECT_WITH_DB"

definition supports_compress :: "ClientCapabilities \<Rightarrow> bool" where
  "supports_compress c = cap_has c CLIENT_COMPRESS"

definition supports_plugin_auth_lenenc :: "ClientCapabilities \<Rightarrow> bool" where
  "supports_plugin_auth_lenenc c = cap_has c CLIENT_PLUGIN_AUTH_LENENC_CLIENT_DATA"

definition supports_query_attributes :: "ClientCapabilities \<Rightarrow> bool" where
  "supports_query_attributes c = cap_has c CLIENT_QUERY_ATTRIBUTES"

definition default_server_capabilities :: ClientCapabilities where
  "default_server_capabilities =
     CLIENT_LONG_PASSWORD OR CLIENT_FOUND_ROWS OR CLIENT_LONG_FLAG OR CLIENT_CONNECT_WITH_DB OR
     CLIENT_NO_SCHEMA OR CLIENT_IGNORE_SPACE OR CLIENT_PROTOCOL_41 OR CLIENT_TRANSACTIONS OR
     CLIENT_SECURE_CONNECTION OR CLIENT_MULTI_STATEMENTS OR CLIENT_MULTI_RESULTS OR
     CLIENT_PS_MULTI_RESULTS OR CLIENT_PLUGIN_AUTH OR CLIENT_CONNECT_ATTRS OR
     CLIENT_PLUGIN_AUTH_LENENC_CLIENT_DATA OR CLIENT_CAN_HANDLE_EXPIRED_PASSWORDS OR
     CLIENT_SESSION_TRACK OR CLIENT_DEPRECATE_EOF OR CLIENT_OPTIONAL_RESULTSET_METADATA OR
     CLIENT_QUERY_ATTRIBUTES"

definition negotiate :: "ClientCapabilities \<Rightarrow> ClientCapabilities \<Rightarrow> ClientCapabilities" where
  "negotiate client_caps server_caps = client_caps AND server_caps"

definition cap_encode :: "ClientCapabilities \<Rightarrow> byte list" where
  "cap_encode c = u32_to_le c"

definition cap_decode :: "byte list \<Rightarrow> (NovaError, ClientCapabilities) result" where
  "cap_decode bytes =
     (if length bytes < 4 then Err (Internal ''capabilities need 4 bytes'')
      else Ok (u32_from_le [bytes ! 0, bytes ! 1, bytes ! 2, bytes ! 3]))"

definition displayed_flags :: "(u32 \<times> string) list" where
  "displayed_flags =
     [(CLIENT_LONG_PASSWORD, ''LONG_PASSWORD''),
      (CLIENT_FOUND_ROWS, ''FOUND_ROWS''),
      (CLIENT_LONG_FLAG, ''LONG_FLAG''),
      (CLIENT_CONNECT_WITH_DB, ''CONNECT_WITH_DB''),
      (CLIENT_NO_SCHEMA, ''NO_SCHEMA''),
      (CLIENT_COMPRESS, ''COMPRESS''),
      (CLIENT_ODBC, ''ODBC''),
      (CLIENT_LOCAL_FILES, ''LOCAL_FILES''),
      (CLIENT_IGNORE_SPACE, ''IGNORE_SPACE''),
      (CLIENT_PROTOCOL_41, ''PROTOCOL_41''),
      (CLIENT_INTERACTIVE, ''INTERACTIVE''),
      (CLIENT_SSL, ''SSL''),
      (CLIENT_IGNORE_SIGPIPE, ''IGNORE_SIGPIPE''),
      (CLIENT_TRANSACTIONS, ''TRANSACTIONS''),
      (CLIENT_SECURE_CONNECTION, ''SECURE_CONNECTION''),
      (CLIENT_MULTI_STATEMENTS, ''MULTI_STATEMENTS''),
      (CLIENT_MULTI_RESULTS, ''MULTI_RESULTS''),
      (CLIENT_PS_MULTI_RESULTS, ''PS_MULTI_RESULTS''),
      (CLIENT_PLUGIN_AUTH, ''PLUGIN_AUTH''),
      (CLIENT_CONNECT_ATTRS, ''CONNECT_ATTRS''),
      (CLIENT_PLUGIN_AUTH_LENENC_CLIENT_DATA, ''PLUGIN_AUTH_LENENC_CLIENT_DATA''),
      (CLIENT_CAN_HANDLE_EXPIRED_PASSWORDS, ''CAN_HANDLE_EXPIRED_PASSWORDS''),
      (CLIENT_SESSION_TRACK, ''SESSION_TRACK''),
      (CLIENT_DEPRECATE_EOF, ''DEPRECATE_EOF''),
      (CLIENT_OPTIONAL_RESULTSET_METADATA, ''OPTIONAL_RESULTSET_METADATA''),
      (CLIENT_ZSTD_COMPRESSION_ALGORITHM, ''ZSTD_COMPRESSION_ALGORITHM''),
      (CLIENT_QUERY_ATTRIBUTES, ''QUERY_ATTRIBUTES''),
      (CLIENT_MULTI_FACTOR_AUTHENTICATION, ''MULTI_FACTOR_AUTHENTICATION''),
      (CLIENT_SSL_VERIFY_SERVER_CERT, ''SSL_VERIFY_SERVER_CERT''),
      (CLIENT_REMEMBER_OPTIONS, ''REMEMBER_OPTIONS'')]"

definition show_capabilities :: "ClientCapabilities \<Rightarrow> string" where
  "show_capabilities c =
     ''ClientCapabilities('' @ join_with '' | '' (map snd (filter (\<lambda>(flag, name). cap_has c flag) displayed_flags)) @ '')''"

lemma column_type_code: "column_type_from_u8 (column_type_to_u8 t) = Some t"
  by (cases t) (simp_all add: column_type_from_u8_def)

lemma column_code_type: "column_type_from_u8 b = Some t \<Longrightarrow> column_type_to_u8 t = b"
  by (simp add: column_type_from_u8_def split: if_split_asm)

text \<open>
  Column types on the wire. A code stands for a column type exactly if it is the code
  that type is sent with, so no two types share a code and no type is lost.
\<close>

lemma column_type_roundtrip: "column_type_from_u8 b = Some t \<longleftrightarrow> column_type_to_u8 t = b"
  using column_type_code [of t] column_code_type [of b t] by auto

text \<open>A type of result column is never in two of the groups, except that a year is both.\<close>

lemma type_groups:
  "is_numeric t \<and> is_temporal t \<longleftrightarrow> t = CT_Year" "\<not> (is_numeric t \<and> is_string t)"
  "\<not> (is_string t \<and> is_temporal t)"
  by (cases t; simp add: is_numeric_def is_temporal_def is_string_def)+

lemma length_sql_state [simp]: "length (sql_state code) = 5"
  by (simp add: sql_state_def)

lemma cap_has_single: "cap_has c (2 ^ n) \<longleftrightarrow> bit c n"
proof -
  have "c AND 2 ^ n = (if bit c n then 2 ^ n else 0)"
    by (rule bit_eqI) (auto simp: bit_simps)
  moreover have "bit c n \<Longrightarrow> 2 ^ n \<noteq> (0 :: u32)"
    using bit_imp_le_length [of c n] by (auto simp: bit_eq_iff bit_simps)
  ultimately show ?thesis by (simp add: cap_has_def)
qed

lemma cap_set_has: "n < 32 \<Longrightarrow> cap_has (cap_set (2 ^ m) c) (2 ^ n) \<longleftrightarrow> m = n \<or> cap_has c (2 ^ n)"
  by (auto simp: cap_has_single cap_set_def bit_simps)

lemma cap_clear_has: "cap_has (cap_clear (2 ^ m) c) (2 ^ n) \<longleftrightarrow> m \<noteq> n \<and> cap_has c (2 ^ n)"
  using bit_imp_le_length [of c n] by (auto simp: cap_has_single cap_clear_def bit_simps)

lemma supports_bit:
  "supports_ssl c \<longleftrightarrow> bit c 11" "supports_compress c \<longleftrightarrow> bit c 5"
  using cap_has_single [of c 11] cap_has_single [of c 5]
  by (simp_all add: supports_ssl_def supports_compress_def CLIENT_SSL_def CLIENT_COMPRESS_def)

lemma cap_decode_encode: "cap_decode (cap_encode c @ rest) = Ok c"
proof -
  define bs where "bs = u32_to_le c"
  have len: "length bs = 4" and val: "u32_from_le bs = c" by (simp_all add: bs_def)
  have "[bs ! 0, bs ! 1, bs ! 2, bs ! 3] = bs"
    using len by (simp add: list_eq_iff_nth_eq numeral_eq_Suc All_less_Suc2 less_Suc_eq)
  with len val show ?thesis by (simp add: cap_decode_def cap_encode_def bs_def [symmetric] nth_append)
qed

lemma default_capabilities:
  "supports_protocol_41 default_server_capabilities" "supports_plugin_auth default_server_capabilities"
  "supports_secure_connection default_server_capabilities" "\<not> supports_ssl default_server_capabilities"
  "\<not> supports_compress default_server_capabilities"
  by (simp_all add: supports_protocol_41_def supports_plugin_auth_def supports_secure_connection_def
      supports_ssl_def supports_compress_def default_server_capabilities_def client_flags cap_has_def)

text \<open>
  Capability negotiation. The flags in force are exactly those both sides announced; in
  particular compression and TLS, which the server never announces, are never in force.
\<close>

lemma negotiation_is_intersection:
  "(\<forall>n. bit (negotiate c s) n \<longleftrightarrow> bit c n \<and> bit s n) \<and>
     \<not> supports_ssl (negotiate c default_server_capabilities) \<and>
     \<not> supports_compress (negotiate c default_server_capabilities) \<and>
     cap_decode (cap_encode (negotiate c s)) = Ok (negotiate c s)"
  using default_capabilities(4,5) cap_decode_encode [of "negotiate c s" "[]"]
  by (simp add: supports_bit negotiate_def bit_simps)

end
