(* ===== verification/Storage_Data.thy ===== *)
theory Storage_Data
  imports Rust_Float Mysql_Types
begin

text \<open>
  The data plane of the storage crate: the writer and reader of micro-partitions
  (\<^verbatim>\<open>mp_writer.rs\<close>, \<^verbatim>\<open>mp_reader.rs\<close>) and of change payloads (\<^verbatim>\<open>cdc.rs\<close>), with the column
  statistics the writer stores for pruning.

  Arrow record batches, the Parquet codec and the object store are crates the sources only
  call. They are the fields of the record \<open>plane\<close>: a batch is an abstract value with its fields,
  its columns and its number of rows, and the object store is an abstract state with \<open>put\<close>, \<open>get\<close>
  and \<open>delete\<close>. The locale \<open>data_plane\<close> collects what the code relies on. A column is given by the
  cells of its Arrow array.
\<close>

subsection \<open>Arrow arrays and the external interface\<close>

datatype (plugins only: code size) array =
    Int8Array "8 word option list" | Int16Array "16 word option list" | Int32Array "32 word option list"
  | Int64Array "i64 option list" | UInt64Array "u64 option list"
  | Float32Array "32 word option list" | Float64Array "f64 option list"
  | StringArray "string option list" | BooleanArray "bool option list" | Date32Array "32 word option list"
  | OtherArray ArrowDataType "bool list"

type_synonym field = "string \<times> ArrowDataType \<times> bool"

fun array_type :: "array \<Rightarrow> ArrowDataType" where
  "array_type (Int8Array _) = ADT_Int8"
| "array_type (Int16Array _) = ADT_Int16"
| "array_type (Int32Array _) = ADT_Int32"
| "array_type (Int64Array _) = ADT_Int64"
| "array_type (UInt64Array _) = ADT_UInt64"
| "array_type (Float32Array _) = ADT_Float32"
| "array_type (Float64Array _) = ADT_Float64"
| "array_type (StringArray _) = ADT_Utf8"
| "array_type (BooleanArray _) = ADT_Boolean"
| "array_type (Date32Array _) = ADT_Date32"
| "array_type (OtherArray t _) = t"

text \<open>The validity of the cells, \<open>True\<close> where a cell is present.\<close>

fun array_valid :: "array \<Rightarrow> bool list" where
  "array_valid (Int8Array xs) = map (\<lambda>x. x \<noteq> None) xs"
| "array_valid (Int16Array xs) = map (\<lambda>x. x \<noteq> None) xs"
| "array_valid (Int32Array xs) = map (\<lambda>x. x \<noteq> None) xs"
| "array_valid (Int64Array xs) = map (\<lambda>x. x \<noteq> None) xs"
| "array_valid (UInt64Array xs) = map (\<lambda>x. x \<noteq> None) xs"
| "array_valid (Float32Array xs) = map (\<lambda>x. x \<noteq> None) xs"
| "array_valid (Float64Array xs) = map (\<lambda>x. x \<noteq> None) xs"
| "array_valid (StringArray xs) = map (\<lambda>x. x \<noteq> None) xs"
| "array_valid (BooleanArray xs) = map (\<lambda>x. x \<noteq> None) xs"
| "array_valid (Date32Array xs) = map (\<lambda>x. x \<noteq> None) xs"
| "array_valid (OtherArray _ xs) = xs"

record ('b, 'o) plane =
  ar_fields :: "'b \<Rightarrow> field list"
  ar_columns :: "'b \<Rightarrow> array list"
  ar_num_rows :: "'b \<Rightarrow> nat"
  ar_try_new :: "field list \<Rightarrow> array list \<Rightarrow> (string, 'b) result"
  ar_new_empty :: "field list \<Rightarrow> 'b"
  ar_empty_array :: "ArrowDataType \<Rightarrow> array"
  ar_slice :: "'b \<Rightarrow> nat \<Rightarrow> nat \<Rightarrow> 'b"
  ar_take :: "array \<Rightarrow> nat list \<Rightarrow> (string, array) result"
  ar_concat :: "field list \<Rightarrow> 'b list \<Rightarrow> (string, 'b) result"
  ar_memory :: "array \<Rightarrow> nat"
  pq_write :: "Compression \<Rightarrow> 'b list \<Rightarrow> (string, byte list) result"
  pq_read :: "nat option \<Rightarrow> byte list \<Rightarrow> (NovaError, 'b list) result"
  os_put :: "string \<Rightarrow> byte list \<Rightarrow> 'o \<Rightarrow> (string, unit) result \<times> 'o"
  os_get :: "string \<Rightarrow> 'o \<Rightarrow> (string, byte list) result"
  os_delete :: "string \<Rightarrow> 'o \<Rightarrow> (string, unit) result \<times> 'o"

subsection \<open>Column statistics\<close>

text \<open>\<open>Iterator::min\<close> keeps the first minimum and \<open>Iterator::max\<close> the last maximum.\<close>

fun fold1 :: "('a \<Rightarrow> 'a \<Rightarrow> 'a option) \<Rightarrow> 'a \<Rightarrow> 'a list \<Rightarrow> 'a option" where
  "fold1 f acc [] = Some acc"
| "fold1 f acc (x # xs) = (case f acc x of None \<Rightarrow> None | Some y \<Rightarrow> fold1 f y xs)"

text \<open>A comparison that is \<open>None\<close> is a \<open>partial_cmp\<close> whose \<open>unwrap\<close> panics.\<close>

definition min_pick :: "('a \<Rightarrow> 'a \<Rightarrow> bool option) \<Rightarrow> 'a \<Rightarrow> 'a \<Rightarrow> 'a option" where
  "min_pick gt acc x = map_option (\<lambda>b. if b then x else acc) (gt acc x)"

definition max_pick :: "('a \<Rightarrow> 'a \<Rightarrow> bool option) \<Rightarrow> 'a \<Rightarrow> 'a \<Rightarrow> 'a option" where
  "max_pick gt acc x = map_option (\<lambda>b. if b then acc else x) (gt acc x)"

text \<open>The bytes of the least and the greatest present cell.\<close>

definition bounds_of ::
  "('a \<Rightarrow> 'a \<Rightarrow> bool option) \<Rightarrow> ('a \<Rightarrow> byte list) \<Rightarrow> 'a option list \<Rightarrow>
   (fault, byte list option \<times> byte list option) result" where
  "bounds_of gt enc cells =
     (case List.map_filter id cells of
        [] \<Rightarrow> Ok (None, None)
      | v # vals \<Rightarrow>
          (case (fold1 (min_pick gt) v vals, fold1 (max_pick gt) v vals) of
             (Some lo, Some hi) \<Rightarrow> Ok (Some (enc lo), Some (enc hi))
           | _ \<Rightarrow> Err Panic))"

definition signed_gt :: "'a::len word \<Rightarrow> 'a word \<Rightarrow> bool option" where
  "signed_gt a b = Some (sint a > sint b)"

definition f64_gt :: "f64 \<Rightarrow> f64 \<Rightarrow> bool option" where
  "f64_gt a b = (if f64_val a = FNaN \<or> f64_val b = FNaN then None else Some (f64_lt b a))"

definition f32_val :: "32 word \<Rightarrow> fval" where
  "f32_val x =
     (let w = unat x; neg = w \<ge> 2 ^ 31; e = w div 2 ^ 23 mod 256; m = w mod 2 ^ 23;
          mag = (if e = 0 then m else (2 ^ 23 + m) * 2 ^ (e - 1)) * 2 ^ 925 in
      if e = 255 then (if m \<noteq> 0 then FNaN else if neg then FNegInf else FPosInf)
      else FFin (if neg then - int mag else int mag))"

definition f32_gt :: "32 word \<Rightarrow> 32 word \<Rightarrow> bool option" where
  "f32_gt a b = (if f32_val a = FNaN \<or> f32_val b = FNaN then None else Some (fval_lt (f32_val b) (f32_val a)))"

definition string_gt :: "string \<Rightarrow> string \<Rightarrow> bool option" where
  "string_gt a b = Some (as_bytes b < as_bytes a)"

definition array_bounds :: "array \<Rightarrow> (fault, byte list option \<times> byte list option) result" where
  "array_bounds a =
     (case a of
        Int8Array xs \<Rightarrow> bounds_of signed_gt (\<lambda>v. [v]) xs
      | Int16Array xs \<Rightarrow> bounds_of signed_gt u16_to_le xs
      | Int32Array xs \<Rightarrow> bounds_of signed_gt u32_to_le xs
      | Int64Array xs \<Rightarrow> bounds_of signed_gt u64_to_le xs
      | Float32Array xs \<Rightarrow> bounds_of f32_gt u32_to_le xs
      | Float64Array xs \<Rightarrow> bounds_of f64_gt u64_to_le xs
      | StringArray xs \<Rightarrow> bounds_of string_gt as_bytes xs
      | Date32Array xs \<Rightarrow> bounds_of signed_gt u32_to_le xs
      | _ \<Rightarrow> Ok (None, None))"

text \<open>
  The loop over the batches of one column: the bounds are taken from the first batch that has
  some, the null and byte counts from all of them.
\<close>

fun column_loop :: "(array \<Rightarrow> nat) \<Rightarrow> array list \<Rightarrow> ColumnStats \<Rightarrow> (fault, ColumnStats) result" where
  "column_loop mem [] st = Ok st"
| "column_loop mem (col # cols) st =
     (let st1 = st\<lparr>cs_null_count := cs_null_count st + of_nat (length (filter Not (array_valid col))),
                   cs_byte_size := cs_byte_size st + of_nat (mem col)\<rparr> in
      if cs_min_value st1 = None \<and> array_valid col \<noteq> []
      then and_then (array_bounds col) (\<lambda>(lo, hi).
             column_loop mem cols (if lo = None then st1 else st1\<lparr>cs_min_value := lo, cs_max_value := hi\<rparr>))
      else column_loop mem cols st1)"

definition empty_stats :: ColumnStats where
  "empty_stats = \<lparr>cs_min_value = None, cs_max_value = None, cs_null_count = 0, cs_distinct_count = 0, cs_byte_size = 0\<rparr>"

definition compute_column_stats :: "('b, 'o) plane \<Rightarrow> 'b list \<Rightarrow> (fault, ColumnId \<rightharpoonup> ColumnStats) result" where
  "compute_column_stats pl batches =
     and_then (collect_results
         (\<lambda>col_idx. column_loop (ar_memory pl) (map (\<lambda>b. ar_columns pl b ! col_idx) batches) empty_stats)
         [0..<length (ar_fields pl (hd batches))])
       (\<lambda>sts. Ok (map_of (zip (map of_nat [0..<length sts]) sts)))"

subsection \<open>Writing and reading micro-partitions\<close>

record MpWriter =
  mw_bucket :: string
  mw_target_size_bytes :: nat
  mw_compression :: Compression

definition mp_writer_new :: "string \<Rightarrow> MpWriter" where
  "mp_writer_new bucket = \<lparr>mw_bucket = bucket, mw_target_size_bytes = 50 * 1024 * 1024, mw_compression = Snappy\<rparr>"

definition temp_path :: "MpWriter \<Rightarrow> TxnId \<Rightarrow> MpId \<Rightarrow> u64 \<Rightarrow> string" where
  "temp_path wr txn_id mp_id version =
     mw_bucket wr @ ''/tmp/'' @ show_u64 txn_id @ ''/mp-'' @ show_u64 mp_id @ ''-v'' @ show_u64 version @ ''.parquet''"

definition perm_path :: "MpWriter \<Rightarrow> TableId \<Rightarrow> MpId \<Rightarrow> u64 \<Rightarrow> string" where
  "perm_path wr table_id mp_id version =
     mw_bucket wr @ ''/tables/'' @ show_u64 table_id @ ''/mp-'' @ show_u64 mp_id @ ''-v'' @ show_u64 version @ ''.parquet''"

definition total_rows :: "('b, 'o) plane \<Rightarrow> 'b list \<Rightarrow> u64" where
  "total_rows pl batches = sum_list (map (\<lambda>b. of_nat (ar_num_rows pl b)) batches)"

definition write_parquet_bytes :: "('b, 'o) plane \<Rightarrow> Compression \<Rightarrow> 'b list \<Rightarrow> (fault, byte list) result" where
  "write_parquet_bytes pl compression batches = map_err (\<lambda>e. Fail (ParquetError e)) (pq_write pl compression batches)"

definition put_object :: "('b, 'o) plane \<Rightarrow> string \<Rightarrow> byte list \<Rightarrow> 'o \<Rightarrow> (fault, unit) result \<times> 'o" where
  "put_object pl path bytes ob = (case os_put pl path bytes ob of (r, ob') \<Rightarrow> (map_err (\<lambda>e. Fail (ObjectStoreError e)) r, ob'))"

definition mp_write ::
  "('b, 'o) plane \<Rightarrow> MpWriter \<Rightarrow> TableId \<Rightarrow> MpId \<Rightarrow> u64 \<Rightarrow> 'b list \<Rightarrow> TxnId \<Rightarrow> 'o \<Rightarrow>
   (fault, MicroPartitionMeta) result \<times> 'o" where
  "mp_write pl wr table_id mp_id version batches txn_id ob =
     (if batches = [] then (Err (Fail (Internal ''cannot write empty MP'')), ob)
      else (case and_then (compute_column_stats pl batches) (\<lambda>stats.
                  and_then (write_parquet_bytes pl (mw_compression wr) batches) (\<lambda>bytes. Ok (stats, bytes))) of
              Inl e \<Rightarrow> (Err e, ob)
            | Inr (stats, bytes) \<Rightarrow>
                (case put_object pl (temp_path wr txn_id mp_id version) bytes ob of
                   (Inl e, ob') \<Rightarrow> (Err e, ob')
                 | (Inr _, ob') \<Rightarrow>
                     (Ok \<lparr>mpm_id = mp_id, mpm_table_id = table_id, mpm_partition_id = None, mpm_version = version,
                          mpm_s3_path = perm_path wr table_id mp_id version,
                          mpm_s3_temp_path = Some (temp_path wr txn_id mp_id version),
                          mpm_row_count = total_rows pl batches, mpm_byte_size = of_nat (length bytes),
                          mpm_compression = mw_compression wr, mpm_column_stats = stats, mpm_commit_ts = 0,
                          mpm_txn_id = txn_id, mpm_supersedes = None, mpm_superseded_by = None, mpm_active = False\<rparr>, ob'))))"

definition commit_mp :: "('b, 'o) plane \<Rightarrow> MicroPartitionMeta \<Rightarrow> 'o \<Rightarrow> (fault, unit) result \<times> 'o" where
  "commit_mp pl mp ob =
     (case mpm_s3_temp_path mp of
        None \<Rightarrow> (Ok (), ob)
      | Some temp \<Rightarrow>
          (case os_get pl temp ob of
             Inl e \<Rightarrow> (Err (Fail (ObjectStoreError e)), ob)
           | Inr data \<Rightarrow>
               (case put_object pl (mpm_s3_path mp) data ob of
                  (Inl e, ob1) \<Rightarrow> (Err e, ob1)
                | (Inr _, ob1) \<Rightarrow>
                    (case os_delete pl temp ob1 of (r, ob2) \<Rightarrow> (map_err (\<lambda>e. Fail (ObjectStoreError e)) r, ob2)))))"

definition abort_mp :: "('b, 'o) plane \<Rightarrow> MicroPartitionMeta \<Rightarrow> 'o \<Rightarrow> (fault, unit) result \<times> 'o" where
  "abort_mp pl mp ob =
     (case mpm_s3_temp_path mp of
        None \<Rightarrow> (Ok (), ob)
      | Some temp \<Rightarrow> (Ok (), snd (os_delete pl temp ob)))"

record MpReader =
  mr_batch_size :: nat

definition mp_reader_new :: MpReader where
  "mp_reader_new = \<lparr>mr_batch_size = 8192\<rparr>"

text \<open>Reading all columns (the executor passes no projection).\<close>

definition mp_read :: "('b, 'o) plane \<Rightarrow> MpReader \<Rightarrow> MicroPartitionMeta \<Rightarrow> 'o \<Rightarrow> (fault, 'b list) result" where
  "mp_read pl rd mp ob =
     (let path = (case mpm_s3_temp_path mp of Some p \<Rightarrow> p | None \<Rightarrow> mpm_s3_path mp) in
      and_then (map_err (\<lambda>e. Fail (ObjectStoreError e)) (os_get pl path ob)) (\<lambda>data.
      map_err Fail (pq_read pl (Some (mr_batch_size rd)) data)))"

subsection \<open>Change payloads\<close>

definition cdc_payload_path :: "string \<Rightarrow> TableId \<Rightarrow> TxnId \<Rightarrow> u64 \<Rightarrow> u64 \<Rightarrow> string" where
  "cdc_payload_path bucket table_id txn_id start_sequence end_sequence =
     bucket @ ''/cdc/tables/'' @ show_u64 table_id @ ''/txn-'' @ show_u64 txn_id @ ''/seq-'' @
     show_u64 start_sequence @ ''-'' @ show_u64 end_sequence @ ''.parquet''"

definition write_payload ::
  "('b, 'o) plane \<Rightarrow> string \<Rightarrow> TableId \<Rightarrow> TxnId \<Rightarrow> u64 \<Rightarrow> 'b \<Rightarrow> 'o \<Rightarrow> (fault, ChangePayloadRef) result \<times> 'o" where
  "write_payload pl bucket table_id txn_id start_sequence batch ob =
     (if ar_num_rows pl batch = 0 then (Err (Fail (Internal ''cannot write empty CDC payload'')), ob)
      else
        let n = of_nat (ar_num_rows pl batch);
            path = cdc_payload_path bucket table_id txn_id start_sequence (start_sequence + n - 1) in
        (case write_parquet_bytes pl Snappy [batch] of
           Inl e \<Rightarrow> (Err e, ob)
         | Inr bytes \<Rightarrow>
             (case put_object pl path bytes ob of
                (Inl e, ob') \<Rightarrow> (Err e, ob')
              | (Inr _, ob') \<Rightarrow> (Ok \<lparr>cpr_path = path, cpr_row_start = 0, cpr_row_count = n\<rparr>, ob'))))"

definition read_payload :: "('b, 'o) plane \<Rightarrow> ChangePayloadRef \<Rightarrow> 'o \<Rightarrow> (NovaError, 'b list) result" where
  "read_payload pl payload ob =
     and_then (map_err ObjectStoreError (os_get pl (cpr_path payload) ob)) (pq_read pl None)"

subsection \<open>What the code relies on\<close>

text \<open>
  A batch is a sequence of rows, slicing takes a window of them, Parquet gives back the rows that
  were written, and the object store returns what was last put at a path.
\<close>

locale data_plane =
  fixes pl :: "('b, 'o) plane" and rows :: "'b \<Rightarrow> 'r list"
  assumes num_rows: "ar_num_rows pl b = length (rows b)"
    and slice: "i + n \<le> length (rows b) \<Longrightarrow> rows (ar_slice pl b i n) = take n (drop i (rows b))"
    and new_empty: "rows (ar_new_empty pl fs) = []"
    and parquet: "pq_write pl c bs = Ok bytes \<Longrightarrow> \<exists>bs'. pq_read pl sz bytes = Ok bs' \<and> concat (map rows bs') = concat (map rows bs)"
    and put_ok: "os_put pl p bytes ob = (Ok (), ob') \<Longrightarrow> os_get pl p ob' = Ok bytes"
    and put_frame: "os_put pl p bytes ob = (r, ob') \<Longrightarrow> q \<noteq> p \<Longrightarrow> os_get pl q ob' = os_get pl q ob"
    and delete_frame: "os_delete pl p ob = (r, ob') \<Longrightarrow> q \<noteq> p \<Longrightarrow> os_get pl q ob' = os_get pl q ob"
begin

text \<open>The rows stored at a path.\<close>

definition stored :: "string \<Rightarrow> 'o \<Rightarrow> 'r list \<Rightarrow> bool" where
  "stored p ob rs \<longleftrightarrow> (\<exists>bytes. os_get pl p ob = Ok bytes \<and>
     (\<forall>sz. \<exists>bs. pq_read pl sz bytes = Ok bs \<and> concat (map rows bs) = rs))"

lemma write_stored:
  assumes "mp_write pl wr t m v batches x ob = (Ok mp, ob')"
  shows "stored (temp_path wr x m v) ob' (concat (map rows batches))"
    and "mpm_s3_temp_path mp = Some (temp_path wr x m v)" "mpm_id mp = m" "mpm_table_id mp = t"
    and "mpm_superseded_by mp = None" "mpm_s3_path mp = perm_path wr t m v"
proof -
  from assms obtain stats bytes where c: "compute_column_stats pl batches = Ok stats"
    and w: "pq_write pl (mw_compression wr) batches = Ok bytes"
    and p: "os_put pl (temp_path wr x m v) bytes ob = (Ok (), ob')"
    by (auto simp: mp_write_def write_parquet_bytes_def put_object_def and_then_Inr_iff map_err_def
        split: if_splits sum.splits prod.splits)
  from put_ok [OF p] parquet [OF w] show "stored (temp_path wr x m v) ob' (concat (map rows batches))"
    unfolding stored_def by blast
  show "mpm_s3_temp_path mp = Some (temp_path wr x m v)" "mpm_id mp = m" "mpm_table_id mp = t"
    "mpm_superseded_by mp = None" "mpm_s3_path mp = perm_path wr t m v"
    using assms by (auto simp: mp_write_def split: if_splits sum.splits prod.splits)
qed

lemma read_stored:
  assumes "stored p ob rs" "(case mpm_s3_temp_path mp of Some q \<Rightarrow> q | None \<Rightarrow> mpm_s3_path mp) = p"
  shows "\<exists>bs. mp_read pl rd mp ob = Ok bs \<and> concat (map rows bs) = rs"
proof -
  from assms(1) obtain data bs where "os_get pl p ob = Ok data" "pq_read pl (Some (mr_batch_size rd)) data = Ok bs"
    "concat (map rows bs) = rs" unfolding stored_def by blast
  with assms(2) show ?thesis by (simp add: mp_read_def map_err_def)
qed

lemma put_other:
  assumes "stored q ob rs" "put_object pl p bytes ob = (r, ob')" "q \<noteq> p"
  shows "stored q ob' rs"
  using assms put_frame [of p bytes ob _ ob' q] by (auto simp: stored_def put_object_def split: prod.splits)

lemma payload_stored:
  assumes "write_payload pl bucket t x sq batch ob = (Ok ref, ob')"
  shows "stored (cpr_path ref) ob' (rows batch)" "cpr_row_start ref = 0" "cpr_row_count ref = of_nat (length (rows batch))"
    "rows batch \<noteq> []"
proof -
  from assms obtain bytes where w: "pq_write pl Snappy [batch] = Ok bytes"
    and p: "os_put pl (cpr_path ref) bytes ob = (Ok (), ob')"
    by (auto simp: write_payload_def write_parquet_bytes_def put_object_def map_err_def Let_def
        split: if_splits sum.splits prod.splits)
  from put_ok [OF p] parquet [OF w] show "stored (cpr_path ref) ob' (rows batch)" unfolding stored_def by auto
  show "cpr_row_start ref = 0" "cpr_row_count ref = of_nat (length (rows batch))" "rows batch \<noteq> []"
    using assms num_rows by (auto simp: write_payload_def Let_def split: if_splits sum.splits prod.splits)
qed

text \<open>Moving a partition to its permanent place keeps its rows.\<close>

lemma commit_stored:
  assumes "stored t ob rs" "mpm_s3_temp_path mp = Some t" "mpm_s3_path mp \<noteq> t" "commit_mp pl mp ob = (Ok (), ob')"
  shows "stored (mpm_s3_path mp) ob' rs"
proof -
  from assms(1) obtain data where data: "os_get pl t ob = Ok data"
    "\<forall>sz. \<exists>bs. pq_read pl sz data = Ok bs \<and> concat (map rows bs) = rs" unfolding stored_def by blast
  from assms(2,4) data(1) obtain ob1 where p: "os_put pl (mpm_s3_path mp) data ob = (Ok (), ob1)"
    and d: "os_delete pl t ob1 = (Ok (), ob')"
    by (auto simp: commit_mp_def put_object_def map_err_def split: sum.splits prod.splits)
  have "os_get pl (mpm_s3_path mp) ob' = Ok data" using put_ok [OF p] delete_frame [OF d assms(3)] by simp
  with data(2) show ?thesis unfolding stored_def by blast
qed

end

text \<open>
  A plane that meets these laws: a batch is one integer column of small numbers, Parquet is
  concatenation, objects are a map.
\<close>

fun sample_cells :: "array list \<Rightarrow> (string, byte list) result" where
  "sample_cells (Int64Array xs # _) = Ok (map (\<lambda>x. case x of Some v \<Rightarrow> ucast v | None \<Rightarrow> 0) xs)"
| "sample_cells _ = Err ''not an integer column''"

fun sample_take :: "array \<Rightarrow> nat list \<Rightarrow> (string, array) result" where
  "sample_take (Int64Array xs) idx = Ok (Int64Array (map (\<lambda>i. xs ! i) idx))"
| "sample_take a idx = Ok a"

definition sample_plane :: "(byte list, string \<rightharpoonup> byte list) plane" where
  "sample_plane =
     \<lparr>ar_fields = (\<lambda>_. [(''x'', ADT_Int64, False)]), ar_columns = (\<lambda>b. [Int64Array (map (\<lambda>v. Some (ucast v)) b)]),
      ar_num_rows = length, ar_try_new = (\<lambda>_ cols. sample_cells cols),
      ar_new_empty = (\<lambda>_. []), ar_empty_array = (\<lambda>t. OtherArray t []), ar_slice = (\<lambda>b i n. take n (drop i b)),
      ar_take = sample_take, ar_concat = (\<lambda>_ bs. Ok (concat bs)), ar_memory = (\<lambda>_. 0),
      pq_write = (\<lambda>_ bs. Ok (concat bs)), pq_read = (\<lambda>_ bytes. Ok [bytes]),
      os_put = (\<lambda>p bytes ob. (Ok (), ob(p \<mapsto> bytes))),
      os_get = (\<lambda>p ob. ok_or (''not found: '' @ p) (ob p)),
      os_delete = (\<lambda>p ob. (Ok (), ob(p := None)))\<rparr>"

interpretation sp: data_plane sample_plane "\<lambda>b. b"
  by unfold_locales (auto simp: sample_plane_def)

subsection \<open>The statistics bound the values\<close>

text \<open>
  The least and greatest element of a fold over a comparison that never fails and agrees with a
  linear preorder.
\<close>

lemma fold_bounds:
  fixes val :: "'a \<Rightarrow> 'v::linorder"
  assumes "\<And>a b. gt a b = Some (val b < val a)"
  shows "\<exists>lo. fold1 (min_pick gt) v vs = Some lo \<and> lo \<in> set (v # vs) \<and> (\<forall>x \<in> set (v # vs). val lo \<le> val x)"
    and "\<exists>hi. fold1 (max_pick gt) v vs = Some hi \<and> hi \<in> set (v # vs) \<and> (\<forall>x \<in> set (v # vs). val x \<le> val hi)"
proof -
  show "\<exists>lo. fold1 (min_pick gt) v vs = Some lo \<and> lo \<in> set (v # vs) \<and> (\<forall>x \<in> set (v # vs). val lo \<le> val x)"
  proof (induction vs arbitrary: v)
    case (Cons x xs)
    let ?y = "if val x < val v then x else v"
    from Cons [of ?y] obtain lo where lo: "fold1 (min_pick gt) ?y xs = Some lo" "lo \<in> set (?y # xs)"
      "\<forall>z \<in> set (?y # xs). val lo \<le> val z" by blast
    have "fold1 (min_pick gt) v (x # xs) = Some lo" using lo(1) by (simp add: min_pick_def assms)
    moreover have "lo \<in> set (v # x # xs)" using lo(2) by (auto split: if_splits)
    moreover have "val lo \<le> val x \<and> val lo \<le> val v" using lo(3) by (auto split: if_splits)
    ultimately show ?case using lo(3) by auto
  qed simp
  show "\<exists>hi. fold1 (max_pick gt) v vs = Some hi \<and> hi \<in> set (v # vs) \<and> (\<forall>x \<in> set (v # vs). val x \<le> val hi)"
  proof (induction vs arbitrary: v)
    case (Cons x xs)
    let ?y = "if val x < val v then v else x"
    from Cons [of ?y] obtain hi where hi: "fold1 (max_pick gt) ?y xs = Some hi" "hi \<in> set (?y # xs)"
      "\<forall>z \<in> set (?y # xs). val z \<le> val hi" by blast
    have "fold1 (max_pick gt) v (x # xs) = Some hi" using hi(1) by (simp add: max_pick_def assms)
    moreover have "hi \<in> set (v # x # xs)" using hi(2) by (auto split: if_splits)
    moreover have "val x \<le> val hi \<and> val v \<le> val hi" using hi(3) by (auto split: if_splits)
    ultimately show ?case using hi(3) by auto
  qed simp
qed

lemma bounds_of_bounds:
  fixes val :: "'a \<Rightarrow> 'v::linorder"
  assumes "\<And>a b. gt a b = Some (val b < val a)" "Some x \<in> set cells"
  shows "\<exists>lo hi. bounds_of gt enc cells = Ok (Some (enc lo), Some (enc hi)) \<and> val lo \<le> val x \<and> val x \<le> val hi \<and>
     Some lo \<in> set cells \<and> Some hi \<in> set cells"
proof -
  have mem: "y \<in> set (List.map_filter id cells) \<longleftrightarrow> Some y \<in> set cells" for y
    by (auto simp: map_filter_def image_iff)
  with assms(2) obtain v vs where vs: "List.map_filter id cells = v # vs" "x \<in> set (v # vs)"
    by (cases "List.map_filter id cells") auto
  from fold_bounds [of gt val, OF assms(1), of v vs] obtain lo hi where b: "fold1 (min_pick gt) v vs = Some lo"
    "lo \<in> set (v # vs)" "\<forall>x \<in> set (v # vs). val lo \<le> val x" "fold1 (max_pick gt) v vs = Some hi" "hi \<in> set (v # vs)"
    "\<forall>x \<in> set (v # vs). val x \<le> val hi" by blast
  from b(2,5) vs(1) have "Some lo \<in> set cells" "Some hi \<in> set cells" unfolding mem [symmetric] by simp_all
  moreover have "bounds_of gt enc cells = Ok (Some (enc lo), Some (enc hi))" by (simp add: bounds_of_def vs(1) b(1,4))
  moreover have "val lo \<le> val x" "val x \<le> val hi" using b(3,6) vs(2) by blast+
  ultimately show ?thesis by blast
qed

text \<open>A float column with two values one of which is not a number stops the writer.\<close>

lemma nan_column_panics: "array_bounds (Float64Array [Some 0, Some 0x7FF8000000000000]) = Err Panic"
  by (simp add: array_bounds_def bounds_of_def map_filter_def min_pick_def f64_gt_def f64_val_def f64_exp_def f64_mant_def)

end
