(* ===== verification/Coord_Prune.thy ===== *)
theory Coord_Prune
  imports Storage_Data
begin

text \<open>
  Pruning of micro-partitions by their column statistics
  (\<^verbatim>\<open>crates/nova-coordinator/src/mp_pruning.rs\<close>, called from \<^verbatim>\<open>optimizer.rs\<close>).

  The expressions of the SQL parser crate are given by the constructors the code tells apart.
  The comparisons are made on double-precision numbers, so a number is read by \<open>f64_val\<close>.
  The lemmas show that a partition with a matching row is never skipped when its statistics come
  from one batch of 64-bit integers, and the cases in which the code does skip one.
\<close>

subsection \<open>Filters and expressions\<close>

datatype ResolvedExpr = RE_Int64 i64 | RE_Float64 f64 | RE_String string | RE_Boolean bool | RE_Null

record ResolvedFilter =
  rf_column :: string
  rf_op :: string
  rf_value :: ResolvedExpr

datatype BinaryOperator = Op_Gt | Op_GtEq | Op_Lt | Op_LtEq | Op_Eq | Op_NotEq | Op_And | Op_Or | Op_Other string

datatype Expr =
    E_BinaryOp Expr BinaryOperator Expr | E_UnaryOp Expr | E_Identifier string
  | E_Number string | E_SingleQuotedString string | E_OtherValue | E_Other

definition show_i64 :: "i64 \<Rightarrow> string" where
  "show_i64 w = (if sint w < 0 then CHR ''-'' # show_nat (nat (- sint w)) else show_nat (nat (sint w)))"

text \<open>\<open>str::parse::<i64>\<close>: an optional sign, at least one digit, nothing else, in range.\<close>

definition digit_value :: "char \<Rightarrow> nat option" where
  "digit_value c = (if 48 \<le> (of_char c :: nat) \<and> (of_char c :: nat) \<le> 57 then Some (of_char c - 48) else None)"

fun parse_digits :: "nat \<Rightarrow> string \<Rightarrow> nat option" where
  "parse_digits acc [] = Some acc"
| "parse_digits acc (c # cs) = (case digit_value c of None \<Rightarrow> None | Some d \<Rightarrow> parse_digits (10 * acc + d) cs)"

definition parse_i64 :: "string \<Rightarrow> i64 option" where
  "parse_i64 s =
     (let (neg, ds) = (case s of [] \<Rightarrow> (False, s) | c # cs \<Rightarrow> if c = CHR ''-'' then (True, cs) else if c = CHR ''+'' then (False, cs) else (False, s)) in
      if ds = [] then None
      else case parse_digits 0 ds of
             None \<Rightarrow> None
           | Some n \<Rightarrow>
               if neg then (if n \<le> 2 ^ 63 then Some (word_of_int (- int n)) else None)
               else (if n < 2 ^ 63 then Some (word_of_int (int n)) else None))"

subsection \<open>Literals and stored bounds\<close>

datatype LiteralValue = LV_Int i64 | LV_Float f64 | LV_String string

definition i64_fval :: "i64 \<Rightarrow> fval" where
  "i64_fval v = f64_val (i64_as_f64 v)"

fun to_f64 :: "LiteralValue \<Rightarrow> fval" where
  "to_f64 (LV_Int v) = i64_fval v"
| "to_f64 (LV_Float v) = f64_val v"
| "to_f64 (LV_String _) = FFin 0"

fun extract_column_name :: "Expr \<Rightarrow> string option" where
  "extract_column_name (E_Identifier n) = Some n"
| "extract_column_name _ = None"

text \<open>Parsing a decimal fraction is a parameter.\<close>

fun extract_literal_value :: "(string \<Rightarrow> f64 option) \<Rightarrow> Expr \<Rightarrow> LiteralValue option" where
  "extract_literal_value parse_f64 (E_Number n) =
     (if CHR ''.'' \<in> set n then map_option LV_Float (parse_f64 n) else map_option LV_Int (parse_i64 n))"
| "extract_literal_value parse_f64 (E_SingleQuotedString s) = Some (LV_String s)"
| "extract_literal_value parse_f64 _ = None"

definition decode_literal :: "byte list \<Rightarrow> LiteralValue \<Rightarrow> fval option" where
  "decode_literal bytes reference =
     (let is_float = (case reference of LV_Float _ \<Rightarrow> True | _ \<Rightarrow> False) in
      if length bytes = 1 then Some (f64_val (f64_of_int (uint (bytes ! 0))))
      else if length bytes = 2 then Some (f64_val (f64_of_int (sint (u16_from_le bytes))))
      else if length bytes = 4
      then Some (if is_float then f32_val (u32_from_le bytes) else f64_val (f64_of_int (sint (u32_from_le bytes))))
      else if length bytes = 8
      then Some (if is_float then f64_val (u64_from_le bytes) else i64_fval (u64_from_le bytes))
      else None)"

definition evaluate_predicate_on_stats :: "ColumnStats \<Rightarrow> BinaryOperator \<Rightarrow> LiteralValue \<Rightarrow> bool" where
  "evaluate_predicate_on_stats stats op lit =
     (case (cs_min_value stats, cs_max_value stats) of
        (Some min_bytes, Some max_bytes) \<Rightarrow>
          (case (decode_literal min_bytes lit, decode_literal max_bytes lit) of
             (Some min_v, Some max_v) \<Rightarrow>
               (case op of
                  Op_Gt \<Rightarrow> fval_lt (to_f64 lit) max_v
                | Op_GtEq \<Rightarrow> fval_le (to_f64 lit) max_v
                | Op_Lt \<Rightarrow> fval_lt min_v (to_f64 lit)
                | Op_LtEq \<Rightarrow> fval_le min_v (to_f64 lit)
                | Op_Eq \<Rightarrow> fval_le min_v (to_f64 lit) \<and> fval_le (to_f64 lit) max_v
                | _ \<Rightarrow> True)
           | _ \<Rightarrow> True)
      | _ \<Rightarrow> True)"

subsection \<open>Pruning\<close>

fun field_index :: "string \<Rightarrow> field list \<Rightarrow> nat option" where
  "field_index n [] = None"
| "field_index n (f # fs) = (if fst f = n then Some 0 else map_option Suc (field_index n fs))"

fun mp_might_match :: "(string \<Rightarrow> f64 option) \<Rightarrow> MicroPartitionMeta \<Rightarrow> Expr \<Rightarrow> field list \<Rightarrow> bool" where
  "mp_might_match pf mp (E_BinaryOp left op right) schema =
     (case op of
        Op_And \<Rightarrow> mp_might_match pf mp left schema \<and> mp_might_match pf mp right schema
      | Op_Or \<Rightarrow> mp_might_match pf mp left schema \<or> mp_might_match pf mp right schema
      | _ \<Rightarrow>
          (case (extract_column_name left, extract_literal_value pf right) of
             (Some col_name, Some lit_val) \<Rightarrow>
               (case field_index col_name schema of
                  Some col_idx \<Rightarrow>
                    (case mpm_column_stats mp (of_nat col_idx) of
                       Some stats \<Rightarrow> evaluate_predicate_on_stats stats op lit_val
                     | None \<Rightarrow> True)
                | None \<Rightarrow> True)
           | _ \<Rightarrow> True))"
| "mp_might_match pf mp _ schema = True"

definition prune_mps :: "(string \<Rightarrow> f64 option) \<Rightarrow> MicroPartitionMeta list \<Rightarrow> Expr \<Rightarrow> field list \<Rightarrow> MicroPartitionMeta list" where
  "prune_mps pf mps predicate schema = filter (\<lambda>mp. mp_might_match pf mp predicate schema) mps"

text \<open>The conversion of the resolved filter; the display of a float is a parameter.\<close>

fun resolved_value :: "(f64 \<Rightarrow> string) \<Rightarrow> ResolvedExpr \<Rightarrow> Expr" where
  "resolved_value show_f64 (RE_Int64 v) = E_Number (show_i64 v)"
| "resolved_value show_f64 (RE_Float64 v) = E_Number (show_f64 v)"
| "resolved_value show_f64 (RE_String v) = E_SingleQuotedString v"
| "resolved_value show_f64 (RE_Boolean v) = E_OtherValue"
| "resolved_value show_f64 RE_Null = E_OtherValue"

definition resolved_filter_to_expr :: "(f64 \<Rightarrow> string) \<Rightarrow> ResolvedFilter \<Rightarrow> Expr" where
  "resolved_filter_to_expr show_f64 f =
     (let col = E_Identifier (rf_column f); v = resolved_value show_f64 (rf_value f); mk = (\<lambda>op. E_BinaryOp col op v) in
      if rf_op f = ''='' then mk Op_Eq
      else if rf_op f = ''!='' \<or> rf_op f = ''<>'' then mk Op_NotEq
      else if rf_op f = ''<'' then mk Op_Lt
      else if rf_op f = ''<='' then mk Op_LtEq
      else if rf_op f = ''>'' then mk Op_Gt
      else if rf_op f = ''>='' then mk Op_GtEq
      else col)"

definition optimize_select ::
  "(f64 \<Rightarrow> string) \<Rightarrow> (string \<Rightarrow> f64 option) \<Rightarrow> ResolvedFilter option \<Rightarrow> MicroPartitionMeta list \<Rightarrow> field list \<Rightarrow> MicroPartitionMeta list" where
  "optimize_select show_f64 pf flt mps schema =
     (case flt of
        Some f \<Rightarrow> prune_mps pf mps (resolved_filter_to_expr show_f64 f) schema
      | None \<Rightarrow> mps)"

subsection \<open>Literals survive the conversion\<close>

lemma parse_digits_read:
  "(\<And>c. c \<in> set s \<Longrightarrow> 48 \<le> (of_char c :: nat) \<and> (of_char c :: nat) \<le> 57) \<Longrightarrow> parse_digits n s = Some (read_nat n s)"
  by (induction s arbitrary: n) (auto simp: digit_value_def)

lemma show_nat_nonempty: "show_nat n \<noteq> []"
  by (subst show_nat.simps) auto

lemma show_nat_first: "show_nat n = c # cs \<Longrightarrow> c \<noteq> CHR ''-'' \<and> c \<noteq> CHR ''+''"
  using show_nat_digits [of c n] by auto

lemma parse_show_i64: "parse_i64 (show_i64 w) = Some w"
proof -
  have digits: "parse_digits 0 (show_nat n) = Some n" for n
    using parse_digits_read [of "show_nat n" 0] show_nat_digits [of _ n] by (simp add: read_show_nat)
  show ?thesis
  proof (cases "sint w < 0")
    case True
    then have "nat (- sint w) \<le> 2 ^ 63" using sint_ge [of w] by simp
    with True show ?thesis by (simp add: parse_i64_def show_i64_def digits show_nat_nonempty)
  next
    case False
    then have "nat (sint w) < 2 ^ 63" using sint_lt [of w] by simp
    moreover obtain c cs where "show_nat (nat (sint w)) = c # cs" using show_nat_nonempty by (meson neq_Nil_conv)
    ultimately show ?thesis using False digits [of "nat (sint w)"] show_nat_first [of "nat (sint w)"]
      by (simp add: parse_i64_def show_i64_def)
  qed
qed

lemma show_i64_no_point: "CHR ''.'' \<notin> set (show_i64 w)"
  using show_nat_digits [of "CHR ''.''"] by (auto simp: show_i64_def)

subsection \<open>A partition with a matching row is kept\<close>

text \<open>The meaning of a comparison on 64-bit integers.\<close>

fun int_cmp :: "BinaryOperator \<Rightarrow> int \<Rightarrow> int \<Rightarrow> bool" where
  "int_cmp Op_Gt a b = (a > b)"
| "int_cmp Op_GtEq a b = (a \<ge> b)"
| "int_cmp Op_Lt a b = (a < b)"
| "int_cmp Op_LtEq a b = (a \<le> b)"
| "int_cmp Op_Eq a b = (a = b)"
| "int_cmp Op_NotEq a b = (a \<noteq> b)"
| "int_cmp _ a b = False"

text \<open>
  Whether a row satisfies a predicate: comparisons of a column with an integer literal are
  decided by the cell, everything else by an arbitrary valuation \<open>oth\<close>.
\<close>

fun int_literal :: "Expr \<Rightarrow> i64 option" where
  "int_literal (E_Number n) = (if CHR ''.'' \<in> set n then None else parse_i64 n)"
| "int_literal _ = None"

fun row_sat :: "(Expr \<Rightarrow> bool) \<Rightarrow> (string \<Rightarrow> i64 option) \<Rightarrow> Expr \<Rightarrow> bool" where
  "row_sat oth cell (E_BinaryOp l op r) =
     (case op of
        Op_And \<Rightarrow> row_sat oth cell l \<and> row_sat oth cell r
      | Op_Or \<Rightarrow> row_sat oth cell l \<or> row_sat oth cell r
      | _ \<Rightarrow>
          (case (extract_column_name l, int_literal r) of
             (Some c, Some k) \<Rightarrow> (case cell c of Some v \<Rightarrow> int_cmp op (sint v) (sint k) | None \<Rightarrow> False)
           | _ \<Rightarrow> oth (E_BinaryOp l op r)))"
| "row_sat oth cell e = oth e"

text \<open>
  The predicates the pruning treats exactly: a column is compared with integer literals only,
  and under a strict comparison with literals of at most 2 to the power 53.
\<close>

fun int_predicate :: "Expr \<Rightarrow> bool" where
  "int_predicate (E_BinaryOp l op r) =
     (case op of
        Op_And \<Rightarrow> int_predicate l \<and> int_predicate r
      | Op_Or \<Rightarrow> int_predicate l \<and> int_predicate r
      | _ \<Rightarrow> extract_column_name l \<noteq> None \<longrightarrow>
             (case r of
                E_Number n \<Rightarrow> CHR ''.'' \<notin> set n \<and>
                  (op \<in> {Op_Gt, Op_Lt} \<longrightarrow> (\<forall>k. parse_i64 n = Some k \<longrightarrow> \<bar>sint k\<bar> \<le> 2 ^ 53))
              | E_SingleQuotedString _ \<Rightarrow> False
              | _ \<Rightarrow> True))"
| "int_predicate e = True"

fun has_strict :: "Expr \<Rightarrow> bool" where
  "has_strict (E_BinaryOp l op r) = (op \<in> {Op_Gt, Op_Lt} \<or> has_strict l \<or> has_strict r)"
| "has_strict e = False"

text \<open>Statistics whose bounds are 64-bit integers around a value.\<close>

definition around :: "ColumnStats \<Rightarrow> i64 \<Rightarrow> (i64 \<Rightarrow> bool) \<Rightarrow> bool" where
  "around st v P \<longleftrightarrow> (\<exists>lo hi. cs_min_value st = Some (u64_to_le lo) \<and> cs_max_value st = Some (u64_to_le hi) \<and>
     sint lo \<le> sint v \<and> sint v \<le> sint hi \<and> P lo \<and> P hi)"

lemma evaluate_around:
  assumes "around st v P" "int_cmp op (sint v) (sint k)"
    and "op \<in> {Op_Gt, Op_Lt} \<Longrightarrow> \<bar>sint k\<bar> \<le> 2 ^ 53 \<and> (\<forall>w. P w \<longrightarrow> \<bar>sint w\<bar> \<le> 2 ^ 53)"
  shows "evaluate_predicate_on_stats st op (LV_Int k)"
proof -
  from assms(1) obtain lo hi where b: "cs_min_value st = Some (u64_to_le lo)" "cs_max_value st = Some (u64_to_le hi)"
    "sint lo \<le> sint v" "sint v \<le> sint hi" "P lo" "P hi" unfolding around_def by blast
  have le: "fval_le (i64_fval x) (i64_fval y)" if "sint x \<le> sint y" for x y
    using i64_as_f64_mono [OF that] by (simp add: i64_fval_def f64_le_def)
  have lt: "fval_lt (i64_fval x) (i64_fval y)" if "sint x < sint y" "\<bar>sint x\<bar> \<le> 2 ^ 53" "\<bar>sint y\<bar> \<le> 2 ^ 53" for x y
    using i64_as_f64_strict [OF that(2,3,1)] by (simp add: i64_fval_def f64_lt_def)
  have dec: "decode_literal (u64_to_le w) (LV_Int k) = Some (i64_fval w)" for w
    by (simp add: decode_literal_def)
  show ?thesis
    using assms(2) b lt [of k hi] lt [of lo k] le [of k hi] le [of lo k] assms(3)
    by (cases op) (simp_all add: evaluate_predicate_on_stats_def dec)
qed

text \<open>The statistics of one batch are around every cell of an integer column.\<close>

lemma stats_around:
  assumes "column_loop mem [Int64Array xs] empty_stats = Ok st" "Some v \<in> set xs"
  shows "around st v (\<lambda>w. Some w \<in> set xs)"
proof -
  from bounds_of_bounds [of signed_gt sint, OF _ assms(2), of u64_to_le] obtain lo hi where
    b: "bounds_of signed_gt u64_to_le xs = Ok (Some (u64_to_le lo), Some (u64_to_le hi))" "sint lo \<le> sint v"
    "sint v \<le> sint hi" "Some lo \<in> set xs" "Some hi \<in> set xs" by (auto simp: signed_gt_def)
  from assms(2) have "xs \<noteq> []" by auto
  with assms(1) b(1) have "cs_min_value st = Some (u64_to_le lo)" "cs_max_value st = Some (u64_to_le hi)"
    by (auto simp: Let_def empty_stats_def array_bounds_def split: if_splits)
  with b(2-) show ?thesis unfolding around_def by blast
qed

lemma of_nat_u32_inj: "i < 2 ^ 32 \<Longrightarrow> j < 2 ^ 32 \<Longrightarrow> (of_nat i :: u32) = of_nat j \<longleftrightarrow> i = j"
  by (simp add: word_unat_eq_iff unat_of_nat)

lemma stats_lookup:
  assumes "compute_column_stats pl [b] = Ok stats" "k < length (ar_fields pl b)" "length (ar_fields pl b) \<le> 2 ^ 32"
  shows "\<exists>st. stats (of_nat k) = Some st \<and> column_loop (ar_memory pl) [ar_columns pl b ! k] empty_stats = Ok st"
proof -
  let ?n = "length (ar_fields pl b)"
  from assms(1) obtain sts where
    l: "list_all2 (\<lambda>i st. column_loop (ar_memory pl) [ar_columns pl b ! i] empty_stats = Ok st) [0..<?n] sts"
    and s: "stats = map_of (zip (map of_nat [0..<length sts]) sts)"
    by (auto simp: compute_column_stats_def and_then_Inr_iff collect_results_Inr_iff simp del: column_loop.simps)
  from l have n: "length sts = ?n" by (auto dest: list_all2_lengthD)
  have d: "distinct (map (of_nat :: nat \<Rightarrow> ColumnId) [0..<length sts])"
    using assms(3) n by (auto simp: distinct_map inj_on_def of_nat_u32_inj)
  have "map_of (zip (map (of_nat :: nat \<Rightarrow> ColumnId) [0..<length sts]) sts) (map of_nat [0..<length sts] ! k) = Some (sts ! k)"
    using d assms(2) n by (intro map_of_zip_nth) simp_all
  then have "stats (of_nat k) = Some (sts ! k)" using assms(2) n by (simp add: s)
  moreover from list_all2_nthD [OF l, of k] assms(2)
  have "column_loop (ar_memory pl) [ar_columns pl b ! k] empty_stats = Ok (sts ! k)"
    by (simp del: column_loop.simps)
  ultimately show ?thesis by blast
qed

text \<open>A row of a batch, by the cells of its integer columns.\<close>

definition batch_row :: "('b, 'o) plane \<Rightarrow> 'b \<Rightarrow> nat \<Rightarrow> (string \<Rightarrow> i64 option) \<Rightarrow> bool" where
  "batch_row pl b i cell \<longleftrightarrow> (\<forall>c k. field_index c (ar_fields pl b) = Some k \<longrightarrow>
     (\<exists>xs. ar_columns pl b ! k = Int64Array xs \<and> i < length xs \<and> cell c = xs ! i))"

definition cells_exact :: "('b, 'o) plane \<Rightarrow> 'b \<Rightarrow> bool" where
  "cells_exact pl b \<longleftrightarrow> (\<forall>xs v. Int64Array xs \<in> set (ar_columns pl b) \<and> Some v \<in> set xs \<longrightarrow> \<bar>sint v\<bar> \<le> 2 ^ 53)"

lemma field_index_less: "field_index c fs = Some k \<Longrightarrow> k < length fs"
  by (induction fs arbitrary: k) (auto split: if_splits)

lemma might_match_row:
  assumes "compute_column_stats pl [b] = Ok (mpm_column_stats mp)" "length (ar_fields pl b) \<le> 2 ^ 32"
    and "length (ar_columns pl b) = length (ar_fields pl b)"
    and "batch_row pl b i cell" "int_predicate e" "has_strict e \<Longrightarrow> cells_exact pl b" "row_sat oth cell e"
  shows "mp_might_match pf mp e (ar_fields pl b)"
  using assms(5-7)
proof (induction e)
  case (E_BinaryOp l op r)
  show ?case
  proof (cases "op = Op_And \<or> op = Op_Or")
    case True
    with E_BinaryOp show ?thesis by auto
  next
    case False
    show ?thesis
    proof (cases "\<exists>c lit k st. extract_column_name l = Some c \<and> extract_literal_value pf r = Some lit \<and>
        field_index c (ar_fields pl b) = Some k \<and> mpm_column_stats mp (of_nat k) = Some st")
      case True
      then obtain c lit k st where c: "extract_column_name l = Some c" "extract_literal_value pf r = Some lit"
        "field_index c (ar_fields pl b) = Some k" "mpm_column_stats mp (of_nat k) = Some st" by blast
      with False E_BinaryOp.prems(1) obtain n w where r: "r = E_Number n" "CHR ''.'' \<notin> set n" "parse_i64 n = Some w" "lit = LV_Int w"
        "op \<in> {Op_Gt, Op_Lt} \<Longrightarrow> \<bar>sint w\<bar> \<le> 2 ^ 53"
        by (cases r; cases op) (auto split: if_splits)
      from assms(4) c(3) obtain xs where xs: "ar_columns pl b ! k = Int64Array xs" "i < length xs" "cell c = xs ! i"
        unfolding batch_row_def by blast
      note k = field_index_less [OF c(3)]
      from stats_lookup [OF assms(1) k assms(2)] c(4) xs(1)
      have st: "column_loop (ar_memory pl) [Int64Array xs] empty_stats = Ok st" by auto
      from E_BinaryOp.prems(3) False c(1) r xs(3) obtain v where v: "xs ! i = Some v" "int_cmp op (sint v) (sint w)"
        by (cases op) (auto split: option.splits)
      from v(1) xs(2) have "Some v \<in> set xs" by (metis nth_mem)
      from stats_around [OF st this] have "around st v (\<lambda>w. Some w \<in> set xs)" .
      moreover have "\<forall>w. Some w \<in> set xs \<longrightarrow> \<bar>sint w\<bar> \<le> 2 ^ 53" if "op \<in> {Op_Gt, Op_Lt}"
      proof -
        have "cells_exact pl b" using that by (intro E_BinaryOp.prems(2)) simp
        moreover have "Int64Array xs \<in> set (ar_columns pl b)" using xs(1) k assms(3) by (metis nth_mem)
        ultimately show ?thesis unfolding cells_exact_def by blast
      qed
      ultimately have "evaluate_predicate_on_stats st op (LV_Int w)"
        using v(2) r(5) by (intro evaluate_around) auto
      with c r False show ?thesis by (cases op) simp_all
    next
      case none: False
      with False show ?thesis by (cases op) (auto split: option.split)
    qed
  qed
qed simp_all


subsection \<open>Partitions of one column\<close>

definition column_plane :: "ArrowDataType \<Rightarrow> (array, unit) plane" where
  "column_plane t =
     \<lparr>ar_fields = (\<lambda>_. [(''x'', t, True)]), ar_columns = (\<lambda>b. [b]), ar_num_rows = (\<lambda>b. length (array_valid b)),
      ar_try_new = (\<lambda>_ cols. Ok (hd cols)), ar_new_empty = (\<lambda>_. OtherArray t []), ar_empty_array = (\<lambda>u. OtherArray u []), ar_slice = (\<lambda>b _ _. b), ar_take = (\<lambda>a _. Ok a), ar_concat = (\<lambda>_ bs. Ok (hd bs)),
      ar_memory = (\<lambda>_. 0), pq_write = (\<lambda>_ _. Ok []), pq_read = (\<lambda>_ _. Ok []), os_put = (\<lambda>_ _ ob. (Ok (), ob)),
      os_get = (\<lambda>_ _. Ok []), os_delete = (\<lambda>_ ob. (Ok (), ob))\<rparr>"

definition column_mp :: "array list \<Rightarrow> MicroPartitionMeta" where
  "column_mp cols =
     \<lparr>mpm_id = 1, mpm_table_id = 1, mpm_partition_id = None, mpm_version = 1, mpm_s3_path = ''p'', mpm_s3_temp_path = None,
      mpm_row_count = 1, mpm_byte_size = 1, mpm_compression = Snappy,
      mpm_column_stats = (case compute_column_stats (column_plane (array_type (hd cols))) cols of Inr st \<Rightarrow> st | Inl _ \<Rightarrow> Map.empty),
      mpm_commit_ts = 1, mpm_txn_id = 1, mpm_supersedes = None, mpm_superseded_by = None, mpm_active = True\<rparr>"

lemmas column_simps = column_mp_def column_plane_def compute_column_stats_def array_bounds_def bounds_of_def
  map_filter_def min_pick_def max_pick_def signed_gt_def string_gt_def f64_gt_def empty_stats_def Let_def


text \<open>
  Above 2 to the power 53 a strict comparison can skip a matching row: the only value is greater
  than the literal, but both are the same double.
\<close>

lemma large_integers_pruned:
  "\<not> mp_might_match pf (column_mp [Int64Array [Some 9007199254740993]])
       (E_BinaryOp (E_Identifier ''x'') Op_Gt (E_Number ''9007199254740992'')) [(''x'', ADT_Int64, True)]
   \<and> row_sat oth (\<lambda>_. Some 9007199254740993) (E_BinaryOp (E_Identifier ''x'') Op_Gt (E_Number ''9007199254740992''))"
proof -
  have p: "parse_i64 ''9007199254740992'' = Some 9007199254740992" by (simp add: parse_i64_def digit_value_def)
  have f: "i64_fval 9007199254740993 = i64_fval 9007199254740992"
    using f64_of_int_collision by (simp add: i64_fval_def i64_as_f64_def)
  have irr: "\<not> fval_lt z z" for z by (cases z) simp_all
  show ?thesis
    by (simp add: column_simps p evaluate_predicate_on_stats_def decode_literal_def f irr)
qed

text \<open>
  A text column whose bounds have eight bytes is decided by reading the text as a number and the
  literal as zero: a partition with exactly the wanted value is skipped.
\<close>

lemma text_pruned:
  "\<not> mp_might_match pf (column_mp [StringArray [Some ''nova-dbs'']])
       (E_BinaryOp (E_Identifier ''x'') Op_Eq (E_SingleQuotedString ''nova-dbs'')) [(''x'', ADT_Utf8, True)]"
proof -
  have w: "u64_from_le (as_bytes ''nova-dbs'') = 8314318008150814574" "length (as_bytes ''nova-dbs'') = 8"
    by (simp_all add: as_bytes_def u64_from_le_def)
  have "\<not> fval_le (i64_fval 8314318008150814574) (FFin 0)"
    using fval_lt_not_le [of "i64_fval 0" "i64_fval 8314318008150814574"] i64_as_f64_above [of 0 8314318008150814574]
    by (simp add: f64_lt_def i64_fval_def i64_as_f64_def f64_val_of_int f64_of_nat_def f64_mag_def f64_exp_def f64_mant_def)
  then show ?thesis by (simp add: column_simps evaluate_predicate_on_stats_def decode_literal_def w)
qed

text \<open>
  The bounds of a partition written from several batches are those of its first batch, so a value
  of a later batch is not found.
\<close>

lemma later_batch_pruned:
  "\<not> mp_might_match pf (column_mp [Int64Array [Some 1], Int64Array [Some 9]])
       (E_BinaryOp (E_Identifier ''x'') Op_Eq (E_Number ''9'')) [(''x'', ADT_Int64, True)]"
proof -
  have p: "parse_i64 ''9'' = Some 9" by (simp add: parse_i64_def digit_value_def)
  have "\<not> fval_le (i64_fval 9) (i64_fval 1)"
    using fval_lt_not_le [of "i64_fval 1" "i64_fval 9"] i64_as_f64_above [of 1 9] by (simp add: f64_lt_def i64_fval_def)
  then show ?thesis by (simp add: column_simps p evaluate_predicate_on_stats_def decode_literal_def)
qed

text \<open>
  A float literal with an integral value is displayed without a point, so the bounds of a float
  column are read as integers.
\<close>

lemma integral_float_pruned:
  assumes "show_f64 0x4014000000000000 = ''5''"
  shows "optimize_select show_f64 pf (Some \<lparr>rf_column = ''x'', rf_op = ''='', rf_value = RE_Float64 0x4014000000000000\<rparr>)
     [column_mp [Float64Array [Some 0x4014000000000000]]] [(''x'', ADT_Float64, True)] = []"
proof -
  have p: "parse_i64 ''5'' = Some 5" by (simp add: parse_i64_def digit_value_def)
  have "\<not> fval_le (i64_fval 0x4014000000000000) (i64_fval 5)"
    using fval_lt_not_le [of "i64_fval 5" "i64_fval 0x4014000000000000"] i64_as_f64_above [of 5 "0x4014000000000000"]
    by (simp add: f64_lt_def i64_fval_def)
  then show ?thesis
    by (simp add: optimize_select_def prune_mps_def resolved_filter_to_expr_def assms column_simps p
        evaluate_predicate_on_stats_def decode_literal_def)
qed

end
