(* ===== verification/Coord_Cache.thy ===== *)
theory Coord_Cache
  imports Complex_Main Nova_Types
begin

text \<open>
  The caches of the coordinator: query results, table metadata and decoded micro-partitions
  (\<^verbatim>\<open>crates/nova-coordinator/src/cache.rs\<close>), and the result cache with normalised SQL on top
  (\<^verbatim>\<open>result_cache.rs\<close>).

  A hash map is a finite association (\<^typ>\<open>('k, 'v) alist\<close>). The order in which a Rust hash map
  lists its keys is unspecified, so an operation that evicts the first key takes its position
  as an argument. The hash of the standard library and the time stamp of an entry, which nothing
  reads, are a parameter and left out.

  The lemmas show that the bounded caches never exceed their limit and only ever return what
  was stored, that invalidation removes every result that depends on a table, and that cache
  keys keep users, roles and security epochs apart.
\<close>

subsection \<open>Hash maps\<close>

definition hm_size :: "('k, 'v) alist \<Rightarrow> nat" where
  "hm_size m = length (DAList.impl_of m)"

definition hm_keys :: "('k, 'v) alist \<Rightarrow> 'k list" where
  "hm_keys m = map fst (DAList.impl_of m)"

lemma hm_size_update:
  fixes m :: "('k, 'v) alist"
  shows "hm_size (DAList.update k v m) \<le> Suc (hm_size m)"
proof -
  have "length (AList.update k v al) \<le> Suc (length al)" for al :: "('k \<times> 'v) list"
    by (induction al) auto
  then show ?thesis by (simp add: hm_size_def DAList.update.rep_eq)
qed

lemma hm_size_update_old:
  fixes m :: "('k, 'v) alist"
  assumes "DAList.lookup m k \<noteq> None"
  shows "hm_size (DAList.update k v m) = hm_size m"
proof -
  have "map_of al k \<noteq> None \<Longrightarrow> length (AList.update k v al) = length al" for al :: "('k \<times> 'v) list"
    by (induction al) auto
  with assms show ?thesis by (simp add: hm_size_def DAList.update.rep_eq DAList.lookup.rep_eq)
qed

lemma hm_keys_lookup: "k \<in> set (hm_keys m) \<longleftrightarrow> DAList.lookup m k \<noteq> None"
  by (simp add: hm_keys_def DAList.lookup.rep_eq map_of_eq_None_iff)

lemma hm_size_delete:
  fixes m :: "('k, 'v) alist"
  assumes "DAList.lookup m k \<noteq> None"
  shows "hm_size m = Suc (hm_size (DAList.delete k m))"
proof -
  have "distinct (map fst al) \<Longrightarrow> map_of al k \<noteq> None \<Longrightarrow> length al = Suc (length (AList.delete k al))"
    for al :: "('k \<times> 'v) list"
  proof (induction al)
    case (Cons x al)
    then show ?case by (cases "fst x = k") (auto simp: AList.delete_eq case_prod_unfold map_of_eq_None_iff image_iff)
  qed simp
  with assms impl_of [of m] show ?thesis
    by (simp add: hm_size_def DAList.delete.rep_eq DAList.lookup.rep_eq)
qed

lemma hm_lookup_filter:
  fixes m :: "('k, 'v) alist"
  shows "DAList.lookup (DAList.filter P m) k = (case DAList.lookup m k of Some v \<Rightarrow> if P (k, v) then Some v else None | None \<Rightarrow> None)"
proof -
  have "distinct (map fst al) \<Longrightarrow> map_of (filter P al) k =
      (case map_of al k of Some v \<Rightarrow> if P (k, v) then Some v else None | None \<Rightarrow> None)" for al :: "('k \<times> 'v) list"
    by (induction al) (auto simp: map_of_eq_None_iff image_iff split: option.splits)
  with impl_of [of m] show ?thesis by (simp add: DAList.filter.rep_eq DAList.lookup.rep_eq)
qed

subsection \<open>Statistics\<close>

datatype CacheLayer = L1Result | L2Metadata | L3Mp

record CacheStats =
  cst_hits :: u64
  cst_misses :: u64
  cst_evictions :: u64
  cst_total_bytes :: u64

definition stats_default :: CacheStats where
  "stats_default = \<lparr>cst_hits = 0, cst_misses = 0, cst_evictions = 0, cst_total_bytes = 0\<rparr>"

abbreviation hit :: "CacheStats \<Rightarrow> CacheStats" where
  "hit st \<equiv> st\<lparr>cst_hits := cst_hits st + 1\<rparr>"

abbreviation miss :: "CacheStats \<Rightarrow> CacheStats" where
  "miss st \<equiv> st\<lparr>cst_misses := cst_misses st + 1\<rparr>"

abbreviation eviction :: "CacheStats \<Rightarrow> CacheStats" where
  "eviction st \<equiv> st\<lparr>cst_evictions := cst_evictions st + 1\<rparr>"

text \<open>The quotient is exact here; the code rounds it to a 64-bit float.\<close>

definition hit_rate :: "CacheStats \<Rightarrow> rat" where
  "hit_rate st =
     (let total = cst_hits st + cst_misses st in
      if total = 0 then 0 else of_nat (unat (cst_hits st)) / of_nat (unat total))"

subsection \<open>L1: query results\<close>

record CachedResult =
  cre_columns :: "string list"
  cre_rows :: "string list list"
  cre_table_versions :: "(u64, u64) alist"

record QueryResultCache =
  qrc_cache :: "(u64, CachedResult) alist"
  qrc_stats :: CacheStats
  qrc_max_entries :: nat

definition result_cache_new :: "nat \<Rightarrow> QueryResultCache" where
  "result_cache_new max_entries =
     \<lparr>qrc_cache = DAList.empty, qrc_stats = stats_default, qrc_max_entries = max_entries\<rparr>"

text \<open>
  The key: the hash of the text and of the versions in the order of the table identifiers. The
  hash function of the standard library is an argument.
\<close>

type_synonym key_hash = "string \<Rightarrow> (u64 \<times> u64) list \<Rightarrow> u64"

definition result_key :: "key_hash \<Rightarrow> string \<Rightarrow> (u64, u64) alist \<Rightarrow> u64" where
  "result_key hash sql table_versions = hash sql (sort_key fst (DAList.impl_of table_versions))"

definition result_cache_get ::
  "u64 \<Rightarrow> QueryResultCache \<Rightarrow> (string list \<times> string list list) option \<times> QueryResultCache" where
  "result_cache_get key c =
     (case DAList.lookup (qrc_cache c) key of
        Some r \<Rightarrow>
          (if hm_size (cre_table_versions r) = 0 then (None, c\<lparr>qrc_stats := miss (qrc_stats c)\<rparr>)
           else (Some (cre_columns r, cre_rows r), c\<lparr>qrc_stats := hit (qrc_stats c)\<rparr>))
      | None \<Rightarrow> (None, c\<lparr>qrc_stats := miss (qrc_stats c)\<rparr>))"

definition result_cache_put ::
  "nat \<Rightarrow> u64 \<Rightarrow> string list \<Rightarrow> string list list \<Rightarrow> (u64, u64) alist \<Rightarrow> QueryResultCache \<Rightarrow> QueryResultCache" where
  "result_cache_put i key columns rows table_versions c =
     (if hm_size table_versions = 0 then c
      else
        (let c1 = (if hm_size (qrc_cache c) \<ge> qrc_max_entries c \<and> hm_keys (qrc_cache c) \<noteq> [] then
                     (let oldest_key = hm_keys (qrc_cache c) ! (i mod length (hm_keys (qrc_cache c))) in
                      c\<lparr>qrc_cache := DAList.delete oldest_key (qrc_cache c), qrc_stats := eviction (qrc_stats c)\<rparr>)
                   else c) in
         c1\<lparr>qrc_cache := DAList.update key
              \<lparr>cre_columns = columns, cre_rows = rows, cre_table_versions = table_versions\<rparr> (qrc_cache c1)\<rparr>))"

definition result_cache_invalidate :: "u64 \<Rightarrow> QueryResultCache \<Rightarrow> QueryResultCache" where
  "result_cache_invalidate table_id c =
     c\<lparr>qrc_cache := DAList.filter (\<lambda>(k, v). DAList.lookup (cre_table_versions v) table_id = None) (qrc_cache c)\<rparr>"

definition result_cache_clear :: "QueryResultCache \<Rightarrow> QueryResultCache" where
  "result_cache_clear c = c\<lparr>qrc_cache := DAList.empty\<rparr>"

subsection \<open>L2: table metadata\<close>

record MetadataCache =
  mdc_tables :: "(u64, TableMeta) alist"
  mdc_stats :: CacheStats

definition metadata_cache_new :: MetadataCache where
  "metadata_cache_new = \<lparr>mdc_tables = DAList.empty, mdc_stats = stats_default\<rparr>"

definition metadata_get_table :: "u64 \<Rightarrow> MetadataCache \<Rightarrow> TableMeta option \<times> MetadataCache" where
  "metadata_get_table table_id c =
     (case DAList.lookup (mdc_tables c) table_id of
        Some m \<Rightarrow> (Some m, c\<lparr>mdc_stats := hit (mdc_stats c)\<rparr>)
      | None \<Rightarrow> (None, c\<lparr>mdc_stats := miss (mdc_stats c)\<rparr>))"

definition metadata_put_table :: "u64 \<Rightarrow> TableMeta \<Rightarrow> MetadataCache \<Rightarrow> MetadataCache" where
  "metadata_put_table table_id m c = c\<lparr>mdc_tables := DAList.update table_id m (mdc_tables c)\<rparr>"

definition metadata_invalidate :: "u64 \<Rightarrow> MetadataCache \<Rightarrow> MetadataCache" where
  "metadata_invalidate table_id c = c\<lparr>mdc_tables := DAList.delete table_id (mdc_tables c)\<rparr>"

definition metadata_clear :: "MetadataCache \<Rightarrow> MetadataCache" where
  "metadata_clear c = c\<lparr>mdc_tables := DAList.empty\<rparr>"

subsection \<open>L3: micro-partitions\<close>

text \<open>The decoded batches are of an arbitrary type.\<close>

record 'b MpDataCache =
  mpc_cache :: "(string, 'b list) alist"
  mpc_stats :: CacheStats
  mpc_max_entries :: nat

definition mp_cache_new :: "nat \<Rightarrow> 'b MpDataCache" where
  "mp_cache_new max_entries = \<lparr>mpc_cache = DAList.empty, mpc_stats = stats_default, mpc_max_entries = max_entries\<rparr>"

definition mp_cache_key :: "MicroPartitionMeta \<Rightarrow> string" where
  "mp_cache_key mp = show_u64 (mpm_id mp) @ '':'' @ show_u64 (mpm_version mp)"

definition mp_cache_get :: "MicroPartitionMeta \<Rightarrow> 'b MpDataCache \<Rightarrow> 'b list option \<times> 'b MpDataCache" where
  "mp_cache_get mp c =
     (case DAList.lookup (mpc_cache c) (mp_cache_key mp) of
        Some batches \<Rightarrow> (Some batches, c\<lparr>mpc_stats := hit (mpc_stats c)\<rparr>)
      | None \<Rightarrow> (None, c\<lparr>mpc_stats := miss (mpc_stats c)\<rparr>))"

definition put_batches :: "nat \<Rightarrow> string \<Rightarrow> 'b list \<Rightarrow> 'b MpDataCache \<Rightarrow> 'b MpDataCache" where
  "put_batches i key batches c =
     (let c1 = (if hm_size (mpc_cache c) \<ge> mpc_max_entries c \<and> hm_keys (mpc_cache c) \<noteq> [] then
                  (let first_key = hm_keys (mpc_cache c) ! (i mod length (hm_keys (mpc_cache c))) in
                   c\<lparr>mpc_cache := DAList.delete first_key (mpc_cache c), mpc_stats := eviction (mpc_stats c)\<rparr>)
                else c) in
      c1\<lparr>mpc_cache := DAList.update key batches (mpc_cache c1)\<rparr>)"

definition mp_cache_put :: "nat \<Rightarrow> MicroPartitionMeta \<Rightarrow> 'b list \<Rightarrow> 'b MpDataCache \<Rightarrow> 'b MpDataCache" where
  "mp_cache_put i mp batches c = put_batches i (mp_cache_key mp) batches c"

definition mp_cache_clear :: "'b MpDataCache \<Rightarrow> 'b MpDataCache" where
  "mp_cache_clear c = c\<lparr>mpc_cache := DAList.empty\<rparr>"

subsection \<open>All layers\<close>

record 'b CacheManager =
  cm_l1_result :: QueryResultCache
  cm_l2_metadata :: MetadataCache
  cm_l3_mp :: "'b MpDataCache"

definition cache_manager_new :: "'b CacheManager" where
  "cache_manager_new =
     \<lparr>cm_l1_result = result_cache_new 1000, cm_l2_metadata = metadata_cache_new, cm_l3_mp = mp_cache_new 500\<rparr>"

definition cache_manager_stats :: "'b CacheManager \<Rightarrow> CacheLayer \<Rightarrow> CacheStats" where
  "cache_manager_stats m layer =
     (case layer of
        L1Result \<Rightarrow> qrc_stats (cm_l1_result m)
      | L2Metadata \<Rightarrow> mdc_stats (cm_l2_metadata m)
      | L3Mp \<Rightarrow> mpc_stats (cm_l3_mp m))"

definition cache_manager_invalidate :: "u64 \<Rightarrow> 'b CacheManager \<Rightarrow> 'b CacheManager" where
  "cache_manager_invalidate table_id m =
     m\<lparr>cm_l1_result := result_cache_invalidate table_id (cm_l1_result m),
       cm_l2_metadata := metadata_invalidate table_id (cm_l2_metadata m)\<rparr>"

definition cache_manager_clear_all :: "'b CacheManager \<Rightarrow> 'b CacheManager" where
  "cache_manager_clear_all m =
     m\<lparr>cm_l1_result := result_cache_clear (cm_l1_result m), cm_l2_metadata := metadata_clear (cm_l2_metadata m),
       cm_l3_mp := mp_cache_clear (cm_l3_mp m)\<rparr>"

subsection \<open>Bounded caches\<close>

text \<open>
  What the two bounded caches promise: an entry just stored is there, every other entry is
  kept or gone but never changed, and storing does not exceed the limit. Everything else about
  them follows for any sequence of insertions.
\<close>

locale bounded_cache =
  fixes find :: "'c \<Rightarrow> 'k \<Rightarrow> 'v option"
    and store :: "nat \<Rightarrow> 'k \<Rightarrow> 'v \<Rightarrow> 'c \<Rightarrow> 'c"
    and size_of :: "'c \<Rightarrow> nat"
    and limit :: "'c \<Rightarrow> nat"
    and storable :: "'v \<Rightarrow> bool"
  assumes find_store: "storable v \<Longrightarrow> find (store i k v c) k = Some v"
    and refused: "\<not> storable v \<Longrightarrow> store i k v c = c"
    and find_other: "k' \<noteq> k \<Longrightarrow> find (store i k v c) k' \<in> {find c k', None}"
    and store_limit: "limit (store i k v c) = limit c"
    and store_size: "0 < limit c \<Longrightarrow> size_of c \<le> limit c \<Longrightarrow> size_of (store i k v c) \<le> limit c"
begin

lemma sound:
  assumes "find (fold (\<lambda>(i, k, v). store i k v) ops c) k = Some v"
  shows "find c k = Some v \<or> storable v \<and> (\<exists>i. (i, k, v) \<in> set ops)"
  using assms
proof (induction ops arbitrary: c)
  case (Cons op ops)
  obtain i k' v' where op: "op = (i, k', v')" by (metis prod_cases3)
  from Cons(1) [of "store i k' v' c"] Cons(2) op
  have "find (store i k' v' c) k = Some v \<or> storable v \<and> (\<exists>i. (i, k, v) \<in> set ops)" by simp
  moreover have "find (store i k' v' c) k = Some v \<Longrightarrow> find c k = Some v \<or> (storable v \<and> k' = k \<and> v' = v)"
    using find_store [of v' i k' c] refused [of v' i k' c] find_other [of k k' i v' c]
    by (cases "storable v'"; cases "k' = k") auto
  ultimately show ?case unfolding op by auto
qed simp

lemma bounded:
  assumes "0 < limit c" "size_of c \<le> limit c"
  shows "size_of (fold (\<lambda>(i, k, v). store i k v) ops c) \<le> limit c \<and>
     limit (fold (\<lambda>(i, k, v). store i k v) ops c) = limit c"
  using assms
proof (induction ops arbitrary: c)
  case (Cons op ops)
  obtain i k' v' where op: "op = (i, k', v')" by (metis prod_cases3)
  from Cons(1) [of "store i k' v' c"] store_limit [of i k' v' c] store_size [OF Cons(2,3)] Cons(2) op
  show ?case by simp
qed simp

end

lemma nth_mod_mem: "xs \<noteq> [] \<Longrightarrow> xs ! (i mod length xs) \<in> set xs"
  by simp

text \<open>Deleting one key when the map is full makes room for one entry.\<close>

lemma evict_update_size:
  assumes "0 < n" "hm_size m \<le> n"
  shows "hm_size (DAList.update k v
     (if n \<le> hm_size m \<and> hm_keys m \<noteq> [] then DAList.delete (hm_keys m ! (i mod length (hm_keys m))) m else m)) \<le> n"
proof (cases "n \<le> hm_size m")
  case True
  then have ne: "hm_keys m \<noteq> []" using assms(1) by (auto simp: hm_size_def hm_keys_def)
  from nth_mod_mem [OF this, of i] hm_size_delete
  have "hm_size m = Suc (hm_size (DAList.delete (hm_keys m ! (i mod length (hm_keys m))) m))"
    by (metis hm_keys_lookup)
  with True ne assms(2) hm_size_update [of k v "DAList.delete (hm_keys m ! (i mod length (hm_keys m))) m"]
  show ?thesis by simp
next
  case False
  with hm_size_update [of k v m] show ?thesis by simp
qed

definition put_entry :: "nat \<Rightarrow> u64 \<Rightarrow> CachedResult \<Rightarrow> QueryResultCache \<Rightarrow> QueryResultCache" where
  "put_entry i k r c = result_cache_put i k (cre_columns r) (cre_rows r) (cre_table_versions r) c"

lemma result_put_cache:
  assumes "hm_size tv \<noteq> 0"
  shows "qrc_cache (result_cache_put i k cols rows tv c) =
     DAList.update k \<lparr>cre_columns = cols, cre_rows = rows, cre_table_versions = tv\<rparr>
       (if qrc_max_entries c \<le> hm_size (qrc_cache c) \<and> hm_keys (qrc_cache c) \<noteq> []
        then DAList.delete (hm_keys (qrc_cache c) ! (i mod length (hm_keys (qrc_cache c)))) (qrc_cache c)
        else qrc_cache c)"
    "qrc_max_entries (result_cache_put i k cols rows tv c) = qrc_max_entries c"
  using assms by (simp_all add: result_cache_put_def Let_def)

lemma mp_put_cache:
  "mpc_cache (put_batches i k bs c) = DAList.update k bs
     (if mpc_max_entries c \<le> hm_size (mpc_cache c) \<and> hm_keys (mpc_cache c) \<noteq> []
      then DAList.delete (hm_keys (mpc_cache c) ! (i mod length (hm_keys (mpc_cache c)))) (mpc_cache c)
      else mpc_cache c)"
  "mpc_max_entries (put_batches i k bs c) = mpc_max_entries c"
  by (simp_all add: put_batches_def Let_def)

lemma evicted_lookup:
  "DAList.lookup (if b then DAList.delete j m else m) k \<in> {DAList.lookup m k, None}"
  by simp

interpretation l1: bounded_cache "\<lambda>c. DAList.lookup (qrc_cache c)" put_entry "\<lambda>c. hm_size (qrc_cache c)"
  qrc_max_entries "\<lambda>r. hm_size (cre_table_versions r) \<noteq> 0"
proof (unfold_locales, goal_cases)
  case (1 v i k c)
  then show ?case by (simp add: put_entry_def result_put_cache)
next
  case (2 v i k c)
  then show ?case by (simp add: put_entry_def result_cache_put_def)
next
  case (3 k' k i v c)
  then show ?case by (cases "hm_size (cre_table_versions v) = 0")
      (simp_all add: put_entry_def result_put_cache result_cache_put_def)
next
  case (4 i k v c)
  show ?case by (simp add: put_entry_def result_cache_put_def Let_def)
next
  case (5 c i k v)
  then show ?case
    by (cases "hm_size (cre_table_versions v) = 0")
      (simp_all only: put_entry_def result_put_cache evict_update_size not_False_eq_True, simp add: result_cache_put_def)
qed

interpretation l3: bounded_cache "\<lambda>c. DAList.lookup (mpc_cache c)" put_batches "\<lambda>c. hm_size (mpc_cache c)"
  mpc_max_entries "\<lambda>_. True"
proof (unfold_locales, goal_cases)
  case (5 c i k v)
  then show ?case by (simp only: mp_put_cache evict_update_size)
qed (simp_all add: mp_put_cache)

lemma mp_cache_key_inj: "mp_cache_key a = mp_cache_key b \<longleftrightarrow> mpm_id a = mpm_id b \<and> mpm_version a = mpm_version b"
  unfolding mp_cache_key_def
  using split_at_first [OF show_u64_no_colon show_u64_no_colon] by (auto simp: show_u64_inj)

lemma fold_mp_put:
  "fold (\<lambda>(i, mp, bs). mp_cache_put i mp bs) ops c = fold (\<lambda>(i, k, bs). put_batches i k bs) (map (\<lambda>(i, mp, bs). (i, mp_cache_key mp, bs)) ops) c"
  by (induction ops arbitrary: c) (auto simp: mp_cache_put_def)



lemma result_cache_get_iff:
  "fst (result_cache_get k c) = Some (cols, rows) \<longleftrightarrow>
     (\<exists>r. DAList.lookup (qrc_cache c) k = Some r \<and> hm_size (cre_table_versions r) \<noteq> 0 \<and>
        cre_columns r = cols \<and> cre_rows r = rows)"
  by (auto simp: result_cache_get_def split: option.splits)

text \<open>
  C31. Invalidation. After a table was invalidated, no cached result that depends on it is
  returned any more and its metadata is gone, while the results that do not depend on it, and
  the metadata of the other tables, are still there.
\<close>

theorem invalidation_exact:
  "(fst (result_cache_get k (cm_l1_result (cache_manager_invalidate t m))) = Some res \<longleftrightarrow>
      fst (result_cache_get k (cm_l1_result m)) = Some res \<and>
      (case DAList.lookup (qrc_cache (cm_l1_result m)) k of None \<Rightarrow> False | Some r \<Rightarrow> DAList.lookup (cre_table_versions r) t = None)) \<and>
   fst (metadata_get_table u (cm_l2_metadata (cache_manager_invalidate t m))) =
      (if u = t then None else fst (metadata_get_table u (cm_l2_metadata m)))"
proof -
  obtain cols rows where res: "res = (cols, rows)" by (metis surj_pair)
  have "fst (result_cache_get k (cm_l1_result (cache_manager_invalidate t m))) = Some res \<longleftrightarrow>
      fst (result_cache_get k (cm_l1_result m)) = Some res \<and>
      (case DAList.lookup (qrc_cache (cm_l1_result m)) k of None \<Rightarrow> False | Some r \<Rightarrow> DAList.lookup (cre_table_versions r) t = None)"
    unfolding res result_cache_get_iff
    by (auto simp: cache_manager_invalidate_def result_cache_invalidate_def hm_lookup_filter split: option.splits if_splits)
  moreover have "fst (metadata_get_table u (cm_l2_metadata (cache_manager_invalidate t m))) =
      (if u = t then None else fst (metadata_get_table u (cm_l2_metadata m)))"
    by (simp add: metadata_get_table_def cache_manager_invalidate_def metadata_invalidate_def lookup_delete split: option.split)
  ultimately show ?thesis by blast
qed

lemma hm_empty: "hm_size m = 0 \<Longrightarrow> DAList.lookup m t = None"
  by (simp add: hm_size_def DAList.lookup.rep_eq)

subsection \<open>Results by SQL text\<close>

text \<open>Of a run of white space the first character stays.\<close>

fun collapse_ws :: "bool \<Rightarrow> string \<Rightarrow> string" where
  "collapse_ws prev_space [] = []"
| "collapse_ws prev_space (c # cs) =
     (if is_ws c then (if prev_space then collapse_ws prev_space cs else c # collapse_ws True cs)
      else c # collapse_ws False cs)"

definition normalize_sql :: "string \<Rightarrow> string" where
  "normalize_sql sql = collapse_ws False (to_ascii_lowercase (trim_end_matches (CHR '';'') (trim sql)))"

definition is_cacheable :: "string \<Rightarrow> bool" where
  "is_cacheable sql =
     (let upper = to_ascii_uppercase sql;
          non_cacheable = [''CURRENT_TIMESTAMP'', ''CURRENT_DATE'', ''CURRENT_TIME'', ''NOW()'', ''RAND()'',
            ''RANDOM()'', ''UUID()'', ''SEQUENCE'', ''AUTO_INCREMENT''] in
      \<not> list_ex (\<lambda>nc. contains_str upper nc) non_cacheable)"

record ResultCache =
  rca_inner :: QueryResultCache

definition sql_cache_new :: "nat \<Rightarrow> ResultCache" where
  "sql_cache_new max_entries = \<lparr>rca_inner = result_cache_new max_entries\<rparr>"

definition sql_cache_get ::
  "key_hash \<Rightarrow> string \<Rightarrow> (u64, u64) alist \<Rightarrow> ResultCache \<Rightarrow> (string list \<times> string list list) option \<times> ResultCache" where
  "sql_cache_get hash sql table_versions c =
     (if \<not> is_cacheable sql then (None, c)
      else
        (let normalized = normalize_sql sql;
             key = result_key hash normalized table_versions;
             (res, inner) = result_cache_get key (rca_inner c) in
         (res, c\<lparr>rca_inner := inner\<rparr>)))"

definition sql_cache_put ::
  "key_hash \<Rightarrow> nat \<Rightarrow> string \<Rightarrow> (u64, u64) alist \<Rightarrow> string list \<Rightarrow> string list list \<Rightarrow> ResultCache \<Rightarrow> ResultCache" where
  "sql_cache_put hash i sql table_versions columns rows c =
     (if \<not> is_cacheable sql then c
      else
        (let normalized = normalize_sql sql;
             key = result_key hash normalized table_versions in
         c\<lparr>rca_inner := result_cache_put i key columns rows table_versions (rca_inner c)\<rparr>))"

definition sql_cache_invalidate :: "u64 \<Rightarrow> ResultCache \<Rightarrow> ResultCache" where
  "sql_cache_invalidate table_id c = c\<lparr>rca_inner := result_cache_invalidate table_id (rca_inner c)\<rparr>"

definition sql_cache_clear :: "ResultCache \<Rightarrow> ResultCache" where
  "sql_cache_clear c = c\<lparr>rca_inner := result_cache_clear (rca_inner c)\<rparr>"

text \<open>
  Result cache round trip. A stored result of a cacheable query with at least one table
  version is returned for every spelling of the query with the same normal form and for the
  same versions; a query that calls a clock or a random function is never answered from the
  cache.
\<close>

theorem sql_cache_roundtrip:
  assumes "hm_size versions \<noteq> 0" "is_cacheable sql" "is_cacheable sql'" "normalize_sql sql' = normalize_sql sql"
    "\<not> is_cacheable q"
  shows "fst (sql_cache_get hash sql' versions (sql_cache_put hash i sql versions cols rows c)) = Some (cols, rows) \<and>
     sql_cache_get hash q versions c = (None, c) \<and> sql_cache_put hash i q versions cols rows c = c"
proof -
  have "fst (result_cache_get k (result_cache_put i k cols rows versions d)) = Some (cols, rows)" for k d
    using assms(1) result_put_cache(1) [OF assms(1), of i k cols rows d] by (simp add: result_cache_get_def)
  with assms show ?thesis
    by (simp add: sql_cache_get_def sql_cache_put_def Let_def split_beta)
qed

theorem sql_cache_roundtrip_witness:
  "fst (sql_cache_get (\<lambda>s v. 7) ''select  1;'' (DAList.update 1 1 DAList.empty)
     (sql_cache_put (\<lambda>s v. 7) 0 ''SELECT 1'' (DAList.update 1 1 DAList.empty) [''a''] [] (sql_cache_new 5))) = Some ([''a''], [])"
proof -
  have "hm_size (DAList.update 1 1 DAList.empty :: (u64, u64) alist) \<noteq> 0"
    by (simp add: hm_size_def DAList.update.rep_eq DAList.empty.rep_eq)
  moreover have "is_cacheable ''SELECT 1''" "is_cacheable ''select  1;''" "\<not> is_cacheable ''NOW()''"
    "normalize_sql ''select  1;'' = normalize_sql ''SELECT 1''" by code_simp+
  ultimately show ?thesis using sql_cache_roundtrip by blast
qed

text \<open>
  The normal form also lowers the case of string literals, so two queries with different
  answers share a cache entry.
\<close>

lemma literals_conflated:
  "normalize_sql (''SELECT * FROM t WHERE n = '' @ quoted ''A'') = normalize_sql (''SELECT * FROM t WHERE n = '' @ quoted ''a'')"
  by code_simp

text \<open>A blank before the semicolon survives, so the same query can miss its own entry.\<close>

lemma normal_form_not_stable: "normalize_sql (normalize_sql ''SELECT 1 ;'') \<noteq> normalize_sql ''SELECT 1 ;''"
  by code_simp

subsection \<open>Cache keys of the query engine\<close>

definition show_bool :: "bool \<Rightarrow> string" where
  "show_bool b = (if b then ''true'' else ''false'')"

definition security_tag :: "SecurityContext \<Rightarrow> u64 \<Rightarrow> string" where
  "security_tag security security_epoch =
     ''/*sec:user='' @ show_u64 (sec_user_id security) @ '':role='' @ show_u64 (sec_primary_role_id security) @
     '':secondary_all='' @ show_bool (sec_secondary_all security) @ '':epoch='' @ show_u64 security_epoch @ ''*/''"

definition security_cache_sql :: "string \<Rightarrow> SecurityContext \<Rightarrow> u64 \<Rightarrow> string" where
  "security_cache_sql sql security security_epoch = security_tag security security_epoch @ '' '' @ sql"

lemma strip_end_keeps:
  assumes "xs \<noteq> []" "\<not> P (last xs)"
  shows "\<exists>r. rev (dropWhile P (rev (xs @ ys))) = xs @ r"
proof -
  have "rev (dropWhile P (rev (xs @ ys))) = xs @ rev (dropWhile P (rev ys))"
  proof (cases "\<forall>y \<in> set ys. P y")
    case True
    have "dropWhile P (rev xs) = rev xs" using assms by (cases "rev xs") (auto simp: last_rev [symmetric] hd_rev)
    with True show ?thesis by (simp add: dropWhile_append)
  next
    case False
    then show ?thesis by (auto simp: dropWhile_append)
  qed
  then show ?thesis by blast
qed

lemma collapse_ws_append: "\<forall>c \<in> set xs. \<not> is_ws c \<Longrightarrow> xs \<noteq> [] \<Longrightarrow> collapse_ws b (xs @ ys) = xs @ collapse_ws False ys"
proof (induction xs arbitrary: b)
  case (Cons x xs)
  then show ?case by (cases "xs = []") auto
qed simp

lemma digit_plain: "48 \<le> (of_char c :: nat) \<and> (of_char c :: nat) \<le> 57 \<Longrightarrow> \<not> is_ws c \<and> ascii_lower c = c"
proof -
  assume d: "48 \<le> (of_char c :: nat) \<and> (of_char c :: nat) \<le> 57"
  have "\<not> CHR ''A'' \<le> c" using d by (auto simp: less_eq_char_def)
  with d show ?thesis by (auto simp: is_ws_def ascii_lower_def)
qed

lemma show_u64_plain: "c \<in> set (show_u64 w) \<Longrightarrow> \<not> is_ws c \<and> ascii_lower c = c"
  using show_nat_digits [of c "unat w"] digit_plain by (auto simp: show_u64_def)

lemma show_u64_no_star: "CHR ''*'' \<notin> set (show_u64 w)"
  using show_nat_digits [of "CHR ''*''" "unat w"] by (auto simp: show_u64_def)

lemma tag_plain: "c \<in> set (security_tag sc e) \<Longrightarrow> \<not> is_ws c \<and> ascii_lower c = c"
proof -
  let ?P = "\<lambda>c. \<not> is_ws c \<and> ascii_lower c = c"
  have fixed: "list_all ?P (''/*sec:user='' @ '':role='' @ '':secondary_all='' @ ''true'' @ ''false'' @ '':epoch='' @ ''*/'')"
    by code_simp
  note fixed [unfolded list_all_append]
  moreover have "list_all ?P (show_u64 w)" for w using show_u64_plain by (auto simp: list_all_iff)
  ultimately have "list_all ?P (security_tag sc e)"
    unfolding security_tag_def show_bool_def list_all_append by (simp only: simp_thms split: if_split)
  then show "c \<in> set (security_tag sc e) \<Longrightarrow> ?thesis" unfolding list_all_iff by blast
qed

lemma normalize_tagged: "\<exists>r. normalize_sql (security_cache_sql sql sc e) = security_tag sc e @ r"
proof -
  let ?t = "security_tag sc e"
  have ne: "?t \<noteq> []" "last ?t = CHR ''/''" "hd ?t = CHR ''/''" by (simp_all add: security_tag_def)
  have ws: "\<not> is_ws (CHR ''/'')" by code_simp
  have first: "dropWhile is_ws (?t @ ys) = ?t @ ys" for ys using ne ws by (cases ?t) auto
  obtain r1 where r1: "trim (?t @ '' '' @ sql) = ?t @ r1"
    using strip_end_keeps [of ?t is_ws "'' '' @ sql"] ne ws unfolding trim_def first by auto
  obtain r2 where r2: "trim_end_matches (CHR '';'') (?t @ r1) = ?t @ r2"
    using strip_end_keeps [of ?t "\<lambda>x. x = CHR '';''" r1] ne unfolding trim_end_matches_def by auto
  have low: "to_ascii_lowercase (?t @ r2) = ?t @ to_ascii_lowercase r2"
    using tag_plain [of _ sc e] by (simp add: to_ascii_lowercase_def map_idI)
  have "normalize_sql (security_cache_sql sql sc e) = ?t @ collapse_ws False (to_ascii_lowercase r2)"
    unfolding normalize_sql_def security_cache_sql_def r1 r2 low
    using tag_plain ne(1) by (intro collapse_ws_append) blast+
  then show ?thesis by blast
qed

lemma show_bool_inj: "show_bool a @ CHR '':'' # u = show_bool b @ CHR '':'' # v \<longleftrightarrow> a = b \<and> u = v"
  by (simp add: show_bool_def)

lemma security_tag_split:
  assumes "security_tag sc e @ u = security_tag sc' e' @ v"
  shows "sec_user_id sc = sec_user_id sc' \<and> sec_primary_role_id sc = sec_primary_role_id sc' \<and>
     sec_secondary_all sc = sec_secondary_all sc' \<and> e = e'"
  using assms unfolding security_tag_def
  by (simp add: split_at_first [OF show_u64_no_colon show_u64_no_colon] show_u64_inj show_bool_inj
      split_at_first [OF show_u64_no_star show_u64_no_star])

text \<open>
  Isolation of cache keys. If the texts under which two queries are cached have the same
  normal form, the queries were run by the same user with the same primary role, the same
  setting for secondary roles, and in the same security epoch, whatever the SQL.
\<close>

theorem cache_keys_isolated:
  assumes "normalize_sql (security_cache_sql sql sc e) = normalize_sql (security_cache_sql sql' sc' e')"
  shows "sec_user_id sc = sec_user_id sc' \<and> sec_primary_role_id sc = sec_primary_role_id sc' \<and>
     sec_secondary_all sc = sec_secondary_all sc' \<and> e = e'"
  using assms normalize_tagged [of sql sc e] normalize_tagged [of sql' sc' e'] security_tag_split by metis

theorem cache_keys_isolated_witness:
  "normalize_sql (security_cache_sql ''SELECT 1'' security_context_root 4) =
     normalize_sql (security_cache_sql ''select 1;'' security_context_root 4) \<and> (4 :: u64) = 4"
proof -
  have "normalize_sql (security_cache_sql ''SELECT 1'' security_context_root 4) =
     normalize_sql (security_cache_sql ''select 1;'' security_context_root 4)" by code_simp
  with cache_keys_isolated [OF this] show ?thesis by blast
qed

end
