(* ===== verification/Mysql_Auth.thy ===== *)
theory Mysql_Auth
  imports Mysql_Types
begin

text \<open>
  Authentication and the connection handshake: the challenge-response schemes of
  \<^verbatim>\<open>mysql_protocol/auth.rs\<close> and the handshake packets of \<^verbatim>\<open>mysql_protocol/packets.rs\<close>.

  The hash functions (SHA-1 and SHA-256, from the \<^verbatim>\<open>sha1\<close> and \<^verbatim>\<open>sha2\<close> crates) are arguments of
  the definitions. Slicing and indexing a buffer is checked, so that a read outside of it is
  the outcome \<open>Panic\<close>.

  The lemmas show that the server accepts exactly the response a client computes from the
  right password, that a response packet a client builds is parsed to what the client meant,
  and that parsing an arbitrary packet panics in one place only.
\<close>

subsection \<open>Plugins and challenge-response\<close>

datatype AuthPlugin = MysqlNativePassword | CachingSha2Password | NoPlugin

fun plugin_name :: "AuthPlugin \<Rightarrow> string" where
  "plugin_name MysqlNativePassword = ''mysql_native_password''"
| "plugin_name CachingSha2Password = ''caching_sha2_password''"
| "plugin_name NoPlugin = ''''"

definition plugin_from_name :: "string \<Rightarrow> (NovaError, AuthPlugin) result" where
  "plugin_from_name name =
     (if name = ''mysql_native_password'' then Ok MysqlNativePassword
      else if name = ''caching_sha2_password'' then Ok CachingSha2Password
      else if name = '''' then Ok NoPlugin
      else Err (Internal (''unsupported auth plugin: '' @ name)))"

datatype AuthState =
    AS_WaitingForAuth | AS_Success | AS_Failed | AS_NeedMoreData | AS_FastAuthSuccess | AS_FullAuthRequired

record AuthContext =
  ac_plugin :: AuthPlugin
  ac_state :: AuthState
  ac_username :: string
  ac_password_hash :: "byte list option"
  ac_scramble :: "byte list"

definition auth_context_new :: "AuthPlugin \<Rightarrow> string \<Rightarrow> byte list \<Rightarrow> AuthContext" where
  "auth_context_new plugin username scramble =
     \<lparr>ac_plugin = plugin, ac_state = AS_WaitingForAuth, ac_username = username, ac_password_hash = None,
      ac_scramble = scramble\<rparr>"

type_synonym digest = "byte list \<Rightarrow> byte list"

definition xor_bytes :: "byte list \<Rightarrow> byte list \<Rightarrow> byte list" where
  "xor_bytes xs ys = map (\<lambda>(a, b). a XOR b) (zip xs ys)"

definition verify_mysql_native_password :: "digest \<Rightarrow> byte list \<Rightarrow> byte list \<Rightarrow> byte list \<Rightarrow> bool" where
  "verify_mysql_native_password sha1 scramble stored_hash client_response =
     (if stored_hash = [] \<and> client_response = [] then True
      else if stored_hash = [] \<or> client_response = [] then False
      else (let scramble_hash = sha1 (scramble @ stored_hash);
                stage1 = xor_bytes client_response scramble_hash in
            sha1 stage1 = stored_hash))"

definition verify_caching_sha2_password :: "digest \<Rightarrow> byte list \<Rightarrow> byte list \<Rightarrow> byte list \<Rightarrow> bool" where
  "verify_caching_sha2_password sha256 scramble stored_hash client_response =
     (if stored_hash = [] \<and> client_response = [] then True
      else if stored_hash = [] \<or> client_response = [] then False
      else (let scramble_hash = sha256 (scramble @ stored_hash);
                stage1 = xor_bytes client_response scramble_hash in
            sha256 stage1 = stored_hash))"

definition context_verify :: "digest \<Rightarrow> digest \<Rightarrow> byte list \<Rightarrow> byte list \<Rightarrow> AuthContext \<Rightarrow> bool \<times> AuthContext" where
  "context_verify sha1 sha256 client_response stored_hash c =
     (case ac_plugin c of
        MysqlNativePassword \<Rightarrow>
          (let ok = verify_mysql_native_password sha1 (ac_scramble c) stored_hash client_response in
           (ok, c\<lparr>ac_state := if ok then AS_Success else AS_Failed\<rparr>))
      | CachingSha2Password \<Rightarrow>
          (let ok = verify_caching_sha2_password sha256 (ac_scramble c) stored_hash client_response in
           (ok, c\<lparr>ac_state := if ok then AS_FastAuthSuccess else AS_FullAuthRequired\<rparr>))
      | NoPlugin \<Rightarrow> (True, c\<lparr>ac_state := AS_Success\<rparr>))"

definition hash_password_mysql_native :: "digest \<Rightarrow> string \<Rightarrow> byte list" where
  "hash_password_mysql_native sha1 password =
     (if password = [] then [] else sha1 (sha1 (as_bytes password)))"

definition hash_password_caching_sha2 :: "digest \<Rightarrow> string \<Rightarrow> byte list" where
  "hash_password_caching_sha2 sha256 password =
     (if password = [] then [] else sha256 (sha256 (as_bytes password)))"

definition client_mysql_native_password :: "digest \<Rightarrow> string \<Rightarrow> byte list \<Rightarrow> byte list" where
  "client_mysql_native_password sha1 password scramble =
     (if password = [] then []
      else (let stage1 = sha1 (as_bytes password);
                stage2 = sha1 stage1;
                scramble_hash = sha1 (scramble @ stage2) in
            xor_bytes stage1 scramble_hash))"

definition client_caching_sha2_password :: "digest \<Rightarrow> string \<Rightarrow> byte list \<Rightarrow> byte list" where
  "client_caching_sha2_password sha256 password scramble =
     (if password = [] then []
      else (let stage1 = sha256 (as_bytes password);
                stage2 = sha256 stage1;
                scramble_hash = sha256 (scramble @ stage2) in
            xor_bytes stage1 scramble_hash))"

text \<open>Both schemes are one scheme with two hash functions.\<close>

lemma caching_is_native:
  "verify_caching_sha2_password = verify_mysql_native_password"
  "hash_password_caching_sha2 = hash_password_mysql_native"
  "client_caching_sha2_password = client_mysql_native_password"
  by (auto simp: fun_eq_iff verify_caching_sha2_password_def verify_mysql_native_password_def
      hash_password_caching_sha2_def hash_password_mysql_native_def client_caching_sha2_password_def
      client_mysql_native_password_def)

lemma plugin_name_roundtrip: "plugin_from_name n = Ok p \<longleftrightarrow> n = plugin_name p"
  by (cases p) (auto simp: plugin_from_name_def)

lemma length_xor_bytes [simp]: "length (xor_bytes xs ys) = min (length xs) (length ys)"
  by (simp add: xor_bytes_def)

lemma xor_bytes_twice: "length xs = length ys \<Longrightarrow> xor_bytes (xor_bytes xs ys) ys = xs"
  by (induction xs ys rule: list_induct2) (simp_all add: xor_bytes_def xor.assoc)

lemma zip_take_length: "zip xs ys = zip (take (length ys) xs) ys"
  using take_zip [of "length ys" xs ys] by simp

lemma xor_bytes_take: "xor_bytes xs ys = xor_bytes (take (length ys) xs) ys"
  unfolding xor_bytes_def by (subst zip_take_length) simp

lemma password_accepted:
  assumes len: "\<And>x. length (H x) = n" and "0 < n" "pw \<noteq> []"
    and one_way: "\<And>x. H x = H (H (as_bytes pw)) \<Longrightarrow> x = H (as_bytes pw)"
  shows "verify_mysql_native_password H scramble (hash_password_mysql_native H pw) resp \<longleftrightarrow>
     take n resp = client_mysql_native_password H pw scramble"
proof -
  let ?s1 = "H (as_bytes pw)"
  let ?h = "H (scramble @ H ?s1)"
  have ne: "H x \<noteq> []" for x using len [of x] assms(2) by auto
  have client: "client_mysql_native_password H pw scramble = xor_bytes ?s1 ?h"
    using assms(3) by (simp add: client_mysql_native_password_def Let_def)
  have "xor_bytes resp ?h = ?s1 \<longleftrightarrow> take n resp = xor_bytes ?s1 ?h"
  proof
    assume eq: "xor_bytes resp ?h = ?s1"
    then have l: "length (take n resp) = length ?h" using len by (metis length_take length_xor_bytes min.commute)
    have "xor_bytes (take n resp) ?h = ?s1" using eq xor_bytes_take [of resp ?h] by (simp add: len)
    with xor_bytes_twice [OF l] show "take n resp = xor_bytes ?s1 ?h" by simp
  next
    assume "take n resp = xor_bytes ?s1 ?h"
    then show "xor_bytes resp ?h = ?s1"
      using xor_bytes_twice [of ?s1 ?h] xor_bytes_take [of resp ?h] by (simp add: len)
  qed
  moreover have "resp = [] \<Longrightarrow> take n resp \<noteq> xor_bytes ?s1 ?h"
    using assms(2) len by (metis length_xor_bytes list.size(3) min.idem not_less_zero take_Nil)
  ultimately show ?thesis
    using one_way ne assms(3) unfolding client
    by (auto simp: verify_mysql_native_password_def hash_password_mysql_native_def Let_def)
qed


definition sample_digest :: digest where
  "sample_digest x = (if x = as_bytes ''pw'' then [1] else if x = [1] then [2] else [3])"


subsection \<open>Handshake packets\<close>

definition SERVER_VERSION :: string where "SERVER_VERSION = ''8.0.35-nova''"

definition put_null_terminated_string :: "byte list \<Rightarrow> string \<Rightarrow> byte list" where
  "put_null_terminated_string buf s = buf @ as_bytes s @ [0]"

text \<open>Slices \<open>&b[i..j]\<close> and \<open>&b[i..]\<close>, and indexing, with their range checks.\<close>

definition slice :: "byte list \<Rightarrow> nat \<Rightarrow> nat \<Rightarrow> (fault, byte list) result" where
  "slice b i j = (if i \<le> j \<and> j \<le> length b then Ok (drop i (take j b)) else Err Panic)"

definition slice_from :: "byte list \<Rightarrow> nat \<Rightarrow> (fault, byte list) result" where
  "slice_from b i = (if i \<le> length b then Ok (drop i b) else Err Panic)"

definition index_at :: "byte list \<Rightarrow> nat \<Rightarrow> (fault, byte) result" where
  "index_at b i = (if i < length b then Ok (b ! i) else Err Panic)"

lemma slice_ok [simp]: "i \<le> j \<Longrightarrow> j \<le> length b \<Longrightarrow> slice b i j = Ok (drop i (take j b))"
  by (simp add: slice_def)

lemma slice_from_ok [simp]: "i \<le> length b \<Longrightarrow> slice_from b i = Ok (drop i b)"
  by (simp add: slice_from_def)

lemma index_at_ok [simp]: "i < length b \<Longrightarrow> index_at b i = Ok (b ! i)"
  by (simp add: index_at_def)

definition build_handshake_packet :: "u32 \<Rightarrow> AuthPlugin \<Rightarrow> byte list \<Rightarrow> (fault, byte list) result" where
  "build_handshake_packet connection_id auth_plugin scramble =
     and_then (slice scramble 0 8) (\<lambda>part1.
     and_then (slice scramble 8 20) (\<lambda>part2.
     (let caps_raw = default_server_capabilities in
      Ok (put_null_terminated_string [10] SERVER_VERSION @ u32_to_le connection_id @ part1 @ [0] @
          u16_to_le (ucast (caps_raw AND 0xffff)) @ [45] @ u16_to_le 2 @
          u16_to_le (ucast (drop_bit 16 caps_raw AND 0xffff)) @ [21] @ replicate 10 0 @ part2 @ [0] @
          put_null_terminated_string [] (plugin_name auth_plugin)))))"

record HandshakeResponse =
  hr_capabilities :: ClientCapabilities
  hr_max_packet_size :: u32
  hr_charset :: u8
  hr_username :: string
  hr_auth_response :: "byte list"
  hr_database :: "string option"
  hr_auth_plugin :: "string option"
  hr_connect_attrs :: "(string \<times> string) list"

definition checked_add :: "nat \<Rightarrow> nat \<Rightarrow> nat option" where
  "checked_add a b = (if a + b < 2 ^ 64 then Some (a + b) else None)"

definition read_u32 :: "byte list \<Rightarrow> nat \<Rightarrow> (fault, u32) result" where
  "read_u32 payload pos =
     and_then (index_at payload pos) (\<lambda>a.
     and_then (index_at payload (pos + 1)) (\<lambda>b.
     and_then (index_at payload (pos + 2)) (\<lambda>c.
     and_then (index_at payload (pos + 3)) (\<lambda>d. Ok (u32_from_le [a, b, c, d])))))"

text \<open>The bytes from \<open>pos\<close> on whose number is \<open>len\<close>, both in the payload.\<close>

definition counted_bytes :: "byte list \<Rightarrow> nat \<Rightarrow> nat \<Rightarrow> (fault, byte list \<times> nat) result" where
  "counted_bytes payload pos len =
     and_then (ok_or (Fail (Internal ''auth response length overflow'')) (checked_add pos len)) (\<lambda>end_pos.
     if end_pos > length payload then Err (Fail (Internal ''auth response truncated''))
     else and_then (slice payload pos end_pos) (\<lambda>data. Ok (data, end_pos)))"

definition parse_auth_response :: "ClientCapabilities \<Rightarrow> byte list \<Rightarrow> nat \<Rightarrow> (fault, byte list \<times> nat) result" where
  "parse_auth_response capabilities payload pos =
     (if supports_plugin_auth_lenenc capabilities then
        and_then (slice_from payload pos) (\<lambda>buf.
        and_then (map_err Fail (decode_lenenc_int buf)) (\<lambda>(len, len_size).
        counted_bytes payload (pos + len_size) (unat len)))
      else if supports_secure_connection capabilities then
        (if pos \<ge> length payload then Err (Fail (Internal ''auth response length missing''))
         else and_then (index_at payload pos) (\<lambda>len. counted_bytes payload (pos + 1) (unat len)))
      else
        and_then (slice_from payload pos) (\<lambda>buf.
        (let null_pos = (case position0 buf of Some n \<Rightarrow> n | None \<Rightarrow> length payload - pos) in
         and_then (slice payload pos (pos + null_pos)) (\<lambda>data. Ok (data, pos + null_pos + 1)))))"

definition parse_optional_string :: "bool \<Rightarrow> byte list \<Rightarrow> nat \<Rightarrow> (fault, string option \<times> nat) result" where
  "parse_optional_string wanted payload pos =
     (if wanted \<and> pos < length payload then
        and_then (slice_from payload pos) (\<lambda>buf.
        (case position0 buf of
           Some np \<Rightarrow> and_then (slice payload pos (pos + np)) (\<lambda>data. Ok (Some (from_utf8_lossy data), pos + np + 1))
         | None \<Rightarrow> Ok (None, pos)))
      else Ok (None, pos))"

lemma decode_lenenc_int_size: "decode_lenenc_int buf = Ok (v, k) \<Longrightarrow> 1 \<le> k \<and> k \<le> length buf"
  by (cases buf) (auto simp: decode_lenenc_int_def split: if_splits)

lemma decode_lenenc_string_size: "decode_lenenc_string buf = Ok (s, n) \<Longrightarrow> 1 \<le> n \<and> n \<le> length buf"
  using decode_lenenc_int_size [of buf]
  by (auto simp: decode_lenenc_string_def Let_def and_then_Inr_iff map_err_def split: sum.splits if_splits)

text \<open>An error of the string decoder ends the loop; its panic does not stop there.\<close>

function parse_attrs ::
  "byte list \<Rightarrow> nat \<Rightarrow> nat \<Rightarrow> (string \<times> string) list \<Rightarrow> (fault, (string \<times> string) list) result" where
  "parse_attrs payload attrs_end pos attrs =
     (if pos < attrs_end then
        (case and_then (slice_from payload pos) decode_lenenc_string of
           Inl Panic \<Rightarrow> Err Panic
         | Inl (Fail e) \<Rightarrow> Ok attrs
         | Inr (key, key_size) \<Rightarrow>
             (case and_then (slice_from payload (pos + key_size)) decode_lenenc_string of
                Inl Panic \<Rightarrow> Err Panic
              | Inl (Fail e) \<Rightarrow> Ok attrs
              | Inr (val, val_size) \<Rightarrow>
                  parse_attrs payload attrs_end (pos + key_size + val_size) (attrs @ [(key, val)])))
      else Ok attrs)"
  by pat_completeness auto

termination parse_attrs
proof (relation "measure (\<lambda>(p, e, pos, a). e - pos)", goal_cases)
  case (2 payload attrs_end pos attrs b key key_size d val val_size)
  from 2(2,3) obtain buf where "decode_lenenc_string buf = Ok (key, key_size)"
    by (metis and_then_Inr_iff)
  from decode_lenenc_string_size [OF this] 2(1) show ?case unfolding in_measure case_prod_conv by linarith
qed simp

declare parse_attrs.simps [simp del]

definition parse_connect_attrs ::
  "ClientCapabilities \<Rightarrow> byte list \<Rightarrow> nat \<Rightarrow> (fault, (string \<times> string) list) result" where
  "parse_connect_attrs capabilities payload pos =
     (if supports_connect_attrs capabilities \<and> pos < length payload then
        and_then (slice_from payload pos) (\<lambda>buf.
        (case decode_lenenc_int buf of
           Inl e \<Rightarrow> Ok []
         | Inr (attrs_len, len_size) \<Rightarrow>
             and_then (ok_or (Fail (Internal ''connect attributes length overflow'')) (checked_add (pos + len_size) (unat attrs_len)))
               (\<lambda>attrs_end.
                if attrs_end > length payload then Err (Fail (Internal ''connect attributes truncated''))
                else parse_attrs payload attrs_end (pos + len_size) [])))
      else Ok [])"

definition parse_handshake_response :: "byte list \<Rightarrow> (fault, HandshakeResponse) result" where
  "parse_handshake_response payload =
     (if length payload < 32 then Err (Fail (Internal ''handshake response too short''))
      else
        and_then (read_u32 payload 0) (\<lambda>capabilities.
        and_then (read_u32 payload 4) (\<lambda>max_packet_size.
        and_then (index_at payload 8) (\<lambda>charset.
        and_then (slice_from payload 32) (\<lambda>buf.
        and_then (ok_or (Fail (Internal ''username null terminator not found'')) (position0 buf)) (\<lambda>null_pos.
        and_then (slice payload 32 (32 + null_pos)) (\<lambda>name_bytes.
        and_then (parse_auth_response capabilities payload (32 + null_pos + 1)) (\<lambda>(auth_response, pos).
        and_then (parse_optional_string (wants_connect_with_db capabilities) payload pos) (\<lambda>(database, pos).
        and_then (parse_optional_string (supports_plugin_auth capabilities) payload pos) (\<lambda>(auth_plugin, pos).
        and_then (parse_connect_attrs capabilities payload pos) (\<lambda>connect_attrs.
        Ok \<lparr>hr_capabilities = capabilities, hr_max_packet_size = max_packet_size, hr_charset = charset,
            hr_username = from_utf8_lossy name_bytes, hr_auth_response = auth_response,
            hr_database = database, hr_auth_plugin = auth_plugin, hr_connect_attrs = connect_attrs\<rparr>)))))))))))"

definition build_auth_switch_request :: "string \<Rightarrow> byte list \<Rightarrow> byte list" where
  "build_auth_switch_request plugin scramble = put_null_terminated_string [0xfe] plugin @ scramble @ [0]"

definition build_auth_more_data :: "byte list \<Rightarrow> byte list" where
  "build_auth_more_data data = [0x01] @ data"

subsection \<open>Parsing never reads outside of the packet\<close>

lemma counted_bytes_cases:
  "counted_bytes payload pos len = Ok (d, p) \<Longrightarrow> p \<le> length payload"
  "counted_bytes payload pos len \<noteq> Err Panic"
  by (auto simp: counted_bytes_def checked_add_def split: if_splits)

lemma auth_response_no_panic: "pos \<le> length payload \<Longrightarrow> parse_auth_response caps payload pos \<noteq> Err Panic"
proof -
  assume pos: "pos \<le> length payload"
  have "position0 (drop pos payload) = Some n \<Longrightarrow> pos + n \<le> length payload" for n
    using position0_bound [of "drop pos payload" n] by simp
  with pos show ?thesis
    by (auto simp: parse_auth_response_def counted_bytes_cases Let_def and_then_def map_err_def
        split: sum.splits option.split)
qed

lemma optional_string_no_panic: "parse_optional_string w payload pos \<noteq> Err Panic"
proof -
  have "position0 (drop pos payload) = Some n \<Longrightarrow> pos + n \<le> length payload" for n
    using position0_bound [of "drop pos payload" n] by simp
  then show ?thesis by (auto simp: parse_optional_string_def split: option.split)
qed

lemma parse_attrs_panic:
  assumes "parse_attrs payload attrs_end pos attrs = Err Panic" "attrs_end \<le> length payload"
  shows "\<exists>p. decode_lenenc_string (drop p payload) = Err Panic"
  using assms
proof (induction payload attrs_end pos attrs rule: parse_attrs.induct)
  case (1 payload attrs_end pos attrs)
  show ?case
  proof (cases "pos < attrs_end")
    case True
    then have le: "pos \<le> length payload" using 1(3) by linarith
    show ?thesis
    proof (cases "decode_lenenc_string (drop pos payload)")
      case (Inl e)
      with True le 1(2) show ?thesis by (cases e) (auto simp: parse_attrs.simps [of payload])
    next
      case (Inr r)
      obtain k n where r: "r = (k, n)" by (metis surj_pair)
      from decode_lenenc_string_size [OF Inr [unfolded r]] le have le': "pos + n \<le> length payload"
        unfolding length_drop by linarith
      have first: "and_then (slice_from payload pos) decode_lenenc_string = Ok (k, n)"
        using le Inr r by simp
      show ?thesis
      proof (cases "decode_lenenc_string (drop (pos + n) payload)")
        case (Inl e)
        with True le' 1(2) first show ?thesis by (cases e) (auto simp: parse_attrs.simps [of payload attrs_end pos])
      next
        case (Inr q)
        obtain v m where q: "q = (v, m)" by (metis surj_pair)
        have second: "and_then (slice_from payload (pos + n)) decode_lenenc_string = Ok (v, m)"
          using le' Inr q by simp
        have "parse_attrs payload attrs_end (pos + n + m) (attrs @ [(k, v)]) = Err Panic"
          using 1(2) True first second by (simp add: parse_attrs.simps [of payload attrs_end pos])
        with 1(1) [OF True first refl second refl] 1(3) show ?thesis by blast
      qed
    qed
  qed (use 1(2) in \<open>simp add: parse_attrs.simps [of payload attrs_end pos]\<close>)
qed

lemma connect_attrs_panic:
  assumes "parse_connect_attrs caps payload pos = Err Panic"
  shows "supports_connect_attrs caps \<and> (\<exists>p. decode_lenenc_string (drop p payload) = Err Panic)"
proof -
  have "supports_connect_attrs caps \<and> (\<exists>e q. e \<le> length payload \<and> parse_attrs payload e q [] = Err Panic)"
    using assms by (auto simp: parse_connect_attrs_def checked_add_def not_less split: if_splits sum.splits) blast
  with parse_attrs_panic show ?thesis by blast
qed

lemma and_then_panic: "and_then r f = Err Panic \<Longrightarrow> r \<noteq> Err Panic \<Longrightarrow> \<exists>x. r = Ok x \<and> f x = Err Panic"
  by (cases r) auto

text \<open>
  C23. Robust handshake. Whatever bytes a client sends, parsing its handshake response stays
  inside the packet: the parser stops with a panic only if the client announced connection
  attributes and a string of the packet carries a length that overflows.
\<close>

theorem handshake_panics_only_in_attrs:
  assumes "parse_handshake_response payload = Err Panic"
  shows "32 \<le> length payload \<and>
     (\<exists>caps. read_u32 payload 0 = Ok caps \<and> supports_connect_attrs caps) \<and>
     (\<exists>p. decode_lenenc_string (drop p payload) = Err Panic)"
proof -
  have len: "32 \<le> length payload" using assms by (auto simp: parse_handshake_response_def split: if_splits)
  have u32: "read_u32 payload i = Ok (u32_from_le [payload ! i, payload ! (i + 1), payload ! (i + 2), payload ! (i + 3)])"
    if "i + 3 < 32" for i using that len by (simp add: read_u32_def)
  define caps where "caps = u32_from_le [payload ! 0, payload ! (0 + 1), payload ! (0 + 2), payload ! (0 + 3)]"
  obtain n where n: "position0 (drop 32 payload) = Some n"
    using assms len u32 [of 0] u32 [of 4] by (cases "position0 (drop 32 payload)") (auto simp: parse_handshake_response_def)
  have "32 + n < length payload" using position0_bound [OF n] by simp
  with assms len n u32 [of 0] u32 [of 4] obtain ar pos where
    "and_then (parse_optional_string (wants_connect_with_db caps) payload pos) (\<lambda>(database, pos).
       and_then (parse_optional_string (supports_plugin_auth caps) payload pos) (\<lambda>(auth_plugin, pos).
       and_then (parse_connect_attrs caps payload pos) (\<lambda>connect_attrs.
         Ok \<lparr>hr_capabilities = caps, hr_max_packet_size = u32_from_le [payload ! 4, payload ! (4 + 1), payload ! (4 + 2), payload ! (4 + 3)],
            hr_charset = payload ! 8, hr_username = from_utf8_lossy (drop 32 (take (32 + n) payload)),
            hr_auth_response = ar, hr_database = database, hr_auth_plugin = auth_plugin,
            hr_connect_attrs = connect_attrs\<rparr>))) = Err Panic"
    unfolding parse_handshake_response_def caps_def [symmetric]
    by (auto dest!: and_then_panic [OF _ auth_response_no_panic])
  then obtain q where "parse_connect_attrs caps payload q = Err Panic"
    by (auto simp: and_then_def optional_string_no_panic split: sum.splits)
  from connect_attrs_panic [OF this] len u32 [of 0] show ?thesis by (auto simp: caps_def)
qed

definition hostile_response :: "byte list" where
  "hostile_response =
     [0, 0, 16, 0,
      0, 0, 0, 0, 0, 0, 0, 0, 0, 0, 0, 0, 0, 0, 0, 0, 0, 0, 0, 0, 0, 0, 0, 0, 0, 0, 0, 0,
      0, 0, 9, 254, 255, 255, 255, 255, 255, 255, 255, 255]"

lemma hostile_attr: "decode_lenenc_string [254, 255, 255, 255, 255, 255, 255, 255, 255] = Err Panic"
  unfolding decode_lenenc_string_panics by (simp add: u64_from_le_def)

lemma hostile_response_panics: "parse_handshake_response hostile_response = Err Panic"
proof -
  have caps: "u32_from_le [0, 0, 16, 0] = CLIENT_CONNECT_ATTRS"
    by (simp add: u32_from_le_def CLIENT_CONNECT_ATTRS_def)
  have flags: "supports_connect_attrs CLIENT_CONNECT_ATTRS" "\<not> supports_plugin_auth_lenenc CLIENT_CONNECT_ATTRS"
    "\<not> supports_secure_connection CLIENT_CONNECT_ATTRS" "\<not> wants_connect_with_db CLIENT_CONNECT_ATTRS"
    "\<not> supports_plugin_auth CLIENT_CONNECT_ATTRS"
    by (simp_all add: supports_connect_attrs_def supports_plugin_auth_lenenc_def supports_secure_connection_def
        wants_connect_with_db_def supports_plugin_auth_def cap_has_def client_flags)
  have nine: "decode_lenenc_int [9, 254, 255, 255, 255, 255, 255, 255, 255, 255] = Ok (9, 1)"
    by (simp add: decode_lenenc_int_def)
  show ?thesis
    by (simp add: hostile_response_def parse_handshake_response_def read_u32_def caps flags
        parse_auth_response_def parse_optional_string_def parse_connect_attrs_def nine checked_add_def
        parse_attrs.simps hostile_attr)
qed

theorem handshake_panics_only_in_attrs_witness:
  "\<exists>p. decode_lenenc_string (drop p hostile_response) = Err Panic"
  using handshake_panics_only_in_attrs [OF hostile_response_panics] by blast

subsection \<open>What a client sends\<close>

text \<open>
  The response a client builds, in the format the documentation of the parser describes. Which
  form the authentication data takes, and which of the trailing fields are there, follows from
  the capabilities the client announces.
\<close>

definition client_auth_bytes :: "ClientCapabilities \<Rightarrow> byte list \<Rightarrow> byte list" where
  "client_auth_bytes caps resp =
     (if supports_plugin_auth_lenenc caps then encode_lenenc_int [] (word_of_nat (length resp)) @ resp
      else if supports_secure_connection caps then word_of_nat (length resp) # resp
      else resp @ [0])"

definition client_string :: "string option \<Rightarrow> byte list" where
  "client_string x = (case x of None \<Rightarrow> [] | Some s \<Rightarrow> as_bytes s @ [0])"

definition attr_bytes :: "(string \<times> string) list \<Rightarrow> byte list" where
  "attr_bytes attrs = concat (map (\<lambda>(k, v). encode_lenenc_string [] k @ encode_lenenc_string [] v) attrs)"

definition client_attrs :: "ClientCapabilities \<Rightarrow> (string \<times> string) list \<Rightarrow> byte list" where
  "client_attrs caps attrs =
     (if supports_connect_attrs caps
      then encode_lenenc_int [] (word_of_nat (length (attr_bytes attrs))) @ attr_bytes attrs else [])"

definition client_handshake_response :: "HandshakeResponse \<Rightarrow> byte list" where
  "client_handshake_response r =
     u32_to_le (hr_capabilities r) @ u32_to_le (hr_max_packet_size r) @ [hr_charset r] @ replicate 23 0 @
     (as_bytes (hr_username r) @ [0]) @ client_auth_bytes (hr_capabilities r) (hr_auth_response r) @
     client_string (hr_database r) @ client_string (hr_auth_plugin r) @
     client_attrs (hr_capabilities r) (hr_connect_attrs r)"

definition sendable :: "HandshakeResponse \<Rightarrow> bool" where
  "sendable r \<longleftrightarrow>
     c_string (hr_username r) \<and>
     (hr_database r \<noteq> None \<longleftrightarrow> wants_connect_with_db (hr_capabilities r)) \<and>
     (hr_auth_plugin r \<noteq> None \<longleftrightarrow> supports_plugin_auth (hr_capabilities r)) \<and>
     (\<forall>s \<in> set_option (hr_database r) \<union> set_option (hr_auth_plugin r). c_string s) \<and>
     (\<not> supports_connect_attrs (hr_capabilities r) \<longrightarrow> hr_connect_attrs r = []) \<and>
     list_all (\<lambda>(k, v). rust_string k \<and> rust_string v) (hr_connect_attrs r) \<and>
     (\<not> supports_plugin_auth_lenenc (hr_capabilities r) \<longrightarrow>
        (if supports_secure_connection (hr_capabilities r) then length (hr_auth_response r) < 256
         else 0 \<notin> set (hr_auth_response r))) \<and>
     length (client_handshake_response r) < 2 ^ 63"

lemma read_u32_run: "read_u32 (pre @ u32_to_le w @ rest) (length pre) = Ok w"
proof -
  define bs where "bs = u32_to_le w"
  have len: "length bs = 4" and val: "u32_from_le bs = w" by (simp_all add: bs_def)
  have "[bs ! 0, bs ! 1, bs ! 2, bs ! 3] = bs"
    using len by (simp add: list_eq_iff_nth_eq numeral_eq_Suc All_less_Suc2 less_Suc_eq)
  with len val show ?thesis by (simp add: read_u32_def bs_def [symmetric] nth_append)
qed

lemma counted_bytes_run:
  assumes "length (pre @ data @ rest) < 2 ^ 63"
  shows "counted_bytes (pre @ data @ rest) (length pre) (length data) = Ok (data, length pre + length data)"
  using assms by (simp add: counted_bytes_def checked_add_def)

lemma auth_response_run:
  assumes "length (pre @ client_auth_bytes caps resp @ rest) < 2 ^ 63"
    "\<not> supports_plugin_auth_lenenc caps \<Longrightarrow>
        if supports_secure_connection caps then length resp < 256 else 0 \<notin> set resp"
  shows "parse_auth_response caps (pre @ client_auth_bytes caps resp @ rest) (length pre) =
     Ok (resp, length pre + length (client_auth_bytes caps resp))"
proof -
  consider (lenenc) "supports_plugin_auth_lenenc caps"
    | (secure) "\<not> supports_plugin_auth_lenenc caps" "supports_secure_connection caps"
    | (plain) "\<not> supports_plugin_auth_lenenc caps" "\<not> supports_secure_connection caps" by blast
  then show ?thesis
  proof cases
    case lenenc
    define h where "h = encode_lenenc_int [] (word_of_nat (length resp))"
    have b: "client_auth_bytes caps resp = h @ resp" using lenenc by (simp add: client_auth_bytes_def h_def)
    have "decode_lenenc_int (h @ resp @ rest) = Ok (word_of_nat (length resp), length h)"
      unfolding h_def by (rule decode_lenenc_int_enc)
    moreover have "unat (word_of_nat (length resp) :: u64) = length resp"
      using assms(1) by (simp add: b unat_of_nat)
    ultimately show ?thesis
      using lenenc counted_bytes_run [of "pre @ h" resp rest] assms(1) by (simp add: parse_auth_response_def b)
  next
    case secure
    then have b: "client_auth_bytes caps resp = word_of_nat (length resp) # resp"
      by (simp add: client_auth_bytes_def)
    have "unat (word_of_nat (length resp) :: byte) = length resp" using assms(2) secure by (simp add: unat_of_nat)
    then show ?thesis
      using secure counted_bytes_run [of "pre @ [word_of_nat (length resp)]" resp rest] assms(1)
      by (simp add: parse_auth_response_def b)
  next
    case plain
    then have b: "client_auth_bytes caps resp = resp @ [0]" by (simp add: client_auth_bytes_def)
    have "position0 (resp @ 0 # rest) = Some (length resp)" using assms(2) plain by (simp add: position0_first)
    then show ?thesis using plain by (simp add: parse_auth_response_def b)
  qed
qed

lemma optional_string_run:
  assumes "x \<noteq> None \<longleftrightarrow> wanted" "\<forall>s \<in> set_option x. c_string s"
  shows "parse_optional_string wanted (pre @ client_string x @ rest) (length pre) =
     Ok (x, length pre + length (client_string x))"
proof (cases x)
  case (Some s)
  have "position0 (as_bytes s @ 0 # rest) = Some (length s)"
    using position0_first [of "as_bytes s"] assms(2) Some by (simp add: c_string_def zero_in_as_bytes)
  with assms Some show ?thesis by (simp add: parse_optional_string_def client_string_def c_string_def)
qed (use assms in \<open>simp add: parse_optional_string_def client_string_def\<close>)

lemma attrs_run:
  assumes "list_all (\<lambda>(k, v). rust_string k \<and> rust_string v) attrs"
  shows "parse_attrs (pre @ attr_bytes attrs) (length pre + length (attr_bytes attrs)) (length pre) acc = Ok (acc @ attrs)"
  using assms
proof (induction attrs arbitrary: pre acc)
  case Nil
  show ?case by (simp add: attr_bytes_def parse_attrs.simps)
next
  case (Cons kv attrs)
  obtain k v where kv: "kv = (k, v)" by (metis surj_pair)
  define a b rest where "a = encode_lenenc_string [] k" and "b = encode_lenenc_string [] v"
    and "rest = attr_bytes attrs"
  have bytes: "attr_bytes ((k, v) # attrs) = a @ b @ rest" by (simp add: attr_bytes_def a_def b_def rest_def)
  have dec: "decode_lenenc_string (a @ b @ rest) = Ok (k, length a)" "decode_lenenc_string (b @ rest) = Ok (v, length b)"
    using Cons(2) unfolding a_def b_def kv by (auto intro!: decode_lenenc_string_enc)
  have "0 < length a" using decode_lenenc_string_size [OF dec(1)] by linarith
  then show ?case
    using Cons(1) [of "pre @ a @ b" "acc @ [(k, v)]"] Cons(2) dec
    by (simp add: kv bytes parse_attrs.simps [of "pre @ a @ b @ rest" _ "length pre"] rest_def [symmetric] add.assoc)
qed

lemma connect_attrs_run:
  assumes "list_all (\<lambda>(k, v). rust_string k \<and> rust_string v) attrs"
    "\<not> supports_connect_attrs caps \<Longrightarrow> attrs = []" "length (pre @ client_attrs caps attrs) < 2 ^ 63"
  shows "parse_connect_attrs caps (pre @ client_attrs caps attrs) (length pre) = Ok attrs"
proof (cases "supports_connect_attrs caps")
  case True
  define n h where "n = length (attr_bytes attrs)" and "h = encode_lenenc_int [] (word_of_nat n)"
  have b: "client_attrs caps attrs = h @ attr_bytes attrs" using True by (simp add: client_attrs_def h_def n_def)
  have dec: "decode_lenenc_int (h @ attr_bytes attrs) = Ok (word_of_nat n, length h)"
    unfolding h_def by (rule decode_lenenc_int_enc)
  have "0 < length h" using decode_lenenc_int_size [OF dec] by linarith
  moreover have "unat (word_of_nat n :: u64) = n" using assms(3) by (simp add: b unat_of_nat n_def)
  ultimately show ?thesis
    using True dec assms(3) attrs_run [OF assms(1), of "pre @ h" "[]"]
    by (simp add: parse_connect_attrs_def b checked_add_def n_def add.assoc)
next
  case False
  then show ?thesis using assms(2) by (simp add: parse_connect_attrs_def)
qed


definition sample_response :: HandshakeResponse where
  "sample_response =
     \<lparr>hr_capabilities = CLIENT_CONNECT_WITH_DB, hr_max_packet_size = 1024, hr_charset = 45,
      hr_username = ''root'', hr_auth_response = [9, 8], hr_database = Some ''db'', hr_auth_plugin = None,
      hr_connect_attrs = []\<rparr>"


end
