(* ===== verification/Mysql_Session.thy ===== *)
theory Mysql_Session
  imports Mysql_Auth
begin

text \<open>
  The session of one MySQL connection (\<^verbatim>\<open>mysql_protocol/connection.rs\<close>) and the command
  handlers with the packets they answer with (\<^verbatim>\<open>mysql_protocol/commands.rs\<close>).

  A hash map is a partial function. The connection counter, a process-wide atomic, is passed
  in and out. Identifiers are 32 bits wide and wrap.

  The lemmas show that the status word of a session follows its transaction and autocommit
  state, that prepared statements are found under the identifier their preparation returned,
  and that a client reads back from a row packet exactly the values of the row.
\<close>

subsection \<open>Sessions\<close>

definition next_connection_id :: "u32 \<Rightarrow> u32 \<times> u32" where
  "next_connection_id counter = (counter, counter + 1)"

datatype TransactionState = TS_None | TS_Active | TS_Dirty

definition STATUS_IN_TRANS :: u16 where "STATUS_IN_TRANS = 0x0001"
definition STATUS_AUTOCOMMIT :: u16 where "STATUS_AUTOCOMMIT = 0x0002"

record ParamBinding =
  pb_param_type :: u16
  pb_value :: "byte list option"
  pb_is_null :: bool

record PreparedStatement =
  ps_stmt_id :: u32
  ps_sql :: string
  ps_num_params :: u16
  ps_num_columns :: u16
  ps_params :: "ParamBinding list"

record Session =
  ss_connection_id :: u32
  ss_current_db :: string
  ss_username :: string
  ss_auth :: AuthContext
  ss_client_capabilities :: ClientCapabilities
  ss_server_status :: u16
  ss_variables :: "string \<rightharpoonup> string"
  ss_transaction_state :: TransactionState
  ss_charset :: u16
  ss_connect_attrs :: "string \<rightharpoonup> string"
  ss_warning_count :: u16
  ss_affected_rows :: u64
  ss_last_insert_id :: u64
  ss_prepared_statements :: "u32 \<rightharpoonup> PreparedStatement"
  ss_security :: SecurityContext
  ss_next_stmt_id :: u32
  ss_closed :: bool

definition default_variables :: "string \<rightharpoonup> string" where
  "default_variables =
     [''autocommit'' \<mapsto> ''1'', ''character_set_client'' \<mapsto> ''utf8mb4'',
      ''character_set_connection'' \<mapsto> ''utf8mb4'', ''character_set_results'' \<mapsto> ''utf8mb4'',
      ''collation_connection'' \<mapsto> ''utf8mb4_general_ci'',
      ''sql_mode'' \<mapsto> ''ONLY_FULL_GROUP_BY,STRICT_TRANS_TABLES,NO_ZERO_IN_DATE,NO_ZERO_DATE,ERROR_FOR_DIVISION_BY_ZERO,NO_ENGINE_SUBSTITUTION'',
      ''wait_timeout'' \<mapsto> ''28800'', ''interactive_timeout'' \<mapsto> ''28800'',
      ''max_allowed_packet'' \<mapsto> ''67108864'', ''net_buffer_length'' \<mapsto> ''16384'',
      ''version'' \<mapsto> ''8.0.35-nova'', ''version_comment'' \<mapsto> ''Nova Analytical Engine'']"

definition session_new :: "u32 \<Rightarrow> string \<Rightarrow> AuthPlugin \<Rightarrow> byte list \<Rightarrow> Session \<times> u32" where
  "session_new counter username auth_plugin scramble =
     (let (connection_id, counter) = next_connection_id counter in
      (\<lparr>ss_connection_id = connection_id, ss_current_db = [], ss_username = username,
        ss_auth = auth_context_new auth_plugin username scramble, ss_client_capabilities = 0,
        ss_server_status = STATUS_AUTOCOMMIT, ss_variables = default_variables,
        ss_transaction_state = TS_None, ss_charset = 45, ss_connect_attrs = Map.empty,
        ss_warning_count = 0, ss_affected_rows = 0, ss_last_insert_id = 0,
        ss_prepared_statements = Map.empty, ss_security = security_context_root, ss_next_stmt_id = 1,
        ss_closed = False\<rparr>, counter))"

definition set_database :: "string \<Rightarrow> Session \<Rightarrow> Session" where
  "set_database db ss = ss\<lparr>ss_current_db := db\<rparr>"

definition set_variable :: "string \<Rightarrow> string \<Rightarrow> Session \<Rightarrow> Session" where
  "set_variable name val ss =
     (let lower = to_ascii_lowercase name;
          ss1 = ss\<lparr>ss_variables := (ss_variables ss)(lower \<mapsto> val)\<rparr> in
      if lower = ''autocommit'' then
        (if val = ''1'' \<or> eq_ignore_ascii_case val ''on''
         then ss1\<lparr>ss_server_status := ss_server_status ss1 OR STATUS_AUTOCOMMIT\<rparr>
         else ss1\<lparr>ss_server_status := ss_server_status ss1 AND NOT STATUS_AUTOCOMMIT\<rparr>)
      else ss1)"

definition get_variable :: "string \<Rightarrow> Session \<Rightarrow> string option" where
  "get_variable name ss = ss_variables ss (to_ascii_lowercase name)"

definition session_begin_transaction :: "Session \<Rightarrow> Session" where
  "session_begin_transaction ss =
     ss\<lparr>ss_transaction_state := TS_Active, ss_server_status := ss_server_status ss OR STATUS_IN_TRANS\<rparr>"

definition session_commit_transaction :: "Session \<Rightarrow> Session" where
  "session_commit_transaction ss =
     ss\<lparr>ss_transaction_state := TS_None, ss_server_status := ss_server_status ss AND NOT STATUS_IN_TRANS\<rparr>"

definition session_rollback_transaction :: "Session \<Rightarrow> Session" where
  "session_rollback_transaction ss =
     ss\<lparr>ss_transaction_state := TS_None, ss_server_status := ss_server_status ss AND NOT STATUS_IN_TRANS\<rparr>"

definition add_prepared_statement :: "string \<Rightarrow> u16 \<Rightarrow> Session \<Rightarrow> u32 \<times> Session" where
  "add_prepared_statement sql num_params ss =
     (let stmt_id = ss_next_stmt_id ss;
          stmt = \<lparr>ps_stmt_id = stmt_id, ps_sql = sql, ps_num_params = num_params, ps_num_columns = 0, ps_params = []\<rparr> in
      (stmt_id, ss\<lparr>ss_next_stmt_id := stmt_id + 1,
                   ss_prepared_statements := (ss_prepared_statements ss)(stmt_id \<mapsto> stmt)\<rparr>))"

definition get_prepared_statement :: "u32 \<Rightarrow> Session \<Rightarrow> PreparedStatement option" where
  "get_prepared_statement stmt_id ss = ss_prepared_statements ss stmt_id"

definition remove_prepared_statement :: "u32 \<Rightarrow> Session \<Rightarrow> bool \<times> Session" where
  "remove_prepared_statement stmt_id ss =
     (ss_prepared_statements ss stmt_id \<noteq> None,
      ss\<lparr>ss_prepared_statements := (ss_prepared_statements ss)(stmt_id := None)\<rparr>)"

definition reset_result_state :: "Session \<Rightarrow> Session" where
  "reset_result_state ss = ss\<lparr>ss_affected_rows := 0, ss_last_insert_id := 0, ss_warning_count := 0\<rparr>"

definition session_close :: "Session \<Rightarrow> Session" where
  "session_close ss = ss\<lparr>ss_closed := True, ss_prepared_statements := Map.empty\<rparr>"

subsection \<open>Commands\<close>

datatype (plugins only: code size) Command =
    ComSleep | ComQuit | ComInitDb | ComQuery | ComFieldList | ComCreateDb | ComDropDb |
    ComRefresh | ComShutdown | ComStatistics | ComProcessInfo | ComConnect | ComProcessKill |
    ComDebug | ComPing | ComTime | ComDelayedInsert | ComChangeUser | ComBinlogDump |
    ComTableDump | ComConnectOut | ComRegisterSlave | ComStmtPrepare | ComStmtExecute |
    ComStmtSendLongData | ComStmtClose | ComStmtReset | ComSetOption | ComStmtFetch | ComDaemon |
    ComBinlogDumpGtid | ComResetConnection | ComUnknown

definition command_from_u8 :: "u8 \<Rightarrow> Command" where
  "command_from_u8 val =
     (if val = 0x00 then ComSleep
      else if val = 0x01 then ComQuit
      else if val = 0x02 then ComInitDb
      else if val = 0x03 then ComQuery
      else if val = 0x04 then ComFieldList
      else if val = 0x05 then ComCreateDb
      else if val = 0x06 then ComDropDb
      else if val = 0x07 then ComRefresh
      else if val = 0x08 then ComShutdown
      else if val = 0x09 then ComStatistics
      else if val = 0x0a then ComProcessInfo
      else if val = 0x0b then ComConnect
      else if val = 0x0c then ComProcessKill
      else if val = 0x0d then ComDebug
      else if val = 0x0e then ComPing
      else if val = 0x0f then ComTime
      else if val = 0x10 then ComDelayedInsert
      else if val = 0x11 then ComChangeUser
      else if val = 0x12 then ComBinlogDump
      else if val = 0x13 then ComTableDump
      else if val = 0x14 then ComConnectOut
      else if val = 0x15 then ComRegisterSlave
      else if val = 0x16 then ComStmtPrepare
      else if val = 0x17 then ComStmtExecute
      else if val = 0x18 then ComStmtSendLongData
      else if val = 0x19 then ComStmtClose
      else if val = 0x1a then ComStmtReset
      else if val = 0x1b then ComSetOption
      else if val = 0x1c then ComStmtFetch
      else if val = 0x1d then ComDaemon
      else if val = 0x1e then ComBinlogDumpGtid
      else if val = 0x1f then ComResetConnection
      else ComUnknown)"

fun command_name :: "Command \<Rightarrow> string" where
  "command_name ComSleep = ''COM_SLEEP''"
| "command_name ComQuit = ''COM_QUIT''"
| "command_name ComInitDb = ''COM_INIT_DB''"
| "command_name ComQuery = ''COM_QUERY''"
| "command_name ComFieldList = ''COM_FIELD_LIST''"
| "command_name ComCreateDb = ''COM_CREATE_DB''"
| "command_name ComDropDb = ''COM_DROP_DB''"
| "command_name ComRefresh = ''COM_REFRESH''"
| "command_name ComShutdown = ''COM_SHUTDOWN''"
| "command_name ComStatistics = ''COM_STATISTICS''"
| "command_name ComProcessInfo = ''COM_PROCESS_INFO''"
| "command_name ComConnect = ''COM_CONNECT''"
| "command_name ComProcessKill = ''COM_PROCESS_KILL''"
| "command_name ComDebug = ''COM_DEBUG''"
| "command_name ComPing = ''COM_PING''"
| "command_name ComTime = ''COM_TIME''"
| "command_name ComDelayedInsert = ''COM_DELAYED_INSERT''"
| "command_name ComChangeUser = ''COM_CHANGE_USER''"
| "command_name ComBinlogDump = ''COM_BINLOG_DUMP''"
| "command_name ComTableDump = ''COM_TABLE_DUMP''"
| "command_name ComConnectOut = ''COM_CONNECT_OUT''"
| "command_name ComRegisterSlave = ''COM_REGISTER_SLAVE''"
| "command_name ComStmtPrepare = ''COM_STMT_PREPARE''"
| "command_name ComStmtExecute = ''COM_STMT_EXECUTE''"
| "command_name ComStmtSendLongData = ''COM_STMT_SEND_LONG_DATA''"
| "command_name ComStmtClose = ''COM_STMT_CLOSE''"
| "command_name ComStmtReset = ''COM_STMT_RESET''"
| "command_name ComSetOption = ''COM_SET_OPTION''"
| "command_name ComStmtFetch = ''COM_STMT_FETCH''"
| "command_name ComDaemon = ''COM_DAEMON''"
| "command_name ComBinlogDumpGtid = ''COM_BINLOG_DUMP_GTID''"
| "command_name ComResetConnection = ''COM_RESET_CONNECTION''"
| "command_name ComUnknown = ''COM_UNKNOWN''"

text \<open>The column of a result set; \<^verbatim>\<open>commands.rs\<close> calls it \<open>ColumnDef\<close>.\<close>

record WireColumn =
  wc_name :: string
  wc_col_type :: ColumnType
  wc_flags :: u16
  wc_decimals :: u8

datatype CommandResult =
    CR_Ok u64 u64 string
  | CR_Error u16 string
  | CR_ResultSet "WireColumn list" "string option list list"
  | CR_Eof
  | CR_Close

definition text_column :: "string \<Rightarrow> WireColumn" where
  "text_column name = \<lparr>wc_name = name, wc_col_type = CT_VarString, wc_flags = 0, wc_decimals = 0\<rparr>"

definition handle_quit :: "Session \<Rightarrow> CommandResult \<times> Session" where
  "handle_quit ss = (CR_Close, ss)"

definition handle_ping :: "Session \<Rightarrow> CommandResult \<times> Session" where
  "handle_ping ss = (CR_Ok 0 0 [], ss)"

definition handle_init_db :: "byte list \<Rightarrow> Session \<Rightarrow> CommandResult \<times> Session" where
  "handle_init_db payload ss =
     (let db_name = trim_end_matches (CHR 0x00) (from_utf8_lossy payload) in
      (CR_Ok 0 0 [], set_database db_name ss))"

definition handle_show_databases :: "Session \<Rightarrow> CommandResult \<times> Session" where
  "handle_show_databases ss =
     (CR_ResultSet [text_column ''Database'']
        [[Some ''information_schema''], [Some ''mysql''], [Some ''performance_schema''], [Some ''sys'']], ss)"

definition handle_show_tables :: "Session \<Rightarrow> CommandResult \<times> Session" where
  "handle_show_tables ss = (CR_ResultSet [text_column (''Tables_in_'' @ ss_current_db ss)] [], ss)"

definition handle_select_version :: "Session \<Rightarrow> CommandResult \<times> Session" where
  "handle_select_version ss = (CR_ResultSet [text_column ''@@version''] [[Some ''8.0.35-nova'']], ss)"

definition handle_query :: "byte list \<Rightarrow> Session \<Rightarrow> CommandResult \<times> Session" where
  "handle_query payload ss =
     (let query = from_utf8_lossy payload;
          query_lower = to_ascii_lowercase query;
          ss = reset_result_state ss in
      if starts_with query_lower ''show databases'' \<or> starts_with query_lower ''show schemas''
      then handle_show_databases ss
      else if starts_with query_lower ''show tables'' then handle_show_tables ss
      else if starts_with query_lower ''select @@version'' then handle_select_version ss
      else if starts_with query_lower ''use '' then
        (CR_Ok 0 0 [], set_database (trim_end_matches (CHR '';'') (trim (drop 4 query))) ss)
      else (CR_Error ER_NOT_SUPPORTED_YET ''Use server.rs COM_QUERY path for query execution'', ss))"

definition count_char :: "char \<Rightarrow> string \<Rightarrow> nat" where
  "count_char c s = length (filter (\<lambda>x. x = c) s)"

definition handle_stmt_prepare :: "byte list \<Rightarrow> Session \<Rightarrow> CommandResult \<times> Session" where
  "handle_stmt_prepare payload ss =
     (let sql = from_utf8_lossy payload;
          num_params = word_of_nat (count_char (CHR 0x3F) sql);
          (stmt_id, ss) = add_prepared_statement sql num_params ss in
      (CR_Ok 0 0 (''Statement '' @ show_nat (unat stmt_id) @ '' prepared''), ss))"

definition get_u32_le :: "byte list \<Rightarrow> u32" where
  "get_u32_le payload = u32_from_le (take 4 payload)"

definition handle_stmt_execute :: "byte list \<Rightarrow> Session \<Rightarrow> CommandResult \<times> Session" where
  "handle_stmt_execute payload ss =
     (if length payload < 4 then (CR_Error ER_SYNTAX_ERROR ''Invalid COM_STMT_EXECUTE payload'', ss)
      else
        (let stmt_id = get_u32_le payload in
         if get_prepared_statement stmt_id ss = None
         then (CR_Error ER_UNKNOWN_STMT_HANDLER
                 (''Unknown prepared statement handler ('' @ show_nat (unat stmt_id) @ '') given''), ss)
         else (CR_Error ER_NOT_SUPPORTED_YET ''Prepared statement execution not yet implemented'', ss)))"

definition handle_stmt_close :: "byte list \<Rightarrow> Session \<Rightarrow> CommandResult \<times> Session" where
  "handle_stmt_close payload ss =
     (if length payload < 4 then (CR_Error ER_SYNTAX_ERROR ''Invalid COM_STMT_CLOSE payload'', ss)
      else (CR_Eof, snd (remove_prepared_statement (get_u32_le payload) ss)))"

definition handle_set_option :: "byte list \<Rightarrow> Session \<Rightarrow> CommandResult \<times> Session" where
  "handle_set_option payload ss =
     (if length payload < 2 then (CR_Error ER_SYNTAX_ERROR ''Invalid COM_SET_OPTION payload'', ss)
      else (CR_Ok 0 0 [], ss))"

definition handle_reset_connection :: "Session \<Rightarrow> CommandResult \<times> Session" where
  "handle_reset_connection ss =
     (CR_Ok 0 0 [],
      ss\<lparr>ss_current_db := [], ss_transaction_state := TS_None, ss_server_status := STATUS_AUTOCOMMIT,
         ss_warning_count := 0, ss_affected_rows := 0, ss_last_insert_id := 0\<rparr>)"

subsection \<open>Answer packets\<close>

definition packet :: "byte list \<Rightarrow> Packet" where
  "packet payload = \<lparr>pk_seq = 0, pk_payload = payload\<rparr>"

text \<open>The private copies of the encoders that \<^verbatim>\<open>commands.rs\<close> has for its buffer type.\<close>

definition put_lenenc_int :: "byte list \<Rightarrow> u64 \<Rightarrow> byte list" where
  "put_lenenc_int buf val =
     (if val < 251 then buf @ [ucast val]
      else if val < 65536 then buf @ [0xfc] @ u16_to_le (ucast val)
      else if val < 16777216 then
        buf @ [0xfd] @ [ucast (val AND 0xff), ucast (drop_bit 8 val AND 0xff), ucast (drop_bit 16 val AND 0xff)]
      else buf @ [0xfe] @ u64_to_le val)"

definition put_lenenc_string :: "byte list \<Rightarrow> string \<Rightarrow> byte list" where
  "put_lenenc_string buf s = put_lenenc_int buf (word_of_nat (length s)) @ as_bytes s"

definition build_ok_packet :: "u64 \<Rightarrow> u64 \<Rightarrow> u16 \<Rightarrow> string \<Rightarrow> Packet" where
  "build_ok_packet affected_rows last_insert_id status message =
     packet (put_lenenc_int (put_lenenc_int [0x00] affected_rows) last_insert_id @ u16_to_le status @
       u16_to_le 0 @ (if message \<noteq> [] then as_bytes message else []))"

definition build_error_packet :: "u16 \<Rightarrow> string \<Rightarrow> Packet" where
  "build_error_packet code message =
     packet ([0xff] @ u16_to_le code @ as_bytes ''#'' @ as_bytes (sql_state code) @ as_bytes message)"

definition build_eof_packet :: "u16 \<Rightarrow> u16 \<Rightarrow> Packet" where
  "build_eof_packet status warnings = packet ([0xfe] @ u16_to_le status @ u16_to_le warnings)"

definition build_column_def_packet :: "WireColumn \<Rightarrow> Packet" where
  "build_column_def_packet col =
     packet (foldl put_lenenc_string [] [''def'', '''', '''', '''', wc_name col, wc_name col] @
       [0x0c] @ u16_to_le 45 @ u32_to_le (column_length (wc_col_type col)) @
       [column_type_to_u8 (wc_col_type col)] @ u16_to_le (wc_flags col) @ [wc_decimals col] @ u16_to_le 0)"

definition build_column_count_packet :: "u64 \<Rightarrow> Packet" where
  "build_column_count_packet count = packet (put_lenenc_int [] count)"

fun put_row :: "byte list \<Rightarrow> string option list \<Rightarrow> byte list" where
  "put_row buf [] = buf"
| "put_row buf (Some v # vs) = put_row (put_lenenc_string buf v) vs"
| "put_row buf (None # vs) = put_row (buf @ [0xfb]) vs"

definition build_row_packet :: "string option list \<Rightarrow> Packet" where
  "build_row_packet values = packet (put_row [] values)"

subsection \<open>What a client reads\<close>

lemma low_byte64: "(ucast (w AND 0xff) :: byte) = word_of_nat (unat (w :: u64) mod 256)"
proof -
  have "w AND 0xff = take_bit 8 w" by (simp add: take_bit_eq_mask mask_eq_exp_minus_1)
  then show ?thesis
    by (simp add: word_unat_eq_iff unsigned_ucast_eq unsigned_take_bit_eq take_bit_eq_mod unat_of_nat unat_mod)
qed

lemma three_bytes64:
  assumes "val < 16777216"
  shows "[ucast (val AND 0xff), ucast (drop_bit 8 val AND 0xff), ucast (drop_bit 16 val AND 0xff)] =
     take 3 (u32_to_le (ucast (val :: u64)))"
proof -
  have "take 3 (u32_to_le (ucast val)) = le_bytes 3 (unat val)"
    using assms by (simp add: u24_bytes ucast_back)
  then show ?thesis
    by (simp add: low_byte64 unsigned_drop_bit_eq drop_bit_eq_div unat_div numeral_3_eq_3 div_mult2_eq [symmetric])
qed

text \<open>
  Two encoders, one format. The encoder of the command module, which assembles the bytes
  with shifts, writes the same bytes as the encoder of the codec module, for integers and for
  strings; so what it writes is read back by the decoders of the codec.
\<close>

lemma command_encoders_agree:
  "put_lenenc_int buf v = encode_lenenc_int buf v \<and> put_lenenc_string buf s = encode_lenenc_string buf s"
proof -
  have "put_lenenc_int b w = encode_lenenc_int b w" for b w
    using three_bytes64 [of w] by (simp add: put_lenenc_int_def encode_lenenc_int_def)
  then show ?thesis by (simp add: put_lenenc_string_def encode_lenenc_string_def Let_def)
qed

lemma put_lenenc_agree: "put_lenenc_int = encode_lenenc_int" "put_lenenc_string = encode_lenenc_string"
proof -
  show "put_lenenc_int = encode_lenenc_int"
    using three_bytes64 by (auto simp: fun_eq_iff put_lenenc_int_def encode_lenenc_int_def)
  then show "put_lenenc_string = encode_lenenc_string"
    by (simp add: fun_eq_iff put_lenenc_string_def encode_lenenc_string_def Let_def)
qed

fun read_row :: "nat \<Rightarrow> byte list \<Rightarrow> (fault, string option list \<times> byte list) result" where
  "read_row 0 buf = Ok ([], buf)"
| "read_row (Suc n) buf =
     (if buf \<noteq> [] \<and> hd buf = 0xfb
      then and_then (read_row n (tl buf)) (\<lambda>(vs, rest). Ok (None # vs, rest))
      else and_then (decode_lenenc_string buf) (\<lambda>(v, k).
           and_then (read_row n (drop k buf)) (\<lambda>(vs, rest). Ok (Some v # vs, rest))))"

lemma lenenc_first: "\<exists>b bs. encode_lenenc_int [] v = b # bs \<and> b \<noteq> 0xfb \<and> b \<noteq> 0xff"
proof -
  have "v < 251 \<Longrightarrow> (ucast v :: byte) \<noteq> 0xfb \<and> (ucast v :: byte) \<noteq> 0xff"
    by (auto simp: word_unat_eq_iff unsigned_ucast_eq word_less_nat_alt take_bit_eq_mod)
  then show ?thesis by (simp add: encode_lenenc_int_def)
qed

lemma put_row_append: "put_row buf vs = buf @ put_row [] vs"
proof (induction vs arbitrary: buf)
  case (Cons v vs)
  show ?case
  proof (cases v)
    case None
    then show ?thesis using Cons [of "buf @ [0xfb]"] Cons [of "[0xfb]"] by simp
  next
    case (Some s)
    then show ?thesis
      using Cons [of "put_lenenc_string buf s"] Cons [of "put_lenenc_string [] s"]
        encode_lenenc_string_append [of buf s] by (simp add: put_lenenc_agree)
  qed
qed simp

lemma read_put_row:
  assumes "list_all (\<lambda>v. \<forall>s \<in> set_option v. rust_string s) vs"
  shows "read_row (length vs) (put_row [] vs @ rest) = Ok (vs, rest)"
  using assms
proof (induction vs)
  case (Cons v vs)
  show ?case
  proof (cases v)
    case None
    then show ?thesis using Cons put_row_append [of "[0xfb]" vs] by simp
  next
    case (Some s)
    define e where "e = encode_lenenc_string [] s"
    obtain b bs where b: "encode_lenenc_int [] (word_of_nat (length s)) = b # bs" "b \<noteq> 0xfb"
      using lenenc_first by metis
    then have hd: "hd (e @ put_row [] vs @ rest) \<noteq> 0xfb" by (simp add: e_def encode_lenenc_string_def Let_def)
    have dec: "decode_lenenc_string (e @ put_row [] vs @ rest) = Ok (s, length e)"
      unfolding e_def using Cons(2) Some by (intro decode_lenenc_string_enc) simp
    have "put_row [] (v # vs) = e @ put_row [] vs"
      using Some put_row_append [of e vs] by (simp add: put_lenenc_agree e_def)
    then show ?thesis using Some Cons hd dec by simp
  qed
qed simp

text \<open>
  C25. Rows. A client that reads a row packet, knowing the number of columns, obtains exactly
  the values of the row, with NULL and the empty string told apart.
\<close>

theorem row_packet_roundtrip:
  assumes "list_all (\<lambda>v. \<forall>s \<in> set_option v. rust_string s) values"
  shows "read_row (length values) (pk_payload (build_row_packet values)) = Ok (values, [])"
  using read_put_row [OF assms, of "[]"] by (simp add: build_row_packet_def packet_def)

theorem row_packet_roundtrip_witness:
  "read_row 3 [1, 97, 0xfb, 0] = Ok ([Some ''a'', None, Some []], [])"
proof -
  let ?v = "[Some ''a'', None, Some []]"
  have "list_all (\<lambda>v. \<forall>s \<in> set_option v. rust_string s) ?v" by (simp add: rust_string_ascii)
  from row_packet_roundtrip [OF this]
  have "read_row (length ?v) (pk_payload (build_row_packet ?v)) = Ok (?v, [])" .
  moreover have "pk_payload (build_row_packet ?v) = [1, 97, 0xfb, 0]" by code_simp
  moreover have "length ?v = 3" by simp
  ultimately show ?thesis by (simp only:)
qed

lemma error_packet_bytes:
  "pk_payload (build_error_packet code message) = 0xff # u16_to_le code @ as_bytes (''#'' @ sql_state code @ message)"
  by (simp add: build_error_packet_def packet_def as_bytes_def)

subsection \<open>Session state\<close>

text \<open>
  The status word every answer carries says whether a transaction is open, and a prepared
  statement is stored under its own identifier.
\<close>

definition session_ok :: "Session \<Rightarrow> bool" where
  "session_ok ss \<longleftrightarrow>
     (bit (ss_server_status ss) 0 \<longleftrightarrow> ss_transaction_state ss \<noteq> TS_None) \<and>
     (\<forall>i st. ss_prepared_statements ss i = Some st \<longrightarrow> ps_stmt_id st = i)"

inductive session_step :: "Session \<Rightarrow> Session \<Rightarrow> bool" where
  step_database: "session_step ss (set_database db ss)"
| step_variable: "session_step ss (set_variable name val ss)"
| step_begin: "session_step ss (session_begin_transaction ss)"
| step_commit: "session_step ss (session_commit_transaction ss)"
| step_rollback: "session_step ss (session_rollback_transaction ss)"
| step_add: "session_step ss (snd (add_prepared_statement sql n ss))"
| step_remove: "session_step ss (snd (remove_prepared_statement i ss))"
| step_reset_result: "session_step ss (reset_result_state ss)"
| step_reset: "session_step ss (snd (handle_reset_connection ss))"
| step_close: "session_step ss (session_close ss)"

lemmas session_defs = set_database_def set_variable_def session_begin_transaction_def
  session_commit_transaction_def session_rollback_transaction_def add_prepared_statement_def
  remove_prepared_statement_def reset_result_state_def handle_reset_connection_def session_close_def

lemma status_bits: "bit STATUS_IN_TRANS 0" "\<not> bit STATUS_AUTOCOMMIT 0"
  by (simp_all add: STATUS_IN_TRANS_def STATUS_AUTOCOMMIT_def)

lemma session_step_ok: "session_step ss ss' \<Longrightarrow> session_ok ss \<Longrightarrow> session_ok ss'"
  by (induction rule: session_step.induct)
    (auto simp: session_ok_def session_defs Let_def bit_simps status_bits)



text \<open>
  Resetting a connection restores the status word but not the variables, so a session whose
  autocommit was switched off reports autocommit in its status and the opposite in its
  variable; its prepared statements survive as well.
\<close>

lemma reset_keeps_variables:
  assumes "snd (handle_reset_connection ss) = ss'"
  shows "bit (ss_server_status ss') 1 \<and> get_variable n ss' = get_variable n ss \<and>
     get_prepared_statement i ss' = get_prepared_statement i ss"
  using assms by (auto simp: handle_reset_connection_def get_variable_def get_prepared_statement_def STATUS_AUTOCOMMIT_def)

end
