(* ===== verification/Coord_Rbac.thy ===== *)
theory Coord_Rbac
  imports Mysql_Auth
begin

text \<open>
  The in-memory access control of the coordinator: users, roles and table privileges
  (\<^verbatim>\<open>crates/nova-coordinator/src/rbac.rs\<close>) and the authentication manager that owns it
  (\<^verbatim>\<open>crates/nova-coordinator/src/auth.rs\<close>).

  Hash maps are partial functions and hash sets are sets; each lock is held for a whole
  operation, so an operation is one step. The password hash of the \<^verbatim>\<open>argon2\<close> crate is a record of
  two functions, hashing with a random salt and verification.

  The lemmas show that the manager implements two relations, users to roles and roles to
  privileges: every operation changes exactly the pair it names, and a privilege check asks
  whether the relations connect the user with the privilege.
\<close>

subsection \<open>Users, roles and privileges\<close>

datatype Privilege =
    P_Select | P_Insert | P_Update | P_Delete | P_Create | P_Drop | P_Admin

record RbacUser =
  ru_user_id :: u64
  ru_name :: string
  ru_roles :: "u64 set"
  ru_created_at :: Timestamp

record RbacRole =
  rr_role_id :: u64
  rr_name :: string
  rr_privileges :: "string \<rightharpoonup> Privilege set"
  rr_created_at :: Timestamp

record RbacManager =
  rm_users :: "u64 \<rightharpoonup> RbacUser"
  rm_roles :: "u64 \<rightharpoonup> RbacRole"
  rm_next_user_id :: u64
  rm_next_role_id :: u64

definition rbac_new :: RbacManager where
  "rbac_new =
     \<lparr>rm_users = Map.empty,
      rm_roles = [1 \<mapsto> \<lparr>rr_role_id = 1, rr_name = ''admin'', rr_privileges = [''*'' \<mapsto> {P_Admin}], rr_created_at = 0\<rparr>],
      rm_next_user_id = 1, rm_next_role_id = 2\<rparr>"

definition rbac_create_user :: "string \<Rightarrow> RbacManager \<Rightarrow> u64 \<times> RbacManager" where
  "rbac_create_user name m =
     (let i = rm_next_user_id m;
          user = \<lparr>ru_user_id = i, ru_name = name, ru_roles = {}, ru_created_at = 0\<rparr> in
      (i, m\<lparr>rm_next_user_id := i + 1, rm_users := (rm_users m)(i \<mapsto> user)\<rparr>))"

definition rbac_drop_user :: "u64 \<Rightarrow> RbacManager \<Rightarrow> (NovaError, unit) result \<times> RbacManager" where
  "rbac_drop_user user_id m =
     (case rm_users m user_id of
        None \<Rightarrow> (Err (Internal (''user '' @ show_u64 user_id @ '' not found'')), m)
      | Some _ \<Rightarrow> (Ok (), m\<lparr>rm_users := (rm_users m)(user_id := None)\<rparr>))"

definition rbac_create_role :: "string \<Rightarrow> RbacManager \<Rightarrow> u64 \<times> RbacManager" where
  "rbac_create_role name m =
     (let i = rm_next_role_id m;
          role = \<lparr>rr_role_id = i, rr_name = name, rr_privileges = Map.empty, rr_created_at = 0\<rparr> in
      (i, m\<lparr>rm_next_role_id := i + 1, rm_roles := (rm_roles m)(i \<mapsto> role)\<rparr>))"

definition rbac_grant_role :: "u64 \<Rightarrow> u64 \<Rightarrow> RbacManager \<Rightarrow> (NovaError, unit) result \<times> RbacManager" where
  "rbac_grant_role user_id role_id m =
     (case rm_users m user_id of
        None \<Rightarrow> (Err (Internal (''user '' @ show_u64 user_id @ '' not found'')), m)
      | Some user \<Rightarrow>
          (Ok (), m\<lparr>rm_users := (rm_users m)(user_id \<mapsto> user\<lparr>ru_roles := insert role_id (ru_roles user)\<rparr>)\<rparr>))"

definition rbac_revoke_role :: "u64 \<Rightarrow> u64 \<Rightarrow> RbacManager \<Rightarrow> (NovaError, unit) result \<times> RbacManager" where
  "rbac_revoke_role user_id role_id m =
     (case rm_users m user_id of
        None \<Rightarrow> (Err (Internal (''user '' @ show_u64 user_id @ '' not found'')), m)
      | Some user \<Rightarrow>
          (Ok (), m\<lparr>rm_users := (rm_users m)(user_id \<mapsto> user\<lparr>ru_roles := ru_roles user - {role_id}\<rparr>)\<rparr>))"

definition rbac_grant_privilege ::
  "u64 \<Rightarrow> string \<Rightarrow> Privilege \<Rightarrow> RbacManager \<Rightarrow> (NovaError, unit) result \<times> RbacManager" where
  "rbac_grant_privilege role_id table_name privilege m =
     (case rm_roles m role_id of
        None \<Rightarrow> (Err (Internal (''role '' @ show_u64 role_id @ '' not found'')), m)
      | Some role \<Rightarrow>
          (let privs = (case rr_privileges role table_name of Some ps \<Rightarrow> ps | None \<Rightarrow> {});
               role' = role\<lparr>rr_privileges := (rr_privileges role)(table_name \<mapsto> insert privilege privs)\<rparr> in
           (Ok (), m\<lparr>rm_roles := (rm_roles m)(role_id \<mapsto> role')\<rparr>)))"

definition rbac_revoke_privilege ::
  "u64 \<Rightarrow> string \<Rightarrow> Privilege \<Rightarrow> RbacManager \<Rightarrow> (NovaError, unit) result \<times> RbacManager" where
  "rbac_revoke_privilege role_id table_name privilege m =
     (case rm_roles m role_id of
        None \<Rightarrow> (Err (Internal (''role '' @ show_u64 role_id @ '' not found'')), m)
      | Some role \<Rightarrow>
          (case rr_privileges role table_name of
             None \<Rightarrow> (Ok (), m)
           | Some privs \<Rightarrow>
               (Ok (), m\<lparr>rm_roles := (rm_roles m)(role_id \<mapsto>
                          role\<lparr>rr_privileges := (rr_privileges role)(table_name \<mapsto> privs - {privilege})\<rparr>)\<rparr>)))"

definition role_allows :: "RbacRole \<Rightarrow> string \<Rightarrow> Privilege \<Rightarrow> bool" where
  "role_allows role table_name privilege \<longleftrightarrow>
     (case rr_privileges role ''*'' of
        Some wildcard \<Rightarrow> P_Admin \<in> wildcard \<or> privilege \<in> wildcard
      | None \<Rightarrow> False) \<or>
     (case rr_privileges role table_name of
        Some privs \<Rightarrow> privilege \<in> privs
      | None \<Rightarrow> False)"

definition rbac_check_privilege :: "u64 \<Rightarrow> string \<Rightarrow> Privilege \<Rightarrow> RbacManager \<Rightarrow> bool" where
  "rbac_check_privilege user_id table_name privilege m =
     (case rm_users m user_id of
        None \<Rightarrow> False
      | Some user \<Rightarrow>
          \<exists>role_id \<in> ru_roles user.
            (case rm_roles m role_id of
               Some role \<Rightarrow> role_allows role table_name privilege
             | None \<Rightarrow> False))"

definition rbac_get_user :: "u64 \<Rightarrow> RbacManager \<Rightarrow> RbacUser option" where
  "rbac_get_user user_id m = rm_users m user_id"

definition rbac_list_users :: "RbacManager \<Rightarrow> RbacUser set" where
  "rbac_list_users m = ran (rm_users m)"

definition rbac_list_roles :: "RbacManager \<Rightarrow> RbacRole set" where
  "rbac_list_roles m = ran (rm_roles m)"

subsection \<open>Refinement to two relations\<close>

definition holds_role :: "RbacManager \<Rightarrow> (u64 \<times> u64) set" where
  "holds_role m = {(u, r). \<exists>user. rm_users m u = Some user \<and> r \<in> ru_roles user}"

definition has_privilege :: "RbacManager \<Rightarrow> (u64 \<times> string \<times> Privilege) set" where
  "has_privilege m =
     {(r, t, p). \<exists>role privs. rm_roles m r = Some role \<and> rr_privileges role t = Some privs \<and> p \<in> privs}"

text \<open>The identifiers in use lie below the counters, which is why they are never given out twice.\<close>

definition rbac_ids_ok :: "RbacManager \<Rightarrow> bool" where
  "rbac_ids_ok m \<longleftrightarrow> (\<forall>u. rm_users m u \<noteq> None \<longrightarrow> u < rm_next_user_id m) \<and>
     (\<forall>r. rm_roles m r \<noteq> None \<longrightarrow> r < rm_next_role_id m)"

lemmas rbac_defs = rbac_create_user_def rbac_drop_user_def rbac_create_role_def rbac_grant_role_def
  rbac_revoke_role_def rbac_grant_privilege_def rbac_revoke_privilege_def

lemma role_allows_iff:
  "role_allows role t p \<longleftrightarrow>
     (\<exists>ps. rr_privileges role ''*'' = Some ps \<and> (P_Admin \<in> ps \<or> p \<in> ps)) \<or>
     (\<exists>ps. rr_privileges role t = Some ps \<and> p \<in> ps)"
  by (auto simp: role_allows_def split: option.split)

lemma check_iff:
  "rbac_check_privilege u t p m \<longleftrightarrow>
     (\<exists>user r role. rm_users m u = Some user \<and> r \<in> ru_roles user \<and> rm_roles m r = Some role \<and> role_allows role t p)"
  by (auto simp: rbac_check_privilege_def split: option.splits)

lemma check_by_relations:
  "rbac_check_privilege u t p m \<longleftrightarrow>
     (\<exists>r. (u, r) \<in> holds_role m \<and>
        ((r, ''*'', P_Admin) \<in> has_privilege m \<or> (r, ''*'', p) \<in> has_privilege m \<or> (r, t, p) \<in> has_privilege m))"
  unfolding check_iff role_allows_iff holds_role_def has_privilege_def by blast

lemma grant_role_relations:
  assumes "rbac_grant_role u r m = (Ok (), m')"
  shows "holds_role m' = insert (u, r) (holds_role m) \<and> has_privilege m' = has_privilege m"
  using assms by (auto simp: rbac_grant_role_def holds_role_def has_privilege_def split: option.splits if_splits)

lemma revoke_role_relations:
  assumes "rbac_revoke_role u r m = (Ok (), m')"
  shows "holds_role m' = holds_role m - {(u, r)} \<and> has_privilege m' = has_privilege m"
  using assms by (auto simp: rbac_revoke_role_def holds_role_def has_privilege_def split: option.splits if_splits)

lemma grant_privilege_relations:
  assumes "rbac_grant_privilege r t p m = (Ok (), m')"
  shows "holds_role m' = holds_role m \<and> has_privilege m' = insert (r, t, p) (has_privilege m)"
  using assms
  by (auto simp: rbac_grant_privilege_def holds_role_def has_privilege_def Let_def split: option.splits if_splits)

lemma revoke_privilege_relations:
  assumes "rbac_revoke_privilege r t p m = (Ok (), m')"
  shows "holds_role m' = holds_role m \<and> has_privilege m' = has_privilege m - {(r, t, p)}"
  using assms
  by (auto simp: rbac_revoke_privilege_def holds_role_def has_privilege_def split: option.splits if_splits)

lemma drop_user_relations:
  assumes "rbac_drop_user u m = (Ok (), m')"
  shows "holds_role m' = {(v, r) \<in> holds_role m. v \<noteq> u} \<and> has_privilege m' = has_privilege m"
  using assms by (auto simp: rbac_drop_user_def holds_role_def has_privilege_def split: option.splits if_splits)

text \<open>
  C29. Access control by relations. The manager behaves as two relations, users to roles and
  roles to privileges. Granting and revoking add and remove exactly one pair, dropping a user
  removes the pairs of that user, and a check succeeds exactly if a role of the user has the
  privilege on the table or on all tables, or is an administrator.
\<close>

theorem rbac_refines_relations:
  "(rbac_grant_role u r m = (Ok (), m1) \<longrightarrow> holds_role m1 = insert (u, r) (holds_role m) \<and> has_privilege m1 = has_privilege m) \<and>
   (rbac_revoke_role u r m = (Ok (), m2) \<longrightarrow> holds_role m2 = holds_role m - {(u, r)} \<and> has_privilege m2 = has_privilege m) \<and>
   (rbac_grant_privilege r t p m = (Ok (), m3) \<longrightarrow>
      holds_role m3 = holds_role m \<and> has_privilege m3 = insert (r, t, p) (has_privilege m)) \<and>
   (rbac_revoke_privilege r t p m = (Ok (), m4) \<longrightarrow>
      holds_role m4 = holds_role m \<and> has_privilege m4 = has_privilege m - {(r, t, p)}) \<and>
   (rbac_drop_user u m = (Ok (), m5) \<longrightarrow>
      holds_role m5 = {(v, r) \<in> holds_role m. v \<noteq> u} \<and> has_privilege m5 = has_privilege m) \<and>
   (rbac_check_privilege u t p m \<longleftrightarrow>
     (\<exists>r. (u, r) \<in> holds_role m \<and>
        ((r, ''*'', P_Admin) \<in> has_privilege m \<or> (r, ''*'', p) \<in> has_privilege m \<or> (r, t, p) \<in> has_privilege m)))"
  using grant_role_relations [of u r m m1] revoke_role_relations [of u r m m2]
    grant_privilege_relations [of r t p m m3] revoke_privilege_relations [of r t p m m4]
    drop_user_relations [of u m m5] check_by_relations [of u t p m] by blast

definition sample_rbac :: RbacManager where
  "sample_rbac = snd (rbac_create_user ''alice'' rbac_new)"

theorem rbac_refines_relations_witness:
  "(1, 1) \<in> holds_role (snd (rbac_grant_role 1 1 sample_rbac)) \<and>
   rbac_check_privilege 1 ''t'' P_Drop (snd (rbac_grant_role 1 1 sample_rbac))"
proof -
  define m1 where "m1 = snd (rbac_grant_role 1 1 sample_rbac)"
  have run: "rbac_grant_role 1 1 sample_rbac = (Ok (), m1)"
    by (simp add: m1_def sample_rbac_def rbac_create_user_def rbac_grant_role_def rbac_new_def)
  have "(1, ''*'', P_Admin) \<in> has_privilege sample_rbac"
    by (simp add: has_privilege_def sample_rbac_def rbac_create_user_def rbac_new_def)
  with rbac_refines_relations [THEN conjunct1, rule_format, OF run]
  have rel: "(1, 1) \<in> holds_role m1" "(1, ''*'', P_Admin) \<in> has_privilege m1" by simp_all
  then have "rbac_check_privilege 1 ''t'' P_Drop m1"
    unfolding rbac_refines_relations [THEN conjunct2, THEN conjunct2, THEN conjunct2, THEN conjunct2, THEN conjunct2]
    by blast
  with rel(1) show ?thesis unfolding m1_def [symmetric] by blast
qed

lemma rbac_ids_step:
  assumes "rbac_ids_ok m" "rm_next_user_id m \<noteq> - 1" "rm_next_role_id m \<noteq> - 1"
  shows "rbac_ids_ok (snd (rbac_create_user name m)) \<and> rm_users m (fst (rbac_create_user name m)) = None \<and>
     rbac_ids_ok (snd (rbac_create_role name m)) \<and> rm_roles m (fst (rbac_create_role name m)) = None"
proof -
  have suc: "v < x + 1" if "v < x \<or> v = x" "x \<noteq> - 1" for v x :: u64
    using that unat_u64_Suc [of x] by (auto simp: word_less_nat_alt)
  have "rm_users m (rm_next_user_id m) = None" "rm_roles m (rm_next_role_id m) = None"
    using assms(1) unfolding rbac_ids_ok_def by (metis less_irrefl)+
  with assms show ?thesis by (auto simp: rbac_ids_ok_def rbac_create_user_def rbac_create_role_def Let_def suc)
qed

text \<open>
  A role can be granted before it exists: the call succeeds, and whoever holds the identifier
  has the role as soon as it is created.
\<close>

lemma grant_of_future_role:
  assumes "rm_users m u = Some user" "rm_next_role_id m = r" "rbac_grant_role u r m = (res, m1)"
    "rbac_create_role name m1 = (r', m2)" "rbac_grant_privilege r' t p m2 = (res', m3)"
  shows "res = Ok () \<and> r' = r \<and> res' = Ok () \<and> rbac_check_privilege u t p m3"
  using assms
  by (auto simp: rbac_grant_role_def rbac_create_role_def rbac_grant_privilege_def rbac_check_privilege_def
      role_allows_def Let_def split: if_splits)

subsection \<open>The authentication manager\<close>

record UserInfo =
  ui_user_id :: UserId
  ui_username :: string
  ui_password_hash :: string
  ui_is_admin :: bool
  ui_mysql_native_hash :: "byte list"

record AuthManager =
  am_rbac :: RbacManager
  am_users :: "(string, UserInfo) alist"

text \<open>
  What the manager uses of \<^verbatim>\<open>argon2\<close>: hashing with a fresh salt (the salt is an argument of the
  callers), parsing a stored hash, and verification against a parsed hash.
\<close>

record argon2 =
  ar_hash :: "string \<Rightarrow> byte list \<Rightarrow> (string, string) result"
  ar_parse :: "string \<Rightarrow> (string, unit) result"
  ar_verify :: "string \<Rightarrow> byte list \<Rightarrow> bool"

definition auth_manager_new :: AuthManager where
  "auth_manager_new =
     \<lparr>am_rbac = rbac_new,
      am_users = DAList.update ''root''
        \<lparr>ui_user_id = 1, ui_username = ''root'', ui_password_hash = [], ui_is_admin = True, ui_mysql_native_hash = []\<rparr>
        DAList.empty\<rparr>"

definition with_default_user :: "argon2 \<Rightarrow> digest \<Rightarrow> string \<Rightarrow> string \<Rightarrow> string \<Rightarrow> AuthManager" where
  "with_default_user ar sha1 salt username password =
     (if password = [] then auth_manager_new
      else
        (let hash = (case ar_hash ar salt (as_bytes password) of Inr h \<Rightarrow> h | Inl _ \<Rightarrow> []);
             mysql_hash = hash_password_mysql_native sha1 password in
         auth_manager_new\<lparr>am_users := DAList.update username
           \<lparr>ui_user_id = 1, ui_username = username, ui_password_hash = hash, ui_is_admin = True,
            ui_mysql_native_hash = mysql_hash\<rparr> (am_users auth_manager_new)\<rparr>))"

definition authenticate :: "argon2 \<Rightarrow> string \<Rightarrow> string \<Rightarrow> AuthManager \<Rightarrow> (NovaError, UserId) result" where
  "authenticate ar username password am =
     and_then (ok_or (Internal (''user '' @ quoted username @ '' not found'')) (DAList.lookup (am_users am) username)) (\<lambda>user.
     if ui_password_hash user = [] then Ok (ui_user_id user)
     else
       and_then (map_err (\<lambda>e. Internal (''password hash parse failed: '' @ e)) (ar_parse ar (ui_password_hash user))) (\<lambda>_.
       if ar_verify ar (ui_password_hash user) (as_bytes password) then Ok (ui_user_id user)
       else Err (Internal ''invalid password'')))"

definition get_user_info :: "string \<Rightarrow> AuthManager \<Rightarrow> UserInfo option" where
  "get_user_info username am = DAList.lookup (am_users am) username"

definition is_admin :: "string \<Rightarrow> AuthManager \<Rightarrow> bool" where
  "is_admin username am = (case DAList.lookup (am_users am) username of Some u \<Rightarrow> ui_is_admin u | None \<Rightarrow> False)"

definition add_user ::
  "argon2 \<Rightarrow> digest \<Rightarrow> string \<Rightarrow> string \<Rightarrow> string \<Rightarrow> bool \<Rightarrow> AuthManager \<Rightarrow> (NovaError, UserId) result \<times> AuthManager" where
  "add_user ar sha1 salt username password admin am =
     (let user_id = word_of_nat (length (DAList.impl_of (am_users am))) + 1;
          mysql_hash = (if password = [] then [] else hash_password_mysql_native sha1 password) in
      (case (if password = [] then Ok []
             else map_err (\<lambda>e. Internal (''password hash failed: '' @ e)) (ar_hash ar salt (as_bytes password))) of
         Inl e \<Rightarrow> (Err e, am)
       | Inr hash \<Rightarrow>
           (Ok user_id, am\<lparr>am_users := DAList.update username
              \<lparr>ui_user_id = user_id, ui_username = username, ui_password_hash = hash, ui_is_admin = admin,
               ui_mysql_native_hash = mysql_hash\<rparr> (am_users am)\<rparr>)))"

text \<open>
  What the manager relies on: a hash it computed is not empty, is parsed, and verifies exactly
  the password it was computed from.
\<close>

definition argon2_ok :: "argon2 \<Rightarrow> bool" where
  "argon2_ok ar \<longleftrightarrow> (\<forall>salt pw h. ar_hash ar salt pw = Ok h \<longrightarrow>
     h \<noteq> [] \<and> ar_parse ar h = Ok () \<and> (\<forall>pw'. ar_verify ar h pw' \<longleftrightarrow> pw' = pw))"

lemma as_bytes_inj: "as_bytes s = as_bytes t \<longleftrightarrow> s = t"
  by (metis of_bytes_as_bytes)

lemma of_bytes_inj: "of_bytes a = of_bytes b \<longleftrightarrow> a = b"
  by (metis as_bytes_of_bytes)

text \<open>
  Accounts. After a user was added with a non-empty password, exactly this password
  authenticates as that user and yields the identifier the call returned; every other account
  is untouched. With an empty password any password is accepted.
\<close>

theorem added_user_authenticates:
  assumes "argon2_ok ar" "add_user ar sha1 salt name pw admin am = (Ok i, am')"
  shows "(pw \<noteq> [] \<longrightarrow> (authenticate ar name pw' am' = Ok i \<longleftrightarrow> pw' = pw)) \<and>
     (pw = [] \<longrightarrow> authenticate ar name pw' am' = Ok i) \<and>
     is_admin name am' = admin \<and>
     (other \<noteq> name \<longrightarrow> authenticate ar other pw' am' = authenticate ar other pw' am)"
proof (cases "pw = []")
  case True
  with assms(2) show ?thesis by (auto simp: add_user_def authenticate_def is_admin_def Let_def)
next
  case False
  with assms(2) obtain h where h: "ar_hash ar salt (as_bytes pw) = Ok h"
    by (auto simp: add_user_def Let_def map_err_def split: sum.splits)
  note ok = assms(1) [unfolded argon2_ok_def, THEN spec, THEN spec, THEN spec, THEN mp, OF h]
  let ?u = "\<lparr>ui_user_id = i, ui_username = name, ui_password_hash = h, ui_is_admin = admin,
      ui_mysql_native_hash = hash_password_mysql_native sha1 pw\<rparr>"
  have "am' = am\<lparr>am_users := DAList.update name ?u (am_users am)\<rparr>"
    using assms(2) False h by (simp add: add_user_def Let_def) blast
  then show ?thesis using ok False by (simp add: authenticate_def is_admin_def as_bytes_inj)
qed

definition sample_argon2 :: argon2 where
  "sample_argon2 = \<lparr>ar_hash = (\<lambda>salt pw. Ok (CHR ''$'' # of_bytes pw)), ar_parse = (\<lambda>h. Ok ()),
     ar_verify = (\<lambda>h pw. h = CHR ''$'' # of_bytes pw)\<rparr>"

lemma sample_argon2_ok: "argon2_ok sample_argon2"
  by (auto simp: argon2_ok_def sample_argon2_def of_bytes_inj)

theorem added_user_authenticates_witness:
  "authenticate sample_argon2 ''bob'' ''pw''
     (snd (add_user sample_argon2 (\<lambda>x. x) ''salt'' ''bob'' ''pw'' False auth_manager_new)) = Ok 2"
proof -
  have "length (DAList.impl_of (am_users auth_manager_new)) = 1"
    by (simp add: auth_manager_new_def DAList.update.rep_eq DAList.empty.rep_eq)
  then have "add_user sample_argon2 (\<lambda>x. x) ''salt'' ''bob'' ''pw'' False auth_manager_new =
      (Ok 2, snd (add_user sample_argon2 (\<lambda>x. x) ''salt'' ''bob'' ''pw'' False auth_manager_new))"
    by (simp add: add_user_def sample_argon2_def)
  from added_user_authenticates [OF sample_argon2_ok this] show ?thesis by blast
qed

text \<open>
  The identifier of a new account is the number of accounts plus one. Adding an account again
  replaces it without adding to that number, so the next account gets an identifier in use.
\<close>

lemma added_user_ids_repeat:
  assumes "ar_hash ar salt (as_bytes ''pw'') = Ok h"
    "add_user ar sha1 salt ''root'' ''pw'' True auth_manager_new = (r1, am1)"
    "add_user ar sha1 salt ''bob'' ''pw'' False am1 = (r2, am2)"
  shows "r1 = Ok 2 \<and> r2 = Ok 2"
proof -
  have "length (DAList.impl_of (am_users auth_manager_new)) = 1"
    by (simp add: auth_manager_new_def DAList.update.rep_eq DAList.empty.rep_eq)
  moreover have "length (DAList.impl_of (am_users am1)) = 1"
    using assms(1,2) by (auto simp: add_user_def auth_manager_new_def DAList.update.rep_eq DAList.empty.rep_eq)
  ultimately show ?thesis using assms by (auto simp: add_user_def)
qed

end
