(* ===== verification/Mysql_Server.thy ===== *)
theory Mysql_Server
  imports Mysql_Session Coord_Rbac
begin

text \<open>
  The connection handler of the MySQL front end, \<^verbatim>\<open>mysql_protocol/server.rs\<close>: greeting,
  authentication, and the loop that reads a command, runs it and answers.

  The query engine behind the server (\<^verbatim>\<open>query_engine.rs\<close>, a trait object) is a record of
  functions over an engine state; statements change the state, the other calls read it. A
  connection is one run of \<open>handle_connection\<close> over the bytes the client sends; connections
  share only the list of open sessions, which a run changes through the engine-independent
  \<open>push\<close> and \<open>retain\<close>. The random scramble is an argument. Log output is left out.

  The lemmas show that without a valid password no statement reaches the engine, that a
  session acts with granted roles only, and that the session list has no trace of a finished
  connection.
\<close>

subsection \<open>The query engine\<close>

datatype QueryResult = QR_Success string | QR_Rows "string list" "string list list"

record 's QueryEngine =
  qe_execute_sql :: "string \<Rightarrow> string \<Rightarrow> SecurityContext \<Rightarrow> 's \<Rightarrow> (NovaError, QueryResult) result \<times> 's"
  qe_list_databases :: "SecurityContext \<Rightarrow> 's \<Rightarrow> (NovaError, string list) result"
  qe_list_tables :: "string \<Rightarrow> SecurityContext \<Rightarrow> 's \<Rightarrow> (NovaError, string list) result"
  qe_user_for_auth :: "string \<Rightarrow> 's \<Rightarrow> (NovaError, UserMeta option) result"
  qe_security_context_for_user :: "string \<Rightarrow> 's \<Rightarrow> (NovaError, SecurityContext) result"
  qe_role_id_by_name :: "string \<Rightarrow> 's \<Rightarrow> (NovaError, RoleId option) result"
  qe_serialization_text :: string

text \<open>
  How an error is displayed. The text of a serialisation error comes from the \<^verbatim>\<open>bincode\<close> crate.
\<close>

fun show_error :: "string \<Rightarrow> NovaError \<Rightarrow> string" where
  "show_error t (MpNotFound i m) = ''micro-partition not found: table='' @ show_u64 i @ '', mp='' @ show_u64 m"
| "show_error t (TableNotFound n) = ''table not found: '' @ n"
| "show_error t (DatabaseNotFound n) = ''database not found: '' @ n"
| "show_error t (SchemaNotFound n) = ''schema not found: '' @ n"
| "show_error t (TransactionConflict i) = ''transaction conflict: txn_id='' @ show_u64 i"
| "show_error t (TransactionAborted r) = ''transaction aborted: '' @ r"
| "show_error t (FdbError e) = ''FDB error: '' @ e"
| "show_error t MetadataSerialization = ''metadata serialization error: '' @ t"
| "show_error t (ParquetError e) = ''parquet error: '' @ e"
| "show_error t (ArrowError e) = ''arrow error: '' @ e"
| "show_error t (ObjectStoreError e) = ''object store error: '' @ e"
| "show_error t (SqlParseError m) = ''SQL parse error: '' @ m"
| "show_error t (SqlAnalysisError m) = ''SQL analysis error: '' @ m"
| "show_error t (AuthFailed r) = ''authentication failed: '' @ r"
| "show_error t (PermissionDenied u a) = ''permission denied: user='' @ u @ '', action='' @ a"
| "show_error t (StreamNotFound n) = ''stream not found: '' @ n"
| "show_error t (StreamAlreadyExists n) = ''stream already exists: '' @ n"
| "show_error t (StreamConcurrentConsume i) = ''stream concurrent consume conflict: stream_id='' @ show_u64 i"
| "show_error t (StreamStale i a b) =
     ''stream is stale: stream_id='' @ show_u64 i @ '', earliest_sequence='' @ show_u64 a @ '', offset_sequence='' @ show_u64 b"
| "show_error t (StreamPayloadMissing i p) = ''stream payload missing: stream_id='' @ show_u64 i @ '', payload_path='' @ p"
| "show_error t (UnsupportedStreamSyntax m) = ''unsupported stream syntax: '' @ m"
| "show_error t (AmbiguousRelationName n) = ''ambiguous relation name: '' @ n"
| "show_error t (Internal m) = ''internal error: '' @ m"

subsection \<open>Role commands\<close>

datatype RoleCommand = UseRole string | UseSecondaryAll | UseSecondaryNone

fun find_str :: "string \<Rightarrow> string \<Rightarrow> nat option" where
  "find_str p [] = (if p = [] then Some 0 else None)"
| "find_str p (c # cs) = (if starts_with (c # cs) p then Some 0 else map_option Suc (find_str p cs))"

definition parse_role_command :: "string \<Rightarrow> RoleCommand option" where
  "parse_role_command sql0 =
     (let sql = trim (trim_end_matches (CHR '';'') (trim sql0)) in
      (case split_whitespace sql of
         first # second # parts \<Rightarrow>
           (if \<not> eq_ignore_ascii_case first ''use'' then None
            else if eq_ignore_ascii_case second ''role'' then
              (case find_str ''role'' (to_ascii_lowercase sql) of
                 None \<Rightarrow> None
               | Some i \<Rightarrow>
                   (let role = trim_matches (CHR 0x22) (trim_matches (CHR ''`'') (trim (drop (i + 4) sql))) in
                    if role = [] then None else Some (UseRole role)))
            else if eq_ignore_ascii_case second ''secondary'' then
              (case parts of
                 third # fourth # _ \<Rightarrow>
                   (if eq_ignore_ascii_case third ''roles'' then
                      (if eq_ignore_ascii_case fourth ''all'' then Some UseSecondaryAll
                       else if eq_ignore_ascii_case fourth ''none'' then Some UseSecondaryNone
                       else None)
                    else None)
               | _ \<Rightarrow> None)
            else None)
       | _ \<Rightarrow> None))"

definition verify_fdb_mysql_native_user ::
  "digest \<Rightarrow> UserMeta \<Rightarrow> UserInfo option \<Rightarrow> byte list \<Rightarrow> byte list \<Rightarrow> bool" where
  "verify_fdb_mysql_native_user sha1 user configured_user scramble auth_response =
     (if usr_disabled user then False
      else if usr_mysql_native_hash user \<noteq> [] then
        verify_mysql_native_password sha1 scramble (usr_mysql_native_hash user) auth_response
      else
        (case configured_user of
           Some cu \<Rightarrow>
             (if ui_username cu = usr_name user \<and> ui_mysql_native_hash cu \<noteq> []
              then verify_mysql_native_password sha1 scramble (ui_mysql_native_hash cu) auth_response
              else False)
         | None \<Rightarrow> False))"

subsection \<open>Commands\<close>

definition ok_result :: CommandResult where
  "ok_result = CR_Ok 0 0 []"

definition effective_db :: "Session \<Rightarrow> string" where
  "effective_db ss = (if ss_current_db ss = [] then ''nova'' else ss_current_db ss)"

definition run_sql :: "'s QueryEngine \<Rightarrow> string \<Rightarrow> Session \<Rightarrow> 's \<Rightarrow> CommandResult \<times> 's" where
  "run_sql en sql ss es =
     (case qe_execute_sql en sql (effective_db ss) (ss_security ss) es of
        (Inr (QR_Success message), es) \<Rightarrow> (CR_Ok 0 0 message, es)
      | (Inr (QR_Rows columns rows), es) \<Rightarrow>
          (CR_ResultSet (map text_column columns) (map (map Some) rows), es)
      | (Inl e, es) \<Rightarrow> (CR_Error ER_PARSE_ERROR (show_error (qe_serialization_text en) e), es))"

definition query_text :: "Session \<Rightarrow> byte list \<Rightarrow> string" where
  "query_text ss payload =
     (let sql = (if supports_query_attributes (ss_client_capabilities ss) \<and> length payload \<ge> 2 then
                   (let after_hdr = drop 2 payload in
                    if after_hdr \<noteq> [] \<and> after_hdr ! 0 = 0 then drop 1 after_hdr else after_hdr)
                 else payload) in
      trim (trim_end_matches (CHR 0x00) (from_utf8_lossy sql)))"

definition run_role_command :: "'s QueryEngine \<Rightarrow> RoleCommand \<Rightarrow> Session \<Rightarrow> 's \<Rightarrow> CommandResult \<times> Session" where
  "run_role_command en rc ss es =
     (case rc of
        UseRole role \<Rightarrow>
          (case qe_role_id_by_name en role es of
             Inr (Some role_id) \<Rightarrow>
               (if role_id \<in> set (active_role_ids (ss_security ss))
                then (ok_result, ss\<lparr>ss_security := (ss_security ss)\<lparr>sec_primary_role_id := role_id\<rparr>\<rparr>)
                else (CR_Error ER_ACCESS_DENIED_ERROR
                        (''role '' @ quoted role @ '' is not granted to current user''), ss))
           | Inr None \<Rightarrow> (CR_Error ER_PARSE_ERROR (''role '' @ quoted role @ '' not found''), ss)
           | Inl e \<Rightarrow> (CR_Error ER_PARSE_ERROR (show_error (qe_serialization_text en) e), ss))
      | UseSecondaryAll \<Rightarrow> (ok_result, ss\<lparr>ss_security := (ss_security ss)\<lparr>sec_secondary_all := True\<rparr>\<rparr>)
      | UseSecondaryNone \<Rightarrow> (ok_result, ss\<lparr>ss_security := (ss_security ss)\<lparr>sec_secondary_all := False\<rparr>\<rparr>))"

fun add_system_dbs :: "string list \<Rightarrow> string option list list \<Rightarrow> string option list list" where
  "add_system_dbs [] rows = rows"
| "add_system_dbs (d # ds) rows =
     add_system_dbs ds (if list_ex (\<lambda>r. r ! 0 = Some d) rows then rows else rows @ [[Some d]])"

definition unwrap_or_default :: "('e, 'a list) result \<Rightarrow> 'a list" where
  "unwrap_or_default r = (case r of Inr xs \<Rightarrow> xs | Inl _ \<Rightarrow> [])"

definition handle_com_query :: "'s QueryEngine \<Rightarrow> byte list \<Rightarrow> Session \<Rightarrow> 's \<Rightarrow> CommandResult \<times> Session \<times> 's" where
  "handle_com_query en payload ss es =
     (let sql = query_text ss payload;
          sql_lower = to_ascii_lowercase sql in
      (case parse_role_command sql of
         Some rc \<Rightarrow> (let (res, ss) = run_role_command en rc ss es in (res, ss, es))
       | None \<Rightarrow>
           if starts_with sql_lower ''use '' then
             (ok_result, set_database (trim_end_matches (CHR '';'') (trim (drop 4 sql))) ss, es)
           else if starts_with sql_lower ''show databases'' \<or> starts_with sql_lower ''show schemas'' then
             (let db_names = unwrap_or_default (qe_list_databases en (ss_security ss) es);
                  rows = add_system_dbs [''information_schema'', ''mysql'', ''performance_schema'', ''sys'']
                           (map (\<lambda>n. [Some n]) db_names) in
              (CR_ResultSet [text_column ''Database''] rows, ss, es))
           else if starts_with sql_lower ''select @@version'' \<or> starts_with sql_lower ''select version()'' then
             (CR_ResultSet [text_column ''@@version''] [[Some ''8.0.35-nova'']], ss, es)
           else if starts_with sql_lower ''set '' then (ok_result, ss, es)
           else if starts_with sql_lower ''show warnings'' \<or> starts_with sql_lower ''show status'' then
             (CR_ResultSet [text_column ''Level''] [], ss, es)
           else if starts_with sql_lower ''show tables'' then
             (let table_names = unwrap_or_default (qe_list_tables en (effective_db ss) (ss_security ss) es) in
              (CR_ResultSet [text_column (''Tables_in_'' @ ss_current_db ss)] (map (\<lambda>n. [Some n]) table_names), ss, es))
           else if starts_with sql_lower ''select 1'' \<and> \<not> contains_str sql_lower ''from'' then
             (CR_ResultSet [\<lparr>wc_name = ''1'', wc_col_type = CT_Long, wc_flags = 0, wc_decimals = 0\<rparr>] [[Some ''1'']], ss, es)
           else (let (res, es) = run_sql en sql ss es in (res, ss, es))))"

definition handle_com_stmt_execute :: "'s QueryEngine \<Rightarrow> byte list \<Rightarrow> Session \<Rightarrow> 's \<Rightarrow> CommandResult \<times> 's" where
  "handle_com_stmt_execute en payload ss es =
     (if length payload < 4 then (CR_Error ER_SYNTAX_ERROR ''Invalid COM_STMT_EXECUTE payload'', es)
      else
        (let stmt_id = get_u32_le payload in
         (case get_prepared_statement stmt_id ss of
            None \<Rightarrow> (CR_Error ER_UNKNOWN_STMT_HANDLER
                      (''Unknown prepared statement handler ('' @ show_nat (unat stmt_id) @ '') given''), es)
          | Some stmt \<Rightarrow>
              (if ps_num_params stmt \<noteq> 0
               then (CR_Error ER_NOT_SUPPORTED_YET ''Prepared statement parameters are not yet implemented'', es)
               else run_sql en (ps_sql stmt) ss es))))"

definition run_command ::
  "'s QueryEngine \<Rightarrow> byte \<Rightarrow> byte list \<Rightarrow> Session \<Rightarrow> 's \<Rightarrow> CommandResult \<times> Session \<times> 's" where
  "run_command en command_byte payload ss es =
     (let command = command_from_u8 command_byte in
      (case command of
         ComQuit \<Rightarrow> (let (res, ss) = handle_quit ss in (res, ss, es))
       | ComPing \<Rightarrow> (let (res, ss) = handle_ping ss in (res, ss, es))
       | ComInitDb \<Rightarrow> (let (res, ss) = handle_init_db payload ss in (res, ss, es))
       | ComQuery \<Rightarrow> handle_com_query en payload ss es
       | ComStmtPrepare \<Rightarrow> (let (res, ss) = handle_stmt_prepare payload ss in (res, ss, es))
       | ComStmtExecute \<Rightarrow> (let (res, es) = handle_com_stmt_execute en payload ss es in (res, ss, es))
       | ComStmtClose \<Rightarrow> (let (res, ss) = handle_stmt_close payload ss in (CR_Eof, ss, es))
       | ComSetOption \<Rightarrow> (let (res, ss) = handle_set_option payload ss in (res, ss, es))
       | ComResetConnection \<Rightarrow> (let (res, ss) = handle_reset_connection ss in (res, ss, es))
       | _ \<Rightarrow> (CR_Error ER_UNKNOWN_COM_ERROR
                 (''Unsupported command: '' @ command_name command @ '' (0x'' @ show_hex2 command_byte @ '')''), ss, es)))"

subsection \<open>Answers\<close>

definition response_payloads :: "Command \<Rightarrow> Session \<Rightarrow> CommandResult \<Rightarrow> byte list list" where
  "response_payloads command ss res =
     (let eof = pk_payload (build_eof_packet (ss_server_status ss) (ss_warning_count ss)) in
      (case res of
         CR_Ok affected_rows last_insert_id message \<Rightarrow>
           [pk_payload (build_ok_packet affected_rows last_insert_id (ss_server_status ss) message)]
       | CR_Error code message \<Rightarrow> [pk_payload (build_error_packet code message)]
       | CR_ResultSet columns rows \<Rightarrow>
           [pk_payload (build_column_count_packet (word_of_nat (length columns)))] @
           map (\<lambda>col. pk_payload (build_column_def_packet col)) columns @
           (if supports_deprecate_eof (ss_client_capabilities ss) then [] else [eof]) @
           map (\<lambda>row. pk_payload (build_row_packet row)) rows @
           [if supports_deprecate_eof (ss_client_capabilities ss)
            then pk_payload (build_ok_packet 0 0 (ss_server_status ss) []) else eof]
       | CR_Eof \<Rightarrow> if command \<noteq> ComStmtClose then [eof] else []
       | CR_Close \<Rightarrow> []))"

fun send_packets :: "byte list list \<Rightarrow> PacketCodec \<Rightarrow> (NovaError, unit) result \<times> PacketCodec" where
  "send_packets [] c = (Ok (), c)"
| "send_packets (p # ps) c =
     (case write_packet p c of
        (Inl e, c) \<Rightarrow> (Err e, c)
      | (Inr _, c) \<Rightarrow> send_packets ps c)"

lemma write_packet_in [simp]: "tcp_in (pc_stream (snd (write_packet p c))) = tcp_in (pc_stream c)"
  by (simp add: write_packet_def write_packet_with_seq_def write_all_def Let_def split: option.split)

lemma send_packets_in [simp]: "tcp_in (pc_stream (snd (send_packets ps c))) = tcp_in (pc_stream c)"
proof (induction ps arbitrary: c)
  case (Cons p ps)
  obtain r c1 where w: "write_packet p c = (r, c1)" by (metis surj_pair)
  then have "tcp_in (pc_stream c1) = tcp_in (pc_stream c)" using write_packet_in [of p c] by simp
  then show ?case using Cons [of c1] w by (cases r) simp_all
qed simp

function command_loop ::
  "'s QueryEngine \<Rightarrow> Session \<Rightarrow> PacketCodec \<Rightarrow> 's \<Rightarrow> (NovaError, unit) result \<times> Session \<times> PacketCodec \<times> 's" where
  "command_loop en ss c es =
     (case read_packet c of
        (Inl _, c1) \<Rightarrow> (Ok (), ss, c1, es)
      | (Inr p, c1) \<Rightarrow>
          (if pk_payload p = [] then (Ok (), ss, c1, es)
           else
             (let command = command_from_u8 (hd (pk_payload p));
                  (res, ss1, es1) = run_command en (hd (pk_payload p)) (tl (pk_payload p)) ss es in
              if res = CR_Close then (Ok (), ss1, c1, es1)
              else
                (case send_packets (response_payloads command ss1 res) c1 of
                   (Inl e, c2) \<Rightarrow> (Err e, ss1, c2, es1)
                 | (Inr _, c2) \<Rightarrow>
                     (if command = ComQuit then (Ok (), ss1, reset_seq c2, es1)
                      else command_loop en ss1 (reset_seq c2) es1)))))"
  by pat_completeness auto

termination command_loop
proof (relation "measure (\<lambda>(en, ss, c, es). length (tcp_in (pc_stream c)))", goal_cases)
  case (2 en ss c es r c1 p cmd t1 res t2 ss1 es1 t3 c2)
  have "length (tcp_in (pc_stream c1)) < length (tcp_in (pc_stream c))"
    using read_packet_shrinks [of c p c1] 2(1,2) by simp
  moreover have "tcp_in (pc_stream c2) = tcp_in (pc_stream c1)" using send_packets_in 2 by (metis snd_conv)
  ultimately show ?case by (simp add: reset_seq_def)
qed simp

declare command_loop.simps [simp del]

subsection \<open>Connections\<close>

record 's ConnState =
  cn_codec :: PacketCodec
  cn_sessions :: "u32 list"
  cn_engine :: 's
  cn_counter :: u32

definition remove_session :: "u32 \<Rightarrow> u32 list \<Rightarrow> u32 list" where
  "remove_session connection_id sessions = filter (\<lambda>i. i \<noteq> connection_id) sessions"

definition parse_handshake_response_for_auth :: "byte list \<Rightarrow> (fault, (Packet, HandshakeResponse) result) result" where
  "parse_handshake_response_for_auth payload =
     (case parse_handshake_response payload of
        Inl Panic \<Rightarrow> Err Panic
      | Inl (Fail e) \<Rightarrow> Ok (Err (build_error_packet ER_HANDSHAKE_ERROR (error_message ER_HANDSHAKE_ERROR)))
      | Inr r \<Rightarrow> Ok (Ok r))"

definition access_denied :: "string \<Rightarrow> string" where
  "access_denied username = ''Access denied for user '' @ quoted username @ ''@'' @ quoted ''unknown''"

text \<open>Refuse the client: answer with an error packet and forget the session.\<close>

definition deny :: "string \<Rightarrow> u32 \<Rightarrow> 's ConnState \<Rightarrow> (fault, unit) result \<times> 's ConnState" where
  "deny message connection_id st =
     (case write_packet (pk_payload (build_error_packet ER_ACCESS_DENIED_ERROR message)) (cn_codec st) of
        (Inl e, c) \<Rightarrow> (Err (Fail e), st\<lparr>cn_codec := c\<rparr>)
      | (Inr _, c) \<Rightarrow>
          (Ok (), st\<lparr>cn_codec := c, cn_sessions := remove_session connection_id (cn_sessions st)\<rparr>))"

text \<open>The part after authentication: the confirmation, the command loop and the clean-up.\<close>

definition serve :: "'s QueryEngine \<Rightarrow> u32 \<Rightarrow> Session \<Rightarrow> 's ConnState \<Rightarrow> (fault, unit) result \<times> 's ConnState" where
  "serve en connection_id ss st =
     (case write_packet (pk_payload (build_ok_packet 0 0 (ss_server_status ss) [])) (cn_codec st) of
        (Inl e, c) \<Rightarrow> (Err (Fail e), st\<lparr>cn_codec := c\<rparr>)
      | (Inr _, c) \<Rightarrow>
          (case command_loop en ss c (cn_engine st) of
             (Inl e, ss, c, es) \<Rightarrow> (Err (Fail e), st\<lparr>cn_codec := c, cn_engine := es\<rparr>)
           | (Inr _, ss, c, es) \<Rightarrow>
               (Ok (), st\<lparr>cn_codec := c, cn_engine := es, cn_sessions := remove_session connection_id (cn_sessions st)\<rparr>)))"

definition authenticate_client ::
  "'s QueryEngine \<Rightarrow> digest \<Rightarrow> AuthManager option \<Rightarrow> byte list \<Rightarrow> u32 \<Rightarrow> HandshakeResponse \<Rightarrow> Session \<Rightarrow>
     's ConnState \<Rightarrow> (fault, unit) result \<times> 's ConnState" where
  "authenticate_client en sha1 auth scramble connection_id response ss st =
     (case auth of
        Some auth_manager \<Rightarrow>
          (let username = hr_username response in
           (case qe_user_for_auth en username (cn_engine st) of
              Inr (Some user) \<Rightarrow>
                (if usr_disabled user then deny (access_denied username) connection_id st
                 else if \<not> verify_fdb_mysql_native_user sha1 user (get_user_info username auth_manager) scramble
                            (hr_auth_response response)
                 then deny (access_denied username @ '' (using password: YES)'') connection_id st
                 else
                   (case qe_security_context_for_user en (usr_name user) (cn_engine st) of
                      Inr security \<Rightarrow> serve en connection_id (ss\<lparr>ss_security := security\<rparr>) st
                    | Inl e \<Rightarrow> deny (show_error (qe_serialization_text en) e) connection_id st))
            | _ \<Rightarrow> deny (access_denied username @ '' (using password: YES)'') connection_id st))
      | None \<Rightarrow> serve en connection_id (ss\<lparr>ss_security := security_context_root\<rparr>) st)"

definition open_session :: "HandshakeResponse \<Rightarrow> byte list \<Rightarrow> u32 \<Rightarrow> Session \<times> u32" where
  "open_session response scramble counter =
     (let (ss, counter) = session_new counter (hr_username response) MysqlNativePassword scramble;
          ss = ss\<lparr>ss_client_capabilities := hr_capabilities response\<rparr>;
          ss = (case hr_database response of Some db \<Rightarrow> set_database db ss | None \<Rightarrow> ss) in
      (fold (\<lambda>(k, v) ss. ss\<lparr>ss_connect_attrs := (ss_connect_attrs ss)(k \<mapsto> v)\<rparr>) (hr_connect_attrs response) ss, counter))"

definition handle_connection ::
  "'s QueryEngine \<Rightarrow> digest \<Rightarrow> AuthManager option \<Rightarrow> byte list \<Rightarrow> u32 \<Rightarrow> 's ConnState \<Rightarrow> (fault, unit) result \<times> 's ConnState" where
  "handle_connection en sha1 auth scramble connection_id st =
     (case build_handshake_packet connection_id MysqlNativePassword scramble of
        Inl e \<Rightarrow> (Err e, st)
      | Inr handshake \<Rightarrow>
          (case write_packet handshake (cn_codec st) of
             (Inl e, c) \<Rightarrow> (Err (Fail e), st\<lparr>cn_codec := c\<rparr>)
           | (Inr _, c) \<Rightarrow>
               (case read_packet c of
                  (Inl e, c) \<Rightarrow> (Err (Fail e), st\<lparr>cn_codec := c\<rparr>)
                | (Inr response_packet, c) \<Rightarrow>
                    (case parse_handshake_response_for_auth (pk_payload response_packet) of
                       Inl e \<Rightarrow> (Err e, st\<lparr>cn_codec := c\<rparr>)
                     | Inr (Inl err) \<Rightarrow>
                         (let (res, c) = write_packet (pk_payload err) c in
                          (map_err Fail res, st\<lparr>cn_codec := c\<rparr>))
                     | Inr (Inr response) \<Rightarrow>
                         (let (ss, counter) = open_session response scramble (cn_counter st) in
                          authenticate_client en sha1 auth scramble connection_id response ss
                            (st\<lparr>cn_codec := c, cn_counter := counter,
                                cn_sessions := cn_sessions st @ [connection_id]\<rparr>))))))"

subsection \<open>Sessions act with granted roles\<close>

definition session_roles :: "Session \<Rightarrow> RoleId set" where
  "session_roles ss = insert (sec_primary_role_id (ss_security ss)) (set (sec_secondary_role_ids (ss_security ss)))"

definition session_user :: "Session \<Rightarrow> UserId" where
  "session_user ss = sec_user_id (ss_security ss)"

lemma active_in_roles: "set (active_role_ids (ss_security ss)) \<subseteq> session_roles ss"
  by (auto simp: active_role_ids_def session_roles_def)

lemma role_command_roles:
  "session_roles (snd (run_role_command en rc ss es)) \<subseteq> session_roles ss \<and>
   session_user (snd (run_role_command en rc ss es)) = session_user ss"
proof (cases rc)
  case (UseRole role)
  then show ?thesis using active_in_roles [of ss]
    by (auto simp: run_role_command_def session_roles_def session_user_def split: sum.split option.split)
qed (auto simp: run_role_command_def session_roles_def session_user_def)

lemma session_parts:
  "session_roles (set_database db ss) = session_roles ss" "session_user (set_database db ss) = session_user ss"
  "session_roles (snd (handle_init_db p ss)) = session_roles ss" "session_user (snd (handle_init_db p ss)) = session_user ss"
  "session_roles (snd (handle_stmt_prepare p ss)) = session_roles ss"
  "session_user (snd (handle_stmt_prepare p ss)) = session_user ss"
  "session_roles (snd (handle_stmt_close p ss)) = session_roles ss" "session_user (snd (handle_stmt_close p ss)) = session_user ss"
  "session_roles (snd (handle_set_option p ss)) = session_roles ss" "session_user (snd (handle_set_option p ss)) = session_user ss"
  "session_roles (snd (handle_reset_connection ss)) = session_roles ss"
  "session_user (snd (handle_reset_connection ss)) = session_user ss"
  by (simp_all add: session_roles_def session_user_def set_database_def handle_init_db_def handle_stmt_prepare_def
      add_prepared_statement_def handle_stmt_close_def remove_prepared_statement_def handle_set_option_def
      handle_reset_connection_def Let_def)

lemma query_roles:
  "session_roles (fst (snd (handle_com_query en p ss es))) \<subseteq> session_roles ss \<and>
   session_user (fst (snd (handle_com_query en p ss es))) = session_user ss"
  using role_command_roles [of en _ ss es]
  by (simp only: handle_com_query_def Let_def split_beta fst_conv snd_conv session_parts subset_refl simp_thms
      split: option.split if_split)

lemma command_roles:
  "session_roles (fst (snd (run_command en b p ss es))) \<subseteq> session_roles ss \<and>
   session_user (fst (snd (run_command en b p ss es))) = session_user ss"
  using query_roles [of en p ss es]
  by (cases "command_from_u8 b")
    (simp_all add: run_command_def Let_def split_beta session_parts handle_quit_def handle_ping_def)


text \<open>
  With secondary roles switched off, only the primary role counts as granted, so a session
  cannot change to another role that its user holds.
\<close>

lemma use_role_needs_secondary:
  assumes "\<not> sec_secondary_all (ss_security ss)" "qe_role_id_by_name en role es = Ok (Some r)"
    "r \<noteq> sec_primary_role_id (ss_security ss)"
  shows "run_role_command en (UseRole role) ss es =
     (CR_Error ER_ACCESS_DENIED_ERROR (''role '' @ quoted role @ '' is not granted to current user''), ss)"
  using assms by (simp add: run_role_command_def active_role_ids_def)

subsection \<open>No statement without a password\<close>

lemma deny_engine: "cn_engine (snd (deny m i st)) = cn_engine st"
  by (simp add: deny_def split: prod.split sum.split)

definition password_verified ::
  "'s QueryEngine \<Rightarrow> digest \<Rightarrow> AuthManager \<Rightarrow> byte list \<Rightarrow> HandshakeResponse \<Rightarrow> 's \<Rightarrow> bool" where
  "password_verified en sha1 am scramble r es \<longleftrightarrow>
     (\<exists>user h. qe_user_for_auth en (hr_username r) es = Ok (Some user) \<and> \<not> usr_disabled user \<and> h \<noteq> [] \<and>
        (h = usr_mysql_native_hash user \<or>
         (\<exists>cu. get_user_info (hr_username r) am = Some cu \<and> ui_username cu = usr_name user \<and> h = ui_mysql_native_hash cu)) \<and>
        verify_mysql_native_password sha1 scramble h (hr_auth_response r))"

lemma verify_user_hash:
  assumes "verify_fdb_mysql_native_user sha1 user cu scramble resp"
  shows "\<not> usr_disabled user \<and> (\<exists>h. h \<noteq> [] \<and>
     (h = usr_mysql_native_hash user \<or> (\<exists>c. cu = Some c \<and> ui_username c = usr_name user \<and> h = ui_mysql_native_hash c)) \<and>
     verify_mysql_native_password sha1 scramble h resp)"
proof (cases "usr_mysql_native_hash user = []")
  case True
  then show ?thesis using assms
    by (auto simp: verify_fdb_mysql_native_user_def split: if_splits option.splits)
next
  case False
  then show ?thesis using assms by (auto simp: verify_fdb_mysql_native_user_def split: if_splits)
qed

lemma authenticate_engine:
  assumes "cn_engine (snd (authenticate_client en sha1 (Some am) scramble i r ss st)) \<noteq> cn_engine st"
  shows "password_verified en sha1 am scramble r (cn_engine st)"
proof -
  obtain user where user: "qe_user_for_auth en (hr_username r) (cn_engine st) = Ok (Some user)"
    "verify_fdb_mysql_native_user sha1 user (get_user_info (hr_username r) am) scramble (hr_auth_response r)"
    using assms by (auto simp: authenticate_client_def deny_engine Let_def split: sum.splits option.splits if_splits)
  from verify_user_hash [OF user(2)] user(1) show ?thesis unfolding password_verified_def by blast
qed

text \<open>
  C28. No statement without a password. With authentication on, a connection leaves the engine
  exactly as it found it, unless its client has sent a handshake response with the name of an
  enabled user and an answer to this connection's scramble that the non-empty stored hash of
  this user accepts.
\<close>

theorem no_execution_without_password:
  "cn_engine (snd (handle_connection en sha1 (Some am) scramble i st)) = cn_engine st \<or>
   (\<exists>c p c1 response. tcp_in (pc_stream c) = tcp_in (pc_stream (cn_codec st)) \<and> read_packet c = (Ok p, c1) \<and>
      parse_handshake_response (pk_payload p) = Ok response \<and>
      password_verified en sha1 am scramble response (cn_engine st))"
proof (cases "build_handshake_packet i MysqlNativePassword scramble")
  case (Inr h)
  obtain w c where w: "write_packet h (cn_codec st) = (w, c)" by (metis surj_pair)
  obtain rd c1 where rd: "read_packet c = (rd, c1)" by (metis surj_pair)
  have sent: "tcp_in (pc_stream c) = tcp_in (pc_stream (cn_codec st))"
    using write_packet_in [of h "cn_codec st"] w by simp
  show ?thesis
  proof (cases "\<exists>p r. w = Ok () \<and> rd = Ok p \<and> parse_handshake_response (pk_payload p) = Ok r")
    case True
    then obtain p r where r: "w = Ok ()" "rd = Ok p" "parse_handshake_response (pk_payload p) = Ok r" by blast
    obtain ss n where s: "open_session r scramble (cn_counter st) = (ss, n)" by (metis surj_pair)
    let ?st = "st\<lparr>cn_codec := c1, cn_counter := n, cn_sessions := cn_sessions st @ [i]\<rparr>"
    have "handle_connection en sha1 (Some am) scramble i st = authenticate_client en sha1 (Some am) scramble i r ss ?st"
      using Inr w rd r s by (simp add: handle_connection_def parse_handshake_response_for_auth_def)
    with authenticate_engine [of en sha1 am scramble i r ss ?st] sent rd r show ?thesis by auto
  next
    case False
    then have "cn_engine (snd (handle_connection en sha1 (Some am) scramble i st)) = cn_engine st"
      using Inr w rd by (auto simp: handle_connection_def parse_handshake_response_for_auth_def Let_def split_beta
          split: sum.split fault.split)
    then show ?thesis by blast
  qed
qed (simp add: handle_connection_def)

subsection \<open>The list of sessions\<close>

lemma remove_session_gone: "i \<notin> set (remove_session i xs)"
  by (simp add: remove_session_def)

lemma deny_sessions: "fst (deny m i st) = Ok () \<Longrightarrow> i \<notin> set (cn_sessions (snd (deny m i st)))"
  by (auto simp: deny_def remove_session_gone split: prod.splits sum.splits)

lemma serve_sessions: "fst (serve en i ss st) = Ok () \<Longrightarrow> i \<notin> set (cn_sessions (snd (serve en i ss st)))"
  by (auto simp: serve_def remove_session_gone split: prod.splits sum.splits)

lemma authenticate_sessions:
  "fst (authenticate_client en sha1 auth scramble i r ss st) = Ok () \<Longrightarrow>
     i \<notin> set (cn_sessions (snd (authenticate_client en sha1 auth scramble i r ss st)))"
  by (auto simp: authenticate_client_def deny_sessions serve_sessions Let_def split: option.splits sum.splits if_splits)

text \<open>
  Session list. When a connection ends without an error, its identifier is not in the list
  of sessions, whether the client was refused, said goodbye or just went away.
\<close>

theorem finished_session_removed:
  assumes "handle_connection en sha1 auth scramble i st = (Ok (), st')" "i \<notin> set (cn_sessions st)"
  shows "i \<notin> set (cn_sessions st')"
proof -
  have "fst (handle_connection en sha1 auth scramble i st) = Ok () \<Longrightarrow>
      i \<notin> set (cn_sessions (snd (handle_connection en sha1 auth scramble i st)))"
    using assms(2) by (auto simp: handle_connection_def authenticate_sessions Let_def split: sum.splits prod.splits)
  with assms(1) show ?thesis by simp
qed

definition sample_engine :: "nat QueryEngine" where
  "sample_engine =
     \<lparr>qe_execute_sql = (\<lambda>sql db sc s. (Ok (QR_Success []), Suc s)), qe_list_databases = (\<lambda>sc s. Ok []),
      qe_list_tables = (\<lambda>db sc s. Ok []), qe_user_for_auth = (\<lambda>u s. Ok None),
      qe_security_context_for_user = (\<lambda>u s. Ok security_context_root), qe_role_id_by_name = (\<lambda>r s. Ok None),
      qe_serialization_text = []\<rparr>"

definition sample_state :: "nat ConnState" where
  "sample_state =
     \<lparr>cn_codec = codec_new \<lparr>tcp_in = frame 1 [], tcp_out = [], tcp_error = None\<rparr>, cn_sessions = [3],
      cn_engine = 0, cn_counter = 1\<rparr>"

theorem finished_session_removed_witness:
  "\<exists>st'. handle_connection sample_engine sample_digest None (replicate 20 0) 5 sample_state = (Ok (), st') \<and>
     5 \<notin> set (cn_sessions st')"
proof -
  obtain h where h: "build_handshake_packet 5 MysqlNativePassword (replicate 20 0) = Ok h"
    by (simp add: build_handshake_packet_def Let_def)
  let ?c = "(cn_codec sample_state)\<lparr>pc_stream := (pc_stream (cn_codec sample_state))\<lparr>tcp_out := frame 0 h\<rparr>, pc_seq := 1\<rparr>"
  have w: "write_packet h (cn_codec sample_state) = (Ok (), ?c)"
    by (simp add: write_packet_def write_packet_run sample_state_def codec_new_def)
  have r: "read_packet ?c = (Ok \<lparr>pk_seq = 1, pk_payload = []\<rparr>, ?c\<lparr>pc_stream := (pc_stream ?c)\<lparr>tcp_in := []\<rparr>, pc_seq := 1 + 1\<rparr>)"
    by (rule read_packet_frame) (simp_all add: sample_state_def codec_new_def)
  have "parse_handshake_response [] = Err (Fail (Internal ''handshake response too short''))"
    by (simp add: parse_handshake_response_def)
  with h w r have "\<exists>st'. handle_connection sample_engine sample_digest None (replicate 20 0) 5 sample_state = (Ok (), st')"
    by (simp add: handle_connection_def parse_handshake_response_for_auth_def write_packet_def write_packet_run
        sample_state_def codec_new_def)
  then obtain st' where run: "handle_connection sample_engine sample_digest None (replicate 20 0) 5 sample_state = (Ok (), st')"
    by blast
  from finished_session_removed [OF run] run show ?thesis by (simp add: sample_state_def)
qed

text \<open>
  If an answer cannot be written, the handler returns at once and the identifier stays in the
  list for good.
\<close>

lemma broken_connection_stays_listed:
  assumes "serve en i ss st = (Err e, st')" "i \<in> set (cn_sessions st)"
  shows "i \<in> set (cn_sessions st')"
  using assms by (auto simp: serve_def split: prod.splits sum.splits)

end
