(* ===== verification/Exec_Batch.thy ===== *)
theory Exec_Batch
  imports Coord_Prune Coord_Cache Mysql_Server Meta_Stream
begin

text \<open>
  The row-level work of the executor (\<^verbatim>\<open>crates/nova-coordinator/src/executor.rs\<close>): types of columns,
  batches built from literals, filters, updates and deletes on a batch, the metadata columns of
  change batches and the window of a payload a stream read takes.

  The lemmas state what an update and a delete do to the cells, that the window is exact, and the
  effect on cells that hold no value.
\<close>

subsection \<open>Column types\<close>

definition parse_sql_type :: "string \<Rightarrow> NovaType" where
  "parse_sql_type s =
     (let upper = to_ascii_uppercase s in
      if starts_with upper ''INT'' \<or> upper = ''INTEGER'' \<or> starts_with upper ''BIGINT'' then NT_Int64
      else if starts_with upper ''SMALLINT'' \<or> starts_with upper ''TINYINT'' then NT_Int32
      else if starts_with upper ''FLOAT'' \<or> starts_with upper ''DOUBLE'' \<or> starts_with upper ''DECIMAL'' \<or>
              starts_with upper ''NUMERIC'' then NT_Float64
      else if starts_with upper ''VARCHAR'' \<or> starts_with upper ''CHAR'' \<or> upper = ''TEXT'' \<or> upper = ''STRING'' then NT_Utf8
      else if upper = ''BOOLEAN'' \<or> upper = ''BOOL'' then NT_Boolean
      else if starts_with upper ''DATE'' then NT_Date32
      else if starts_with upper ''TIMESTAMP'' then NT_Timestamp
      else NT_Utf8)"

fun arrow_type :: "NovaType \<Rightarrow> ArrowDataType" where
  "arrow_type NT_Int8 = ADT_Int8"
| "arrow_type NT_Int16 = ADT_Int16"
| "arrow_type NT_Int32 = ADT_Int32"
| "arrow_type NT_Int64 = ADT_Int64"
| "arrow_type NT_Float32 = ADT_Float32"
| "arrow_type NT_Float64 = ADT_Float64"
| "arrow_type NT_Utf8 = ADT_Utf8"
| "arrow_type NT_Boolean = ADT_Boolean"
| "arrow_type NT_Date32 = ADT_Date32"
| "arrow_type NT_Timestamp = ADT_Utf8"
| "arrow_type (NT_Decimal _ _) = ADT_Float64"
| "arrow_type NT_Binary = ADT_Binary"
| "arrow_type (NT_List _) = ADT_Other ''List''"

fun nova_type_to_arrow :: "NovaType \<Rightarrow> ArrowDataType" where
  "nova_type_to_arrow NT_Boolean = ADT_Boolean"
| "nova_type_to_arrow NT_Int8 = ADT_Int8"
| "nova_type_to_arrow NT_Int16 = ADT_Int16"
| "nova_type_to_arrow NT_Int32 = ADT_Int32"
| "nova_type_to_arrow NT_Int64 = ADT_Int64"
| "nova_type_to_arrow NT_Float32 = ADT_Float32"
| "nova_type_to_arrow NT_Float64 = ADT_Float64"
| "nova_type_to_arrow NT_Utf8 = ADT_Utf8"
| "nova_type_to_arrow NT_Date32 = ADT_Date32"
| "nova_type_to_arrow NT_Timestamp = ADT_Timestamp"
| "nova_type_to_arrow NT_Binary = ADT_Binary"
| "nova_type_to_arrow (NT_Decimal _ _) = ADT_Decimal128"
| "nova_type_to_arrow (NT_List _) = ADT_Other ''List''"

definition build_arrow_schema :: "TableMeta \<Rightarrow> field list" where
  "build_arrow_schema t = map (\<lambda>c. (cd_name c, nova_type_to_arrow (cd_data_type c), cd_nullable c)) (tbl_columns t)"

subsection \<open>Batches from literals\<close>

text \<open>The display of floats, and the debug display of literals, are parameters.\<close>

record texts =
  tx_show_f64 :: "f64 \<Rightarrow> string"
  tx_show_f32 :: "32 word \<Rightarrow> string"
  tx_debug :: "ResolvedExpr \<Rightarrow> string"
  tx_parse_f64 :: "string \<Rightarrow> f64 option"

fun get_at :: "'a list \<Rightarrow> nat \<Rightarrow> 'a option" where
  "get_at [] n = None"
| "get_at (x # xs) 0 = Some x"
| "get_at (x # xs) (Suc n) = get_at xs n"

definition int_cell :: "ResolvedExpr option \<Rightarrow> i64 option" where
  "int_cell e = (case e of Some (RE_Int64 v) \<Rightarrow> Some v | _ \<Rightarrow> None)"

definition float_cell :: "ResolvedExpr option \<Rightarrow> f64 option" where
  "float_cell e = (case e of Some (RE_Float64 v) \<Rightarrow> Some v | Some (RE_Int64 v) \<Rightarrow> Some (i64_as_f64 v) | _ \<Rightarrow> None)"

definition text_cell :: "texts \<Rightarrow> ResolvedExpr option \<Rightarrow> string option" where
  "text_cell tx e =
     (case e of
        Some (RE_String v) \<Rightarrow> Some v
      | Some (RE_Int64 v) \<Rightarrow> Some (show_i64 v)
      | Some (RE_Float64 v) \<Rightarrow> Some (tx_show_f64 tx v)
      | Some (RE_Boolean v) \<Rightarrow> Some (show_bool v)
      | _ \<Rightarrow> None)"

definition debug_cell :: "texts \<Rightarrow> ResolvedExpr option \<Rightarrow> string option" where
  "debug_cell tx e = (case e of Some RE_Null \<Rightarrow> None | Some v \<Rightarrow> Some (tx_debug tx v) | None \<Rightarrow> None)"

definition column_array :: "texts \<Rightarrow> NovaType \<Rightarrow> ResolvedExpr option list \<Rightarrow> array" where
  "column_array tx t cells =
     (case t of
        NT_Int64 \<Rightarrow> Int64Array (map int_cell cells)
      | NT_Int32 \<Rightarrow> Int64Array (map int_cell cells)
      | NT_Int16 \<Rightarrow> Int64Array (map int_cell cells)
      | NT_Int8 \<Rightarrow> Int64Array (map int_cell cells)
      | NT_Float64 \<Rightarrow> Float64Array (map float_cell cells)
      | NT_Float32 \<Rightarrow> Float64Array (map float_cell cells)
      | NT_Decimal _ _ \<Rightarrow> Float64Array (map float_cell cells)
      | NT_Utf8 \<Rightarrow> StringArray (map (text_cell tx) cells)
      | _ \<Rightarrow> StringArray (map (debug_cell tx) cells))"

definition values_to_batch ::
  "('b, 'o) plane \<Rightarrow> texts \<Rightarrow> TableMeta \<Rightarrow> ResolvedExpr list list \<Rightarrow> (NovaError, 'b) result" where
  "values_to_batch pl tx table vals =
     map_err ArrowError (ar_try_new pl
       (map (\<lambda>c. (cd_name c, arrow_type (cd_data_type c), cd_nullable c)) (tbl_columns table))
       (map (\<lambda>(i, c). column_array tx (cd_data_type c) (map (\<lambda>row. get_at row i) vals))
          (zip [0..<length (tbl_columns table)] (tbl_columns table))))"

subsection \<open>Filters, updates and deletes\<close>

text \<open>
  \<open>arr.value(i)\<close> does not look at the validity of a cell: a cell without a value reads as the
  default the array builders store there.
\<close>

definition cmp_int :: "string \<Rightarrow> int \<Rightarrow> int \<Rightarrow> bool" where
  "cmp_int op a b =
     (if op = ''='' then a = b else if op = ''!='' then a \<noteq> b else if op = ''>'' then a > b
      else if op = ''>='' then a \<ge> b else if op = ''<'' then a < b else if op = ''<='' then a \<le> b else False)"

definition cmp_f64 :: "string \<Rightarrow> f64 \<Rightarrow> f64 \<Rightarrow> bool" where
  "cmp_f64 op a b =
     (if op = ''='' then f64_eq a b else if op = ''!='' then \<not> f64_eq a b else if op = ''>'' then f64_lt b a
      else if op = ''>='' then f64_le b a else if op = ''<'' then f64_lt a b else if op = ''<='' then f64_le a b else False)"

definition cmp_text :: "string \<Rightarrow> string \<Rightarrow> string \<Rightarrow> bool" where
  "cmp_text op a b = (if op = ''='' then a = b else if op = ''!='' then a \<noteq> b else False)"

definition unwrap_or :: "'a \<Rightarrow> 'a option \<Rightarrow> 'a" where
  "unwrap_or d x = (case x of Some v \<Rightarrow> v | None \<Rightarrow> d)"

definition filter_mask :: "array \<Rightarrow> ResolvedFilter \<Rightarrow> nat \<Rightarrow> bool list" where
  "filter_mask col f n =
     (case col of
        Int64Array xs \<Rightarrow>
          (let target = (case rf_value f of RE_Int64 v \<Rightarrow> v | _ \<Rightarrow> 0) in
           map (\<lambda>x. cmp_int (rf_op f) (sint (unwrap_or 0 x)) (sint target)) xs)
      | Float64Array xs \<Rightarrow>
          (let target = (case rf_value f of RE_Float64 v \<Rightarrow> v | _ \<Rightarrow> 0) in
           map (\<lambda>x. cmp_f64 (rf_op f) (unwrap_or 0 x) target) xs)
      | StringArray xs \<Rightarrow>
          (let target = (case rf_value f of RE_String v \<Rightarrow> v | _ \<Rightarrow> '''') in
           map (\<lambda>x. cmp_text (rf_op f) (unwrap_or '''' x) target) xs)
      | _ \<Rightarrow> replicate n False)"

definition eval_filter_on_batch :: "('b, 'o) plane \<Rightarrow> 'b \<Rightarrow> ResolvedFilter \<Rightarrow> (NovaError, bool list) result" where
  "eval_filter_on_batch pl batch f =
     and_then (ok_or (Internal (''column '' @ rf_column f @ '' not found'')) (field_index (rf_column f) (ar_fields pl batch)))
       (\<lambda>col_idx. Ok (filter_mask (ar_columns pl batch ! col_idx) f (ar_num_rows pl batch)))"

definition batch_mask :: "('b, 'o) plane \<Rightarrow> 'b \<Rightarrow> ResolvedFilter option \<Rightarrow> (NovaError, bool list) result" where
  "batch_mask pl batch flt =
     (case flt of Some f \<Rightarrow> eval_filter_on_batch pl batch f | None \<Rightarrow> Ok (replicate (ar_num_rows pl batch) True))"

definition assign_column :: "array \<Rightarrow> bool list \<Rightarrow> ResolvedExpr \<Rightarrow> array" where
  "assign_column col hits e =
     (case col of
        Int64Array xs \<Rightarrow>
          (let v = (case e of RE_Int64 w \<Rightarrow> w | _ \<Rightarrow> 0) in
           Int64Array (map (\<lambda>(x, m). Some (if m then v else unwrap_or 0 x)) (zip xs hits)))
      | Float64Array xs \<Rightarrow>
          (let v = (case e of RE_Float64 w \<Rightarrow> w | _ \<Rightarrow> 0) in
           Float64Array (map (\<lambda>(x, m). Some (if m then v else unwrap_or 0 x)) (zip xs hits)))
      | StringArray xs \<Rightarrow>
          (let v = (case e of RE_String w \<Rightarrow> w | _ \<Rightarrow> '''') in
           StringArray (map (\<lambda>(x, m). if m then Some v else x) (zip xs hits)))
      | _ \<Rightarrow> col)"

definition apply_update_to_batch ::
  "('b, 'o) plane \<Rightarrow> 'b \<Rightarrow> (string \<times> ResolvedExpr) list \<Rightarrow> ResolvedFilter option \<Rightarrow> (NovaError, 'b) result" where
  "apply_update_to_batch pl batch assignments flt =
     and_then (batch_mask pl batch flt) (\<lambda>hits.
     map_err Internal (ar_try_new pl (ar_fields pl batch)
       (map (\<lambda>(f, col). case map_of assignments (fst f) of Some e \<Rightarrow> assign_column col hits e | None \<Rightarrow> col)
          (zip (ar_fields pl batch) (ar_columns pl batch)))))"

definition true_indices :: "bool list \<Rightarrow> nat list" where
  "true_indices hits = map fst (filter snd (zip [0..<length hits] hits))"

definition take_columns :: "('b, 'o) plane \<Rightarrow> (string \<Rightarrow> NovaError) \<Rightarrow> 'b \<Rightarrow> nat list \<Rightarrow> (NovaError, 'b) result" where
  "take_columns pl wrap batch indices =
     and_then (collect_results (\<lambda>col. map_err wrap (ar_take pl col indices)) (ar_columns pl batch))
       (\<lambda>cols. map_err wrap (ar_try_new pl (ar_fields pl batch) cols))"

definition apply_delete_to_batch :: "('b, 'o) plane \<Rightarrow> 'b \<Rightarrow> ResolvedFilter option \<Rightarrow> (NovaError, 'b) result" where
  "apply_delete_to_batch pl batch flt =
     and_then (case flt of Some f \<Rightarrow> and_then (eval_filter_on_batch pl batch f) (\<lambda>m. Ok (map Not m))
                | None \<Rightarrow> Ok (replicate (ar_num_rows pl batch) False)) (\<lambda>keep_mask.
     let indices = true_indices keep_mask in
     if indices = [] then Ok (ar_new_empty pl (ar_fields pl batch))
     else take_columns pl Internal batch indices)"

definition select_rows_by_indices :: "('b, 'o) plane \<Rightarrow> 'b \<Rightarrow> nat list \<Rightarrow> (NovaError, 'b option) result" where
  "select_rows_by_indices pl batch indices =
     (if indices = [] then Ok None
      else and_then (take_columns pl ArrowError batch indices) (\<lambda>b. Ok (Some b)))"

subsection \<open>Change batches\<close>

record CdcMetadataColumns =
  cmc_actions :: "string list"
  cmc_is_updates :: "bool list"
  cmc_row_ids :: "string list"
  cmc_txn_ids :: "u64 list"
  cmc_commit_ts_values :: "u64 list"
  cmc_sequences :: "u64 list"

definition metadata_fields :: "field list" where
  "metadata_fields =
     [(''METADATA$ACTION'', ADT_Utf8, False), (''METADATA$ISUPDATE'', ADT_Boolean, False),
      (''METADATA$ROW_ID'', ADT_Utf8, False), (''METADATA$TXN_ID'', ADT_UInt64, False),
      (''METADATA$COMMIT_TS'', ADT_UInt64, False), (''METADATA$SEQUENCE'', ADT_UInt64, False)]"

definition append_cdc_metadata_columns :: "('b, 'o) plane \<Rightarrow> 'b \<Rightarrow> CdcMetadataColumns \<Rightarrow> (NovaError, 'b) result" where
  "append_cdc_metadata_columns pl source md =
     map_err ArrowError (ar_try_new pl (ar_fields pl source @ metadata_fields)
       (ar_columns pl source @
        [StringArray (map Some (cmc_actions md)), BooleanArray (map Some (cmc_is_updates md)),
         StringArray (map Some (cmc_row_ids md)), UInt64Array (map Some (cmc_txn_ids md)),
         UInt64Array (map Some (cmc_commit_ts_values md)), UInt64Array (map Some (cmc_sequences md))]))"

definition build_insert_cdc_batch ::
  "('b, 'o) plane \<Rightarrow> TableMeta \<Rightarrow> 'b \<Rightarrow> u64 \<Rightarrow> TxnId \<Rightarrow> Timestamp \<Rightarrow> MpId \<Rightarrow> (NovaError, 'b) result" where
  "build_insert_cdc_batch pl table source_batch start_sequence txn_id commit_ts mp_id =
     (let row_count = ar_num_rows pl source_batch in
      append_cdc_metadata_columns pl source_batch
        \<lparr>cmc_actions = replicate row_count (change_action_name CA_Insert), cmc_is_updates = replicate row_count False,
         cmc_row_ids = map (\<lambda>i. stream_row_id (tbl_id table) mp_id (of_nat i) 0) [0..<row_count],
         cmc_txn_ids = replicate row_count txn_id, cmc_commit_ts_values = replicate row_count commit_ts,
         cmc_sequences = map (\<lambda>i. start_sequence + of_nat i) [0..<row_count]\<rparr>)"

record 'b CdcRowBatchSpec =
  crs_table :: TableMeta
  crs_source_batch :: 'b
  crs_row_ordinals :: "u64 list"
  crs_start_sequence :: u64
  crs_txn_id :: TxnId
  crs_commit_ts :: Timestamp
  crs_mp_id :: MpId
  crs_action :: ChangeAction
  crs_is_update :: bool

definition build_cdc_batch_for_rows :: "('b, 'o) plane \<Rightarrow> 'b CdcRowBatchSpec \<Rightarrow> (NovaError, 'b) result" where
  "build_cdc_batch_for_rows pl spec =
     (let row_count = ar_num_rows pl (crs_source_batch spec) in
      if row_count \<noteq> length (crs_row_ordinals spec)
      then Err (Internal ''CDC row ordinal count does not match source batch'')
      else append_cdc_metadata_columns pl (crs_source_batch spec)
        \<lparr>cmc_actions = replicate row_count (change_action_name (crs_action spec)),
         cmc_is_updates = replicate row_count (crs_is_update spec),
         cmc_row_ids = map (\<lambda>ord. stream_row_id (tbl_id (crs_table spec)) (crs_mp_id spec) ord 0) (crs_row_ordinals spec),
         cmc_txn_ids = replicate row_count (crs_txn_id spec),
         cmc_commit_ts_values = replicate row_count (crs_commit_ts spec),
         cmc_sequences = map (\<lambda>i. crs_start_sequence spec + of_nat i) [0..<row_count]\<rparr>)"

subsection \<open>Reading streams\<close>

definition stream_schema_for_table :: "TableMeta \<Rightarrow> field list" where
  "stream_schema_for_table table =
     map (\<lambda>c. (cd_name c, nova_type_to_arrow (cd_data_type c), cd_nullable c)) (tbl_columns table) @ metadata_fields"

definition empty_stream_batch :: "('b, 'o) plane \<Rightarrow> TableMeta \<Rightarrow> (NovaError, 'b) result" where
  "empty_stream_batch pl table =
     (let schema = stream_schema_for_table table in
      map_err ArrowError (ar_try_new pl schema (map (\<lambda>f. ar_empty_array pl (fst (snd f))) schema)))"

definition trim_end :: "string \<Rightarrow> string" where
  "trim_end s = rev (dropWhile is_ws (rev s))"

definition trim_start :: "string \<Rightarrow> string" where
  "trim_start s = dropWhile is_ws s"

definition remove_stream_preview_clause :: "string \<Rightarrow> string" where
  "remove_stream_preview_clause sql =
     (let upper = to_ascii_uppercase sql in
      case find_str ''WITH'' upper of
        None \<Rightarrow> sql
      | Some with_pos \<Rightarrow>
          (let suffix_upper = drop with_pos upper in
           if \<not> contains_str suffix_upper ''COMMIT'' then sql
           else case find_str ''('' suffix_upper of
                  None \<Rightarrow> sql
                | Some open_rel \<Rightarrow>
                    (let open_pos = with_pos + open_rel in
                     case find_str '')'' (drop open_pos upper) of
                       None \<Rightarrow> sql
                     | Some close_rel \<Rightarrow>
                         (let after_pos = open_pos + close_rel + 1;
                              before = trim_end (take with_pos sql); after = trim_start (drop after_pos sql) in
                          if after = [] then before else before @ '' '' @ after))))"

text \<open>The window of one payload: skip rows, then take rows, batch by batch.\<close>

fun window_batches :: "('b, 'o) plane \<Rightarrow> nat \<Rightarrow> nat \<Rightarrow> 'b list \<Rightarrow> 'b list \<times> nat" where
  "window_batches pl skip remaining [] = ([], remaining)"
| "window_batches pl skip remaining (batch # batches) =
     (if remaining = 0 then ([], 0)
      else if skip \<ge> ar_num_rows pl batch then window_batches pl (skip - ar_num_rows pl batch) remaining batches
      else
        let len = min remaining (ar_num_rows pl batch - skip);
            (rest, left) = window_batches pl 0 (remaining - len) batches in
        (ar_slice pl batch skip len # rest, left))"

fun payload_missing :: "StreamMeta \<Rightarrow> ChangeRecordMeta \<Rightarrow> NovaError \<Rightarrow> NovaError" where
  "payload_missing st record (ObjectStoreError e) = StreamPayloadMissing (str_stream_id st) (cpr_path (cr_payload record))"
| "payload_missing st record e = e"

definition record_batches ::
  "('b, 'o) plane \<Rightarrow> StreamMeta \<Rightarrow> 'o \<Rightarrow> ChangeRecordMeta \<Rightarrow> (NovaError, 'b list) result" where
  "record_batches pl st ob record =
     and_then (map_err (payload_missing st record) (read_payload pl (cr_payload record) ob)) (\<lambda>payload_batches.
     (case window_batches pl (unat (cpr_row_start (cr_payload record))) (unat (cpr_row_count (cr_payload record))) payload_batches of
        (batches, left) \<Rightarrow>
          if left \<noteq> 0 then Err (StreamPayloadMissing (str_stream_id st) (cpr_path (cr_payload record))) else Ok batches))"

definition read_stream_payload_batches ::
  "('b, 'o) plane \<Rightarrow> StreamMeta \<Rightarrow> ChangeRecordMeta list \<Rightarrow> 'o \<Rightarrow> (NovaError, 'b list) result" where
  "read_stream_payload_batches pl st records ob =
     and_then (collect_results (record_batches pl st ob) records) (\<lambda>bs. Ok (concat bs))"

fun published_walk :: "u64 \<Rightarrow> u64 \<Rightarrow> ChangeRecordMeta list \<Rightarrow> u64" where
  "published_walk next_sequence published_through [] = published_through"
| "published_walk next_sequence published_through (record # records) =
     (if cpr_row_count (cr_payload record) = 0 then published_walk next_sequence published_through records
      else if change_end record < next_sequence then published_walk next_sequence published_through records
      else if cr_sequence record > next_sequence then published_through
      else published_walk (sat_add (change_end record) 1) (change_end record) records)"

definition contiguous_published_stream_sequence :: "u64 \<Rightarrow> ChangeRecordMeta list \<Rightarrow> u64" where
  "contiguous_published_stream_sequence committed_sequence records =
     published_walk (committed_sequence + 1) committed_sequence records"

subsection \<open>Results\<close>

definition array_value_to_string :: "texts \<Rightarrow> array \<Rightarrow> nat \<Rightarrow> string" where
  "array_value_to_string tx a row =
     (if \<not> array_valid a ! row then ''NULL''
      else case a of
             Int64Array xs \<Rightarrow> show_i64 (the (xs ! row))
           | Float64Array xs \<Rightarrow> tx_show_f64 tx (the (xs ! row))
           | StringArray xs \<Rightarrow> the (xs ! row)
           | Int32Array xs \<Rightarrow> show_i64 (scast (the (xs ! row)))
           | Float32Array xs \<Rightarrow> tx_show_f32 tx (the (xs ! row))
           | UInt64Array xs \<Rightarrow> show_u64 (the (xs ! row))
           | BooleanArray xs \<Rightarrow> show_bool (the (xs ! row))
           | _ \<Rightarrow> ''?'')"

definition batches_to_query_result :: "('b, 'o) plane \<Rightarrow> texts \<Rightarrow> 'b list \<Rightarrow> string list \<times> string list list" where
  "batches_to_query_result pl tx batches =
     (case batches of
        [] \<Rightarrow> ([], [])
      | first # _ \<Rightarrow>
          (map fst (ar_fields pl first),
           concat (map (\<lambda>b. map (\<lambda>i. map (\<lambda>c. array_value_to_string tx c i) (ar_columns pl b)) [0..<ar_num_rows pl b]) batches)))"

definition row_matches_filter :: "texts \<Rightarrow> string \<Rightarrow> string \<Rightarrow> ResolvedExpr \<Rightarrow> bool" where
  "row_matches_filter tx v op expected =
     (let int_test = (\<lambda>P. case parse_i64 v of Some x \<Rightarrow> P (sint x) | None \<Rightarrow> False);
          float_test = (\<lambda>P. case tx_parse_f64 tx v of Some x \<Rightarrow> P x | None \<Rightarrow> False) in
      case expected of
        RE_Int64 w \<Rightarrow>
          (if op \<in> {''='', ''!='', ''>'', ''<'', ''>='', ''<=''} then int_test (\<lambda>x. cmp_int op x (sint w)) else True)
      | RE_Float64 w \<Rightarrow>
          (if op \<in> {''='', ''>'', ''<''} then float_test (\<lambda>x. cmp_f64 op x w) else True)
      | RE_String w \<Rightarrow>
          (if op = ''='' then v = w else if op = ''!='' then v \<noteq> w
           else if op = ''>'' then as_bytes w < as_bytes v else if op = ''<'' then as_bytes v < as_bytes w
           else if op = ''>='' then as_bytes w \<le> as_bytes v else if op = ''<='' then as_bytes v \<le> as_bytes w else True)
      | RE_Boolean w \<Rightarrow> (if op = ''='' then v = show_bool w else True)
      | RE_Null \<Rightarrow> True)"

text \<open>The scan for table names after a join keyword.\<close>

definition ident_char :: "char \<Rightarrow> bool" where
  "ident_char c = (let n = (of_char c :: nat) in (48 \<le> n \<and> n \<le> 57) \<or> (65 \<le> n \<and> n \<le> 90) \<or> (97 \<le> n \<and> n \<le> 122) \<or> c = CHR ''_'')"

fun next_table :: "string list \<Rightarrow> string option" where
  "next_table [] = None"
| "next_table (w # ws) =
     (if to_ascii_uppercase w = ''JOIN'' then next_table ws
      else Some (rev (dropWhile (\<lambda>c. \<not> ident_char c) (rev w))))"

fun join_scan :: "string \<Rightarrow> string list \<Rightarrow> string list \<Rightarrow> string list" where
  "join_scan excluded tables [] = tables"
| "join_scan excluded tables (w # ws) =
     join_scan excluded
       (if to_ascii_uppercase w \<in> {''JOIN'', ''INNER'', ''LEFT'', ''RIGHT'', ''CROSS''}
        then (case next_table ws of
                Some t \<Rightarrow> if t \<noteq> [] \<and> t \<noteq> excluded \<and> t \<notin> set tables then tables @ [t] else tables
              | None \<Rightarrow> tables)
        else tables) ws"

definition find_join_tables :: "string \<Rightarrow> string \<Rightarrow> string list" where
  "find_join_tables sql excluded = join_scan excluded [] (split_whitespace sql)"

subsection \<open>The window is exact\<close>

context data_plane
begin

lemma window_exact:
  assumes "window_batches pl skip rem bs = (out, left)"
  shows "concat (map rows out) = take rem (drop skip (concat (map rows bs))) \<and>
     left = rem - length (concat (map rows out))"
  using assms
proof (induction bs arbitrary: skip rem out left)
  case (Cons b bs)
  consider "rem = 0" | "rem \<noteq> 0" "skip \<ge> length (rows b)" | "rem \<noteq> 0" "skip < length (rows b)" by linarith
  then show ?case
  proof cases
    case 2
    with Cons.prems have "window_batches pl (skip - length (rows b)) rem bs = (out, left)" by (simp add: num_rows)
    from Cons.IH [OF this] 2 show ?thesis by simp
  next
    case 3
    let ?len = "min rem (length (rows b) - skip)"
    obtain rest where w: "window_batches pl 0 (rem - ?len) bs = (rest, left)" and out: "out = ar_slice pl b skip ?len # rest"
      using Cons.prems 3 by (auto simp: num_rows Let_def split: prod.splits)
    have r: "rows (ar_slice pl b skip ?len) = take ?len (drop skip (rows b))" using 3 by (intro slice) simp
    from Cons.IH [OF w] have IH: "concat (map rows rest) = take (rem - ?len) (concat (map rows bs))"
      "left = rem - ?len - length (concat (map rows rest))" by simp_all
    have "take rem (drop skip (rows b @ concat (map rows bs))) =
        take ?len (drop skip (rows b)) @ take (rem - ?len) (concat (map rows bs))"
      using 3 by (cases "rem \<le> length (rows b) - skip") simp_all
    with r IH out 3 show ?thesis by simp
  qed (use Cons.prems in simp)
qed simp

text \<open>A record read from an intact payload yields exactly the rows it refers to.\<close>

lemma record_batches_exact:
  assumes "stored (cpr_path (cr_payload record)) ob rs"
    and "unat (cpr_row_start (cr_payload record)) + unat (cpr_row_count (cr_payload record)) \<le> length rs"
  shows "\<exists>bs. record_batches pl st ob record = Ok bs \<and>
     concat (map rows bs) = take (unat (cpr_row_count (cr_payload record))) (drop (unat (cpr_row_start (cr_payload record))) rs)"
proof -
  let ?s = "unat (cpr_row_start (cr_payload record))" and ?n = "unat (cpr_row_count (cr_payload record))"
  from assms(1) obtain bytes pbs where p: "os_get pl (cpr_path (cr_payload record)) ob = Ok bytes"
    "pq_read pl None bytes = Ok pbs" "concat (map rows pbs) = rs" unfolding stored_def by blast
  obtain out left where w: "window_batches pl ?s ?n pbs = (out, left)" by fastforce
  from window_exact [OF w] assms(2) p(3) have "concat (map rows out) = take ?n (drop ?s rs)" "left = 0" by auto
  with w p show ?thesis by (simp add: record_batches_def read_payload_def map_err_def)
qed

end

subsection \<open>Types of inserted columns\<close>

lemma column_type_iff:
  "array_type (column_array tx t cells) = arrow_type t \<longleftrightarrow>
     t \<in> {NT_Int64, NT_Float64, NT_Utf8, NT_Timestamp} \<or> (\<exists>p s. t = NT_Decimal p s)"
  by (cases t) (simp_all add: column_array_def)


text \<open>
  So inserting into a table with such a column is refused by a batch constructor that checks the
  types of its columns, whatever the values.
\<close>

lemma insert_refused:
  assumes "\<And>fs cols b. ar_try_new pl fs cols = Ok b \<Longrightarrow> map array_type cols = map (\<lambda>f. fst (snd f)) fs"
    and "c \<in> set (tbl_columns table)" "cd_data_type c \<notin> {NT_Int64, NT_Float64, NT_Utf8, NT_Timestamp}"
    and "\<And>p s. cd_data_type c \<noteq> NT_Decimal p s"
  shows "\<exists>e. values_to_batch pl tx table vals = Err e"
proof (rule ccontr)
  assume "\<not> ?thesis"
  then obtain b where "values_to_batch pl tx table vals = Ok b" by (cases "values_to_batch pl tx table vals") auto
  then have "ar_try_new pl (map (\<lambda>c. (cd_name c, arrow_type (cd_data_type c), cd_nullable c)) (tbl_columns table))
       (map (\<lambda>(i, c). column_array tx (cd_data_type c) (map (\<lambda>row. get_at row i) vals))
          (zip [0..<length (tbl_columns table)] (tbl_columns table))) = Ok b"
    by (simp add: values_to_batch_def map_err_def split: sum.splits)
  note types = assms(1) [OF this]
  from assms(2) obtain i where i: "i < length (tbl_columns table)" "tbl_columns table ! i = c" by (auto simp: in_set_conv_nth)
  have "array_type (column_array tx (cd_data_type c) (map (\<lambda>row. get_at row i) vals)) = arrow_type (cd_data_type c)"
    using arg_cong [OF types, of "\<lambda>ts. ts ! i"] i by simp
  then show False using assms(3,4) unfolding column_type_iff by blast
qed

lemma small_integer_column: "parse_sql_type ''smallint'' = NT_Int32" "parse_sql_type ''boolean'' = NT_Boolean"
  by code_simp+

subsection \<open>Updates and deletes\<close>

lemma true_indices_set: "set (true_indices hits) = {i. i < length hits \<and> hits ! i}"
proof -
  have "i \<in> set (true_indices hits) \<longleftrightarrow> (i, True) \<in> set (zip [0..<length hits] hits)" for i
    by (force simp: true_indices_def)
  also have "(i, True) \<in> set (zip [0..<length hits] hits) \<longleftrightarrow> i < length hits \<and> hits ! i" for i
    by (auto simp: in_set_zip intro!: exI [of _ i])
  finally show ?thesis by blast
qed

lemma true_indices_sorted: "sorted_wrt (<) (true_indices hits)"
proof -
  have "sorted_wrt (<) (map fst (zip [0..<length hits] hits))" by (simp add: sorted_wrt_upt)
  then have "sorted_wrt (\<lambda>a b. fst a < fst b) (zip [0..<length hits] hits)" unfolding sorted_wrt_map .
  then have "sorted_wrt (\<lambda>a b. fst a < fst b) (filter snd (zip [0..<length hits] hits))" by (rule sorted_wrt_filter)
  then show ?thesis by (simp add: true_indices_def sorted_wrt_map)
qed

text \<open>Each row is either deleted or kept.\<close>

lemma delete_partition:
  "set (true_indices hits) \<union> set (true_indices (map Not hits)) = {..<length hits}"
  "set (true_indices hits) \<inter> set (true_indices (map Not hits)) = {}"
  by (auto simp: true_indices_set)

lemma map_err_Ok_iff [simp]: "map_err f r = Ok x \<longleftrightarrow> r = Ok x"
  by (cases r) (simp_all add: map_err_def)

lemma collect_results_Cons: "collect_results f (x # xs) = Ok ys \<longleftrightarrow> (\<exists>z zs. f x = Ok z \<and> collect_results f xs = Ok zs \<and> ys = z # zs)"
  by (auto split: sum.splits)

lemma collect_results_map_err: "collect_results (\<lambda>x. map_err w (f x)) xs = Ok ys \<longleftrightarrow> collect_results f xs = Ok ys"
  by (induction xs arbitrary: ys) (simp, simp only: collect_results_Cons map_err_Ok_iff)

lemma pick_unmatched:
  assumes "length hits = length rs"
  shows "map (\<lambda>i. rs ! i) (true_indices (map Not hits)) = map fst (filter (\<lambda>(r, h). \<not> h) (zip rs hits))"
  using assms
proof (induction hits rs rule: list_induct2)
  case (Cons h hs r rs)
  have "true_indices (map Not (h # hs)) = (if h then [] else [0]) @ map Suc (true_indices (map Not hs))"
    by (simp add: true_indices_def upt_conv_Cons map_Suc_upt [symmetric] zip_map1 filter_map o_def split_def del: upt_Suc)
  with Cons.IH show ?case by (simp add: o_def)
qed (simp add: true_indices_def)

text \<open>
  Rows and columns of a batch: one column per field, as long as the batch, and taking the same
  cells of every column takes the rows.
\<close>

locale row_plane = data_plane +
  assumes columns: "length (ar_columns pl b) = length (ar_fields pl b)"
    and column_length: "c \<in> set (ar_columns pl b) \<Longrightarrow> length (array_valid c) = length (rows b)"
    and take_rows: "collect_results (\<lambda>c. ar_take pl c idx) (ar_columns pl b) = Ok cols \<Longrightarrow>
      ar_try_new pl (ar_fields pl b) cols = Ok b' \<Longrightarrow> (\<forall>i \<in> set idx. i < length (rows b)) \<Longrightarrow>
      rows b' = map (\<lambda>i. rows b ! i) idx"
begin

lemma mask_length:
  assumes "batch_mask pl b flt = Ok hits"
  shows "length hits = length (rows b)"
proof (cases flt)
  case None
  with assms show ?thesis by (auto simp: batch_mask_def num_rows)
next
  case (Some f)
  with assms obtain k where k: "field_index (rf_column f) (ar_fields pl b) = Some k"
    "hits = filter_mask (ar_columns pl b ! k) f (ar_num_rows pl b)"
    by (auto simp: batch_mask_def eval_filter_on_batch_def and_then_Inr_iff ok_or_Inr_iff)
  from field_index_less [OF k(1)] have "ar_columns pl b ! k \<in> set (ar_columns pl b)" by (simp add: columns)
  from column_length [OF this] k(2) show ?thesis
    by (cases "ar_columns pl b ! k") (simp_all add: filter_mask_def num_rows Let_def)
qed

lemma take_columns_rows:
  assumes "take_columns pl w b idx = Ok b'" "\<forall>i \<in> set idx. i < length (rows b)"
  shows "rows b' = map (\<lambda>i. rows b ! i) idx"
proof -
  from assms(1) obtain cols where "collect_results (\<lambda>c. map_err w (ar_take pl c idx)) (ar_columns pl b) = Ok cols"
    "ar_try_new pl (ar_fields pl b) cols = Ok b'"
    by (auto simp: take_columns_def and_then_Inr_iff)
  with take_rows [OF _ _ assms(2)] show ?thesis by (simp add: collect_results_map_err)
qed

text \<open>Deleting keeps exactly the rows that do not match.\<close>

lemma delete_rows:
  assumes "apply_delete_to_batch pl b flt = Ok kept" "batch_mask pl b flt = Ok hits"
  shows "rows kept = map fst (filter (\<lambda>(r, h). \<not> h) (zip (rows b) hits))"
proof -
  note len = mask_length [OF assms(2)]
  let ?idx = "true_indices (map Not hits)"
  have "rows kept = map (\<lambda>i. rows b ! i) ?idx"
  proof (cases "?idx = []")
    case True
    with assms show ?thesis
      by (auto simp: apply_delete_to_batch_def batch_mask_def and_then_Inr_iff new_empty split: option.splits)
  next
    case False
    with assms have "take_columns pl Internal b ?idx = Ok kept"
      by (auto simp: apply_delete_to_batch_def batch_mask_def and_then_Inr_iff split: option.splits)
    from take_columns_rows [OF this] len show ?thesis by (simp add: true_indices_set)
  qed
  also have "\<dots> = map fst (filter (\<lambda>(r, h). \<not> h) (zip (rows b) hits))" by (rule pick_unmatched [OF len])
  finally show ?thesis .
qed

end

lemma byte_i64: "ucast (ucast (v :: byte) :: i64) = v"
  by (rule bit_word_eqI) (auto simp: bit_simps)

interpretation sr: row_plane sample_plane "\<lambda>b. b"
proof
  show "b' = map (\<lambda>i. b ! i) idx"
    if "collect_results (\<lambda>c. ar_take sample_plane c idx) (ar_columns sample_plane b) = Ok cols"
      "ar_try_new sample_plane (ar_fields sample_plane b) cols = Ok b'" "\<forall>i \<in> set idx. i < length b" for idx b cols b'
    using that by (auto simp: sample_plane_def byte_i64)
qed (auto simp: sample_plane_def)

text \<open>An assigned text column changes in the matching rows only.\<close>

lemma assign_text:
  assumes "length hits = length xs"
  shows "assign_column (StringArray xs) hits (RE_String v) =
     StringArray (map (\<lambda>i. if hits ! i then Some v else xs ! i) [0..<length xs])"
  using assms by (simp add: assign_column_def) (intro nth_equalityI, simp_all)

text \<open>An integer column also changes elsewhere: a cell without a value becomes zero.\<close>

lemma assign_integers:
  assumes "length hits = length xs"
  shows "assign_column (Int64Array xs) hits (RE_Int64 v) =
     Int64Array (map (\<lambda>i. Some (if hits ! i then v else unwrap_or 0 (xs ! i))) [0..<length xs])"
  using assms by (simp add: assign_column_def) (intro nth_equalityI, simp_all)

lemma update_erases_nulls:
  "assign_column (Int64Array [Some 1, None]) [True, False] (RE_Int64 7) = Int64Array [Some 7, Some 0]"
  by (simp add: assign_column_def unwrap_or_def)

text \<open>And a filter finds a cell without a value when it looks for zero.\<close>

lemma null_matches_zero:
  "filter_mask (Int64Array [None]) \<lparr>rf_column = ''x'', rf_op = ''='', rf_value = RE_Int64 0\<rparr> 1 = [True]"
  by (simp add: filter_mask_def cmp_int_def unwrap_or_def)

end
