(* ===== verification/Meta_Cdc.thy ===== *)
theory Meta_Cdc
  imports Meta_Stream
begin

text \<open>
  The life of change records. Writers first allocate a range of sequence numbers of their
  table (\<open>allocate_table_change_sequences\<close>), write the rows to the object store, and commit a
  change record for the range (\<open>commit_table_cdc\<close>); a writer can fail in between and leave its
  range unused. \<open>cdc_step\<close> is this system with any number of writers, interleaved in any
  order, and with any other metadata operation in between.

  The lemmas show what readers rely on: everything up to the published watermark is covered
  by stored records, the watermark never goes back, and no record is half published. They
  also say when the watermark moves: exactly when the range right above it is committed. A
  range that is committed too early or not at all therefore stops it for good.
\<close>

subsection \<open>Ranges of sequence numbers\<close>

type_synonym alloc = "TableId \<times> u64 \<times> u64"

definition alloc_of :: "ChangeRecordMeta \<Rightarrow> alloc" where
  "alloc_of r = (cr_table_id r, cr_sequence r, cpr_row_count (cr_payload r))"

definition span :: "alloc \<Rightarrow> (TableId \<times> nat) set" where
  "span x = {fst x} \<times> {unat (fst (snd x)) ..< unat (fst (snd x)) + unat (snd (snd x))}"

definition allocated :: "store \<Rightarrow> TableId \<Rightarrow> u64" where
  "allocated s t = (case db_get s (next_seq_key t) of Some v \<Rightarrow> lenient_u64 v | None \<Rightarrow> counter (change_seq_key t) s)"

definition published :: "store \<Rightarrow> TableId \<Rightarrow> u64" where
  "published s t = counter (change_seq_key t) s"

definition logged :: "store \<Rightarrow> alloc set" where
  "logged s = {alloc_of r |r. db_get s (change_log_key (cr_table_id r) (cr_sequence r)) = Some (VChange r)}"

text \<open>Ranges in increasing order without overlap, all above a bound.\<close>

fun chain :: "u64 \<Rightarrow> (u64 \<times> u64) list \<Rightarrow> bool" where
  "chain w [] = True"
| "chain w ((a, b) # rs) = (w < a \<and> a \<le> b \<and> b \<noteq> - 1 \<and> chain b rs)"

lemma chain_above: "chain w rs \<Longrightarrow> (a, b) \<in> set rs \<Longrightarrow> w < a \<and> a \<le> b \<and> b \<noteq> - 1"
  by (induction w rs rule: chain.induct) fastforce+

lemma sat_add_one: "w \<noteq> - 1 \<Longrightarrow> unat (sat_add w 1) = Suc (unat w)"
proof -
  assume "w \<noteq> - 1"
  then have "unat w \<noteq> 2 ^ 64 - 1" by (auto simp: word_unat_eq_iff unat_max_u64)
  moreover have "unat w < 2 ^ 64" using unsigned_less [of w] by simp
  ultimately show ?thesis by (simp add: unat_sat_add)
qed

lemma publish_chain:
  assumes "w \<noteq> - 1" "chain w rs"
  shows "w \<le> publish_through (sat_add w 1) w rs"
    and "unat w < n \<Longrightarrow> n \<le> unat (publish_through (sat_add w 1) w rs) \<Longrightarrow> \<exists>(a, b) \<in> set rs. unat a \<le> n \<and> n \<le> unat b"
    and "(a, b) \<in> set rs \<Longrightarrow> b \<le> publish_through (sat_add w 1) w rs \<or> publish_through (sat_add w 1) w rs < a"
    and "publish_through (sat_add w 1) w rs \<noteq> - 1"
    and "w < publish_through (sat_add w 1) w rs \<longleftrightarrow> (\<exists>b. (sat_add w 1, b) \<in> set rs)"
proof -
  have "w \<le> publish_through (sat_add w 1) w rs \<and>
    (\<forall>n. unat w < n \<and> n \<le> unat (publish_through (sat_add w 1) w rs) \<longrightarrow> (\<exists>(a, b) \<in> set rs. unat a \<le> n \<and> n \<le> unat b)) \<and>
    (\<forall>(a, b) \<in> set rs. b \<le> publish_through (sat_add w 1) w rs \<or> publish_through (sat_add w 1) w rs < a) \<and>
    publish_through (sat_add w 1) w rs \<noteq> - 1 \<and>
    (w < publish_through (sat_add w 1) w rs \<longleftrightarrow> (\<exists>b. (sat_add w 1, b) \<in> set rs))"
    using assms
  proof (induction w rs rule: chain.induct)
    case (2 w a b rs)
    then have wab: "w < a" "a \<le> b" "b \<noteq> - 1" "chain b rs" by simp_all
    note nxt = sat_add_one [OF "2.prems"(1)]
    have skip: "\<not> b < sat_add w 1" using wab(1,2) by (simp add: word_less_nat_alt word_le_nat_alt nxt)
    have above: "w < c" "b < c" if "(c, d) \<in> set rs" for c d
      using chain_above [OF wab(4) that] wab(1,2) by auto
    show ?case
    proof (cases "a > sat_add w 1")
      case True
      then have p: "publish_through (sat_add w 1) w ((a, b) # rs) = w" using skip by simp
      have "sat_add w 1 < c" if "(c, d) \<in> set ((a, b) # rs)" for c d
        using that above(2) [of c d] True wab(2) by auto
      then show ?thesis unfolding p using "2.prems"(1) wab(1) above(1) by fastforce
    next
      case False
      with wab(1) have a: "a = sat_add w 1"
        by (simp add: word_less_nat_alt word_unat_eq_iff nxt)
      let ?p = "publish_through (sat_add b 1) b rs"
      have p: "publish_through (sat_add w 1) w ((a, b) # rs) = ?p" using skip False by simp
      note IH = "2.IH" [OF wab(3,4)]
      have bp: "b \<le> ?p" using IH by blast
      have cover: "\<exists>(a', b') \<in> set ((a, b) # rs). unat a' \<le> n \<and> n \<le> unat b'" if "unat w < n" "n \<le> unat ?p" for n
      proof (cases "n \<le> unat b")
        case True
        with that a show ?thesis by (simp add: nxt Suc_le_eq)
      next
        case False
        with IH that(2) show ?thesis by (auto simp: not_le)
      qed
      have "w < ?p" using wab(1,2) bp by auto
      with IH cover bp a show ?thesis unfolding p by auto
    qed
  qed simp
  then show "w \<le> publish_through (sat_add w 1) w rs"
    and "unat w < n \<Longrightarrow> n \<le> unat (publish_through (sat_add w 1) w rs) \<Longrightarrow> \<exists>(a, b) \<in> set rs. unat a \<le> n \<and> n \<le> unat b"
    and "(a, b) \<in> set rs \<Longrightarrow> b \<le> publish_through (sat_add w 1) w rs \<or> publish_through (sat_add w 1) w rs < a"
    and "publish_through (sat_add w 1) w rs \<noteq> - 1"
    and "w < publish_through (sat_add w 1) w rs \<longleftrightarrow> (\<exists>b. (sat_add w 1, b) \<in> set rs)"
    by blast+
qed

subsection \<open>What a commit does to the change log\<close>

abbreviation cdc_categories :: "category set" where
  "cdc_categories \<equiv> {C_table_change_log, C_table_change_seq, C_table_change_next_seq}"

definition same_cdc :: "store \<Rightarrow> store \<Rightarrow> bool" where
  "same_cdc s s' \<longleftrightarrow> (\<forall>k. fst k \<in> cdc_categories \<longrightarrow> db_get s' k = db_get s k)"

lemma same_cdcD:
  assumes "same_cdc s s'"
  shows "published s' t = published s t" "allocated s' t = allocated s t"
    "db_get s' (next_seq_key t) = db_get s (next_seq_key t)"
    "db_get s' (change_log_key t n) = db_get s (change_log_key t n)" "logged s' = logged s"
proof -
  have get: "db_get s' (c, es) = db_get s (c, es)" if "c \<in> cdc_categories" for c es
    using assms that unfolding same_cdc_def by auto
  have count: "counter (change_seq_key t) s' = counter (change_seq_key t) s" for t by (simp add: counter_def get)
  show "published s' t = published s t" by (simp add: published_def count)
  show "allocated s' t = allocated s t" unfolding allocated_def count by (simp add: get)
  show "db_get s' (next_seq_key t) = db_get s (next_seq_key t)"
    "db_get s' (change_log_key t n) = db_get s (change_log_key t n)" by (simp_all add: get)
  show "logged s' = logged s" by (simp add: logged_def get)
qed

lemma same_cdc_trans: "same_cdc s s1 \<Longrightarrow> same_cdc s1 s2 \<Longrightarrow> same_cdc s s2"
  by (simp add: same_cdc_def)

lemma put_mps_cdc: "same_cdc s (put_mps mps s)"
proof (induction mps arbitrary: s)
  case (Cons mp mps)
  have "same_cdc s (db_set (table_mps_key (mpm_table_id mp) (mpm_id mp)) (VBytes []) (db_set (mp_key (mpm_id mp)) (VMp mp) s))"
    by (auto simp: same_cdc_def)
  from same_cdc_trans [OF this Cons] show ?case by (simp add: put_mps_def)
qed (simp add: put_mps_def same_cdc_def)

lemma supersede_mps_cdc: "supersede_mps ps s = Ok s' \<Longrightarrow> same_cdc s s'"
proof (induction ps s rule: supersede_mps.induct)
  case (2 old new rest s)
  then obtain mp where mp: "db_get s (mp_key old) = Some (VMp mp)"
    "supersede_mps rest (db_set (mp_key old) (VMp (mp\<lparr>mpm_superseded_by := Some new, mpm_active := False\<rparr>)) s) = Ok s'"
    by (auto simp: and_then_Inr_iff deserialize_trx_def ok_or_Inr_iff as_iff split: option.splits)
  have "same_cdc s (db_set (mp_key old) (VMp (mp\<lparr>mpm_superseded_by := Some new, mpm_active := False\<rparr>)) s)"
    by (auto simp: same_cdc_def)
  from same_cdc_trans [OF this "2.IH" [OF mp]] show ?case .
qed (simp add: same_cdc_def)

lemma finish_txn_cdc: "finish_txn now x s = Ok s' \<Longrightarrow> same_cdc s s'"
  by (auto simp: finish_txn_def and_then_Inr_iff same_cdc_def split: if_splits option.splits)

lemma put_records_other: "fst k \<notin> {C_table_change_log, C_table_change_log_by_txn} \<Longrightarrow> db_get (put_records rs s) k = db_get s k"
  unfolding put_records_def by (induction rs arbitrary: s) auto

lemma put_records_log:
  assumes "distinct (map (\<lambda>r. (cr_table_id r, cr_sequence r)) rs)"
  shows "db_get (put_records rs s) (change_log_key t n) =
     (case find (\<lambda>r. cr_table_id r = t \<and> cr_sequence r = n) rs of
        Some r \<Rightarrow> Some (VChange r) | None \<Rightarrow> db_get s (change_log_key t n))"
  using assms
proof (induction rs arbitrary: s)
  case (Cons r rs)
  let ?s = "db_set (change_txn_key (cr_txn_id r) (cr_table_id r) (cr_sequence r)) (VBytes [])
                  (db_set (change_log_key (cr_table_id r) (cr_sequence r)) (VChange r) s)"
  have step: "put_records (r # rs) s = put_records rs ?s" by (simp add: put_records_def)
  show ?case
  proof (cases "cr_table_id r = t \<and> cr_sequence r = n")
    case True
    with Cons.prems have "find (\<lambda>r. cr_table_id r = t \<and> cr_sequence r = n) rs = None"
      by (fastforce simp: find_None_iff image_iff)
    with True Cons show ?thesis by (simp add: step)
  next
    case False
    with Cons show ?thesis by (auto simp: step split: option.splits)
  qed
qed (simp add: put_records_def)

lemma stored_counter:
  assumes "store_wf s" "bytes_shape (fst k) = Some (sh, 8)"
  shows "(case db_get s k of Some v \<Rightarrow> trx_read_u64 msg v | None \<Rightarrow> Ok 0) = Ok (counter k s)"
  using wf_u64 [OF assms(1) _ assms(2)] by (auto simp: trx_read_u64_def counter_def split: option.split)

lemma publish_table_run:
  assumes "store_wf s"
  shows "\<exists>s'. publish_table t ranges s = Ok s' \<and> store_wf s' \<and> (\<forall>k. fst k \<noteq> C_table_change_seq \<longrightarrow> db_get s' k = db_get s k) \<and>
     (\<forall>u. published s' u = (if u = t then max (published s t) (publish_through (sat_add (published s t) 1) (published s t) ranges)
                            else published s u))"
proof -
  let ?p = "publish_through (sat_add (published s t) 1) (published s t) ranges"
  let ?s = "if ?p > published s t then db_set (change_seq_key t) (u64_bytes ?p) s else s"
  have "publish_table t ranges s = Ok ?s"
    using stored_counter [OF assms, of "change_seq_key t" "[True]"]
    by (simp add: publish_table_def published_def Let_def)
  moreover have "store_wf ?s" using assms by auto
  moreover have "published ?s u = (if u = t then max (published s t) ?p else published s u)" for u
    by (auto simp: published_def counter_set max_def)
  moreover have "db_get ?s k = db_get s k" if "fst k \<noteq> C_table_change_seq" for k using that by auto
  ultimately show ?thesis by blast
qed

lemma publish_tables_run:
  assumes "store_wf s" "distinct (map fst ts)"
  shows "\<exists>s'. publish_tables ts s = Ok s' \<and> (\<forall>k. fst k \<noteq> C_table_change_seq \<longrightarrow> db_get s' k = db_get s k) \<and>
     (\<forall>u. published s' u = (case map_of ts u of
        Some ranges \<Rightarrow> max (published s u) (publish_through (sat_add (published s u) 1) (published s u) ranges)
      | None \<Rightarrow> published s u))"
  using assms
proof (induction ts arbitrary: s)
  case (Cons tr ts)
  obtain t ranges where tr: "tr = (t, ranges)" by fastforce
  obtain s1 where s1: "publish_table t ranges s = Ok s1" "store_wf s1" "\<forall>k. fst k \<noteq> C_table_change_seq \<longrightarrow> db_get s1 k = db_get s k"
    "\<forall>u. published s1 u = (if u = t then max (published s t) (publish_through (sat_add (published s t) 1) (published s t) ranges)
                            else published s u)"
    using publish_table_run [OF Cons.prems(1)] by blast
  obtain s2 where s2: "publish_tables ts s1 = Ok s2" "\<forall>k. fst k \<noteq> C_table_change_seq \<longrightarrow> db_get s2 k = db_get s1 k"
    "\<forall>u. published s2 u = (case map_of ts u of
        Some ranges \<Rightarrow> max (published s1 u) (publish_through (sat_add (published s1 u) 1) (published s1 u) ranges)
      | None \<Rightarrow> published s1 u)"
    using Cons.IH [OF s1(2)] Cons.prems(2) by auto
  have "t \<notin> fst ` set ts" using Cons.prems(2) tr by simp
  then have none: "map_of ts t = None" by (simp add: map_of_eq_None_iff)
  have run: "publish_tables (tr # ts) s = Ok s2" using s1(1) s2(1) tr by simp
  have pub: "published s2 u = (case map_of (tr # ts) u of
        Some ranges \<Rightarrow> max (published s u) (publish_through (sat_add (published s u) 1) (published s u) ranges)
      | None \<Rightarrow> published s u)" for u
    using s1(4) s2(3) none tr by (auto split: option.split)
  from run pub s1(3) s2(2) show ?case by simp
qed simp

definition ranges_of :: "ChangeRecordMeta list \<Rightarrow> TableId \<Rightarrow> (u64 \<times> u64) list" where
  "ranges_of rs t = sort_key fst (map (\<lambda>r. (cr_sequence r, change_end r)) (filter (\<lambda>r. cr_table_id r = t) rs))"

lemma table_ranges_lookup:
  "distinct (map fst (table_ranges rs))"
  "map_of (table_ranges rs) t = (if t \<in> cr_table_id ` set rs then Some (ranges_of rs t) else None)"
proof -
  have fst: "map fst (table_ranges rs) = sort (remdups (map cr_table_id rs))"
    by (simp add: table_ranges_def o_def)
  then show d: "distinct (map fst (table_ranges rs))" by simp
  show "map_of (table_ranges rs) t = (if t \<in> cr_table_id ` set rs then Some (ranges_of rs t) else None)"
  proof (cases "t \<in> cr_table_id ` set rs")
    case True
    then have "(t, ranges_of rs t) \<in> set (table_ranges rs)" by (auto simp: table_ranges_def ranges_of_def)
    with d True show ?thesis by simp
  next
    case False
    then have "t \<notin> set (map fst (table_ranges rs))" unfolding fst by simp
    then have "map_of (table_ranges rs) t = None" by (simp add: map_of_eq_None_iff)
    with False show ?thesis by simp
  qed
qed

lemma ranges_of_empty: "t \<notin> cr_table_id ` set rs \<Longrightarrow> ranges_of rs t = []"
proof -
  assume "t \<notin> cr_table_id ` set rs"
  then have "filter (\<lambda>r. cr_table_id r = t) rs = []" by (auto simp: filter_empty_conv)
  then show ?thesis by (simp add: ranges_of_def)
qed

lemma commit_cdc_run:
  assumes "store_wf s" "commit_table_cdc fx now x mps sups rs s = (Ok (), s')"
  shows "published s' t = max (published s t) (publish_through (sat_add (published s t) 1) (published s t) (ranges_of rs t))"
    "db_get s' (next_seq_key t) = db_get s (next_seq_key t)"
    "db_get s' (change_log_key t n) = db_get (put_records rs s) (change_log_key t n)"
proof -
  obtain s1 s2 where s1: "supersede_mps sups (put_mps mps s) = Ok s1"
    "publish_tables (table_ranges rs) (put_records rs s1) = Ok s2" "finish_txn now x s2 = Ok s'"
    using assms(2) by (auto simp: commit_table_cdc_def db_run_def and_then_Inr_iff split: sum.splits)
  have c1: "same_cdc s s1" using same_cdc_trans [OF put_mps_cdc supersede_mps_cdc [OF s1(1)]] .
  have c2: "same_cdc s2 s'" by (rule finish_txn_cdc [OF s1(3)])
  have wf: "store_wf (put_records rs s1)"
    using put_records_wf [OF supersede_mps_wf [OF put_mps_wf [OF assms(1)] s1(1)]] .
  obtain s2' where "publish_tables (table_ranges rs) (put_records rs s1) = Ok s2'"
    and same: "\<forall>k. fst k \<noteq> C_table_change_seq \<longrightarrow> db_get s2' k = db_get (put_records rs s1) k"
    and pub: "\<forall>u. published s2' u = (case map_of (table_ranges rs) u of
        Some ranges \<Rightarrow> max (published (put_records rs s1) u)
          (publish_through (sat_add (published (put_records rs s1) u) 1) (published (put_records rs s1) u) ranges)
      | None \<Rightarrow> published (put_records rs s1) u)"
    using publish_tables_run [OF wf table_ranges_lookup(1)] by blast
  with s1(2) have s2': "s2' = s2" by simp
  have p1: "published (put_records rs s1) u = published s u" for u
    using same_cdcD(1) [OF c1] by (simp add: published_def counter_def put_records_other)
  show "published s' t = max (published s t) (publish_through (sat_add (published s t) 1) (published s t) (ranges_of rs t))"
    using pub same_cdcD(1) [OF c2] ranges_of_empty [of t rs] by (simp add: s2' table_ranges_lookup(2) p1)
  show "db_get s' (next_seq_key t) = db_get s (next_seq_key t)"
    using same same_cdcD(3) [OF c2] same_cdcD(3) [OF c1] by (simp add: s2' put_records_other)
  have "db_get (put_records rs s1) (change_log_key t n) = db_get (put_records rs s) (change_log_key t n)"
    using same_cdcD(4) [OF c1] unfolding put_records_def
  proof (induction rs arbitrary: s s1)
    case (Cons r rs)
    show ?case by (simp, rule Cons.IH) (use Cons.prems in simp)
  qed simp
  then show "db_get s' (change_log_key t n) = db_get (put_records rs s) (change_log_key t n)"
    using same same_cdcD(4) [OF c2] by (simp add: s2')
qed

subsection \<open>Writers, interleaved\<close>

text \<open>
  A state is the database and the ranges that are allocated but not yet committed. The guard
  of \<open>allocate\<close> says that the table has sequence numbers left.
\<close>

inductive cdc_step :: "fdb \<Rightarrow> store \<times> alloc set \<Rightarrow> store \<times> alloc set \<Rightarrow> bool" for fx where
  allocate: "allocate_table_change_sequences fx t n s = (Ok a, s') \<Longrightarrow> 0 < n \<Longrightarrow>
     unat (allocated s t) + unat n < 2 ^ 64 - 1 \<Longrightarrow> cdc_step fx (s, A) (s', insert (t, a, n) A)"
| commit: "commit_table_cdc fx now x mps sups rs s = (Ok (), s') \<Longrightarrow> distinct (map alloc_of rs) \<Longrightarrow>
     alloc_of ` set rs \<subseteq> A \<Longrightarrow> cdc_step fx (s, A) (s', A - alloc_of ` set rs)"
| abandon: "cdc_step fx (s, A) (s, A - {y})"
| other: "store_wf s' \<Longrightarrow> same_cdc s s' \<Longrightarrow> cdc_step fx (s, A) (s', A)"

inductive_cases cdc_stepE: "cdc_step fx (s, A) (s', A')"

text \<open>Ranges lie within what is allocated and do not overlap.\<close>

definition ranges_ok :: "store \<Rightarrow> alloc set \<Rightarrow> bool" where
  "ranges_ok s R \<longleftrightarrow>
     (\<forall>t a n. (t, a, n) \<in> R \<longrightarrow>
        0 < a \<and> 0 < n \<and> unat a + unat n \<le> Suc (unat (allocated s t)) \<and> db_get s (next_seq_key t) \<noteq> None)"

definition disjoint_ranges :: "alloc set \<Rightarrow> bool" where
  "disjoint_ranges R \<longleftrightarrow> (\<forall>x \<in> R. \<forall>y \<in> R. x \<noteq> y \<longrightarrow> span x \<inter> span y = {})"

text \<open>The watermark: everything up to it is stored, and it splits no record.\<close>

definition covered_ok :: "store \<Rightarrow> bool" where
  "covered_ok s \<longleftrightarrow> (\<forall>t k. 0 < k \<longrightarrow> k \<le> unat (published s t) \<longrightarrow> (\<exists>x \<in> logged s. (t, k) \<in> span x))"

definition whole_ok :: "store \<Rightarrow> bool" where
  "whole_ok s \<longleftrightarrow>
     (\<forall>t a n. (t, a, n) \<in> logged s \<longrightarrow> unat a + unat n \<le> Suc (unat (published s t)) \<or> published s t < a)"

definition counters_ok :: "store \<Rightarrow> bool" where
  "counters_ok s \<longleftrightarrow> (\<forall>t. allocated s t \<noteq> - 1 \<and> published s t \<le> allocated s t)"

definition cdc_inv :: "store \<Rightarrow> alloc set \<Rightarrow> bool" where
  "cdc_inv s A \<longleftrightarrow> store_wf s \<and> logged s \<inter> A = {} \<and> ranges_ok s (logged s \<union> A) \<and>
     disjoint_ranges (logged s \<union> A) \<and> counters_ok s \<and> covered_ok s \<and> whole_ok s"

lemma cdc_inv_parts:
  assumes "cdc_inv s A"
  shows "store_wf s" "logged s \<inter> A = {}" "ranges_ok s (logged s \<union> A)" "disjoint_ranges (logged s \<union> A)"
    "counters_ok s" "covered_ok s" "whole_ok s"
  using assms by (simp_all add: cdc_inv_def)

lemma cdc_invD:
  assumes "cdc_inv s A"
  shows "store_wf s" "logged s \<inter> A = {}"
    and "(t, a, n) \<in> logged s \<union> A \<Longrightarrow>
        0 < a \<and> 0 < n \<and> unat a + unat n \<le> Suc (unat (allocated s t)) \<and> db_get s (next_seq_key t) \<noteq> None"
    and "x \<in> logged s \<union> A \<Longrightarrow> y \<in> logged s \<union> A \<Longrightarrow> x \<noteq> y \<Longrightarrow> span x \<inter> span y = {}"
    and "allocated s t \<noteq> - 1" "published s t \<le> allocated s t"
    and "0 < k \<Longrightarrow> k \<le> unat (published s t) \<Longrightarrow> \<exists>x \<in> logged s. (t, k) \<in> span x"
    and "(t, a, n) \<in> logged s \<Longrightarrow> unat a + unat n \<le> Suc (unat (published s t)) \<or> published s t < a"
  using cdc_inv_parts [OF assms]
  unfolding ranges_ok_def disjoint_ranges_def counters_ok_def covered_ok_def whole_ok_def by metis+

lemma span_iff [simp]: "(u, k) \<in> span (t, a, n) \<longleftrightarrow> u = t \<and> unat a \<le> k \<and> k < unat a + unat n"
  by (auto simp: span_def)

lemma pending_above:
  assumes "cdc_inv s A" "(t, a, n) \<in> A"
  shows "published s t < a"
proof (rule ccontr)
  note inv = cdc_invD [OF assms(1)]
  have an: "0 < a" "0 < n" using inv(3) assms(2) by blast+
  assume "\<not> published s t < a"
  then have "unat a \<le> unat (published s t)" by (simp add: word_less_nat_alt)
  moreover have "0 < unat a" using an(1) by (simp add: word_less_nat_alt)
  ultimately obtain x where x: "x \<in> logged s" "(t, unat a) \<in> span x" using inv(7) by blast
  have "(t, unat a) \<in> span (t, a, n)" using an(2) by (simp add: word_less_nat_alt)
  with x inv(4) [of x "(t, a, n)"] assms(2) inv(2) show False by blast
qed

lemma allocate_run:
  assumes "store_wf s"
  shows "allocate_table_change_sequences fx t n s =
     (Ok (allocated s t + 1), db_set (next_seq_key t) (u64_bytes (sat_add (allocated s t) n)) s)"
proof -
  have "(case db_get s (next_seq_key t) of
        Some v \<Rightarrow> trx_read_u64 ''invalid table change allocation sequence'' v
      | None \<Rightarrow> (case db_get s (change_seq_key t) of
                  Some v \<Rightarrow> trx_read_u64 ''invalid table change sequence'' v | None \<Rightarrow> Ok 0)) = Ok (allocated s t)"
  proof (cases "db_get s (next_seq_key t)")
    case None
    then show ?thesis using stored_counter [OF assms, of "change_seq_key t" "[True]"] by (simp add: allocated_def)
  next
    case (Some v)
    then obtain m where "v = u64_bytes m" using wf_u64 [OF assms, of "next_seq_key t" v "[True]"] by auto
    with Some show ?thesis by (simp add: allocated_def trx_read_u64_def)
  qed
  then show ?thesis by (simp add: allocate_table_change_sequences_def db_run_def)
qed

lemma cdc_allocate:
  assumes "cdc_inv s A" "0 < n" "unat (allocated s t) + unat n < 2 ^ 64 - 1"
    "allocate_table_change_sequences fx t n s = (Ok a, s')"
  shows "cdc_inv s' (insert (t, a, n) A)" "published s' u = published s u" "a = allocated s t + 1"
    "allocated s t \<le> allocated s' t" "u \<noteq> t \<Longrightarrow> allocated s' u = allocated s u"
proof -
  note inv = cdc_invD [OF assms(1)]
  let ?s = "db_set (next_seq_key t) (u64_bytes (sat_add (allocated s t) n)) s"
  have a: "a = allocated s t + 1" and s': "s' = ?s"
    using assms(4) allocate_run [OF inv(1), of fx t n] by simp_all
  have ua: "unat a = Suc (unat (allocated s t))" using unat_u64_Suc [OF inv(5)] a by simp
  have log: "logged s' = logged s" by (simp add: logged_def s')
  have pub: "published s' u = published s u" for u by (simp add: published_def s' counter_set)
  have all: "unat (allocated s' u) = (if u = t then unat (allocated s t) + unat n else unat (allocated s u))" for u
  proof -
    have "counter (change_seq_key u) ?s = counter (change_seq_key u) s" by (simp add: counter_set)
    then have "allocated s' u = (if u = t then sat_add (allocated s t) n else allocated s u)"
      unfolding s' allocated_def [of ?s] by (simp add: allocated_def [of s u] split: option.split)
    then show ?thesis using assms(3) by (simp add: unat_sat_add)
  qed
  have le: "unat (allocated s u) \<le> unat (allocated s' u)" for u by (simp add: all)
  have new: "span (t, a, n) \<inter> span y = {}" if "y \<in> logged s \<union> A" for y
  proof -
    obtain u b m where y: "y = (u, b, m)" by (cases y)
    then have "unat b + unat m \<le> Suc (unat (allocated s u))" using inv(3) that by blast
    then show ?thesis using ua by (auto simp: y)
  qed
  have "(t, unat a) \<in> span (t, a, n)" using assms(2) by (simp add: word_less_nat_alt)
  then have "(t, a, n) \<notin> logged s \<union> A" using new by blast
  show "cdc_inv s' (insert (t, a, n) A)"
    unfolding cdc_inv_def log
  proof (intro conjI)
    show "store_wf s'" using inv(1) by (auto simp: s')
    show "logged s \<inter> insert (t, a, n) A = {}" using inv(2) \<open>(t, a, n) \<notin> logged s \<union> A\<close> by blast
    show "ranges_ok s' (logged s \<union> insert (t, a, n) A)"
      unfolding ranges_ok_def
    proof (intro allI impI)
      fix u b m assume "(u, b, m) \<in> logged s \<union> insert (t, a, n) A"
      then have "(u, b, m) = (t, a, n) \<or> (u, b, m) \<in> logged s \<union> A" by blast
      then show "0 < b \<and> 0 < m \<and> unat b + unat m \<le> Suc (unat (allocated s' u)) \<and> db_get s' (next_seq_key u) \<noteq> None"
      proof
        assume "(u, b, m) \<in> logged s \<union> A"
        from inv(3) [OF this] le [of u] show ?thesis by (auto simp: s')
      qed (use assms(2) ua all [of t] in \<open>auto simp: s' word_less_nat_alt\<close>)
    qed
    show "disjoint_ranges (logged s \<union> insert (t, a, n) A)"
      unfolding disjoint_ranges_def
    proof (intro ballI impI)
      fix x y assume "x \<in> logged s \<union> insert (t, a, n) A" "y \<in> logged s \<union> insert (t, a, n) A" "x \<noteq> y"
      then consider "x = (t, a, n)" "y \<in> logged s \<union> A" | "y = (t, a, n)" "x \<in> logged s \<union> A"
        | "x \<in> logged s \<union> A" "y \<in> logged s \<union> A" by blast
      then show "span x \<inter> span y = {}" using new inv(4) \<open>x \<noteq> y\<close> by cases (simp_all add: Int_commute)
    qed
    show "counters_ok s'"
      unfolding counters_ok_def pub
    proof (intro allI conjI)
      fix u
      show "allocated s' u \<noteq> - 1" using inv(5) [of u] all [of u] assms(3) by (auto simp: word_unat_eq_iff unat_max_u64)
      show "published s u \<le> allocated s' u" using inv(6) [of u] le [of u] by (simp add: word_le_nat_alt)
    qed
    show "covered_ok s'" "whole_ok s'"
      using cdc_inv_parts(6,7) [OF assms(1)] by (simp_all add: covered_ok_def whole_ok_def pub log)
  qed
  show "published s' u = published s u" "a = allocated s t + 1" by (rule pub, rule a)
  show "allocated s t \<le> allocated s' t" using le by (simp add: word_le_nat_alt)
  show "allocated s' u = allocated s u" if "u \<noteq> t" using all [of u] that by (simp add: word_unat_eq_iff)
qed

lemma chain_sorted:
  assumes "sorted (map fst xs)" "distinct xs" "\<And>a b. (a, b) \<in> set xs \<Longrightarrow> w < a \<and> a \<le> b \<and> b \<noteq> - 1"
    and "\<And>x y. x \<in> set xs \<Longrightarrow> y \<in> set xs \<Longrightarrow> x \<noteq> y \<Longrightarrow> fst x \<le> fst y \<Longrightarrow> snd x < fst y"
  shows "chain w xs"
  using assms
proof (induction xs arbitrary: w)
  case (Cons x xs)
  obtain a b where x: "x = (a, b)" by fastforce
  have "chain b xs"
  proof (rule Cons.IH)
    show "sorted (map fst xs)" "distinct xs" using Cons.prems(1,2) by simp_all
    show "b < c \<and> c \<le> d \<and> d \<noteq> - 1" if "(c, d) \<in> set xs" for c d
    proof -
      have "x \<noteq> (c, d)" "fst x \<le> c" using that Cons.prems(1,2) by auto
      then have "b < c" using Cons.prems(4) [of x "(c, d)"] that x by simp
      with Cons.prems(3) [of c d] that show ?thesis by simp
    qed
    show "snd y < fst z" if "y \<in> set xs" "z \<in> set xs" "y \<noteq> z" "fst y \<le> fst z" for y z
      using Cons.prems(4) [of y z] that by simp
  qed
  with Cons.prems(3) [of a b] x show ?case by simp
qed simp

text \<open>A batch of records, each for a range of its own that is still pending.\<close>

definition cdc_batch :: "store \<Rightarrow> alloc set \<Rightarrow> ChangeRecordMeta list \<Rightarrow> bool" where
  "cdc_batch s A rs \<longleftrightarrow> cdc_inv s A \<and> distinct (map alloc_of rs) \<and> alloc_of ` set rs \<subseteq> A"

lemma cdc_batchD:
  assumes "cdc_batch s A rs"
  shows "cdc_inv s A" "distinct (map alloc_of rs)" "alloc_of ` set rs \<subseteq> A"
  using assms by (simp_all add: cdc_batch_def)

lemma batch_record:
  assumes B: "cdc_batch s A rs" and r: "r \<in> set rs"
  shows "alloc_of r \<in> A" "published s (cr_table_id r) < cr_sequence r" "cr_sequence r \<le> change_end r"
    "unat (change_end r) + 1 = unat (cr_sequence r) + unat (cpr_row_count (cr_payload r))"
    "change_end r \<le> allocated s (cr_table_id r)" "change_end r \<noteq> - 1"
    "db_get s (next_seq_key (cr_table_id r)) \<noteq> None"
proof -
  show A: "alloc_of r \<in> A" using r cdc_batchD(3) [OF B] by blast
  then have A': "(cr_table_id r, cr_sequence r, cpr_row_count (cr_payload r)) \<in> A" by (simp add: alloc_of_def)
  show "published s (cr_table_id r) < cr_sequence r" by (rule pending_above [OF cdc_batchD(1) [OF B] A'])
  let ?a = "unat (cr_sequence r)" and ?n = "unat (cpr_row_count (cr_payload r))" and ?m = "unat (allocated s (cr_table_id r))"
  have "0 < cr_sequence r \<and> 0 < cpr_row_count (cr_payload r) \<and> ?a + ?n \<le> Suc ?m \<and> db_get s (next_seq_key (cr_table_id r)) \<noteq> None"
    using cdc_invD(3) [OF cdc_batchD(1) [OF B]] A' by blast
  then have b: "0 < ?a" "0 < ?n" "?a + ?n \<le> Suc ?m" and next_key: "db_get s (next_seq_key (cr_table_id r)) \<noteq> None"
    by (simp_all add: word_less_nat_alt)
  have "?m \<noteq> 2 ^ 64 - 1" using cdc_invD(5) [OF cdc_batchD(1) [OF B]] by (auto simp: word_unat_eq_iff unat_max_u64)
  moreover have "?m < 2 ^ 64" using unsigned_less [of "allocated s (cr_table_id r)"] by simp
  ultimately have m: "?m < 2 ^ 64 - 1" by simp
  have e: "unat (change_end r) = ?a + ?n - 1" using b m by (simp add: change_end_def unat_sat_sub unat_sat_add)
  with b show "unat (change_end r) + 1 = ?a + ?n" "cr_sequence r \<le> change_end r" "change_end r \<le> allocated s (cr_table_id r)"
    by (simp_all add: word_le_nat_alt)
  show "change_end r \<noteq> - 1"
  proof
    assume "change_end r = - 1"
    then have "unat (change_end r) = 2 ^ 64 - 1" using unat_max_u64 by simp
    with e b m show False by simp
  qed
  show "db_get s (next_seq_key (cr_table_id r)) \<noteq> None" by (rule next_key)
qed

lemma batch_span: "cdc_batch s A rs \<Longrightarrow> r \<in> set rs \<Longrightarrow> (t, k) \<in> span (alloc_of r) \<longleftrightarrow> t = cr_table_id r \<and> unat (cr_sequence r) \<le> k \<and> k \<le> unat (change_end r)"
  using batch_record(4) [of s A rs r] by (auto simp: alloc_of_def)

lemma batch_start: "cdc_batch s A rs \<Longrightarrow> r \<in> set rs \<Longrightarrow> (cr_table_id r, unat (cr_sequence r)) \<in> span (alloc_of r)"
  using batch_record(3) [of s A rs r] batch_span [of s A rs r] by (simp add: word_le_nat_alt)

lemma batch_apart:
  assumes B: "cdc_batch s A rs" and "r \<in> set rs" "q \<in> set rs" "r \<noteq> q" "cr_table_id r = cr_table_id q" "cr_sequence r \<le> cr_sequence q"
  shows "change_end r < cr_sequence q"
proof (rule ccontr)
  assume "\<not> change_end r < cr_sequence q"
  then have in_r: "(cr_table_id q, unat (cr_sequence q)) \<in> span (alloc_of r)"
    using assms by (simp add: batch_span [OF B] word_le_nat_alt word_less_nat_alt)
  have "alloc_of r \<noteq> alloc_of q" using assms(2-4) cdc_batchD(2) [OF B] by (meson distinct_map inj_onD)
  then have "span (alloc_of r) \<inter> span (alloc_of q) = {}"
    using cdc_invD(4) [OF cdc_batchD(1) [OF B]] batch_record(1) [OF B assms(2)] batch_record(1) [OF B assms(3)] by blast
  with in_r batch_start [OF B assms(3)] show False by blast
qed

lemma batch_chain:
  assumes B: "cdc_batch s A rs"
  shows "chain (published s t) (ranges_of rs t)"
proof (rule chain_sorted)
  let ?f = "\<lambda>r. (cr_sequence r, change_end r)" and ?rs = "filter (\<lambda>r. cr_table_id r = t) rs"
  have set: "x \<in> set (ranges_of rs t) \<longleftrightarrow> (\<exists>r \<in> set rs. cr_table_id r = t \<and> x = ?f r)" for x
    by (auto simp: ranges_of_def)
  have ends: "snd x < fst y" if xy: "x \<in> set (ranges_of rs t)" "y \<in> set (ranges_of rs t)" "x \<noteq> y" "fst x \<le> fst y" for x y
  proof -
    from xy(1,2) obtain r q where r: "r \<in> set rs" "cr_table_id r = t" "x = ?f r" and q: "q \<in> set rs" "cr_table_id q = t" "y = ?f q"
      unfolding set by blast
    with xy(3,4) batch_apart [OF B r(1) q(1)] show ?thesis by auto
  qed
  then show "\<And>x y. x \<in> set (ranges_of rs t) \<Longrightarrow> y \<in> set (ranges_of rs t) \<Longrightarrow> x \<noteq> y \<Longrightarrow> fst x \<le> fst y \<Longrightarrow> snd x < fst y" .
  show "published s t < a \<and> a \<le> b \<and> b \<noteq> - 1" if "(a, b) \<in> set (ranges_of rs t)" for a b
    using that batch_record [OF B] unfolding set by auto
  show "sorted (map fst (ranges_of rs t))" by (simp add: ranges_of_def)
  have "inj_on ?f (set ?rs)"
  proof (rule inj_onI)
    fix r q assume a: "r \<in> set ?rs" "q \<in> set ?rs" "?f r = ?f q"
    show "r = q"
    proof (rule ccontr)
      assume "r \<noteq> q"
      with a batch_apart [OF B, of r q] batch_record(3) [OF B, of r] show False by auto
    qed
  qed
  moreover have "distinct ?rs" using cdc_batchD(2) [OF B] by (simp add: distinct_map)
  ultimately have "distinct (map ?f ?rs)" by (simp add: distinct_map)
  then show "distinct (ranges_of rs t)" by (simp add: ranges_of_def)
qed

lemma batch_keys:
  assumes B: "cdc_batch s A rs"
  shows "distinct (map (\<lambda>r. (cr_table_id r, cr_sequence r)) rs)"
proof -
  have "inj_on (\<lambda>r. (cr_table_id r, cr_sequence r)) (set rs)"
  proof (rule inj_onI)
    fix r q assume a: "r \<in> set rs" "q \<in> set rs" "(cr_table_id r, cr_sequence r) = (cr_table_id q, cr_sequence q)"
    show "r = q"
    proof (rule ccontr)
      assume "r \<noteq> q"
      with a batch_apart [OF B, of r q] batch_record(3) [OF B, of r] show False by auto
    qed
  qed
  then show ?thesis using cdc_batchD(2) [OF B] by (simp add: distinct_map)
qed

lemma batch_fresh:
  assumes B: "cdc_batch s A rs" and "r \<in> set rs" "db_get s (change_log_key (cr_table_id r) (cr_sequence r)) = Some (VChange q)"
    "cr_table_id q = cr_table_id r" "cr_sequence q = cr_sequence r"
  shows False
proof -
  have q: "alloc_of q \<in> logged s" unfolding logged_def using assms(3-5) by auto
  then have n: "0 < cpr_row_count (cr_payload q)" using cdc_invD(3) [OF cdc_batchD(1) [OF B], of "cr_table_id q" "cr_sequence q" "cpr_row_count (cr_payload q)"] by (simp add: alloc_of_def)
  have "alloc_of q \<noteq> alloc_of r" using q batch_record(1) [OF B assms(2)] cdc_invD(2) [OF cdc_batchD(1) [OF B]] by (metis IntI emptyE)
  then have "span (alloc_of q) \<inter> span (alloc_of r) = {}"
    using cdc_invD(4) [OF cdc_batchD(1) [OF B], of "alloc_of q" "alloc_of r"] q batch_record(1) [OF B assms(2)] by blast
  moreover have "(cr_table_id r, unat (cr_sequence r)) \<in> span (alloc_of q)"
    using n assms(4,5) by (simp add: alloc_of_def word_less_nat_alt)
  ultimately show False using batch_start [OF B assms(2)] by blast
qed

lemma find_SomeD: "find P xs = Some x \<Longrightarrow> P x \<and> x \<in> set xs"
  by (induction xs) (auto split: if_splits)

lemma commit_logged:
  assumes B: "cdc_batch s A rs" and "commit_table_cdc fx now x mps sups rs s = (Ok (), s')"
  shows "logged s' = logged s \<union> alloc_of ` set rs"
proof -
  note wf = cdc_invD(1) [OF cdc_batchD(1) [OF B]]
  let ?find = "\<lambda>t n. find (\<lambda>r. cr_table_id r = t \<and> cr_sequence r = n) rs"
  have get: "db_get s' (change_log_key t n) = (case ?find t n of Some r \<Rightarrow> Some (VChange r) | None \<Rightarrow> db_get s (change_log_key t n))" for t n
    using commit_cdc_run(3) [OF wf assms(2)] put_records_log [OF batch_keys [OF B]] by simp
  have found: "?find (cr_table_id r) (cr_sequence r) = Some r" if "r \<in> set rs" for r
  proof -
    have "?find (cr_table_id r) (cr_sequence r) \<noteq> None" using that unfolding find_None_iff by blast
    then obtain q where q: "?find (cr_table_id r) (cr_sequence r) = Some q" by blast
    from find_SomeD [OF q] have "q \<in> set rs" "cr_table_id q = cr_table_id r" "cr_sequence q = cr_sequence r" by auto
    then have "q = r" using inj_onD [OF conjunct2 [OF batch_keys [OF B, unfolded distinct_map]], of q r] that by simp
    with q show ?thesis by simp
  qed
  have stored: "db_get s' (change_log_key (cr_table_id r) (cr_sequence r)) = Some (VChange r) \<longleftrightarrow>
      r \<in> set rs \<or> db_get s (change_log_key (cr_table_id r) (cr_sequence r)) = Some (VChange r)" for r
  proof (cases "?find (cr_table_id r) (cr_sequence r)")
    case None
    then have "r \<notin> set rs" using found by auto
    with None show ?thesis by (simp add: get)
  next
    case (Some q)
    from find_SomeD [OF Some] have q: "q \<in> set rs" "cr_table_id r = cr_table_id q" "cr_sequence r = cr_sequence q"
      by auto
    have "db_get s (change_log_key (cr_table_id r) (cr_sequence r)) \<noteq> Some (VChange r)"
      unfolding q(2,3) using batch_fresh [OF B q(1), of r] q(2,3) by blast
    moreover have "q = r \<longleftrightarrow> r \<in> set rs" using q(1) found [of r] Some by (metis option.inject)
    ultimately show ?thesis using Some by (simp add: get)
  qed
  show ?thesis unfolding logged_def stored by blast
qed

lemma commit_counters:
  assumes B: "cdc_batch s A rs" and "commit_table_cdc fx now x mps sups rs s = (Ok (), s')"
  shows "published s' t = publish_through (sat_add (published s t) 1) (published s t) (ranges_of rs t)"
    "allocated s' t = allocated s t" "db_get s' (next_seq_key t) = db_get s (next_seq_key t)"
proof -
  note inv = cdc_invD [OF cdc_batchD(1) [OF B]]
  have p: "published s t \<noteq> - 1" using inv(5,6) [of t] word_order.extremum_unique [of "allocated s t"] by auto
  note run = commit_cdc_run [OF inv(1) assms(2)]
  show pub: "published s' t = publish_through (sat_add (published s t) 1) (published s t) (ranges_of rs t)"
    using run(1) [of t] publish_chain(1) [OF p batch_chain [OF B]] by (simp add: max_def)
  show nk: "db_get s' (next_seq_key t) = db_get s (next_seq_key t)" by (rule run(2))
  show "allocated s' t = allocated s t"
  proof (cases "db_get s (next_seq_key t)")
    case None
    then have "t \<notin> cr_table_id ` set rs" using batch_record(7) [OF B] by blast
    then have "published s' t = published s t" using pub ranges_of_empty by simp
    with None show ?thesis using nk by (simp add: allocated_def published_def)
  qed (simp add: allocated_def nk)
qed

lemma commit_cdc_inv:
  assumes B: "cdc_batch s A rs" and "commit_table_cdc fx now x mps sups rs s = (Ok (), s')"
  shows "cdc_inv s' (A - alloc_of ` set rs)"
proof -
  note inv = cdc_invD [OF cdc_batchD(1) [OF B]]
  note log = commit_logged [OF assms] and cnt = commit_counters [OF assms]
  have p: "published s t \<noteq> - 1" for t using inv(5,6) [of t] word_order.extremum_unique [of "allocated s t"] by auto
  note pub = publish_chain [OF p batch_chain [OF B], folded cnt(1)]
  have mem: "(a, b) \<in> set (ranges_of rs t) \<longleftrightarrow> (\<exists>r \<in> set rs. cr_table_id r = t \<and> a = cr_sequence r \<and> b = change_end r)" for a b t
    by (auto simp: ranges_of_def)
  have new: "\<exists>r \<in> set rs. (t, k) \<in> span (alloc_of r)" if k: "unat (published s t) < k" "k \<le> unat (published s' t)" for t k
  proof -
    obtain a b where "(a, b) \<in> set (ranges_of rs t)" "unat a \<le> k" "k \<le> unat b" using pub(2) [OF k] by blast
    then show ?thesis unfolding mem using batch_span [OF B] by blast
  qed
  have all: "logged s' \<union> (A - alloc_of ` set rs) = logged s \<union> A" using log cdc_batchD(3) [OF B] by blast
  show ?thesis
    unfolding cdc_inv_def all
  proof (intro conjI)
    show "store_wf s'" using keepsD [OF keeps_commit_cdc inv(1), of fx now x mps sups rs] assms(2) by simp
    show "logged s' \<inter> (A - alloc_of ` set rs) = {}" using log inv(2) by blast
    show "ranges_ok s' (logged s \<union> A)"
      using cdc_inv_parts(3) [OF cdc_batchD(1) [OF B]] by (simp add: ranges_ok_def cnt(2,3))
    show "disjoint_ranges (logged s \<union> A)" by (rule cdc_inv_parts(4) [OF cdc_batchD(1) [OF B]])
    show "counters_ok s'"
      unfolding counters_ok_def cnt(2)
    proof (intro allI conjI)
      fix t
      show "allocated s t \<noteq> - 1" by (rule inv(5))
      show "published s' t \<le> allocated s t"
      proof (cases "published s t < published s' t")
        case True
        then obtain r where r: "r \<in> set rs" "(t, unat (published s' t)) \<in> span (alloc_of r)"
          using new [of t "unat (published s' t)"] by (auto simp: word_less_nat_alt)
        with batch_record(5) [OF B r(1)] show ?thesis
          by (auto simp: batch_span [OF B] word_le_nat_alt intro: order_trans)
      next
        case False
        with inv(6) [of t] show ?thesis by simp
      qed
    qed
    show "covered_ok s'"
      unfolding covered_ok_def log
    proof (intro allI impI)
      fix t k assume "0 < k" "k \<le> unat (published s' t)"
      then show "\<exists>x \<in> logged s \<union> alloc_of ` set rs. (t, k) \<in> span x"
        using inv(7) [of k t] new [of t k] by (cases "k \<le> unat (published s t)") auto
    qed
    show "whole_ok s'"
      unfolding whole_ok_def log
    proof (intro allI impI)
      fix t a n assume "(t, a, n) \<in> logged s \<union> alloc_of ` set rs"
      then show "unat a + unat n \<le> Suc (unat (published s' t)) \<or> published s' t < a"
      proof
        assume l: "(t, a, n) \<in> logged s"
        have le: "unat (published s t) \<le> unat (published s' t)" using pub(1) by (simp add: word_le_nat_alt)
        from inv(8) [OF l] show ?thesis
        proof
          assume above: "published s t < a"
          have "\<not> a \<le> published s' t"
          proof
            assume "a \<le> published s' t"
            then obtain r where r: "r \<in> set rs" "(t, unat a) \<in> span (alloc_of r)"
              using new [of t "unat a"] above by (auto simp: word_le_nat_alt word_less_nat_alt)
            have "0 < n" using inv(3) l by blast
            then have "(t, unat a) \<in> span (t, a, n) \<inter> span (alloc_of r)" using r(2) by (simp add: word_less_nat_alt)
            moreover have "span (t, a, n) \<inter> span (alloc_of r) = {}"
            proof (rule inv(4))
              show "(t, a, n) \<in> logged s \<union> A" "alloc_of r \<in> logged s \<union> A" using l batch_record(1) [OF B r(1)] by simp_all
              show "(t, a, n) \<noteq> alloc_of r" using l batch_record(1) [OF B r(1)] inv(2) by (metis IntI emptyE)
            qed
            ultimately show False by (metis emptyE)
          qed
          then show ?thesis by (simp add: not_le)
        qed (use le in simp)
      next
        assume "(t, a, n) \<in> alloc_of ` set rs"
        then obtain r where r: "r \<in> set rs" "t = cr_table_id r" "a = cr_sequence r" "n = cpr_row_count (cr_payload r)"
          by (auto simp: alloc_of_def)
        then have "(a, change_end r) \<in> set (ranges_of rs t)" unfolding mem by blast
        from pub(3) [OF this] batch_record(4) [OF B r(1)] r show ?thesis by (auto simp: word_le_nat_alt)
      qed
    qed
  qed
qed

lemma subset_cdc_inv:
  assumes "cdc_inv s A" "A' \<subseteq> A"
  shows "cdc_inv s A'"
  using assms unfolding cdc_inv_def ranges_ok_def disjoint_ranges_def by blast

lemma same_cdc_inv:
  assumes "cdc_inv s A" "store_wf s'" "same_cdc s s'"
  shows "cdc_inv s' A"
  using assms(1,2)
  by (simp add: cdc_inv_def ranges_ok_def counters_ok_def covered_ok_def whole_ok_def same_cdcD [OF assms(3)])

lemma cdc_step_inv:
  assumes "cdc_step fx \<sigma> \<sigma>'" "cdc_inv (fst \<sigma>) (snd \<sigma>)"
  shows "cdc_inv (fst \<sigma>') (snd \<sigma>')"
  using assms
proof (cases rule: cdc_step.cases)
  case (allocate t n s a s' A)
  then show ?thesis using cdc_allocate(1) assms(2) by auto
next
  case (commit now x mps sups rs s s' A)
  then have "cdc_batch s A rs" using assms(2) by (simp add: cdc_batch_def)
  from commit_cdc_inv [OF this commit(3)] commit show ?thesis by simp
next
  case (abandon s A y)
  then show ?thesis using assms(2) subset_cdc_inv [of s A "A - {y}"] by auto
next
  case (other s' s A)
  then show ?thesis using assms(2) same_cdc_inv by auto
qed

lemma cdc_empty: "cdc_inv DAList.empty {}"
  by (simp add: cdc_inv_def store_wf_empty logged_def ranges_ok_def disjoint_ranges_def counters_ok_def covered_ok_def
      whole_ok_def allocated_def published_def counter_def)

lemma cdc_reachable:
  assumes "(cdc_step fx)\<^sup>*\<^sup>* \<sigma> \<sigma>'" "cdc_inv (fst \<sigma>) (snd \<sigma>)"
  shows "cdc_inv (fst \<sigma>') (snd \<sigma>')"
  using assms by (induction rule: rtranclp_induct) (auto intro: cdc_step_inv)

subsection \<open>What readers rely on\<close>

lemma change_sequence_published:
  "store_wf s \<Longrightarrow> get_table_change_sequence t s = Ok (published s t)"
  using wf_u64 [of s "change_seq_key t" _ "[True]"]
  by (auto simp: get_table_change_sequence_def published_def counter_def split: option.split)

lemma logged_unique:
  assumes "cdc_inv s A" "x \<in> logged s" "y \<in> logged s" "(t, k) \<in> span x" "(t, k) \<in> span y"
  shows "x = y"
proof (rule ccontr)
  assume "x \<noteq> y"
  then have "span x \<inter> span y = {}" using cdc_invD(4) [OF assms(1), of x y] assms(2,3) by simp
  then show False using assms(4,5) by (metis IntI emptyE)
qed

text \<open>
  C32. Completeness of what is published. However allocations, commits, failed writers and
  other operations are interleaved, the watermark of a table can be read, every sequence
  number from one up to it belongs to exactly one stored change record of the table, and no
  range that is still to be written lies at or below it.
\<close>

theorem published_changes_complete:
  assumes "(cdc_step fx)\<^sup>*\<^sup>* (DAList.empty, {}) (s, A)"
  shows "\<exists>w. get_table_change_sequence t s = Ok w \<and>
    (\<forall>k. 0 < k \<and> k \<le> unat w \<longrightarrow>
       (\<exists>!r. db_get s (change_log_key t (cr_sequence r)) = Some (VChange r) \<and> cr_table_id r = t \<and>
             unat (cr_sequence r) \<le> k \<and> k < unat (cr_sequence r) + unat (cpr_row_count (cr_payload r)))) \<and>
    (\<forall>a n. (t, a, n) \<in> A \<longrightarrow> w < a)"
proof -
  have inv: "cdc_inv s A" using cdc_reachable [OF assms] cdc_empty by simp
  have "\<exists>!r. db_get s (change_log_key t (cr_sequence r)) = Some (VChange r) \<and> cr_table_id r = t \<and>
             unat (cr_sequence r) \<le> k \<and> k < unat (cr_sequence r) + unat (cpr_row_count (cr_payload r))"
    if k: "0 < k" "k \<le> unat (published s t)" for k
  proof -
    obtain r where r: "alloc_of r \<in> logged s" "(t, k) \<in> span (alloc_of r)"
      "db_get s (change_log_key (cr_table_id r) (cr_sequence r)) = Some (VChange r)"
      using cdc_invD(7) [OF inv k] unfolding logged_def by blast
    have eq: "q = r" if q: "db_get s (change_log_key t (cr_sequence q)) = Some (VChange q)" "cr_table_id q = t"
        "unat (cr_sequence q) \<le> k" "k < unat (cr_sequence q) + unat (cpr_row_count (cr_payload q))" for q
    proof -
      have "alloc_of q \<in> logged s" unfolding logged_def using q(1,2) by blast
      moreover have "(t, k) \<in> span (alloc_of q)" using q(2-4) by (simp add: alloc_of_def)
      ultimately have "alloc_of q = alloc_of r" using logged_unique [OF inv _ r(1) _ r(2)] by blast
      then have "cr_table_id q = cr_table_id r" "cr_sequence q = cr_sequence r" by (simp_all add: alloc_of_def)
      with q(1,2) r(3) show ?thesis by simp
    qed
    have "cr_table_id r = t" using r(2) by (simp add: alloc_of_def)
    moreover have "unat (cr_sequence r) \<le> k \<and> k < unat (cr_sequence r) + unat (cpr_row_count (cr_payload r))"
      using r(2) by (simp add: alloc_of_def)
    ultimately have "db_get s (change_log_key t (cr_sequence r)) = Some (VChange r) \<and> cr_table_id r = t \<and>
        unat (cr_sequence r) \<le> k \<and> k < unat (cr_sequence r) + unat (cpr_row_count (cr_payload r))" using r(3) by simp
    then show ?thesis by (rule ex1I) (elim conjE, rule eq)
  qed
  moreover have "published s t < a" if "(t, a, n) \<in> A" for a n by (rule pending_above [OF inv that])
  ultimately show ?thesis
    using change_sequence_published [OF cdc_invD(1) [OF inv]] by (intro exI [of _ "published s t"] conjI allI impI) simp_all
qed

text \<open>
  C33. Progress of the watermark. A commit never moves the watermark back. It moves it forward
  exactly when the batch contains the range right above it, and then at least to the end of
  that range.
\<close>

theorem watermark_progress:
  assumes "(cdc_step fx)\<^sup>*\<^sup>* (DAList.empty, {}) (s, A)"
    and "distinct (map alloc_of rs)" "alloc_of ` set rs \<subseteq> A"
    and "commit_table_cdc fx now x mps sups rs s = (Ok (), s')"
  shows "published s t \<le> published s' t \<and>
    (published s t < published s' t \<longleftrightarrow> (\<exists>r \<in> set rs. cr_table_id r = t \<and> cr_sequence r = published s t + 1)) \<and>
    (\<forall>r \<in> set rs. cr_table_id r = t \<and> cr_sequence r = published s t + 1 \<longrightarrow> change_end r \<le> published s' t)"
proof -
  have inv: "cdc_inv s A" using cdc_reachable [OF assms(1)] cdc_empty by simp
  then have B: "cdc_batch s A rs" using assms(2,3) by (simp add: cdc_batch_def)
  have p: "published s t \<noteq> - 1"
    using cdc_invD(5,6) [OF inv, of t] word_order.extremum_unique [of "allocated s t"] by auto
  have nxt: "sat_add (published s t) 1 = published s t + 1"
    using sat_add_one [OF p] unat_u64_Suc [OF p] by (simp add: word_unat_eq_iff)
  have mem: "(a, b) \<in> set (ranges_of rs t) \<longleftrightarrow> (\<exists>r \<in> set rs. cr_table_id r = t \<and> a = cr_sequence r \<and> b = change_end r)" for a b
    by (auto simp: ranges_of_def)
  note pub = publish_chain [OF p batch_chain [OF B], folded commit_counters(1) [OF B assms(4)]]
  have moves: "published s t < published s' t \<longleftrightarrow> (\<exists>r \<in> set rs. cr_table_id r = t \<and> cr_sequence r = published s t + 1)"
    unfolding pub(5) mem nxt by metis
  have "change_end r \<le> published s' t" if r: "r \<in> set rs" "cr_table_id r = t" "cr_sequence r = published s t + 1" for r
  proof -
    have "published s t < published s' t" using moves r by blast
    then have "\<not> published s' t < cr_sequence r"
      using r(3) unat_u64_Suc [OF p] by (simp add: word_less_nat_alt)
    moreover have "(cr_sequence r, change_end r) \<in> set (ranges_of rs t)" unfolding mem using r by blast
    ultimately show ?thesis using pub(3) by blast
  qed
  with moves pub(1) show ?thesis by blast
qed

subsection \<open>How the watermark stops\<close>

text \<open>
  A table is blocked when numbers above its watermark are allocated but the range right above
  it is not pending any more: its writer failed, or it was committed before an earlier range.
  No step moves the watermark of a blocked table, so its later changes are never published.
\<close>

definition blocked :: "store \<Rightarrow> alloc set \<Rightarrow> TableId \<Rightarrow> bool" where
  "blocked s A t \<longleftrightarrow> published s t < allocated s t \<and> (\<forall>n. (t, published s t + 1, n) \<notin> A)"

lemma blocked_step:
  assumes "cdc_step fx \<sigma> \<sigma>'" "cdc_inv (fst \<sigma>) (snd \<sigma>)" "blocked (fst \<sigma>) (snd \<sigma>) t"
  shows "blocked (fst \<sigma>') (snd \<sigma>') t \<and> published (fst \<sigma>') t = published (fst \<sigma>) t"
  using assms(1)
proof (cases rule: cdc_step.cases)
  case (allocate u n s a s' A)
  with assms have inv: "cdc_inv s A" and b: "blocked s A t" by simp_all
  note al = cdc_allocate [OF inv allocate(4,5,3)]
  have le: "allocated s t \<le> allocated s' t" using al(4) al(5) [of t] by (cases "u = t") auto
  have "a \<noteq> published s t + 1" if "u = t"
    using b al(3) that by (auto simp: blocked_def)
  then have "blocked s' (insert (u, a, n) A) t" using b le al(2) [of t] by (auto simp: blocked_def)
  with allocate al(2) [of t] show ?thesis by simp
next
  case (commit now x mps sups rs s s' A)
  with assms have inv: "cdc_inv s A" and b: "blocked s A t" by simp_all
  then have B: "cdc_batch s A rs" using commit by (simp add: cdc_batch_def)
  have p: "published s t \<noteq> - 1"
    using cdc_invD(5,6) [OF inv, of t] word_order.extremum_unique [of "allocated s t"] by auto
  have nxt: "sat_add (published s t) 1 = published s t + 1"
    using sat_add_one [OF p] unat_u64_Suc [OF p] by (simp add: word_unat_eq_iff)
  note pub = publish_chain [OF p batch_chain [OF B], folded commit_counters(1) [OF B commit(3)]]
  have "(published s t + 1, e) \<notin> set (ranges_of rs t)" for e
  proof
    assume "(published s t + 1, e) \<in> set (ranges_of rs t)"
    then obtain r where r: "r \<in> set rs" "cr_table_id r = t" "cr_sequence r = published s t + 1" by (auto simp: ranges_of_def)
    with batch_record(1) [OF B r(1)] b show False by (simp add: alloc_of_def blocked_def)
  qed
  then have "published s' t = published s t" using pub(1,5) nxt by (metis order.not_eq_order_implies_strict)
  moreover from this have "blocked s' (A - alloc_of ` set rs) t"
    using b commit_counters(2) [OF B commit(3), of t] by (simp add: blocked_def)
  ultimately show ?thesis using commit by simp
next
  case (abandon s A y)
  with assms(3) show ?thesis by (simp add: blocked_def)
next
  case (other s' s A)
  with assms(3) same_cdcD(1,2) [OF other(4)] show ?thesis by (simp add: blocked_def)
qed

lemma blocked_for_good:
  assumes "(cdc_step fx)\<^sup>*\<^sup>* \<sigma> \<sigma>'" "cdc_inv (fst \<sigma>) (snd \<sigma>)" "blocked (fst \<sigma>) (snd \<sigma>) t"
  shows "published (fst \<sigma>') t = published (fst \<sigma>) t"
proof -
  have "blocked (fst \<sigma>') (snd \<sigma>') t \<and> published (fst \<sigma>') t = published (fst \<sigma>) t"
    using assms(1)
  proof (induction rule: rtranclp_induct)
    case (step \<tau> \<tau>')
    with blocked_step [OF step(2) cdc_reachable [OF step(1) assms(2)]] show ?case by metis
  qed (use assms(3) in simp)
  then show ?thesis ..
qed

subsection \<open>Sample runs\<close>

definition sample_change :: "u64 \<Rightarrow> ChangeRecordMeta" where
  "sample_change n =
     \<lparr>cr_table_id = 7, cr_sequence = n, cr_txn_id = 0, cr_commit_ts = 0,
      cr_payload = \<lparr>cpr_path = ''p'', cpr_row_start = 0, cpr_row_count = 1\<rparr>,
      cr_action_counts = \<lparr>cac_inserts = 1, cac_deletes = 0, cac_update_pairs = 0\<rparr>, cr_min_row_id = None,
      cr_max_row_id = None\<rparr>"

lemma sample_change_alloc: "alloc_of (sample_change n) = (7, n, 1)"
  by (simp add: alloc_of_def sample_change_def)

lemma commit_records_ok:
  assumes "store_wf s"
  shows "\<exists>s'. commit_table_cdc fx now 0 [] [] rs s = (Ok (), s')"
proof -
  obtain s2 where "publish_tables (table_ranges rs) (put_records rs s) = Ok s2"
    using publish_tables_run [OF put_records_wf [OF assms] table_ranges_lookup(1)] by blast
  then show ?thesis by (simp add: commit_table_cdc_def db_run_def put_mps_def finish_txn_def)
qed

lemma sample_commit:
  assumes "(cdc_step fx)\<^sup>*\<^sup>* (DAList.empty, {}) (s, A)" "(7, n, 1) \<in> A"
  shows "\<exists>s'. (cdc_step fx)\<^sup>*\<^sup>* (DAList.empty, {}) (s', A - {(7, n, 1)}) \<and>
     commit_table_cdc fx 0 0 [] [] [sample_change n] s = (Ok (), s') \<and> allocated s' 7 = allocated s 7 \<and>
     published s' 7 = publish_through (sat_add (published s 7) 1) (published s 7) [(n, sat_sub (sat_add n 1) 1)]"
proof -
  have inv: "cdc_inv s A" using cdc_reachable [OF assms(1)] cdc_empty by simp
  then have B: "cdc_batch s A [sample_change n]" using assms(2) by (simp add: cdc_batch_def sample_change_alloc)
  obtain s' where s': "commit_table_cdc fx 0 0 [] [] [sample_change n] s = (Ok (), s')"
    using commit_records_ok [OF cdc_invD(1) [OF inv]] by blast
  have "cdc_step fx (s, A) (s', A - alloc_of ` set [sample_change n])"
    by (rule cdc_step.commit [OF s']) (use assms(2) in \<open>simp_all add: sample_change_alloc\<close>)
  then have "(cdc_step fx)\<^sup>*\<^sup>* (DAList.empty, {}) (s', A - {(7, n, 1)})"
    using assms(1) by (simp add: sample_change_alloc rtranclp.rtrancl_into_rtrancl)
  moreover have "ranges_of [sample_change n] 7 = [(n, sat_sub (sat_add n 1) 1)]"
    by (simp add: ranges_of_def sample_change_def change_end_def)
  ultimately show ?thesis using s' commit_counters(1,2) [OF B s', of 7] by auto
qed

text \<open>Two writers get the numbers 1 and 2 of a table.\<close>

lemma sample_writers:
  "\<exists>s. (cdc_step fx)\<^sup>*\<^sup>* (DAList.empty, {}) (s, {(7, 2, 1), (7, 1, 1)}) \<and> published s 7 = 0 \<and> allocated s 7 = 2"
proof -
  let ?s1 = "db_set (next_seq_key 7) (u64_bytes 1) DAList.empty" and ?s2 = "db_set (next_seq_key 7) (u64_bytes 2)
    (db_set (next_seq_key 7) (u64_bytes 1) DAList.empty)"
  have a0: "allocated DAList.empty 7 = 0" by (simp add: allocated_def counter_def)
  have a1: "allocated ?s1 7 = 1" by (simp add: allocated_def)
  have inc: "sat_add 0 1 = 1" "sat_add 1 1 = 2" by (simp_all add: sat_add_def)
  have "allocate_table_change_sequences fx 7 1 DAList.empty = (Ok 1, ?s1)"
    using allocate_run [OF store_wf_empty, of fx 7 1] by (simp add: a0 inc)
  then have s1: "cdc_step fx (DAList.empty, {}) (?s1, {(7, 1, 1)})"
    by (rule cdc_step.allocate) (simp_all add: a0)
  have "store_wf ?s1" by (rule store_wf_set [OF store_wf_empty]) simp
  from allocate_run [OF this, of fx 7 1] have "allocate_table_change_sequences fx 7 1 ?s1 = (Ok 2, ?s2)"
    by (simp add: a1 inc)
  then have s2: "cdc_step fx (?s1, {(7, 1, 1)}) (?s2, {(7, 2, 1), (7, 1, 1)})"
    by (rule cdc_step.allocate) (simp_all add: a1)
  have "(cdc_step fx)\<^sup>*\<^sup>* (DAList.empty, {}) (?s2, {(7, 2, 1), (7, 1, 1)})"
    by (rule converse_rtranclp_into_rtranclp [where r = "cdc_step fx", OF s1 r_into_rtranclp [where r = "cdc_step fx", OF s2]])
  moreover have "published ?s2 7 = 0" "allocated ?s2 7 = 2" by (simp_all add: published_def allocated_def counter_def)
  ultimately show ?thesis by blast
qed

lemma small_numbers:
  "sat_add 0 1 = 1" "sat_add 1 1 = 2" "sat_add 2 1 = 3" "sat_sub 2 1 = 1" "sat_sub 3 1 = 2"
  by (simp_all add: sat_add_def sat_sub_def)

text \<open>
  The second writer commits first: its change is not published, and after the first writer
  has committed as well the watermark stays at 1 although both changes are stored and nothing
  is pending.
\<close>

lemma out_of_order_commit_blocks:
  "\<exists>s. (cdc_step fx)\<^sup>*\<^sup>* (DAList.empty, {}) (s, {}) \<and> published s 7 = 1 \<and> allocated s 7 = 2 \<and> blocked s {} 7"
proof -
  obtain s where s: "(cdc_step fx)\<^sup>*\<^sup>* (DAList.empty, {}) (s, {(7, 2, 1), (7, 1, 1)})" "published s 7 = 0" "allocated s 7 = 2"
    using sample_writers by blast
  obtain s1 where s1: "(cdc_step fx)\<^sup>*\<^sup>* (DAList.empty, {}) (s1, {(7, 1, 1)})" "published s1 7 = 0" "allocated s1 7 = 2"
    using sample_commit [OF s(1), of 2] s(2,3) by (auto simp: small_numbers insert_Diff_if)
  obtain s2 where "(cdc_step fx)\<^sup>*\<^sup>* (DAList.empty, {}) (s2, {})" "published s2 7 = 1" "allocated s2 7 = 2"
    using sample_commit [OF s1(1), of 1] s1(2,3) by (auto simp: small_numbers)
  then show ?thesis by (intro exI [of _ s2]) (simp add: blocked_def)
qed

lemma sample_published:
  "\<exists>s. (cdc_step fx)\<^sup>*\<^sup>* (DAList.empty, {}) (s, {(7, 2, 1)}) \<and> published s 7 = 1 \<and> store_wf s"
proof -
  obtain s where s: "(cdc_step fx)\<^sup>*\<^sup>* (DAList.empty, {}) (s, {(7, 2, 1), (7, 1, 1)})" "published s 7 = 0"
    using sample_writers by blast
  obtain s1 where s1: "(cdc_step fx)\<^sup>*\<^sup>* (DAList.empty, {}) (s1, {(7, 2, 1)})" "published s1 7 = 1"
    using sample_commit [OF s(1), of 1] s(2) by (auto simp: small_numbers insert_Diff_if)
  have "cdc_inv s1 {(7, 2, 1)}" using cdc_reachable [OF s1(1)] cdc_empty by simp
  then show ?thesis using s1 cdc_invD(1) by blast
qed

theorem published_changes_complete_witness:
  "\<exists>s r. db_get s (change_log_key 7 (cr_sequence r)) = Some (VChange r) \<and> unat (cr_sequence r) \<le> 1 \<and>
     1 < unat (cr_sequence r) + unat (cpr_row_count (cr_payload r)) \<and> get_table_change_sequence 7 s = Ok 1"
proof -
  obtain s where s: "(cdc_step sample_fdb)\<^sup>*\<^sup>* (DAList.empty, {}) (s, {(7, 2, 1)})" "published s 7 = 1" "store_wf s"
    using sample_published by blast
  have w: "get_table_change_sequence 7 s = Ok 1" using change_sequence_published [OF s(3)] s(2) by simp
  from published_changes_complete [OF s(1), of 7] w
  have "\<exists>!r. db_get s (change_log_key 7 (cr_sequence r)) = Some (VChange r) \<and> cr_table_id r = 7 \<and>
      unat (cr_sequence r) \<le> 1 \<and> 1 < unat (cr_sequence r) + unat (cpr_row_count (cr_payload r))" by auto
  then show ?thesis using w by blast
qed

theorem watermark_progress_witness:
  "\<exists>s s'. commit_table_cdc sample_fdb 0 0 [] [] [sample_change 2] s = (Ok (), s') \<and> published s 7 = 1 \<and> 2 \<le> published s' 7"
proof -
  obtain s where s: "(cdc_step sample_fdb)\<^sup>*\<^sup>* (DAList.empty, {}) (s, {(7, 2, 1)})" "published s 7 = 1"
    using sample_published by blast
  then obtain s' where s': "commit_table_cdc sample_fdb 0 0 [] [] [sample_change 2] s = (Ok (), s')"
    using sample_commit [OF s(1), of 2] by auto
  from watermark_progress [OF s(1) _ _ s', of 7]
  have "change_end (sample_change 2) \<le> published s' 7"
    by (simp add: s(2) sample_change_alloc) (simp add: sample_change_def)
  then have "2 \<le> published s' 7" by (simp add: change_end_def sample_change_def small_numbers)
  with s s' show ?thesis by blast
qed

end
