(* ===== verification/Exec_State.thy ===== *)
theory Exec_State
  imports Exec_Access Exec_Batch Meta_Cdc
begin

text \<open>
  The state of the executor and the way its statements are composed.

  A statement runs on the metadata store, the object store and the current transaction
  (\<^verbatim>\<open>Executor::current_txn\<close>, one slot shared by all sessions of an executor). It ends with a result,
  with an error or with a panic. The clock and the identifiers it draws come from the environment
  \<open>exec_env\<close>: the \<open>n\<close>-th reading of either is a function of \<open>n\<close>, and the state counts the readings.
  The environment also holds the parts the executor calls and that are not modelled: DataFusion
  (\<open>ev_mem_sql\<close> over a batch table, \<open>ev_sql\<close> over partitions) and the function runtime.
\<close>

subsection \<open>Environment and state\<close>

datatype df_error = DfTable string | DfRegister string | DfPlan string | DfCollect string

type_synonym registration = "string \<times> TableMeta \<times> MicroPartitionMeta list"

record ('b, 'o) exec_env =
  ev_plane :: "('b, 'o) plane"
  ev_fx :: fdb
  ev_writer :: MpWriter
  ev_reader :: MpReader
  ev_texts :: texts
  ev_clock :: "nat \<Rightarrow> Timestamp"
  ev_ids :: "nat \<Rightarrow> u64"
  ev_error_text :: string
  ev_mem_sql :: "string \<Rightarrow> 'b list \<Rightarrow> string \<Rightarrow> (df_error, 'b list) result"
  ev_sql :: "registration list \<Rightarrow> FunctionMeta list \<Rightarrow> string \<Rightarrow> 'o \<Rightarrow> (df_error, 'b list) result"
  ev_function_calls :: "string \<Rightarrow> (NovaError, (string \<times> nat) list) result"
  ev_create_udf :: "FunctionMeta \<Rightarrow> (NovaError, unit) result"

record 'o exec_state =
  xs_store :: store
  xs_objects :: 'o
  xs_txn :: "TxnId option"
  xs_tick :: nat

type_synonym ('o, 'a) ex = "'o exec_state \<Rightarrow> (fault, 'a) result \<times> 'o exec_state"

subsection \<open>Composition\<close>

definition ex_ret :: "'a \<Rightarrow> ('o, 'a) ex" where
  "ex_ret x st = (Ok x, st)"

definition ex_fail :: "NovaError \<Rightarrow> ('o, 'a) ex" where
  "ex_fail e st = (Err (Fail e), st)"

definition ex_bind :: "('o, 'a) ex \<Rightarrow> ('a \<Rightarrow> ('o, 'c) ex) \<Rightarrow> ('o, 'c) ex" where
  "ex_bind m f st = (case m st of (Inl e, st') \<Rightarrow> (Err e, st') | (Inr a, st') \<Rightarrow> f a st')"

definition ex_pure :: "(NovaError, 'a) result \<Rightarrow> ('o, 'a) ex" where
  "ex_pure r st = (map_err Fail r, st)"

definition ex_query :: "'a query \<Rightarrow> ('o, 'a) ex" where
  "ex_query q st = (map_err Fail (q (xs_store st)), st)"

definition ex_op :: "'a op \<Rightarrow> ('o, 'a) ex" where
  "ex_op m st = (case m (xs_store st) of (r, s') \<Rightarrow> (map_err Fail r, st\<lparr>xs_store := s'\<rparr>))"

definition ex_obj :: "('o \<Rightarrow> (fault, 'a) result \<times> 'o) \<Rightarrow> ('o, 'a) ex" where
  "ex_obj m st = (case m (xs_objects st) of (r, ob') \<Rightarrow> (r, st\<lparr>xs_objects := ob'\<rparr>))"

text \<open>The result of a call as a value, for \<open>.ok()\<close>, \<open>if let Ok\<close>, \<open>unwrap_or_default\<close> and \<open>let _ =\<close>; a panic is not caught.\<close>

definition ex_try :: "('o, 'a) ex \<Rightarrow> ('o, (NovaError, 'a) result) ex" where
  "ex_try m st =
     (case m st of
        (Inr a, st') \<Rightarrow> (Ok (Ok a), st')
      | (Inl (Fail e), st') \<Rightarrow> (Ok (Err e), st')
      | (Inl Panic, st') \<Rightarrow> (Err Panic, st'))"

fun ex_for :: "('a \<Rightarrow> ('o, unit) ex) \<Rightarrow> 'a list \<Rightarrow> ('o, unit) ex" where
  "ex_for f [] = ex_ret ()"
| "ex_for f (x # xs) = ex_bind (f x) (\<lambda>_. ex_for f xs)"

text \<open>A loop with an accumulator.\<close>

fun ex_fold :: "('a \<Rightarrow> 'c \<Rightarrow> ('o, 'c) ex) \<Rightarrow> 'a list \<Rightarrow> 'c \<Rightarrow> ('o, 'c) ex" where
  "ex_fold f [] acc = ex_ret acc"
| "ex_fold f (x # xs) acc = ex_bind (f x acc) (ex_fold f xs)"

definition now_micros :: "('b, 'o) exec_env \<Rightarrow> ('o, Timestamp) ex" where
  "now_micros ev st = (Ok (ev_clock ev (xs_tick st)), st\<lparr>xs_tick := xs_tick st + 1\<rparr>)"

definition new_id :: "('b, 'o) exec_env \<Rightarrow> ('o, u64) ex" where
  "new_id ev st = (Ok (ev_ids ev (xs_tick st)), st\<lparr>xs_tick := xs_tick st + 1\<rparr>)"

text \<open>A store operation that reads the clock.\<close>

definition ex_timed :: "('b, 'o) exec_env \<Rightarrow> (Timestamp \<Rightarrow> 'a op) \<Rightarrow> ('o, 'a) ex" where
  "ex_timed ev m = ex_bind (now_micros ev) (\<lambda>t. ex_op (m t))"

definition success :: "string \<Rightarrow> ('o, QueryResult) ex" where
  "success m = ex_ret (QR_Success m)"

subsection \<open>What a computation keeps\<close>

definition ex_keeps :: "(store \<Rightarrow> store \<Rightarrow> bool) \<Rightarrow> ('o, 'a) ex \<Rightarrow> bool" where
  "ex_keeps R m \<longleftrightarrow> (\<forall>st r st'. m st = (r, st') \<longrightarrow> R (xs_store st) (xs_store st'))"

text \<open>A relation between stores that composes.\<close>

definition composes :: "(store \<Rightarrow> store \<Rightarrow> bool) \<Rightarrow> bool" where
  "composes R \<longleftrightarrow> (\<forall>s. R s s) \<and> (\<forall>a b c. R a b \<longrightarrow> R b c \<longrightarrow> R a c)"

lemma ex_keepsD: "ex_keeps R m \<Longrightarrow> m st = (r, st') \<Longrightarrow> R (xs_store st) (xs_store st')"
  unfolding ex_keeps_def by blast

lemma ex_keeps_bind:
  assumes "composes R" "ex_keeps R m" "\<And>a. ex_keeps R (f a)"
  shows "ex_keeps R (ex_bind m f)"
  unfolding ex_keeps_def
proof (intro allI impI)
  fix st r st' assume run: "ex_bind m f st = (r, st')"
  obtain x st1 where m: "m st = (x, st1)" by fastforce
  have R1: "R (xs_store st) (xs_store st1)" using ex_keepsD [OF assms(2) m] .
  show "R (xs_store st) (xs_store st')"
  proof (cases x)
    case (Inl e)
    then show ?thesis using run m R1 by (simp add: ex_bind_def)
  next
    case (Inr a)
    then have "f a st1 = (r, st')" using run m by (simp add: ex_bind_def)
    from ex_keepsD [OF assms(3) this] R1 assms(1) show ?thesis unfolding composes_def by blast
  qed
qed

lemma ex_keeps_basic:
  assumes "composes R"
  shows "ex_keeps R (ex_ret x)" "ex_keeps R (ex_fail e)" "ex_keeps R (ex_pure p)" "ex_keeps R (ex_query q)"
    "ex_keeps R (ex_obj ob)" "ex_keeps R (now_micros ev)" "ex_keeps R (new_id ev)" "ex_keeps R (success t)"
  using assms
  by (auto simp: ex_keeps_def composes_def ex_ret_def ex_fail_def ex_pure_def ex_query_def ex_obj_def now_micros_def
      new_id_def success_def split: prod.splits)

lemma ex_keeps_op: "(\<And>s r s'. m s = (r, s') \<Longrightarrow> R s s') \<Longrightarrow> ex_keeps R (ex_op m)"
  by (auto simp: ex_keeps_def ex_op_def split: prod.splits)

lemma ex_keeps_timed: "composes R \<Longrightarrow> (\<And>t s r s'. m t s = (r, s') \<Longrightarrow> R s s') \<Longrightarrow> ex_keeps R (ex_timed ev m)"
  unfolding ex_timed_def by (intro ex_keeps_bind ex_keeps_basic ex_keeps_op) auto

lemma ex_keeps_try:
  assumes "ex_keeps R m"
  shows "ex_keeps R (ex_try m)"
  using assms by (auto simp: ex_keeps_def ex_try_def split: prod.splits sum.splits fault.splits)

lemma ex_keeps_for: "composes R \<Longrightarrow> (\<And>x. ex_keeps R (f x)) \<Longrightarrow> ex_keeps R (ex_for f xs)"
  by (induction xs) (auto intro: ex_keeps_bind ex_keeps_basic)

lemma ex_keeps_fold: "composes R \<Longrightarrow> (\<And>x c. ex_keeps R (f x c)) \<Longrightarrow> ex_keeps R (ex_fold f xs acc)"
  by (induction xs arbitrary: acc) (auto intro: ex_keeps_bind ex_keeps_basic)

lemma ex_keeps_cases:
  "(P \<Longrightarrow> ex_keeps R a) \<Longrightarrow> (\<not> P \<Longrightarrow> ex_keeps R b) \<Longrightarrow> ex_keeps R (if P then a else b)"
  "ex_keeps R n \<Longrightarrow> (\<And>v. ex_keeps R (so v)) \<Longrightarrow> ex_keeps R (case x of None \<Rightarrow> n | Some v \<Rightarrow> so v)"
  "(\<And>e. ex_keeps R (le e)) \<Longrightarrow> (\<And>v. ex_keeps R (ri v)) \<Longrightarrow> ex_keeps R (case y of Inl e \<Rightarrow> le e | Inr v \<Rightarrow> ri v)"
  "(\<And>u w. ex_keeps R (pp u w)) \<Longrightarrow> ex_keeps R (case z of (u, w) \<Rightarrow> pp u w)"
  by (auto split: option.split sum.split prod.split)

lemma composes_eq: "composes (=)" and composes_conj: "composes R \<Longrightarrow> composes S \<Longrightarrow> composes (\<lambda>a b. R a b \<and> S a b)"
  by (auto simp: composes_def)

subsection \<open>Running a composition\<close>

lemma ex_bind_Ok:
  "ex_bind m f st = (Ok b, st') \<longleftrightarrow> (\<exists>a st1. m st = (Ok a, st1) \<and> f a st1 = (Ok b, st'))"
  by (auto simp: ex_bind_def split: prod.splits sum.splits)

lemma ex_simps [simp]:
  "ex_ret x st = (Ok x, st)"
  "ex_fail e st = (Err (Fail e), st)"
  "ex_pure p st = (map_err Fail p, st)"
  "ex_query q st = (map_err Fail (q (xs_store st)), st)"
  "success t st = (Ok (QR_Success t), st)"
  by (simp_all add: ex_ret_def ex_fail_def ex_pure_def ex_query_def success_def)

subsection \<open>Writing change records\<close>

definition write_cdc_payload_and_metadata ::
  "('b, 'o) exec_env \<Rightarrow> TableId \<Rightarrow> TxnId \<Rightarrow> u64 \<Rightarrow> Timestamp \<Rightarrow> 'b \<Rightarrow> ChangeActionCounts \<Rightarrow> string option \<Rightarrow> string option \<Rightarrow>
   ('o, ChangeRecordMeta) ex" where
  "write_cdc_payload_and_metadata ev table_id txn_id start_sequence commit_ts batch counts min_row_id max_row_id =
     ex_bind (ex_obj (write_payload (ev_plane ev) (mw_bucket (ev_writer ev)) table_id txn_id start_sequence batch)) (\<lambda>payload.
     ex_ret \<lparr>cr_table_id = table_id, cr_sequence = start_sequence, cr_txn_id = txn_id, cr_commit_ts = commit_ts,
             cr_payload = payload, cr_action_counts = counts, cr_min_row_id = min_row_id, cr_max_row_id = max_row_id\<rparr>)"

definition committed_mp :: "Timestamp \<Rightarrow> MicroPartitionMeta \<Rightarrow> MicroPartitionMeta" where
  "committed_mp commit_ts mp =
     mp\<lparr>mpm_s3_path := (case mpm_s3_temp_path mp of Some p \<Rightarrow> p | None \<Rightarrow> mpm_s3_path mp), mpm_s3_temp_path := None,
        mpm_commit_ts := commit_ts, mpm_active := True\<rparr>"

subsection \<open>INSERT\<close>

definition exec_insert ::
  "('b, 'o) exec_env \<Rightarrow> string \<Rightarrow> string \<Rightarrow> string \<Rightarrow> ResolvedExpr list list \<Rightarrow> ('o, QueryResult) ex" where
  "exec_insert ev db schema table vals =
     ex_bind (ex_query (find_table (ev_fx ev) db schema table)) (\<lambda>table_meta.
     ex_bind (ex_pure (values_to_batch (ev_plane ev) (ev_texts ev) table_meta vals)) (\<lambda>batch.
     ex_bind (new_id ev) (\<lambda>mp_id.
     ex_bind (ex_op (increment_table_version (tbl_id table_meta))) (\<lambda>version.
     ex_bind (ex_timed ev begin_transaction) (\<lambda>txn_id.
     ex_bind (now_micros ev) (\<lambda>commit_ts.
     ex_bind (ex_obj (mp_write (ev_plane ev) (ev_writer ev) (tbl_id table_meta) mp_id version [batch] txn_id)) (\<lambda>mp.
     ex_bind (ex_op (allocate_table_change_sequences (ev_fx ev) (tbl_id table_meta) (of_nat (length vals)))) (\<lambda>start_sequence.
     ex_bind (ex_pure (build_insert_cdc_batch (ev_plane ev) table_meta batch start_sequence txn_id commit_ts mp_id)) (\<lambda>cdc_batch.
     ex_bind (write_cdc_payload_and_metadata ev (tbl_id table_meta) txn_id start_sequence commit_ts cdc_batch
        \<lparr>cac_inserts = of_nat (length vals), cac_deletes = 0, cac_update_pairs = 0\<rparr>
        (Some (stream_row_id (tbl_id table_meta) mp_id 0 0))
        (Some (stream_row_id (tbl_id table_meta) mp_id (of_nat (length vals - 1)) 0))) (\<lambda>change_meta.
     ex_bind (ex_timed ev (\<lambda>t. commit_table_cdc (ev_fx ev) t txn_id [committed_mp commit_ts mp] [] [change_meta])) (\<lambda>_.
     success (show_nat (length vals) @ '' row(s) inserted into '' @ quoted (db @ ''.'' @ schema @ ''.'' @ table)))))))))))))"

subsection \<open>UPDATE and DELETE\<close>

text \<open>What the loops collect: new partitions, superseded pairs and change records.\<close>

record dml_acc =
  da_new_mps :: "MicroPartitionMeta list"
  da_superseded :: "(MpId \<times> MpId) list"
  da_changes :: "ChangeRecordMeta list"

text \<open>The change record of the rows of one batch.\<close>

definition update_change ::
  "('b, 'o) exec_env \<Rightarrow> TableMeta \<Rightarrow> MpId \<Rightarrow> TxnId \<Rightarrow> Timestamp \<Rightarrow> u64 list \<Rightarrow> 'b \<Rightarrow> 'b \<Rightarrow> ('o, ChangeRecordMeta) ex" where
  "update_change ev table_meta mp_id txn_id commit_ts row_ordinals old_rows new_rows =
     (let row_count = of_nat (length row_ordinals);
          row_id = (\<lambda>ord. stream_row_id (tbl_id table_meta) mp_id ord 0) in
      ex_bind (ex_op (allocate_table_change_sequences (ev_fx ev) (tbl_id table_meta) (row_count * 2))) (\<lambda>start_sequence.
      ex_bind (ex_pure (build_cdc_batch_for_rows (ev_plane ev)
         \<lparr>crs_table = table_meta, crs_source_batch = old_rows, crs_row_ordinals = row_ordinals,
          crs_start_sequence = start_sequence, crs_txn_id = txn_id, crs_commit_ts = commit_ts, crs_mp_id = mp_id,
          crs_action = CA_Delete, crs_is_update = True\<rparr>)) (\<lambda>old_cdc.
      ex_bind (ex_pure (build_cdc_batch_for_rows (ev_plane ev)
         \<lparr>crs_table = table_meta, crs_source_batch = new_rows, crs_row_ordinals = row_ordinals,
          crs_start_sequence = start_sequence + row_count, crs_txn_id = txn_id, crs_commit_ts = commit_ts, crs_mp_id = mp_id,
          crs_action = CA_Insert, crs_is_update = True\<rparr>)) (\<lambda>new_cdc.
      ex_bind (ex_pure (map_err ArrowError (ar_concat (ev_plane ev) (ar_fields (ev_plane ev) old_cdc) [old_cdc, new_cdc]))) (\<lambda>cdc_batch.
      write_cdc_payload_and_metadata ev (tbl_id table_meta) txn_id start_sequence commit_ts cdc_batch
        \<lparr>cac_inserts = row_count, cac_deletes = row_count, cac_update_pairs = row_count\<rparr>
        (map_option row_id (get_at row_ordinals 0))
        (map_option row_id (get_at row_ordinals (length row_ordinals - 1))))))))"

definition delete_change ::
  "('b, 'o) exec_env \<Rightarrow> TableMeta \<Rightarrow> MpId \<Rightarrow> TxnId \<Rightarrow> Timestamp \<Rightarrow> u64 list \<Rightarrow> 'b \<Rightarrow> ('o, ChangeRecordMeta) ex" where
  "delete_change ev table_meta mp_id txn_id commit_ts row_ordinals deleted_rows =
     (let row_count = of_nat (length row_ordinals);
          row_id = (\<lambda>ord. stream_row_id (tbl_id table_meta) mp_id ord 0) in
      ex_bind (ex_op (allocate_table_change_sequences (ev_fx ev) (tbl_id table_meta) row_count)) (\<lambda>start_sequence.
      ex_bind (ex_pure (build_cdc_batch_for_rows (ev_plane ev)
         \<lparr>crs_table = table_meta, crs_source_batch = deleted_rows, crs_row_ordinals = row_ordinals,
          crs_start_sequence = start_sequence, crs_txn_id = txn_id, crs_commit_ts = commit_ts, crs_mp_id = mp_id,
          crs_action = CA_Delete, crs_is_update = False\<rparr>)) (\<lambda>cdc_batch.
      write_cdc_payload_and_metadata ev (tbl_id table_meta) txn_id start_sequence commit_ts cdc_batch
        \<lparr>cac_inserts = 0, cac_deletes = row_count, cac_update_pairs = 0\<rparr>
        (map_option row_id (get_at row_ordinals 0))
        (map_option row_id (get_at row_ordinals (length row_ordinals - 1))))))"

text \<open>The loop over the batches of a partition: base ordinal, result batches, hits, records.\<close>

type_synonym 'b batch_acc = "nat \<times> 'b list \<times> nat \<times> ChangeRecordMeta list"

definition update_batch ::
  "('b, 'o) exec_env \<Rightarrow> TableMeta \<Rightarrow> (string \<times> ResolvedExpr) list \<Rightarrow> ResolvedFilter option \<Rightarrow> MpId \<Rightarrow> TxnId \<Rightarrow> Timestamp \<Rightarrow>
   'b \<Rightarrow> 'b batch_acc \<Rightarrow> ('o, 'b batch_acc) ex" where
  "update_batch ev table_meta assignments flt mp_id txn_id commit_ts batch acc =
     (case acc of (base, modified_batches, matched, changes) \<Rightarrow>
        ex_bind (ex_pure (batch_mask (ev_plane ev) batch flt)) (\<lambda>hits.
        let matched_indices = true_indices hits;
            row_ordinals = map (\<lambda>i. of_nat base + of_nat i) matched_indices in
        ex_bind (ex_pure (apply_update_to_batch (ev_plane ev) batch assignments flt)) (\<lambda>modified.
        ex_bind (ex_pure (select_rows_by_indices (ev_plane ev) batch matched_indices)) (\<lambda>old_rows.
        ex_bind (ex_pure (select_rows_by_indices (ev_plane ev) modified matched_indices)) (\<lambda>new_rows.
        ex_bind (case (old_rows, new_rows) of
                   (Some o_rows, Some n_rows) \<Rightarrow>
                     ex_bind (update_change ev table_meta mp_id txn_id commit_ts row_ordinals o_rows n_rows) (\<lambda>c.
                     ex_ret (matched + length matched_indices, changes @ [c]))
                 | _ \<Rightarrow> ex_ret (matched, changes)) (\<lambda>(matched', changes').
        ex_ret (base + ar_num_rows (ev_plane ev) batch, modified_batches @ [modified], matched', changes')))))))"

definition delete_batch ::
  "('b, 'o) exec_env \<Rightarrow> TableMeta \<Rightarrow> ResolvedFilter option \<Rightarrow> MpId \<Rightarrow> TxnId \<Rightarrow> Timestamp \<Rightarrow>
   'b \<Rightarrow> 'b batch_acc \<Rightarrow> ('o, 'b batch_acc) ex" where
  "delete_batch ev table_meta flt mp_id txn_id commit_ts batch acc =
     (case acc of (base, kept_batches, deleted, changes) \<Rightarrow>
        ex_bind (ex_pure (batch_mask (ev_plane ev) batch flt)) (\<lambda>hits.
        let deleted_indices = true_indices hits;
            row_ordinals = map (\<lambda>i. of_nat base + of_nat i) deleted_indices in
        ex_bind (ex_pure (select_rows_by_indices (ev_plane ev) batch deleted_indices)) (\<lambda>deleted_rows.
        ex_bind (case deleted_rows of
                   Some d_rows \<Rightarrow>
                     ex_bind (delete_change ev table_meta mp_id txn_id commit_ts row_ordinals d_rows) (\<lambda>c.
                     ex_ret (deleted + length deleted_indices, changes @ [c]))
                 | None \<Rightarrow> ex_ret (deleted, changes)) (\<lambda>(deleted', changes').
        ex_bind (ex_pure (apply_delete_to_batch (ev_plane ev) batch flt)) (\<lambda>kept.
        ex_ret (base + ar_num_rows (ev_plane ev) batch,
                if ar_num_rows (ev_plane ev) kept > 0 then kept_batches @ [kept] else kept_batches, deleted', changes'))))))"

definition read_mp :: "('b, 'o) exec_env \<Rightarrow> MicroPartitionMeta \<Rightarrow> ('o, 'b list) ex" where
  "read_mp ev mp = ex_obj (\<lambda>ob. (mp_read (ev_plane ev) (ev_reader ev) mp ob, ob))"

text \<open>Writing the partition that replaces an old one.\<close>

definition replace_mp ::
  "('b, 'o) exec_env \<Rightarrow> TableMeta \<Rightarrow> MicroPartitionMeta \<Rightarrow> 'b list \<Rightarrow> TxnId \<Rightarrow> Timestamp \<Rightarrow> ('o, MicroPartitionMeta) ex" where
  "replace_mp ev table_meta mp batches txn_id commit_ts =
     ex_bind (new_id ev) (\<lambda>new_mp_id.
     ex_bind (ex_op (increment_table_version (tbl_id table_meta))) (\<lambda>version.
     ex_bind (ex_obj (mp_write (ev_plane ev) (ev_writer ev) (tbl_id table_meta) new_mp_id version batches txn_id)) (\<lambda>new_mp.
     ex_ret ((committed_mp commit_ts new_mp)\<lparr>mpm_supersedes := Some (mpm_id mp)\<rparr>))))"

definition update_mp ::
  "('b, 'o) exec_env \<Rightarrow> TableMeta \<Rightarrow> (string \<times> ResolvedExpr) list \<Rightarrow> ResolvedFilter option \<Rightarrow> TxnId \<Rightarrow> Timestamp \<Rightarrow>
   MicroPartitionMeta \<Rightarrow> dml_acc \<Rightarrow> ('o, dml_acc) ex" where
  "update_mp ev table_meta assignments flt txn_id commit_ts mp acc =
     ex_bind (read_mp ev mp) (\<lambda>batches.
     ex_bind (ex_fold (update_batch ev table_meta assignments flt (mpm_id mp) txn_id commit_ts) batches
        (0, [], 0, da_changes acc)) (\<lambda>(base, modified_batches, matched, changes).
     if matched > 0 then
       ex_bind (replace_mp ev table_meta mp modified_batches txn_id commit_ts) (\<lambda>new_mp.
       ex_ret \<lparr>da_new_mps = da_new_mps acc @ [new_mp], da_superseded = da_superseded acc @ [(mpm_id mp, mpm_id new_mp)],
               da_changes = changes\<rparr>)
     else ex_ret (acc\<lparr>da_changes := changes\<rparr>)))"

definition delete_mp_rows ::
  "('b, 'o) exec_env \<Rightarrow> TableMeta \<Rightarrow> ResolvedFilter option \<Rightarrow> TxnId \<Rightarrow> Timestamp \<Rightarrow>
   MicroPartitionMeta \<Rightarrow> dml_acc \<Rightarrow> ('o, dml_acc) ex" where
  "delete_mp_rows ev table_meta flt txn_id commit_ts mp acc =
     ex_bind (read_mp ev mp) (\<lambda>batches.
     ex_bind (ex_fold (delete_batch ev table_meta flt (mpm_id mp) txn_id commit_ts) batches
        (0, [], 0, da_changes acc)) (\<lambda>(base, kept_batches, deleted, changes).
     if deleted > 0 then
       (if kept_batches = []
        then ex_bind (new_id ev) (\<lambda>i. ex_ret \<lparr>da_new_mps = da_new_mps acc, da_superseded = da_superseded acc @ [(mpm_id mp, i)],
                                              da_changes = changes\<rparr>)
        else ex_bind (replace_mp ev table_meta mp kept_batches txn_id commit_ts) (\<lambda>new_mp.
             ex_ret \<lparr>da_new_mps = da_new_mps acc @ [new_mp], da_superseded = da_superseded acc @ [(mpm_id mp, mpm_id new_mp)],
                     da_changes = changes\<rparr>))
     else ex_ret (acc\<lparr>da_changes := changes\<rparr>)))"

definition commit_dml :: "('b, 'o) exec_env \<Rightarrow> TxnId \<Rightarrow> dml_acc \<Rightarrow> ('o, unit) ex" where
  "commit_dml ev txn_id acc =
     ex_timed ev (\<lambda>t. commit_table_cdc (ev_fx ev) t txn_id (da_new_mps acc) (da_superseded acc) (da_changes acc))"

definition exec_update ::
  "('b, 'o) exec_env \<Rightarrow> string \<Rightarrow> string \<Rightarrow> string \<Rightarrow> (string \<times> ResolvedExpr) list \<Rightarrow> ResolvedFilter option \<Rightarrow> ('o, QueryResult) ex" where
  "exec_update ev db schema table assignments flt =
     ex_bind (ex_query (find_table (ev_fx ev) db schema table)) (\<lambda>table_meta.
     ex_bind (ex_query (get_active_mps (ev_fx ev) (tbl_id table_meta))) (\<lambda>mps.
     ex_bind (ex_timed ev begin_transaction) (\<lambda>txn_id.
     ex_bind (now_micros ev) (\<lambda>commit_ts.
     ex_bind (ex_fold (update_mp ev table_meta assignments flt txn_id commit_ts) mps
        \<lparr>da_new_mps = [], da_superseded = [], da_changes = []\<rparr>) (\<lambda>acc.
     ex_bind (commit_dml ev txn_id acc) (\<lambda>_.
     ex_ret (QR_Rows [''status''] [[''UPDATE OK'']])))))))"

definition exec_delete ::
  "('b, 'o) exec_env \<Rightarrow> string \<Rightarrow> string \<Rightarrow> string \<Rightarrow> ResolvedFilter option \<Rightarrow> ('o, QueryResult) ex" where
  "exec_delete ev db schema table flt =
     ex_bind (ex_query (find_table (ev_fx ev) db schema table)) (\<lambda>table_meta.
     ex_bind (ex_query (get_active_mps (ev_fx ev) (tbl_id table_meta))) (\<lambda>mps.
     ex_bind (ex_timed ev begin_transaction) (\<lambda>txn_id.
     ex_bind (now_micros ev) (\<lambda>commit_ts.
     ex_bind (ex_fold (delete_mp_rows ev table_meta flt txn_id commit_ts) mps
        \<lparr>da_new_mps = [], da_superseded = [], da_changes = []\<rparr>) (\<lambda>acc.
     ex_bind (commit_dml ev txn_id acc) (\<lambda>_.
     ex_ret (QR_Rows [''status''] [[''DELETE OK'']])))))))"

subsection \<open>Reading a stream\<close>

definition consumable :: "u64 \<Rightarrow> ChangeRecordMeta list \<Rightarrow> ChangeRecordMeta list" where
  "consumable published_sequence records = filter (\<lambda>record. change_end record \<le> published_sequence) records"

definition mem_error :: "df_error \<Rightarrow> NovaError" where
  "mem_error e =
     (case e of
        DfTable m \<Rightarrow> Internal (''DataFusion stream table registration failed: '' @ m)
      | DfRegister m \<Rightarrow> Internal (''DataFusion register stream failed: '' @ m)
      | DfPlan m \<Rightarrow> Internal (''DataFusion stream SQL execution failed: '' @ m)
      | DfCollect m \<Rightarrow> Internal (''DataFusion stream collect failed: '' @ m))"

definition stream_input :: "('b, 'o) exec_env \<Rightarrow> StreamMeta \<Rightarrow> TableMeta \<Rightarrow> ChangeRecordMeta list \<Rightarrow> ('o, 'b list) ex" where
  "stream_input ev sm source_table records =
     ex_bind (ex_obj (\<lambda>ob. (map_err Fail (read_stream_payload_batches (ev_plane ev) sm records ob), ob))) (\<lambda>batches.
     if batches = [] then ex_bind (ex_pure (empty_stream_batch (ev_plane ev) source_table)) (\<lambda>b. ex_ret [b])
     else ex_ret batches)"

definition advance_offset ::
  "('b, 'o) exec_env \<Rightarrow> StreamMeta \<Rightarrow> StreamOffset \<Rightarrow> u64 \<Rightarrow> ChangeRecordMeta list \<Rightarrow> ('o, unit) ex" where
  "advance_offset ev sm offset published_sequence records =
     ex_bind (now_micros ev) (\<lambda>t1. ex_bind (now_micros ev) (\<lambda>t2.
     ex_op (compare_and_set_stream_offset (str_stream_id sm) (off_committed_sequence offset)
       \<lparr>off_table_id = str_source_table_id sm, off_committed_sequence = published_sequence, off_committed_ts = t1,
        off_last_consumed_at = Some t2,
        off_last_consumed_txn_id = (if records = [] then None else Some (cr_txn_id (last records)))\<rparr>)))"

definition exec_read_stream ::
  "('b, 'o) exec_env \<Rightarrow> SecurityContext \<Rightarrow> string \<Rightarrow> string \<Rightarrow> string \<Rightarrow> StreamReadMode \<Rightarrow> string \<Rightarrow> ('o, QueryResult) ex" where
  "exec_read_stream ev security db schema stream_name read_mode raw_sql =
     ex_bind (ex_query (find_stream (ev_fx ev) db schema stream_name)) (\<lambda>sm.
     ex_bind (ex_query (authorize_stream_read (ev_fx ev) security db schema sm)) (\<lambda>source_table.
     ex_bind (ex_query (\<lambda>s. and_then (get_stream_offset (str_stream_id sm) s) (ok_or (StreamNotFound (str_name sm))))) (\<lambda>offset.
     ex_bind (ex_query (get_table_change_sequence (str_source_table_id sm))) (\<lambda>current_sequence.
     ex_bind (ex_query (get_change_records (ev_fx ev) (str_source_table_id sm) (off_committed_sequence offset) current_sequence)) (\<lambda>records.
     let published_sequence = contiguous_published_stream_sequence (off_committed_sequence offset) records;
         consumable_records = consumable published_sequence records in
     ex_bind (stream_input ev sm source_table consumable_records) (\<lambda>batches.
     ex_bind (ex_pure (map_err mem_error (ev_mem_sql ev (str_name sm) batches (remove_stream_preview_clause raw_sql)))) (\<lambda>result_batches.
     ex_bind (if read_mode = ReadCommit \<and> published_sequence > off_committed_sequence offset
              then advance_offset ev sm offset published_sequence consumable_records else ex_ret ()) (\<lambda>_.
     case batches_to_query_result (ev_plane ev) (ev_texts ev) result_batches of
       (columns, rows) \<Rightarrow> ex_ret (QR_Rows columns rows)))))))))"

definition exec_system_stream_has_data ::
  "('b, 'o) exec_env \<Rightarrow> SecurityContext \<Rightarrow> string \<Rightarrow> string \<Rightarrow> string \<Rightarrow> ('o, QueryResult) ex" where
  "exec_system_stream_has_data ev security db schema stream_name =
     ex_bind (ex_query (find_stream (ev_fx ev) db schema stream_name)) (\<lambda>sm.
     ex_bind (ex_query (authorize_stream_read (ev_fx ev) security db schema sm)) (\<lambda>_.
     ex_bind (ex_query (stream_has_data (str_stream_id sm))) (\<lambda>has_data.
     ex_ret (QR_Rows [''SYSTEM$STREAM_HAS_DATA''] [[show_bool has_data]]))))"

subsection \<open>SELECT\<close>

definition sql_error :: "df_error \<Rightarrow> NovaError" where
  "sql_error e =
     (case e of
        DfTable m \<Rightarrow> Internal (''DataFusion register table failed: '' @ m)
      | DfRegister m \<Rightarrow> Internal (''DataFusion register table failed: '' @ m)
      | DfPlan m \<Rightarrow> Internal (''DataFusion SQL execution failed: '' @ m)
      | DfCollect m \<Rightarrow> Internal (''DataFusion collect failed: '' @ m))"

text \<open>The tables of one schema that serve a joined name: the inner \<open>break\<close> ends the schemas of a database.\<close>

fun join_schemas :: "fdb \<Rightarrow> string \<Rightarrow> DatabaseId \<Rightarrow> SchemaMeta list \<Rightarrow> registration list query" where
  "join_schemas fx name db_id [] s = Ok []"
| "join_schemas fx name db_id (schema # schemas) s =
     (case list_tables fx db_id (sch_id schema) s of
        Inl _ \<Rightarrow> join_schemas fx name db_id schemas s
      | Inr tables \<Rightarrow>
          (case find (\<lambda>t. tbl_name t = name) tables of
             None \<Rightarrow> join_schemas fx name db_id schemas s
           | Some meta \<Rightarrow>
               and_then (get_active_mps fx (tbl_id meta) s) (\<lambda>join_mps.
               Ok (if join_mps = [] then [] else [(tbl_name meta, meta, join_mps)]))))"

definition join_registrations :: "fdb \<Rightarrow> string \<Rightarrow> registration list query" where
  "join_registrations fx name s =
     and_then (list_databases fx s) (\<lambda>dbs.
     and_then (collect_results (\<lambda>db. and_then (list_schemas fx (dbm_id db) s) (\<lambda>schemas. join_schemas fx name (dbm_id db) schemas s)) dbs)
       (\<lambda>rs. Ok (concat rs)))"

definition eq_ignore_ascii_case :: "string \<Rightarrow> string \<Rightarrow> bool" where
  "eq_ignore_ascii_case a b = (to_ascii_uppercase a = to_ascii_uppercase b)"

definition resolve_call ::
  "('b, 'o) exec_env \<Rightarrow> SecurityContext \<Rightarrow> FunctionMeta list \<Rightarrow> string \<times> nat \<Rightarrow> FunctionMeta list query" where
  "resolve_call ev security functions call s =
     (case filter (\<lambda>f. eq_ignore_ascii_case (fn_name f) (fst call) \<and> length (fn_args f) = snd call) functions of
        [] \<Rightarrow> Ok []
      | [function] \<Rightarrow>
          and_then (require_privilege (ev_fx ev) security (object_ref OT_Function (fn_id function)) SP_Usage s) (\<lambda>_.
          and_then (ev_create_udf ev function) (\<lambda>_. Ok [function]))
      | _ \<Rightarrow> Err (SqlAnalysisError (''ambiguous function call '' @ quoted (fst call @ ''('' @ show_nat (snd call) @ '' args)''))))"

definition register_sql_functions_for_query ::
  "('b, 'o) exec_env \<Rightarrow> SecurityContext \<Rightarrow> TableMeta \<Rightarrow> string \<Rightarrow> FunctionMeta list query" where
  "register_sql_functions_for_query ev security table_meta sql s =
     and_then (ev_function_calls ev sql) (\<lambda>calls.
     if calls = [] then Ok []
     else and_then (list_functions (ev_fx ev) (tbl_db_id table_meta) (tbl_schema_id table_meta) s) (\<lambda>functions.
          and_then (collect_results (\<lambda>call. resolve_call ev security functions call s) calls) (\<lambda>fs. Ok (concat fs))))"

definition exec_select_datafusion ::
  "('b, 'o) exec_env \<Rightarrow> SecurityContext \<Rightarrow> TableMeta \<Rightarrow> string \<Rightarrow> ('o, QueryResult) ex" where
  "exec_select_datafusion ev security table_meta sql =
     ex_bind (ex_query (get_active_mps (ev_fx ev) (tbl_id table_meta))) (\<lambda>mps.
     ex_bind (ex_query (\<lambda>s. collect_results (\<lambda>name. join_registrations (ev_fx ev) name s)
        (find_join_tables sql (tbl_name table_meta)))) (\<lambda>joins.
     ex_bind (ex_query (register_sql_functions_for_query ev security table_meta sql)) (\<lambda>functions.
     ex_bind (ex_obj (\<lambda>ob. (map_err (\<lambda>e. Fail (sql_error e))
        (ev_sql ev ((tbl_name table_meta, table_meta, mps) # concat joins) functions sql ob), ob))) (\<lambda>batches.
     case batches_to_query_result (ev_plane ev) (ev_texts ev) batches of
       (columns, rows) \<Rightarrow> ex_ret (QR_Rows columns rows)))))"

definition result_columns :: "TableMeta \<Rightarrow> string list \<Rightarrow> string list" where
  "result_columns table_meta projection = (if ''*'' \<in> set projection then map cd_name (tbl_columns table_meta) else projection)"

fun column_position :: "string \<Rightarrow> ColumnDef list \<Rightarrow> nat option" where
  "column_position n [] = None"
| "column_position n (c # cs) = (if cd_name c = n then Some 0 else map_option Suc (column_position n cs))"

definition select_rows ::
  "('b, 'o) exec_env \<Rightarrow> TableMeta \<Rightarrow> ResolvedFilter option \<Rightarrow> 'b \<Rightarrow> string list list" where
  "select_rows ev table_meta flt batch =
     map (\<lambda>i. map (\<lambda>c. array_value_to_string (ev_texts ev) c i) (ar_columns (ev_plane ev) batch))
       (filter (\<lambda>i. case flt of
            Some f \<Rightarrow>
              (case column_position (rf_column f) (tbl_columns table_meta) of
                 Some ci \<Rightarrow> row_matches_filter (ev_texts ev) (array_value_to_string (ev_texts ev) (ar_columns (ev_plane ev) batch ! ci) i)
                              (rf_op f) (rf_value f)
               | None \<Rightarrow> True)
          | None \<Rightarrow> True) [0..<ar_num_rows (ev_plane ev) batch])"

text \<open>All partitions are read before the first error is looked at.\<close>

definition read_all_mps :: "('b, 'o) exec_env \<Rightarrow> MicroPartitionMeta list \<Rightarrow> ('o, 'b list) ex" where
  "read_all_mps ev mps = ex_obj (\<lambda>ob. (and_then (collect_results (\<lambda>mp. mp_read (ev_plane ev) (ev_reader ev) mp ob) mps)
     (\<lambda>bs. Ok (concat bs)), ob))"

definition exec_select ::
  "('b, 'o) exec_env \<Rightarrow> SecurityContext \<Rightarrow> string \<Rightarrow> string \<Rightarrow> string \<Rightarrow> string list \<Rightarrow> ResolvedFilter option \<Rightarrow> Timestamp option \<Rightarrow>
   string option \<Rightarrow> ('o, QueryResult) ex" where
  "exec_select ev security db schema table projection flt at_timestamp raw_sql =
     ex_bind (ex_query (find_table (ev_fx ev) db schema table)) (\<lambda>table_meta.
     ex_bind (case at_timestamp of
                Some ts \<Rightarrow> ex_query (get_mps_at_timestamp (ev_fx ev) (tbl_id table_meta) ts)
              | None \<Rightarrow> ex_query (get_active_mps (ev_fx ev) (tbl_id table_meta))) (\<lambda>mps.
     if mps = [] then ex_ret (QR_Rows (result_columns table_meta projection) [])
     else case raw_sql of
       Some sql_text \<Rightarrow> exec_select_datafusion ev security table_meta sql_text
     | None \<Rightarrow>
         (let pruned_mps = optimize_select (tx_show_f64 (ev_texts ev)) (tx_parse_f64 (ev_texts ev)) flt mps (build_arrow_schema table_meta) in
          if pruned_mps = [] then ex_ret (QR_Rows (result_columns table_meta projection) [])
          else ex_bind (read_all_mps ev pruned_mps) (\<lambda>all_batches.
               ex_ret (QR_Rows (result_columns table_meta projection)
                 (concat (map (select_rows ev table_meta flt) all_batches)))))))"

end
