(* ===== verification/Exec_Dml.thy ===== *)
theory Exec_Dml
  imports Exec_State "HOL-Library.Multiset"
begin

text \<open>
  Correctness of INSERT, UPDATE and DELETE (\<^verbatim>\<open>exec_insert\<close>, \<^verbatim>\<open>exec_update\<close>, \<^verbatim>\<open>exec_delete\<close>).

  Everything a statement does to the metadata before its commit is bookkeeping: versions,
  identifiers, transaction records and sequence allocations. The lemmas show that a statement
  that fails at any point, by an error or a panic, leaves partitions and change log as they were,
  and what a successful statement adds.
\<close>

subsection \<open>Bookkeeping\<close>

abbreviation bookkeeping :: "category set" where
  "bookkeeping \<equiv> {C_table_version, C_next_id, C_txn, C_table_change_next_seq}"

definition only_bookkeeping :: "store \<Rightarrow> store \<Rightarrow> bool" where
  "only_bookkeeping s s' \<longleftrightarrow> (\<forall>k. fst k \<notin> bookkeeping \<longrightarrow> db_get s' k = db_get s k)"

lemma bookkeeping_composes: "composes only_bookkeeping"
  by (simp add: composes_def only_bookkeeping_def)

lemma bookkeeping_refl: "only_bookkeeping s s"
  by (simp add: only_bookkeeping_def)

lemma bookkeeping_trans: "only_bookkeeping a b \<Longrightarrow> only_bookkeeping b c \<Longrightarrow> only_bookkeeping a c"
  by (simp add: only_bookkeeping_def)

lemma bookkeeping_ops:
  "increment_table_version t s = (r, s') \<Longrightarrow> only_bookkeeping s s'"
  "begin_transaction now s = (r', s') \<Longrightarrow> only_bookkeeping s s'"
  by (auto simp: only_bookkeeping_def increment_table_version_def begin_transaction_run next_id_key_def Let_def)

lemma allocate_bookkeeping: "allocate_table_change_sequences fx t n s = (r, s') \<Longrightarrow> only_bookkeeping s s'"
  by (auto simp: only_bookkeeping_def allocate_table_change_sequences_def db_run_def and_then_Inr_iff Let_def
      split: sum.splits option.splits)

text \<open>A commit that fails has changed nothing.\<close>

lemma commit_cdc_fails: "commit_table_cdc fx now x mps sups rs s = (Err e, s') \<Longrightarrow> s' = s"
  by (auto simp: commit_table_cdc_def db_run_def split: sum.splits)

lemma keeps_store_ops:
  "ex_keeps only_bookkeeping (ex_op (increment_table_version t))"
  "ex_keeps only_bookkeeping (ex_timed ev begin_transaction)"
  "ex_keeps only_bookkeeping (ex_op (allocate_table_change_sequences fx t n))"
  by (rule ex_keeps_op, erule bookkeeping_ops, rule ex_keeps_timed [OF bookkeeping_composes], erule bookkeeping_ops,
      rule ex_keeps_op, erule allocate_bookkeeping)

lemmas keeps_bookkeeping =
  ex_keeps_bind [OF bookkeeping_composes] ex_keeps_basic [OF bookkeeping_composes] keeps_store_ops
  ex_keeps_fold [OF bookkeeping_composes]

lemma keeps_payload: "ex_keeps only_bookkeeping (write_cdc_payload_and_metadata ev t x sq c b cn lo hi)"
  unfolding write_cdc_payload_and_metadata_def by (intro keeps_bookkeeping)

lemma keeps_changes:
  "ex_keeps only_bookkeeping (update_change ev tm m x c ords a b)"
  "ex_keeps only_bookkeeping (delete_change ev tm m x c ords a)"
  unfolding update_change_def delete_change_def Let_def by (intro keeps_bookkeeping keeps_payload)+

lemma keeps_batches:
  "ex_keeps only_bookkeeping (update_batch ev tm asg flt m x c b acc)"
  "ex_keeps only_bookkeeping (delete_batch ev tm flt m x c b acc)"
  unfolding update_batch_def delete_batch_def Let_def split_def
  by (intro keeps_bookkeeping keeps_changes ex_keeps_cases)+

lemma keeps_mps:
  "ex_keeps only_bookkeeping (update_mp ev tm asg flt x c mp acc)"
  "ex_keeps only_bookkeeping (delete_mp_rows ev tm flt x c mp acc)"
  unfolding update_mp_def delete_mp_rows_def replace_mp_def read_mp_def Let_def split_def
  by (intro keeps_bookkeeping keeps_batches ex_keeps_cases)+

subsection \<open>All or nothing\<close>

text \<open>A statement that ends with a commit: preparation, commit, message.\<close>

lemma ends_with_commit:
  assumes "ex_keeps only_bookkeeping m" "ex_bind m (\<lambda>a. ex_bind (ex_timed ev (c a)) (\<lambda>_. f a)) st = (r, st')"
    and "\<And>a t s e s'. c a t s = (Err e, s') \<Longrightarrow> s' = s" "\<And>a st0. \<exists>q. f a st0 = (Ok q, st0)"
  shows "(\<exists>q a st1 t. r = Ok q \<and> m st = (Ok a, st1) \<and> only_bookkeeping (xs_store st) (xs_store st1) \<and>
           xs_objects st' = xs_objects st1 \<and> xs_tick st1 \<le> xs_tick st' \<and> c a t (xs_store st1) = (Ok (), xs_store st')) \<or>
         (\<forall>q. r \<noteq> Ok q) \<and> only_bookkeeping (xs_store st) (xs_store st')"
proof -
  obtain x st1 where m: "m st = (x, st1)" by fastforce
  note keep = ex_keepsD [OF assms(1) m]
  show ?thesis
  proof (cases x)
    case (Inl e)
    with m assms(2) have "r = Err e" "st' = st1" by (simp_all add: ex_bind_def)
    with keep show ?thesis by simp
  next
    case (Inr a)
    let ?t = "ev_clock ev (xs_tick st1)"
    obtain y s2 where c: "c a ?t (xs_store st1) = (y, s2)" by fastforce
    show ?thesis
    proof (cases y)
      case (Inl e)
      from assms(3) [OF c [unfolded Inl]] have "s2 = xs_store st1" .
      with m assms(2) Inr c Inl have "r = Err (Fail e)" "xs_store st' = xs_store st1"
        by (auto simp: ex_bind_def ex_timed_def now_micros_def ex_op_def map_err_def)
      with keep show ?thesis by simp
    next
      case y: (Inr u)
      let ?st2 = "st1\<lparr>xs_tick := xs_tick st1 + 1, xs_store := s2\<rparr>"
      obtain q where q: "f a ?st2 = (Ok q, ?st2)" using assms(4) by blast
      with m assms(2) Inr c y have "r = Ok q" "st' = ?st2"
        by (auto simp: ex_bind_def ex_timed_def now_micros_def ex_op_def map_err_def)
      with keep m Inr c y show ?thesis by auto
    qed
  qed
qed

lemma ex_bind_assoc: "ex_bind (ex_bind m f) g = ex_bind m (\<lambda>a. ex_bind (f a) g)"
  by (auto simp: ex_bind_def fun_eq_iff split: prod.split sum.split)

lemma ex_bind_ret: "ex_bind (ex_ret a) f = f a"
  by (simp add: ex_bind_def fun_eq_iff)

text \<open>The part of each statement before its commit.\<close>

definition insert_prepare ::
  "('b, 'o) exec_env \<Rightarrow> string \<Rightarrow> string \<Rightarrow> string \<Rightarrow> ResolvedExpr list list \<Rightarrow>
   ('o, TxnId \<times> MicroPartitionMeta \<times> ChangeRecordMeta) ex" where
  "insert_prepare ev db schema table vals =
     ex_bind (ex_query (find_table (ev_fx ev) db schema table)) (\<lambda>table_meta.
     ex_bind (ex_pure (values_to_batch (ev_plane ev) (ev_texts ev) table_meta vals)) (\<lambda>batch.
     ex_bind (new_id ev) (\<lambda>mp_id.
     ex_bind (ex_op (increment_table_version (tbl_id table_meta))) (\<lambda>version.
     ex_bind (ex_timed ev begin_transaction) (\<lambda>txn_id.
     ex_bind (now_micros ev) (\<lambda>commit_ts.
     ex_bind (ex_obj (mp_write (ev_plane ev) (ev_writer ev) (tbl_id table_meta) mp_id version [batch] txn_id)) (\<lambda>mp.
     ex_bind (ex_op (allocate_table_change_sequences (ev_fx ev) (tbl_id table_meta) (of_nat (length vals)))) (\<lambda>start_sequence.
     ex_bind (ex_pure (build_insert_cdc_batch (ev_plane ev) table_meta batch start_sequence txn_id commit_ts mp_id)) (\<lambda>cdc_batch.
     ex_bind (write_cdc_payload_and_metadata ev (tbl_id table_meta) txn_id start_sequence commit_ts cdc_batch
        \<lparr>cac_inserts = of_nat (length vals), cac_deletes = 0, cac_update_pairs = 0\<rparr>
        (Some (stream_row_id (tbl_id table_meta) mp_id 0 0))
        (Some (stream_row_id (tbl_id table_meta) mp_id (of_nat (length vals - 1)) 0))) (\<lambda>change_meta.
     ex_ret (txn_id, committed_mp commit_ts mp, change_meta)))))))))))"

definition rewrite_prepare ::
  "('b, 'o) exec_env \<Rightarrow> string \<Rightarrow> string \<Rightarrow> string \<Rightarrow>
   (TableMeta \<Rightarrow> TxnId \<Rightarrow> Timestamp \<Rightarrow> MicroPartitionMeta \<Rightarrow> dml_acc \<Rightarrow> ('o, dml_acc) ex) \<Rightarrow> ('o, TxnId \<times> dml_acc) ex" where
  "rewrite_prepare ev db schema table step =
     ex_bind (ex_query (find_table (ev_fx ev) db schema table)) (\<lambda>table_meta.
     ex_bind (ex_query (get_active_mps (ev_fx ev) (tbl_id table_meta))) (\<lambda>mps.
     ex_bind (ex_timed ev begin_transaction) (\<lambda>txn_id.
     ex_bind (now_micros ev) (\<lambda>commit_ts.
     ex_bind (ex_fold (step table_meta txn_id commit_ts) mps \<lparr>da_new_mps = [], da_superseded = [], da_changes = []\<rparr>) (\<lambda>acc.
     ex_ret (txn_id, acc))))))"

lemma exec_insert_split:
  "exec_insert ev db schema table vals =
     ex_bind (insert_prepare ev db schema table vals) (\<lambda>a.
     ex_bind (ex_timed ev (\<lambda>t. commit_table_cdc (ev_fx ev) t (fst a) [fst (snd a)] [] [snd (snd a)])) (\<lambda>_.
     success (show_nat (length vals) @ '' row(s) inserted into '' @ quoted (db @ ''.'' @ schema @ ''.'' @ table))))"
  unfolding exec_insert_def insert_prepare_def ex_bind_assoc ex_bind_ret fst_conv snd_conv by (rule refl)

lemma exec_rewrite_split:
  "exec_update ev db schema table asg flt =
     ex_bind (rewrite_prepare ev db schema table (\<lambda>tm. update_mp ev tm asg flt)) (\<lambda>a.
     ex_bind (ex_timed ev (\<lambda>t. commit_table_cdc (ev_fx ev) t (fst a) (da_new_mps (snd a)) (da_superseded (snd a)) (da_changes (snd a)))) (\<lambda>_.
     ex_ret (QR_Rows [''status''] [[''UPDATE OK'']])))"
  "exec_delete ev db schema table flt =
     ex_bind (rewrite_prepare ev db schema table (\<lambda>tm. delete_mp_rows ev tm flt)) (\<lambda>a.
     ex_bind (ex_timed ev (\<lambda>t. commit_table_cdc (ev_fx ev) t (fst a) (da_new_mps (snd a)) (da_superseded (snd a)) (da_changes (snd a)))) (\<lambda>_.
     ex_ret (QR_Rows [''status''] [[''DELETE OK'']])))"
  unfolding exec_update_def exec_delete_def rewrite_prepare_def commit_dml_def ex_bind_assoc ex_bind_ret fst_conv snd_conv
  by (rule refl)+

lemma keeps_prepare:
  "ex_keeps only_bookkeeping (insert_prepare ev db schema table vals)"
  "(\<And>tm x c mp acc. ex_keeps only_bookkeeping (step tm x c mp acc)) \<Longrightarrow> ex_keeps only_bookkeeping (rewrite_prepare ev db schema table step)"
  unfolding insert_prepare_def rewrite_prepare_def by (intro keeps_bookkeeping keeps_payload | assumption)+

lemma dml_fails_clean:
  assumes "\<And>q. r \<noteq> Ok q"
  shows "exec_insert ev db schema table vals st = (r, st') \<Longrightarrow> only_bookkeeping (xs_store st) (xs_store st')"
    and "exec_update ev db schema table asg flt st = (r, st') \<Longrightarrow> only_bookkeeping (xs_store st) (xs_store st')"
    and "exec_delete ev db schema table flt st = (r, st') \<Longrightarrow> only_bookkeeping (xs_store st) (xs_store st')"
proof -
  show "only_bookkeeping (xs_store st) (xs_store st')" if "exec_insert ev db schema table vals st = (r, st')"
    using ends_with_commit [OF keeps_prepare(1) that [unfolded exec_insert_split]] commit_cdc_fails assms by fastforce
  show "only_bookkeeping (xs_store st) (xs_store st')" if "exec_update ev db schema table asg flt st = (r, st')"
    using ends_with_commit [OF keeps_prepare(2) [OF keeps_mps(1)] that [unfolded exec_rewrite_split]] commit_cdc_fails assms by fastforce
  show "only_bookkeeping (xs_store st) (xs_store st')" if "exec_delete ev db schema table flt st = (r, st')"
    using ends_with_commit [OF keeps_prepare(2) [OF keeps_mps(2)] that [unfolded exec_rewrite_split]] commit_cdc_fails assms by fastforce
qed

subsection \<open>Active partitions after a commit\<close>

definition active_mps :: "store \<Rightarrow> TableId \<Rightarrow> MicroPartitionMeta set" where
  "active_mps s t = {mp \<in> indexed_mps s t. is_current mp}"

definition fresh_mp :: "store \<Rightarrow> MpId \<Rightarrow> bool" where
  "fresh_mp s m \<longleftrightarrow> db_get s (mp_key m) = None \<and> (\<forall>t. db_get s (table_mps_key t m) = None)"

lemma bookkeeping_mps:
  assumes "only_bookkeeping s s'"
  shows "indexed_mps s' t = indexed_mps s t" "active_mps s' t = active_mps s t" "fresh_mp s' m = fresh_mp s m"
    "logged s' = logged s" "published s' t = published s t"
proof -
  have get: "db_get s' (c, es) = db_get s (c, es)" if "c \<notin> bookkeeping" for c es
    using assms that unfolding only_bookkeeping_def by auto
  show i: "indexed_mps s' t = indexed_mps s t" by (simp add: indexed_mps_def get)
  show "active_mps s' t = active_mps s t" by (simp add: active_mps_def i)
  show "fresh_mp s' m = fresh_mp s m" by (simp add: fresh_mp_def get)
  show "logged s' = logged s" by (simp add: logged_def get)
  show "published s' t = published s t" by (simp add: published_def counter_def get)
qed

lemma publish_tables_frame: "publish_tables ts s = Ok s' \<Longrightarrow> fst k \<noteq> C_table_change_seq \<Longrightarrow> db_get s' k = db_get s k"
proof (induction ts s rule: publish_tables.induct)
  case (2 t ranges rest s)
  then obtain s1 where s1: "publish_table t ranges s = Ok s1" "publish_tables rest s1 = Ok s'"
    by (auto simp: and_then_Inr_iff)
  from s1(1) "2.prems"(2) have "db_get s1 k = db_get s k"
    by (auto simp: publish_table_def and_then_Inr_iff Let_def split: if_splits)
  with "2.IH" [OF s1(2) "2.prems"(2)] show ?case by simp
qed simp

lemma finish_txn_frame: "finish_txn now x s = Ok s' \<Longrightarrow> fst k \<noteq> C_txn \<Longrightarrow> db_get s' k = db_get s k"
  by (auto simp: finish_txn_def and_then_Inr_iff split: if_splits option.splits)

lemma commit_cdc_mps:
  assumes "commit_table_cdc fx now x mps sups rs s = (Ok (), s')"
  obtains s1 where "supersede_mps sups (put_mps mps s) = Ok s1"
    "\<And>k. fst k \<in> {C_mp, C_table_mps} \<Longrightarrow> db_get s' k = db_get s1 k"
proof -
  obtain s1 s2 where s1: "supersede_mps sups (put_mps mps s) = Ok s1"
    "publish_tables (table_ranges rs) (put_records rs s1) = Ok s2" "finish_txn now x s2 = Ok s'"
    using assms by (auto simp: commit_table_cdc_def db_run_def and_then_Inr_iff split: sum.splits)
  have "db_get s' k = db_get s1 k" if "fst k \<in> {C_mp, C_table_mps}" for k
  proof -
    have k: "fst k \<noteq> C_table_change_seq" "fst k \<noteq> C_txn" "fst k \<notin> {C_table_change_log, C_table_change_log_by_txn}"
      using that by auto
    show ?thesis
      using publish_tables_frame [OF s1(2) k(1)] finish_txn_frame [OF s1(3) k(2)] put_records_other [OF k(3)] by simp
  qed
  with s1(1) show ?thesis using that by blast
qed

lemma find_id_distinct: "distinct (map mpm_id mps) \<Longrightarrow> mp \<in> set mps \<Longrightarrow> find (\<lambda>x. mpm_id x = mpm_id mp) mps = Some mp"
  by (induction mps) auto

lemma find_id_absent: "find (\<lambda>x. mpm_id x = m) mps = None \<longleftrightarrow> m \<notin> mpm_id ` set mps"
  by (auto simp: find_None_iff)

lemma put_mps_record:
  assumes "distinct (map mpm_id mps)"
  shows "db_get (put_mps mps s) (mp_key m) =
     (case find (\<lambda>mp. mpm_id mp = m) mps of Some mp \<Rightarrow> Some (VMp mp) | None \<Rightarrow> db_get s (mp_key m))"
  using assms
proof (induction mps arbitrary: s)
  case (Cons mp mps)
  let ?s = "db_set (table_mps_key (mpm_table_id mp) (mpm_id mp)) (VBytes []) (db_set (mp_key (mpm_id mp)) (VMp mp) s)"
  have step: "put_mps (mp # mps) s = put_mps mps ?s" by (simp add: put_mps_def)
  show ?case
  proof (cases "mpm_id mp = m")
    case True
    with Cons.prems have "find (\<lambda>mp. mpm_id mp = m) mps = None" unfolding find_id_absent by auto
    with True Cons show ?thesis by (simp add: step)
  next
    case False
    then show ?thesis using Cons by (auto simp: step split: option.splits)
  qed
qed (simp add: put_mps_def)

lemma put_mps_index:
  "db_get (put_mps mps s) (table_mps_key t m) =
     (if \<exists>mp \<in> set mps. mpm_table_id mp = t \<and> mpm_id mp = m then Some (VBytes []) else db_get s (table_mps_key t m))"
  unfolding put_mps_def by (induction mps arbitrary: s) auto

lemma supersede_effect:
  assumes "supersede_mps sups s = Ok s1" "distinct (map fst sups)"
  shows "(\<forall>k. fst k \<noteq> C_mp \<longrightarrow> db_get s1 k = db_get s k) \<and>
    (\<forall>m. m \<notin> fst ` set sups \<longrightarrow> db_get s1 (mp_key m) = db_get s (mp_key m)) \<and>
    (\<forall>m n. (m, n) \<in> set sups \<longrightarrow> (\<exists>mp. db_get s (mp_key m) = Some (VMp mp) \<and>
       db_get s1 (mp_key m) = Some (VMp (mp\<lparr>mpm_superseded_by := Some n, mpm_active := False\<rparr>))))"
  using assms
proof (induction sups s rule: supersede_mps.induct)
  case (2 old new rest s)
  then obtain mp where mp: "db_get s (mp_key old) = Some (VMp mp)"
    "supersede_mps rest (db_set (mp_key old) (VMp (mp\<lparr>mpm_superseded_by := Some new, mpm_active := False\<rparr>)) s) = Ok s1"
    by (auto simp: and_then_Inr_iff deserialize_trx_def ok_or_Inr_iff as_iff split: option.splits)
  let ?s = "db_set (mp_key old) (VMp (mp\<lparr>mpm_superseded_by := Some new, mpm_active := False\<rparr>)) s"
  from "2.prems"(2) have d: "distinct (map fst rest)" "old \<notin> fst ` set rest" by auto
  note ih = "2.IH" [OF mp d(1)]
  have other: "db_get ?s (mp_key m) = db_get s (mp_key m)" if "m \<noteq> old" for m using that by simp
  show ?case
  proof (intro conjI allI impI)
    fix k :: key
    assume k: "fst k \<noteq> C_mp"
    then have "db_get ?s k = db_get s k" by auto
    with ih [THEN conjunct1] k show "db_get s1 k = db_get s k" by metis
  next
    fix m
    assume "m \<notin> fst ` set ((old, new) # rest)"
    then have "m \<notin> fst ` set rest" "m \<noteq> old" by auto
    with ih [THEN conjunct2, THEN conjunct1] other show "db_get s1 (mp_key m) = db_get s (mp_key m)" by simp
  next
    fix m n
    assume "(m, n) \<in> set ((old, new) # rest)"
    then consider "m = old" "n = new" | "(m, n) \<in> set rest" by auto
    then show "\<exists>mp. db_get s (mp_key m) = Some (VMp mp) \<and>
       db_get s1 (mp_key m) = Some (VMp (mp\<lparr>mpm_superseded_by := Some n, mpm_active := False\<rparr>))"
    proof cases
      case 1
      with ih [THEN conjunct2, THEN conjunct1] d(2) mp(1) show ?thesis by simp
    next
      case 2
      with d(2) have "m \<noteq> old" by force
      with ih [THEN conjunct2, THEN conjunct2] 2 other show ?thesis by metis
    qed
  qed
qed simp

lemma commit_switches_active:
  assumes c: "commit_table_cdc fx now x mps sups rs s = (Ok (), s')"
    and ids: "distinct (map mpm_id mps)" and fresh: "\<forall>mp \<in> set mps. fresh_mp s (mpm_id mp) \<and> is_current mp"
    and olds: "distinct (map fst sups)" and disj: "fst ` set sups \<inter> mpm_id ` set mps = {}"
  shows "active_mps s' u = {mp \<in> active_mps s u. mpm_id mp \<notin> fst ` set sups} \<union> {mp \<in> set mps. mpm_table_id mp = u}"
proof -
  obtain s1 where s1: "supersede_mps sups (put_mps mps s) = Ok s1"
    and same: "\<And>k. fst k \<in> {C_mp, C_table_mps} \<Longrightarrow> db_get s' k = db_get s1 k"
    by (rule commit_cdc_mps [OF c]) blast
  note eff = supersede_effect [OF s1 olds]
  have index: "db_get s' (table_mps_key u m) = db_get (put_mps mps s) (table_mps_key u m)" for m
    using eff same [of "table_mps_key u m"] by simp
  have kept: "db_get s' (mp_key m) = db_get (put_mps mps s) (mp_key m)" if "m \<notin> fst ` set sups" for m
    using eff same [of "mp_key m"] that by simp
  have "mp \<in> active_mps s' u \<longleftrightarrow>
      mp \<in> active_mps s u \<and> mpm_id mp \<notin> fst ` set sups \<or> mp \<in> set mps \<and> mpm_table_id mp = u" for mp
  proof (cases "mpm_id mp \<in> fst ` set sups")
    case True
    then obtain n where "(mpm_id mp, n) \<in> set sups" by force
    with eff have "\<exists>old. db_get s1 (mp_key (mpm_id mp)) = Some (VMp (old\<lparr>mpm_superseded_by := Some n, mpm_active := False\<rparr>))"
      by blast
    then have "mp \<notin> active_mps s' u"
      using same [of "mp_key (mpm_id mp)"] by (auto simp: active_mps_def indexed_mps_def is_current_def)
    moreover have "mp \<notin> set mps" using True disj by auto
    ultimately show ?thesis using True by simp
  next
    case False
    note kept = kept [OF this]
    show ?thesis
    proof (cases "mpm_id mp \<in> mpm_id ` set mps")
      case True
      then obtain x where x: "x \<in> set mps" "mpm_id x = mpm_id mp" by auto
      from find_id_distinct [OF ids x(1)] x(2)
      have r: "db_get s' (mp_key (mpm_id mp)) = Some (VMp x)" by (simp add: kept put_mps_record [OF ids])
      from fresh x have f: "fresh_mp s (mpm_id mp)" "is_current x" by auto
      have i: "db_get s' (table_mps_key u (mpm_id mp)) \<noteq> None \<longleftrightarrow> mpm_table_id x = u"
        using f(1) x ids unfolding index put_mps_index fresh_mp_def by (auto simp: distinct_map inj_on_def)
      have "mp \<notin> active_mps s u" using f(1) by (auto simp: active_mps_def indexed_mps_def fresh_mp_def)
      moreover have "mp \<in> active_mps s' u \<longleftrightarrow> mp = x \<and> mpm_table_id x = u"
        using r i f(2) by (auto simp: active_mps_def indexed_mps_def)
      moreover have "mp \<in> set mps \<longleftrightarrow> mp = x" using x ids by (auto simp: distinct_map inj_on_def)
      ultimately show ?thesis by auto
    next
      case new: False
      then have "find (\<lambda>x. mpm_id x = mpm_id mp) mps = None" by (simp add: find_id_absent)
      then have r: "db_get s' (mp_key (mpm_id mp)) = db_get s (mp_key (mpm_id mp))" by (simp add: kept put_mps_record [OF ids])
      from new have "\<not> (\<exists>x \<in> set mps. mpm_table_id x = u \<and> mpm_id x = mpm_id mp)" by (metis imageI)
      then have i: "db_get s' (table_mps_key u (mpm_id mp)) = db_get s (table_mps_key u (mpm_id mp))"
        unfolding index put_mps_index by (rule if_not_P)
      have "mp \<in> active_mps s' u \<longleftrightarrow> mp \<in> active_mps s u" by (simp add: active_mps_def indexed_mps_def r i)
      with False new show ?thesis by auto
    qed
  qed
  then show ?thesis by blast
qed

subsection \<open>INSERT\<close>

lemma paths_differ: "temp_path wr x m v \<noteq> cdc_payload_path (mw_bucket wr) t y a b"
  by (simp add: temp_path_def cdc_payload_path_def)

lemma new_id_Ok: "new_id ev st = (Ok i, st') \<longleftrightarrow> i = ev_ids ev (xs_tick st) \<and> st' = st\<lparr>xs_tick := xs_tick st + 1\<rparr>"
  by (auto simp: new_id_def)

lemma now_micros_Ok: "now_micros ev st = (Ok i, st') \<longleftrightarrow> i = ev_clock ev (xs_tick st) \<and> st' = st\<lparr>xs_tick := xs_tick st + 1\<rparr>"
  by (auto simp: now_micros_def)

lemma ex_op_Ok: "ex_op m st = (Ok a, st') \<longleftrightarrow> (\<exists>s'. m (xs_store st) = (Ok a, s') \<and> st' = st\<lparr>xs_store := s'\<rparr>)"
  by (auto simp: ex_op_def split: prod.splits)

lemma ex_timed_Ok:
  "ex_timed ev m st = (Ok a, st') \<longleftrightarrow>
     (\<exists>s'. m (ev_clock ev (xs_tick st)) (xs_store st) = (Ok a, s') \<and> st' = st\<lparr>xs_tick := xs_tick st + 1, xs_store := s'\<rparr>)"
  by (auto simp: ex_timed_def ex_bind_Ok now_micros_Ok ex_op_Ok)

lemma ex_obj_Ok: "ex_obj m st = (Ok a, st') \<longleftrightarrow> (\<exists>ob'. m (xs_objects st) = (Ok a, ob') \<and> st' = st\<lparr>xs_objects := ob'\<rparr>)"
  by (auto simp: ex_obj_def split: prod.splits)

lemmas ex_Ok = ex_bind_Ok new_id_Ok now_micros_Ok ex_op_Ok ex_timed_Ok ex_obj_Ok

lemma payload_put:
  assumes "write_payload pl bucket t x sq batch ob = (r, ob')"
  shows "ob' = ob \<or> (\<exists>e bytes r'. put_object pl (cdc_payload_path bucket t x sq e) bytes ob = (r', ob'))"
  using assms by (auto simp: write_payload_def Let_def split: if_splits sum.splits prod.splits)

context data_plane
begin

lemma payload_keeps_partition:
  assumes "stored (temp_path wr x m v) ob rs" "write_payload pl (mw_bucket wr) t y sq batch ob = (r, ob')"
  shows "stored (temp_path wr x m v) ob' rs"
  using payload_put [OF assms(2)] put_other [OF assms(1) _ paths_differ] assms(1) by blast

end

lemma insert_prepared:
  assumes pl: "data_plane (ev_plane ev) rows" and run: "insert_prepare ev db schema table vals st = (Ok (x, mp, ch), st')"
  shows "\<exists>tm batch. find_table (ev_fx ev) db schema table (xs_store st) = Ok tm \<and>
     values_to_batch (ev_plane ev) (ev_texts ev) tm vals = Ok batch \<and> mpm_id mp = ev_ids ev (xs_tick st) \<and>
     mpm_table_id mp = tbl_id tm \<and> is_current mp \<and>
     (\<exists>bs. mp_read (ev_plane ev) rd mp (xs_objects st') = Ok bs \<and> concat (map rows bs) = rows batch)"
proof -
  let ?wr = "ev_writer ev"
  from run obtain tm batch v x0 c mp0 ob1 sq cdc ref ob2 where
    tm: "find_table (ev_fx ev) db schema table (xs_store st) = Ok tm"
    and b: "values_to_batch (ev_plane ev) (ev_texts ev) tm vals = Ok batch"
    and w: "mp_write (ev_plane ev) ?wr (tbl_id tm) (ev_ids ev (xs_tick st)) v [batch] x0 (xs_objects st) = (Ok mp0, ob1)"
    and p: "write_payload (ev_plane ev) (mw_bucket ?wr) (tbl_id tm) x0 sq cdc ob1 = (Ok ref, ob2)"
    and mp: "mp = committed_mp c mp0" and ob: "xs_objects st' = ob2"
    by (auto simp: insert_prepare_def write_cdc_payload_and_metadata_def ex_Ok)
  note ws = data_plane.write_stored [OF pl w]
  from data_plane.payload_keeps_partition [OF pl ws(1) p]
  have st: "data_plane.stored (ev_plane ev) rows (temp_path ?wr x0 (ev_ids ev (xs_tick st)) v) ob2 (rows batch)" by simp
  have path: "(case mpm_s3_temp_path mp of Some q \<Rightarrow> q | None \<Rightarrow> mpm_s3_path mp) = temp_path ?wr x0 (ev_ids ev (xs_tick st)) v"
    by (simp add: mp committed_mp_def ws(2))
  from data_plane.read_stored [OF pl st path]
  have "\<exists>bs. mp_read (ev_plane ev) rd mp (xs_objects st') = Ok bs \<and> concat (map rows bs) = rows batch" unfolding ob by blast
  moreover have "mpm_id mp = ev_ids ev (xs_tick st)" "mpm_table_id mp = tbl_id tm" "is_current mp"
    by (simp_all add: mp committed_mp_def ws is_current_def)
  ultimately show ?thesis using tm b by blast
qed

lemma insert_adds:
  assumes pl: "data_plane (ev_plane ev) rows" and fresh: "fresh_mp (xs_store st) (ev_ids ev (xs_tick st))"
    and run: "exec_insert ev db schema table vals st = (Ok q, st')"
  shows "\<exists>tm batch mp. find_table (ev_fx ev) db schema table (xs_store st) = Ok tm \<and>
     values_to_batch (ev_plane ev) (ev_texts ev) tm vals = Ok batch \<and>
     active_mps (xs_store st') = (active_mps (xs_store st))(tbl_id tm := insert mp (active_mps (xs_store st) (tbl_id tm))) \<and>
     (\<exists>bs. mp_read (ev_plane ev) rd mp (xs_objects st') = Ok bs \<and> concat (map rows bs) = rows batch)"
proof -
  from ends_with_commit [OF keeps_prepare(1) run [unfolded exec_insert_split]] commit_cdc_fails
  obtain a st1 t where a: "insert_prepare ev db schema table vals st = (Ok a, st1)"
    "only_bookkeeping (xs_store st) (xs_store st1)" "xs_objects st' = xs_objects st1"
    "commit_table_cdc (ev_fx ev) t (fst a) [fst (snd a)] [] [snd (snd a)] (xs_store st1) = (Ok (), xs_store st')"
    by fastforce
  obtain x mp ch where x: "a = (x, mp, ch)" by (cases a)
  from insert_prepared [OF pl a(1) [unfolded x]] obtain tm batch where
    tm: "find_table (ev_fx ev) db schema table (xs_store st) = Ok tm"
    "values_to_batch (ev_plane ev) (ev_texts ev) tm vals = Ok batch"
    and mp: "mpm_id mp = ev_ids ev (xs_tick st)" "mpm_table_id mp = tbl_id tm" "is_current mp"
    and bs: "\<exists>bs. mp_read (ev_plane ev) rd mp (xs_objects st1) = Ok bs \<and> concat (map rows bs) = rows batch" by blast
  have fr: "fresh_mp (xs_store st1) (mpm_id mp)" using fresh by (simp add: bookkeeping_mps(3) [OF a(2)] mp(1))
  have "active_mps (xs_store st') u = active_mps (xs_store st) u \<union> {m \<in> {mp}. mpm_table_id m = u}" for u
    using commit_switches_active [OF a(4) [unfolded x], of u] fr mp(3) bookkeeping_mps(2) [OF a(2), of u] by simp
  then have "active_mps (xs_store st') u =
      ((active_mps (xs_store st))(tbl_id tm := insert mp (active_mps (xs_store st) (tbl_id tm)))) u" for u
    using mp(2) by auto
  then have "active_mps (xs_store st') = (active_mps (xs_store st))(tbl_id tm := insert mp (active_mps (xs_store st) (tbl_id tm)))"
    by (rule ext)
  with tm bs a(3) show ?thesis by (intro exI [of _ tm] exI [of _ batch] exI [of _ mp]) simp
qed

subsection \<open>UPDATE and DELETE: frame\<close>

text \<open>
  The objects a statement may write: change payloads and partitions with an identifier drawn
  between two readings \<open>lo\<close> and \<open>hi\<close> of the environment.
\<close>

definition spared :: "('b, 'o) exec_env \<Rightarrow> nat \<Rightarrow> nat \<Rightarrow> string \<Rightarrow> bool" where
  "spared ev lo hi p \<longleftrightarrow> (\<forall>t y a b. p \<noteq> cdc_payload_path (mw_bucket (ev_writer ev)) t y a b) \<and>
     (\<forall>x v n. lo \<le> n \<longrightarrow> n < hi \<longrightarrow> p \<noteq> temp_path (ev_writer ev) x (ev_ids ev n) v)"

definition advances :: "('b, 'o) exec_env \<Rightarrow> 'o exec_state \<Rightarrow> 'o exec_state \<Rightarrow> bool" where
  "advances ev st st' \<longleftrightarrow> xs_tick st \<le> xs_tick st' \<and>
     (\<forall>p. spared ev (xs_tick st) (xs_tick st') p \<longrightarrow>
        os_get (ev_plane ev) p (xs_objects st') = os_get (ev_plane ev) p (xs_objects st))"

lemma spared_mono: "spared ev lo hi p \<Longrightarrow> lo \<le> lo' \<Longrightarrow> hi' \<le> hi \<Longrightarrow> spared ev lo' hi' p"
  unfolding spared_def using le_trans less_le_trans by blast

lemma advances_refl: "advances ev st st"
  by (simp add: advances_def)

lemma advances_trans:
  assumes "advances ev a b" "advances ev b c"
  shows "advances ev a c"
  using assms unfolding advances_def by (metis le_refl le_trans spared_mono)

lemma advances_get: "advances ev st st' \<Longrightarrow> spared ev (xs_tick st) (xs_tick st') p \<Longrightarrow>
    os_get (ev_plane ev) p (xs_objects st') = os_get (ev_plane ev) p (xs_objects st)"
  by (simp add: advances_def)

lemma show_u64_no_dash: "CHR ''-'' \<notin> set (show_u64 w)" "CHR ''/'' \<notin> set (show_u64 w)"
  using show_nat_digits [of "CHR ''-''"] show_nat_digits [of "CHR ''/''"] by (auto simp: show_u64_def)

lemma temp_path_inj: "temp_path wr x m v = temp_path wr y k w \<Longrightarrow> m = k"
  by (simp add: temp_path_def split_at_first show_u64_no_dash show_u64_inj)

definition ex_advances :: "('b, 'o) exec_env \<Rightarrow> ('o, 'a) ex \<Rightarrow> bool" where
  "ex_advances ev m \<longleftrightarrow> (\<forall>st r st'. m st = (r, st') \<longrightarrow> advances ev st st')"

lemma ex_advancesD: "ex_advances ev m \<Longrightarrow> m st = (r, st') \<Longrightarrow> advances ev st st'"
  by (simp add: ex_advances_def)

lemma ex_advances_bind:
  assumes "ex_advances ev m" "\<And>a. ex_advances ev (f a)"
  shows "ex_advances ev (ex_bind m f)"
  unfolding ex_advances_def
proof (intro allI impI)
  fix st r st' assume run: "ex_bind m f st = (r, st')"
  obtain x st1 where m: "m st = (x, st1)" by fastforce
  note a = ex_advancesD [OF assms(1) m]
  show "advances ev st st'"
  proof (cases x)
    case (Inl e)
    then show ?thesis using run m a by (simp add: ex_bind_def)
  next
    case (Inr y)
    then have "f y st1 = (r, st')" using run m by (simp add: ex_bind_def)
    from advances_trans [OF a ex_advancesD [OF assms(2) this]] show ?thesis .
  qed
qed

lemma ex_advances_basic:
  "ex_advances ev (ex_ret x)" "ex_advances ev (ex_pure p)" "ex_advances ev (ex_query q)" "ex_advances ev (ex_op m)"
  "ex_advances ev (now_micros ev)" "ex_advances ev (new_id ev)" "ex_advances ev (ex_obj (\<lambda>ob. (g ob, ob)))"
  by (auto simp: ex_advances_def advances_def ex_obj_def ex_op_def now_micros_def new_id_def split: prod.splits)

lemma ex_advances_fold: "(\<And>x c. ex_advances ev (f x c)) \<Longrightarrow> ex_advances ev (ex_fold f xs acc)"
  by (induction xs arbitrary: acc) (auto intro: ex_advances_bind ex_advances_basic)

lemma ex_advances_cases:
  "(P \<Longrightarrow> ex_advances ev a) \<Longrightarrow> (\<not> P \<Longrightarrow> ex_advances ev b) \<Longrightarrow> ex_advances ev (if P then a else b)"
  "ex_advances ev n \<Longrightarrow> (\<And>v. ex_advances ev (so v)) \<Longrightarrow> ex_advances ev (case x of None \<Rightarrow> n | Some v \<Rightarrow> so v)"
  "(\<And>u w. ex_advances ev (pp u w)) \<Longrightarrow> ex_advances ev (case z of (u, w) \<Rightarrow> pp u w)"
  by (auto split: option.split prod.split)

lemma put_advances:
  assumes "data_plane (ev_plane ev) rows" "put_object (ev_plane ev) p bytes ob = (r, ob')" "q \<noteq> p"
  shows "os_get (ev_plane ev) q ob' = os_get (ev_plane ev) q ob"
  using assms(2,3) data_plane.put_frame [OF assms(1)] by (auto simp: put_object_def split: prod.splits)

lemma payload_advances:
  assumes "data_plane (ev_plane ev) rows"
  shows "ex_advances ev (write_cdc_payload_and_metadata ev t x sq c b cn lo hi)"
  unfolding write_cdc_payload_and_metadata_def
proof (rule ex_advances_bind)
  show "ex_advances ev (ex_obj (write_payload (ev_plane ev) (mw_bucket (ev_writer ev)) t x sq b))"
    unfolding ex_advances_def
  proof (intro allI impI)
    fix st r st'
    assume "ex_obj (write_payload (ev_plane ev) (mw_bucket (ev_writer ev)) t x sq b) st = (r, st')"
    then obtain ob' where w: "write_payload (ev_plane ev) (mw_bucket (ev_writer ev)) t x sq b (xs_objects st) = (r, ob')"
      and st': "st' = st\<lparr>xs_objects := ob'\<rparr>" by (auto simp: ex_obj_def split: prod.splits)
    from payload_put [OF w] put_advances [OF assms] show "advances ev st st'"
      by (auto simp: advances_def st' spared_def)
  qed
qed (rule ex_advances_basic)

lemma batches_advance:
  assumes "data_plane (ev_plane ev) rows"
  shows "ex_advances ev (update_batch ev tm asg flt m x c b acc)" "ex_advances ev (delete_batch ev tm flt m x c b acc)"
  unfolding update_batch_def delete_batch_def update_change_def delete_change_def Let_def split_def
  by (intro ex_advances_bind ex_advances_basic ex_advances_cases payload_advances [OF assms])+

subsection \<open>UPDATE and DELETE: one partition\<close>

abbreviation mp_path :: "MicroPartitionMeta \<Rightarrow> string" where
  "mp_path mp \<equiv> (case mpm_s3_temp_path mp of Some q \<Rightarrow> q | None \<Rightarrow> mpm_s3_path mp)"

text \<open>A partition whose object is named after its identifier.\<close>

definition placed :: "('b, 'o) exec_env \<Rightarrow> MicroPartitionMeta \<Rightarrow> bool" where
  "placed ev mp \<longleftrightarrow> (\<exists>x v. mp_path mp = temp_path (ev_writer ev) x (mpm_id mp) v)"

definition replacement :: "('b, 'o) exec_env \<Rightarrow> TableMeta \<Rightarrow> nat \<Rightarrow> nat \<Rightarrow> MicroPartitionMeta \<Rightarrow> bool" where
  "replacement ev tm lo hi mp \<longleftrightarrow>
     (\<exists>n. lo \<le> n \<and> n < hi \<and> mpm_id mp = ev_ids ev n) \<and> mpm_table_id mp = tbl_id tm \<and> is_current mp \<and> placed ev mp"

text \<open>One step of the loop over the partitions: nothing new, a removal, or a replacement with the given rows.\<close>

definition rewrite_step ::
  "('b, 'o) exec_env \<Rightarrow> ('b \<Rightarrow> 'r list) \<Rightarrow> TableMeta \<Rightarrow> 'r list \<Rightarrow> 'o exec_state \<Rightarrow> 'o exec_state \<Rightarrow>
   MicroPartitionMeta \<Rightarrow> dml_acc \<Rightarrow> dml_acc \<Rightarrow> bool" where
  "rewrite_step ev rows tm res st st' mp acc acc' \<longleftrightarrow> advances ev st st' \<and>
     (da_new_mps acc' = da_new_mps acc \<and> da_superseded acc' = da_superseded acc \<and>
        (\<exists>bs. mp_read (ev_plane ev) (ev_reader ev) mp (xs_objects st) = Ok bs \<and> concat (map rows bs) = res) \<or>
      (\<exists>i. da_new_mps acc' = da_new_mps acc \<and> da_superseded acc' = da_superseded acc @ [(mpm_id mp, i)] \<and> res = []) \<or>
      (\<exists>new. da_new_mps acc' = da_new_mps acc @ [new] \<and> da_superseded acc' = da_superseded acc @ [(mpm_id mp, mpm_id new)] \<and>
         replacement ev tm (xs_tick st) (xs_tick st') new \<and> mpm_supersedes new = Some (mpm_id mp) \<and>
         (\<exists>bs. mp_read (ev_plane ev) (ev_reader ev) new (xs_objects st') = Ok bs \<and> concat (map rows bs) = res)))"

lemma replace_mp_Ok:
  assumes pl: "data_plane (ev_plane ev) rows" and run: "replace_mp ev tm mp bs x c st = (Ok new, st')"
    and st: "xs_tick st0 \<le> xs_tick st"
  shows "advances ev st st' \<and> replacement ev tm (xs_tick st0) (xs_tick st') new \<and> mpm_supersedes new = Some (mpm_id mp) \<and>
    (\<exists>bs'. mp_read (ev_plane ev) (ev_reader ev) new (xs_objects st') = Ok bs' \<and> concat (map rows bs') = concat (map rows bs))"
proof -
  let ?wr = "ev_writer ev" and ?i = "ev_ids ev (xs_tick st)"
  from run obtain v s' mp0 ob' where
    w: "mp_write (ev_plane ev) ?wr (tbl_id tm) ?i v bs x (xs_objects st) = (Ok mp0, ob')"
    and new: "new = (committed_mp c mp0)\<lparr>mpm_supersedes := Some (mpm_id mp)\<rparr>"
    and st': "st' = st\<lparr>xs_tick := xs_tick st + 1, xs_store := s', xs_objects := ob'\<rparr>"
    by (auto simp: replace_mp_def ex_Ok)
  note ws = data_plane.write_stored [OF pl w]
  from w obtain bytes where put: "put_object (ev_plane ev) (temp_path ?wr x ?i v) bytes (xs_objects st) = (Ok (), ob')"
    by (auto simp: mp_write_def split: if_splits sum.splits prod.splits)
  have "advances ev st st'" unfolding advances_def
    using put_advances [OF pl put] by (simp add: st' spared_def)
  moreover have path: "mp_path new = temp_path ?wr x ?i v" by (simp add: new committed_mp_def ws(2))
  moreover have "replacement ev tm (xs_tick st0) (xs_tick st') new"
    unfolding replacement_def placed_def path
    using st by (auto simp: new committed_mp_def ws is_current_def st' intro!: exI [of _ "xs_tick st"])
  ultimately show ?thesis using data_plane.read_stored [OF pl ws(1) path] by (simp add: new st')
qed

text \<open>The loop over the batches of a partition.\<close>

lemma update_batches:
  assumes U: "\<And>b. b \<in> set bs \<Longrightarrow> apply_update_to_batch (ev_plane ev) b asg flt = Ok (U b)"
    and H: "\<And>b. b \<in> set bs \<Longrightarrow> batch_mask (ev_plane ev) b flt = Ok (H b)"
    and run: "ex_fold (update_batch ev tm asg flt m x c) bs (base, ms, matched, chs) st = (Ok (base', ms', matched', chs'), st')"
  shows "ms' = ms @ map U bs \<and> (matched' = 0 \<longleftrightarrow> matched = 0 \<and> (\<forall>b \<in> set bs. True \<notin> set (H b)))"
  using assms
proof (induction bs arbitrary: base ms matched chs st)
  case (Cons b bs)
  from Cons.prems(3) obtain a st1 where a: "update_batch ev tm asg flt m x c b (base, ms, matched, chs) st = (Ok a, st1)"
    and rest: "ex_fold (update_batch ev tm asg flt m x c) bs a st1 = (Ok (base', ms', matched', chs'), st')"
    by (auto simp: ex_bind_Ok)
  obtain base1 ms1 matched1 chs1 where a': "a = (base1, ms1, matched1, chs1)" by (cases a)
  have none: "true_indices (H b) = [] \<longleftrightarrow> True \<notin> set (H b)"
    using true_indices_set [of "H b"] by (auto simp: set_conv_nth simp flip: set_empty)
  have "ms1 = ms @ [U b] \<and> (matched1 = 0 \<longleftrightarrow> matched = 0 \<and> True \<notin> set (H b))"
    using a Cons.prems(1,2) [of b] none
    by (auto simp: a' update_batch_def ex_Ok Let_def select_rows_by_indices_def and_then_Inr_iff
        split: option.splits if_splits)
  with Cons.IH [OF _ _ rest [unfolded a']] Cons.prems(1,2) show ?case by auto
qed simp

definition unmatched :: "'r list \<Rightarrow> bool list \<Rightarrow> 'r list" where
  "unmatched rs hits = map fst (filter (\<lambda>(r, h). \<not> h) (zip rs hits))"

lemma unmatched_all:
  assumes "length hits = length rs" "True \<notin> set hits"
  shows "unmatched rs hits = rs"
  unfolding unmatched_def using assms by (induction hits rs rule: list_induct2) auto

lemma delete_batches:
  assumes pl: "row_plane (ev_plane ev) rows"
    and H: "\<And>b. b \<in> set bs \<Longrightarrow> batch_mask (ev_plane ev) b flt = Ok (H b)"
    and run: "ex_fold (delete_batch ev tm flt m x c) bs (base, ks, deleted, chs) st = (Ok (base', ks', deleted', chs'), st')"
  shows "concat (map rows ks') = concat (map rows ks) @ concat (map (\<lambda>b. unmatched (rows b) (H b)) bs) \<and>
     (deleted' = 0 \<longleftrightarrow> deleted = 0 \<and> (\<forall>b \<in> set bs. True \<notin> set (H b)))"
  using H run
proof (induction bs arbitrary: base ks deleted chs st)
  case (Cons b bs)
  from Cons.prems(2) obtain a st1 where a: "delete_batch ev tm flt m x c b (base, ks, deleted, chs) st = (Ok a, st1)"
    and rest: "ex_fold (delete_batch ev tm flt m x c) bs a st1 = (Ok (base', ks', deleted', chs'), st')"
    by (auto simp: ex_bind_Ok)
  obtain base1 ks1 deleted1 chs1 where a': "a = (base1, ks1, deleted1, chs1)" by (cases a)
  have none: "true_indices (H b) = [] \<longleftrightarrow> True \<notin> set (H b)"
    using true_indices_set [of "H b"] by (auto simp: set_conv_nth simp flip: set_empty)
  have d: "deleted1 = 0 \<longleftrightarrow> deleted = 0 \<and> True \<notin> set (H b)"
    using a Cons.prems(1) [of b] none
    by (auto simp: a' delete_batch_def ex_Ok Let_def select_rows_by_indices_def and_then_Inr_iff split: option.splits if_splits)
  from a Cons.prems(1) [of b] obtain kept where kept: "apply_delete_to_batch (ev_plane ev) b flt = Ok kept"
    "ks1 = (if ar_num_rows (ev_plane ev) kept > 0 then ks @ [kept] else ks)"
    by (auto simp: a' delete_batch_def ex_Ok Let_def split: option.splits)
  have "rows kept = unmatched (rows b) (H b)"
    unfolding unmatched_def by (rule row_plane.delete_rows [OF pl kept(1)]) (simp add: Cons.prems(1))
  then have "concat (map rows ks1) = concat (map rows ks) @ unmatched (rows b) (H b)"
    using kept(2) data_plane.num_rows [OF row_plane.axioms(1) [OF pl], of kept] by auto
  with d Cons.IH [OF _ rest [unfolded a']] Cons.prems(1) show ?case by auto
qed simp

text \<open>What a partition holds after the statement, given its batches and their masks.\<close>

definition updated_rows :: "('b \<Rightarrow> 'r list) \<Rightarrow> ('b \<Rightarrow> 'b) \<Rightarrow> ('b \<Rightarrow> bool list) \<Rightarrow> 'b list \<Rightarrow> 'r list" where
  "updated_rows rows U H bs =
     concat (map rows (if \<exists>b \<in> set bs. True \<in> set (H b) then map U bs else bs))"

definition remaining_rows :: "('b \<Rightarrow> 'r list) \<Rightarrow> ('b \<Rightarrow> bool list) \<Rightarrow> 'b list \<Rightarrow> 'r list" where
  "remaining_rows rows H bs = concat (map (\<lambda>b. unmatched (rows b) (H b)) bs)"

lemma read_mp_Ok: "read_mp ev mp st = (Ok bs, st') \<longleftrightarrow> mp_read (ev_plane ev) (ev_reader ev) mp (xs_objects st) = Ok bs \<and> st' = st"
  by (auto simp: read_mp_def ex_obj_def)

lemma update_mp_step:
  assumes pl: "data_plane (ev_plane ev) rows"
    and bs: "mp_read (ev_plane ev) (ev_reader ev) mp (xs_objects st) = Ok bs"
    and U: "\<And>b. b \<in> set bs \<Longrightarrow> apply_update_to_batch (ev_plane ev) b asg flt = Ok (U b)"
    and H: "\<And>b. b \<in> set bs \<Longrightarrow> batch_mask (ev_plane ev) b flt = Ok (H b)"
    and run: "update_mp ev tm asg flt x c mp acc st = (Ok acc', st')"
  shows "rewrite_step ev rows tm (updated_rows rows U H bs) st st' mp acc acc'"
proof -
  from run bs obtain base ms matched chs st1 where
    f: "ex_fold (update_batch ev tm asg flt (mpm_id mp) x c) bs (0, [], 0, da_changes acc) st = (Ok (base, ms, matched, chs), st1)"
    and k: "(if matched > 0 then
       ex_bind (replace_mp ev tm mp ms x c) (\<lambda>new_mp.
       ex_ret \<lparr>da_new_mps = da_new_mps acc @ [new_mp], da_superseded = da_superseded acc @ [(mpm_id mp, mpm_id new_mp)],
               da_changes = chs\<rparr>)
      else ex_ret (acc\<lparr>da_changes := chs\<rparr>)) st1 = (Ok acc', st')"
    by (auto simp: update_mp_def ex_bind_Ok read_mp_Ok)
  note a = ex_advancesD [OF ex_advances_fold [OF batches_advance(1) [OF pl]] f]
  from update_batches [OF U H f] have ms: "ms = map U bs" "matched = 0 \<longleftrightarrow> (\<forall>b \<in> set bs. True \<notin> set (H b))" by auto
  show ?thesis
  proof (cases "matched > 0")
    case True
    with k obtain new where n: "replace_mp ev tm mp ms x c st1 = (Ok new, st')"
      "acc' = \<lparr>da_new_mps = da_new_mps acc @ [new], da_superseded = da_superseded acc @ [(mpm_id mp, mpm_id new)], da_changes = chs\<rparr>"
      by (auto simp: ex_bind_Ok)
    have "updated_rows rows U H bs = concat (map rows ms)" using True ms by (auto simp: updated_rows_def)
    with replace_mp_Ok [OF pl n(1), of st] a n(2) show ?thesis
      unfolding rewrite_step_def by (auto simp: advances_def [of ev st st1] intro: advances_trans [OF a])
  next
    case False
    with k have "acc' = acc\<lparr>da_changes := chs\<rparr>" "st' = st1" by auto
    moreover have "updated_rows rows U H bs = concat (map rows bs)" using False ms by (auto simp: updated_rows_def)
    ultimately show ?thesis unfolding rewrite_step_def using a bs by auto
  qed
qed

lemma delete_mp_step:
  assumes pl: "row_plane (ev_plane ev) rows"
    and bs: "mp_read (ev_plane ev) (ev_reader ev) mp (xs_objects st) = Ok bs"
    and H: "\<And>b. b \<in> set bs \<Longrightarrow> batch_mask (ev_plane ev) b flt = Ok (H b)"
    and run: "delete_mp_rows ev tm flt x c mp acc st = (Ok acc', st')"
  shows "rewrite_step ev rows tm (remaining_rows rows H bs) st st' mp acc acc'"
proof -
  note dp = row_plane.axioms(1) [OF pl]
  from run bs obtain base ks deleted chs st1 where
    f: "ex_fold (delete_batch ev tm flt (mpm_id mp) x c) bs (0, [], 0, da_changes acc) st = (Ok (base, ks, deleted, chs), st1)"
    and k: "(if deleted > 0 then
       (if ks = []
        then ex_bind (new_id ev) (\<lambda>i. ex_ret \<lparr>da_new_mps = da_new_mps acc, da_superseded = da_superseded acc @ [(mpm_id mp, i)],
                                              da_changes = chs\<rparr>)
        else ex_bind (replace_mp ev tm mp ks x c) (\<lambda>new_mp.
             ex_ret \<lparr>da_new_mps = da_new_mps acc @ [new_mp], da_superseded = da_superseded acc @ [(mpm_id mp, mpm_id new_mp)],
                     da_changes = chs\<rparr>))
      else ex_ret (acc\<lparr>da_changes := chs\<rparr>)) st1 = (Ok acc', st')"
    by (auto simp: delete_mp_rows_def ex_bind_Ok read_mp_Ok)
  note a = ex_advancesD [OF ex_advances_fold [OF batches_advance(2) [OF dp]] f]
  from delete_batches [OF pl H f] have ks: "concat (map rows ks) = remaining_rows rows H bs"
    "deleted = 0 \<longleftrightarrow> (\<forall>b \<in> set bs. True \<notin> set (H b))" by (auto simp: remaining_rows_def)
  consider (none) "deleted = 0" | (all) "deleted > 0" "ks = []" | (some) "deleted > 0" "ks \<noteq> []" by blast
  then show ?thesis
  proof cases
    case none
    have "unmatched (rows b) (H b) = rows b" if "b \<in> set bs" for b
      using that none ks(2) by (intro unmatched_all row_plane.mask_length [OF pl H]) simp_all
    then have "remaining_rows rows H bs = concat (map rows bs)" by (simp add: remaining_rows_def cong: map_cong)
    then show ?thesis unfolding rewrite_step_def using a bs k none by auto
  next
    case all
    with k have "acc' = \<lparr>da_new_mps = da_new_mps acc, da_superseded = da_superseded acc @ [(mpm_id mp, ev_ids ev (xs_tick st1))],
        da_changes = chs\<rparr>" "st' = st1\<lparr>xs_tick := xs_tick st1 + 1\<rparr>" by (auto simp: ex_Ok)
    moreover have "advances ev st1 (st1\<lparr>xs_tick := xs_tick st1 + 1\<rparr>)" by (simp add: advances_def)
    ultimately show ?thesis unfolding rewrite_step_def using advances_trans [OF a] all ks by auto
  next
    case some
    with k obtain new where n: "replace_mp ev tm mp ks x c st1 = (Ok new, st')"
      "acc' = \<lparr>da_new_mps = da_new_mps acc @ [new], da_superseded = da_superseded acc @ [(mpm_id mp, mpm_id new)], da_changes = chs\<rparr>"
      by (auto simp: ex_bind_Ok)
    from replace_mp_Ok [OF dp n(1), of st] a n(2) ks(1) show ?thesis
      unfolding rewrite_step_def by (auto simp: advances_def [of ev st st1] intro: advances_trans [OF a])
  qed
qed

subsection \<open>The clock\<close>

definition ticks :: "('o, 'a) ex \<Rightarrow> bool" where
  "ticks m \<longleftrightarrow> (\<forall>st r st'. m st = (r, st') \<longrightarrow> xs_tick st \<le> xs_tick st')"

lemma ticksD: "ticks m \<Longrightarrow> m st = (r, st') \<Longrightarrow> xs_tick st \<le> xs_tick st'"
  by (simp add: ticks_def)

lemma ticks_bind: "ticks m \<Longrightarrow> (\<And>a. ticks (f a)) \<Longrightarrow> ticks (ex_bind m f)"
  unfolding ticks_def ex_bind_def by (auto split: prod.splits sum.splits) (meson le_trans)

lemma ticks_basic:
  "ticks (ex_ret x)" "ticks (ex_pure p)" "ticks (ex_query q)" "ticks (ex_obj ob)" "ticks (ex_op m)" "ticks (now_micros ev)"
  "ticks (new_id ev)"
  by (auto simp: ticks_def ex_obj_def ex_op_def now_micros_def new_id_def split: prod.splits)

lemma ticks_fold: "(\<And>x c. ticks (f x c)) \<Longrightarrow> ticks (ex_fold f xs acc)"
  by (induction xs arbitrary: acc) (auto intro: ticks_bind ticks_basic)

lemma ticks_cases:
  "(P \<Longrightarrow> ticks a) \<Longrightarrow> (\<not> P \<Longrightarrow> ticks b) \<Longrightarrow> ticks (if P then a else b)"
  "ticks n \<Longrightarrow> (\<And>v. ticks (so v)) \<Longrightarrow> ticks (case x of None \<Rightarrow> n | Some v \<Rightarrow> so v)"
  "(\<And>u w. ticks (pp u w)) \<Longrightarrow> ticks (case z of (u, w) \<Rightarrow> pp u w)"
  by (auto split: option.split prod.split)

lemma ticks_batches: "ticks (update_batch ev tm asg flt m x c b acc)" "ticks (delete_batch ev tm flt m x c b acc)"
  unfolding update_batch_def delete_batch_def update_change_def delete_change_def write_cdc_payload_and_metadata_def Let_def split_def
  by (intro ticks_bind ticks_basic ticks_cases)+

lemma ticks_mps: "ticks (update_mp ev tm asg flt x c mp acc)" "ticks (delete_mp_rows ev tm flt x c mp acc)"
  unfolding update_mp_def delete_mp_rows_def replace_mp_def read_mp_def split_def
  by (intro ticks_bind ticks_basic ticks_cases ticks_fold ticks_batches)+

subsection \<open>UPDATE and DELETE: all partitions\<close>

abbreviation holds :: "('b, 'o) exec_env \<Rightarrow> ('b \<Rightarrow> 'r list) \<Rightarrow> 'o \<Rightarrow> MicroPartitionMeta \<Rightarrow> 'r list \<Rightarrow> bool" where
  "holds ev rows ob mp rs \<equiv> (\<exists>bs. mp_read (ev_plane ev) (ev_reader ev) mp ob = Ok bs \<and> concat (map rows bs) = rs)"

lemma read_frame:
  assumes "advances ev st st'" "spared ev (xs_tick st) (xs_tick st') (mp_path mp)"
  shows "mp_read (ev_plane ev) rd mp (xs_objects st') = mp_read (ev_plane ev) rd mp (xs_objects st)"
  using advances_get [OF assms] by (simp add: mp_read_def)

lemma spared_placed:
  assumes "placed ev mp" "\<And>n. lo \<le> n \<Longrightarrow> n < hi \<Longrightarrow> mpm_id mp \<noteq> ev_ids ev n"
  shows "spared ev lo hi (mp_path mp)"
  using assms paths_differ unfolding spared_def placed_def by (metis temp_path_inj)

definition rewritten ::
  "('b, 'o) exec_env \<Rightarrow> ('b \<Rightarrow> 'r list) \<Rightarrow> TableMeta \<Rightarrow> (MicroPartitionMeta \<Rightarrow> 'r list) \<Rightarrow> 'o exec_state \<Rightarrow> 'o exec_state \<Rightarrow>
   MicroPartitionMeta list \<Rightarrow> MicroPartitionMeta list \<Rightarrow> (MpId \<times> MpId) list \<Rightarrow> bool" where
  "rewritten ev rows tm res st st' mps news sups \<longleftrightarrow> advances ev st st' \<and> distinct (map mpm_id news) \<and> distinct (map fst sups) \<and>
     fst ` set sups \<subseteq> mpm_id ` set mps \<and>
     (\<forall>new \<in> set news. replacement ev tm (xs_tick st) (xs_tick st') new) \<and>
     (\<forall>mp \<in> set mps. mpm_id mp \<notin> fst ` set sups \<longrightarrow> holds ev rows (xs_objects st') mp (res mp)) \<and>
     (\<exists>D. (\<forall>new \<in> set news. holds ev rows (xs_objects st') new (D new)) \<and>
        (\<Sum>new\<leftarrow>news. mset (D new)) = (\<Sum>mp\<leftarrow>filter (\<lambda>mp. mpm_id mp \<in> fst ` set sups) mps. mset (res mp)))"

lemma replacement_mono: "replacement ev tm lo hi x \<Longrightarrow> lo' \<le> lo \<Longrightarrow> hi \<le> hi' \<Longrightarrow> replacement ev tm lo' hi' x"
  unfolding replacement_def using le_trans less_le_trans by blast

lemma rewritten_Cons:
  assumes step: "rewrite_step ev rows tm (res mp) st st1 mp acc acc1"
    and rest: "rewritten ev rows tm res st1 st' mps news sups"
    and acc: "da_new_mps acc' = da_new_mps acc1 @ news" "da_superseded acc' = da_superseded acc1 @ sups"
    and mp: "mpm_id mp \<notin> mpm_id ` set mps" "placed ev mp" "mpm_id mp \<notin> ev_ids ev ` {lo..<hi}"
    and ids: "inj_on (ev_ids ev) {lo..<hi}" "lo \<le> xs_tick st" "xs_tick st' \<le> hi"
  shows "\<exists>news' sups'. da_new_mps acc' = da_new_mps acc @ news' \<and> da_superseded acc' = da_superseded acc @ sups' \<and>
     rewritten ev rows tm res st st' (mp # mps) news' sups'"
proof -
  from step have a: "advances ev st st1" by (simp add: rewrite_step_def)
  note r = rest [unfolded rewritten_def]
  from r have a1: "advances ev st1 st'" and ds: "distinct (map fst sups)" "distinct (map mpm_id news)"
    and sub: "fst ` set sups \<subseteq> mpm_id ` set mps" by simp_all
  from a a1 have t: "xs_tick st \<le> xs_tick st1" "xs_tick st1 \<le> xs_tick st'" by (simp_all add: advances_def)
  from r obtain D where D: "\<forall>new \<in> set news. holds ev rows (xs_objects st') new (D new)"
    "(\<Sum>new\<leftarrow>news. mset (D new)) = (\<Sum>mp\<leftarrow>filter (\<lambda>mp. mpm_id mp \<in> fst ` set sups) mps. mset (res mp))" by blast
  from sub mp(1) have old: "mpm_id mp \<notin> fst ` set sups" by blast
  have rep: "\<forall>new \<in> set news. replacement ev tm (xs_tick st) (xs_tick st') new"
    using r replacement_mono [OF _ t(1) le_refl] by blast
  have stay: "\<forall>m \<in> set mps. mpm_id m \<notin> fst ` set sups \<longrightarrow> holds ev rows (xs_objects st') m (res m)" using r by simp
  have others: "filter (\<lambda>m. mpm_id m = mpm_id mp \<or> mpm_id m \<in> fst ` set sups) mps = filter (\<lambda>m. mpm_id m \<in> fst ` set sups) mps"
    by (rule filter_cong [OF refl]) (use mp(1) in \<open>metis imageI\<close>)
  have frame: "mp_read (ev_plane ev) rd mp (xs_objects st') = mp_read (ev_plane ev) rd mp (xs_objects st)" for rd
    using mp(3) ids(2,3) by (intro read_frame [OF advances_trans [OF a a1]] spared_placed [OF mp(2)]) auto
  note adv = advances_trans [OF a a1]
  from step consider
    (same) "da_new_mps acc1 = da_new_mps acc" "da_superseded acc1 = da_superseded acc" "holds ev rows (xs_objects st) mp (res mp)"
    | (gone) i where "da_new_mps acc1 = da_new_mps acc" "da_superseded acc1 = da_superseded acc @ [(mpm_id mp, i)]" "res mp = []"
    | (new) new where "da_new_mps acc1 = da_new_mps acc @ [new]" "da_superseded acc1 = da_superseded acc @ [(mpm_id mp, mpm_id new)]"
      "replacement ev tm (xs_tick st) (xs_tick st1) new" "holds ev rows (xs_objects st1) new (res mp)"
    unfolding rewrite_step_def by blast
  then show ?thesis
  proof cases
    case same
    have "rewritten ev rows tm res st st' (mp # mps) news sups"
      unfolding rewritten_def
      using adv ds sub rep stay same(3) frame old by (auto intro!: exI [of _ D] simp: D)
    with acc same show ?thesis by auto
  next
    case gone
    have "rewritten ev rows tm res st st' (mp # mps) news ((mpm_id mp, i) # sups)"
      unfolding rewritten_def
      using adv ds sub rep stay gone(3) old others by (auto intro!: exI [of _ D] simp: D)
    with acc gone show ?thesis by auto
  next
    case new
    from new(3) obtain k where k: "k \<in> {xs_tick st..<xs_tick st1}" "mpm_id new = ev_ids ev k" "placed ev new" unfolding replacement_def by auto
    have later: "ev_ids ev n \<noteq> mpm_id new" if "xs_tick st1 \<le> n" "n < xs_tick st'" for n
      using that k(1) t ids(2,3) inj_onD [OF ids(1), of n k] unfolding k(2) by auto
    have fresh: "mpm_id x \<noteq> mpm_id new" if "x \<in> set news" for x
      using r that later unfolding replacement_def by metis
    then have fresh_id: "mpm_id new \<notin> mpm_id ` set news" by (metis imageE)
    have hn: "holds ev rows (xs_objects st') new (res mp)"
      using new(4) by (subst read_frame [OF a1 spared_placed [OF k(3)]]) (use later in \<open>auto simp: eq_commute\<close>)
    let ?D = "\<lambda>x. if x = new then res mp else D x"
    have same_D: "(\<Sum>x\<leftarrow>news. mset (?D x)) = (\<Sum>x\<leftarrow>news. mset (D x))"
      by (rule arg_cong [of _ _ sum_list], rule map_cong) (use fresh in auto)
    have "rewritten ev rows tm res st st' (mp # mps) (new # news) ((mpm_id mp, mpm_id new) # sups)"
      unfolding rewritten_def
    proof (intro conjI)
      show "\<exists>D. (\<forall>x \<in> set (new # news). holds ev rows (xs_objects st') x (D x)) \<and>
          (\<Sum>x\<leftarrow>new # news. mset (D x)) =
          (\<Sum>m\<leftarrow>filter (\<lambda>m. mpm_id m \<in> fst ` set ((mpm_id mp, mpm_id new) # sups)) (mp # mps). mset (res m))"
        by (rule exI [of _ ?D]) (use D fresh hn others same_D in auto)
    qed (use adv ds sub rep stay old fresh_id replacement_mono [OF new(3) le_refl t(2)] in auto)
    with acc new show ?thesis by auto
  qed
qed

lemma rewrite_loop:
  assumes step: "\<And>mp acc st acc' st'. mp \<in> set mps \<Longrightarrow> mp_read (ev_plane ev) (ev_reader ev) mp (xs_objects st) = Ok (B mp) \<Longrightarrow>
      f mp acc st = (Ok acc', st') \<Longrightarrow> rewrite_step ev rows tm (res mp) st st' mp acc acc'"
    and clock: "\<And>mp acc. ticks (f mp acc)"
    and ids: "inj_on (ev_ids ev) {lo..<hi}" "xs_tick st' \<le> hi"
    and mps: "distinct (map mpm_id mps)" "\<forall>mp \<in> set mps. placed ev mp \<and> mpm_id mp \<notin> ev_ids ev ` {lo..<hi}"
    and lo: "lo \<le> xs_tick st"
    and B: "\<forall>mp \<in> set mps. mp_read (ev_plane ev) (ev_reader ev) mp (xs_objects st) = Ok (B mp)"
    and run: "ex_fold f mps acc st = (Ok acc', st')"
  shows "\<exists>news sups. da_new_mps acc' = da_new_mps acc @ news \<and> da_superseded acc' = da_superseded acc @ sups \<and>
      rewritten ev rows tm res st st' mps news sups"
  using step mps lo B run
proof (induction mps arbitrary: acc st)
  case Nil
  then show ?case by (simp add: rewritten_def advances_refl)
next
  case (Cons mp mps)
  from Cons.prems(6) obtain acc1 st1 where s: "f mp acc st = (Ok acc1, st1)" "ex_fold f mps acc1 st1 = (Ok acc', st')"
    by (auto simp: ex_bind_Ok)
  have step1: "rewrite_step ev rows tm (res mp) st st1 mp acc acc1" by (rule Cons.prems(1) [OF _ _ s(1)]) (use Cons.prems(5) in auto)
  then have a: "advances ev st st1" by (simp add: rewrite_step_def)
  then have t: "xs_tick st \<le> xs_tick st1" by (simp add: advances_def)
  have below: "xs_tick st1 \<le> hi" using ticksD [OF ticks_fold [OF clock] s(2)] ids(2) by simp
  have B1: "\<forall>m \<in> set mps. mp_read (ev_plane ev) (ev_reader ev) m (xs_objects st1) = Ok (B m)"
  proof
    fix m
    assume m: "m \<in> set mps"
    with Cons.prems(3,4) below have "spared ev (xs_tick st) (xs_tick st1) (mp_path m)" by (intro spared_placed) auto
    from read_frame [OF a this] m Cons.prems(5) show "mp_read (ev_plane ev) (ev_reader ev) m (xs_objects st1) = Ok (B m)" by simp
  qed
  have "\<exists>news sups. da_new_mps acc' = da_new_mps acc1 @ news \<and> da_superseded acc' = da_superseded acc1 @ sups \<and>
      rewritten ev rows tm res st1 st' mps news sups"
    by (rule Cons.IH [OF Cons.prems(1) _ _ _ B1 s(2)]) (use Cons.prems(2,3,4) t in auto)
  then obtain news sups where ih: "rewritten ev rows tm res st1 st' mps news sups" "da_new_mps acc' = da_new_mps acc1 @ news"
    "da_superseded acc' = da_superseded acc1 @ sups" by blast
  show ?case by (rule rewritten_Cons [OF step1 ih]) (use Cons.prems(2,3,4) ids in auto)
qed

lemma sum_list_set: "distinct xs \<Longrightarrow> (\<Sum>x\<leftarrow>xs. f x) = (\<Sum>x\<in>set xs. f x)"
  by (rule sum_list_distinct_conv_sum_set)

lemma rewrite_rows:
  assumes fx: "fdb_client (ev_fx ev) cap" "store_wf (xs_store st)" "db_size (xs_store st) \<le> cap"
    and ids: "inj_on (ev_ids ev) {xs_tick st..<xs_tick st'}"
      "\<forall>n \<in> {xs_tick st..<xs_tick st'}. fresh_mp (xs_store st) (ev_ids ev n)"
    and tm: "find_table (ev_fx ev) db schema table (xs_store st) = Ok tm" "(ucast (tbl_id tm) :: byte) \<noteq> 255"
    and act: "\<forall>mp \<in> active_mps (xs_store st) (tbl_id tm). placed ev mp \<and>
       mp_read (ev_plane ev) (ev_reader ev) mp (xs_objects st) = Ok (B mp)"
    and step: "\<And>x c mp acc st0 acc' st'. mp \<in> active_mps (xs_store st) (tbl_id tm) \<Longrightarrow>
       mp_read (ev_plane ev) (ev_reader ev) mp (xs_objects st0) = Ok (B mp) \<Longrightarrow>
       f tm x c mp acc st0 = (Ok acc', st') \<Longrightarrow> rewrite_step ev rows tm (res (B mp)) st0 st' mp acc acc'"
    and keeps: "\<And>tm x c mp acc. ex_keeps only_bookkeeping (f tm x c mp acc)" and clock: "\<And>tm x c mp acc. ticks (f tm x c mp acc)"
    and run: "ex_bind (rewrite_prepare ev db schema table f) (\<lambda>a.
      ex_bind (ex_timed ev (\<lambda>t. commit_table_cdc (ev_fx ev) t (fst a) (da_new_mps (snd a)) (da_superseded (snd a)) (da_changes (snd a)))) (\<lambda>_.
      ex_ret msg)) st = (Ok q, st')"
  shows "\<exists>D. (\<forall>mp \<in> active_mps (xs_store st') (tbl_id tm). holds ev rows (xs_objects st') mp (D mp)) \<and>
     (\<Sum>mp \<in> active_mps (xs_store st') (tbl_id tm). mset (D mp)) =
     (\<Sum>mp \<in> active_mps (xs_store st) (tbl_id tm). mset (res (B mp)))"
proof -
  from ends_with_commit [OF keeps_prepare(2) [OF keeps] run] commit_cdc_fails
  obtain x acc st1 t where a: "rewrite_prepare ev db schema table f st = (Ok (x, acc), st1)"
    "only_bookkeeping (xs_store st) (xs_store st1)" "xs_objects st' = xs_objects st1" and t1: "xs_tick st1 \<le> xs_tick st'" and
    a4: "commit_table_cdc (ev_fx ev) t x (da_new_mps acc) (da_superseded acc) (da_changes acc) (xs_store st1) = (Ok (), xs_store st')"
    by fastforce
  let ?A = "active_mps (xs_store st) (tbl_id tm)"
  obtain mps where mps: "get_active_mps (ev_fx ev) (tbl_id tm) (xs_store st) = Ok mps" "set mps = ?A" "distinct (map mpm_id mps)"
    using fdb_client.active_set [OF fx tm(2)] by (auto simp: active_mps_def)
  from a(1) tm(1) mps(1) obtain c st2 where
    fold: "ex_fold (f tm x c) mps \<lparr>da_new_mps = [], da_superseded = [], da_changes = []\<rparr> st2 = (Ok acc, st1)"
    and ob2: "xs_objects st2 = xs_objects st" and t2: "xs_tick st \<le> xs_tick st2" by (auto simp: rewrite_prepare_def ex_Ok)
  have stored: "db_get (xs_store st) (mp_key (mpm_id mp)) = Some (VMp mp)" if "mp \<in> ?A" for mp
    using that by (simp add: active_mps_def indexed_mps_def)
  have pl: "\<forall>mp \<in> set mps. placed ev mp \<and> mpm_id mp \<notin> ev_ids ev ` {xs_tick st..<xs_tick st'}"
    using act stored ids(2) unfolding mps(2) fresh_mp_def by fastforce
  have "\<exists>news sups. da_new_mps acc = [] @ news \<and> da_superseded acc = [] @ sups \<and>
      rewritten ev rows tm (\<lambda>mp. res (B mp)) st2 st1 mps news sups"
    using rewrite_loop [where f = "f tm x c" and B = B and res = "\<lambda>mp. res (B mp)", OF _ clock ids(1) t1 mps(3) pl t2 _ fold] step act
    by (simp add: ob2 mps(2))
  then have r: "rewritten ev rows tm (\<lambda>mp. res (B mp)) st2 st1 mps (da_new_mps acc) (da_superseded acc)" by simp
  note r' = r [unfolded rewritten_def]
  let ?news = "da_new_mps acc" and ?olds = "fst ` set (da_superseded acc)"
  have new_fresh: "fresh_mp (xs_store st1) (mpm_id new) \<and> is_current new \<and> mpm_table_id new = tbl_id tm" if "new \<in> set ?news" for new
  proof -
    from r' that obtain n where n: "xs_tick st2 \<le> n" "n < xs_tick st1" "mpm_id new = ev_ids ev n" "is_current new" "mpm_table_id new = tbl_id tm"
      unfolding replacement_def by blast
    with ids(2) t1 t2 show ?thesis unfolding bookkeeping_mps(3) [OF a(2)] by simp
  qed
  have d: "distinct (map mpm_id ?news)" "distinct (map fst (da_superseded acc))" "?olds \<subseteq> mpm_id ` set mps" using r' by simp_all
  have fr: "\<forall>new \<in> set ?news. fresh_mp (xs_store st1) (mpm_id new) \<and> is_current new" using new_fresh by blast
  have new_id: "mpm_id new \<notin> mpm_id ` ?A" if "new \<in> set ?news" for new
  proof
    assume "mpm_id new \<in> mpm_id ` ?A"
    then obtain mp where "mp \<in> ?A" "mpm_id mp = mpm_id new" by auto
    with stored new_fresh [OF that] show False unfolding bookkeeping_mps(3) [OF a(2)] unfolding fresh_mp_def by fastforce
  qed
  have disj: "?olds \<inter> mpm_id ` set ?news = {}" using d(3) new_id unfolding mps(2) disjoint_iff by blast
  have sw: "active_mps (xs_store st') (tbl_id tm) = {mp \<in> ?A. mpm_id mp \<notin> ?olds} \<union> set ?news"
    using commit_switches_active [OF a4 d(1) fr d(2) disj, of "tbl_id tm"] new_fresh
    unfolding bookkeeping_mps(2) [OF a(2)] by blast
  from r' obtain D where D: "\<forall>new \<in> set ?news. holds ev rows (xs_objects st1) new (D new)"
    "(\<Sum>new\<leftarrow>?news. mset (D new)) = (\<Sum>mp\<leftarrow>filter (\<lambda>mp. mpm_id mp \<in> ?olds) mps. mset (res (B mp)))" by blast
  have stay: "\<forall>mp \<in> ?A. mpm_id mp \<notin> ?olds \<longrightarrow> holds ev rows (xs_objects st1) mp (res (B mp))" using r' unfolding mps(2) by blast
  let ?D = "\<lambda>mp. if mp \<in> set ?news then D mp else res (B mp)"
  have fin: "finite ?A" unfolding mps(2) [symmetric] by simp
  have dis: "{mp \<in> ?A. mpm_id mp \<notin> ?olds} \<inter> set ?news = {}" using new_id by blast
  have "(\<Sum>mp \<in> active_mps (xs_store st') (tbl_id tm). mset (?D mp)) =
      (\<Sum>mp | mp \<in> ?A \<and> mpm_id mp \<notin> ?olds. mset (?D mp)) + (\<Sum>mp \<in> set ?news. mset (?D mp))"
    unfolding sw by (rule sum.union_disjoint) (use fin dis in auto)
  also have "(\<Sum>mp \<in> set ?news. mset (?D mp)) = (\<Sum>new\<leftarrow>?news. mset (D new))"
    using d(1) by (simp add: sum_list_distinct_conv_sum_set distinct_map)
  also have "\<dots> = (\<Sum>mp | mp \<in> ?A \<and> mpm_id mp \<in> ?olds. mset (res (B mp)))"
    unfolding D(2) using mps(3) by (simp add: sum_list_distinct_conv_sum_set distinct_map flip: mps(2))
  also have "(\<Sum>mp | mp \<in> ?A \<and> mpm_id mp \<notin> ?olds. mset (?D mp)) = (\<Sum>mp | mp \<in> ?A \<and> mpm_id mp \<notin> ?olds. mset (res (B mp)))"
    by (rule sum.cong [OF refl]) (use dis in auto)
  also have "\<dots> + (\<Sum>mp | mp \<in> ?A \<and> mpm_id mp \<in> ?olds. mset (res (B mp))) = (\<Sum>mp \<in> ?A. mset (res (B mp)))"
    by (subst sum.union_disjoint [symmetric]) (use fin in \<open>auto intro!: sum.cong\<close>)
  finally have "(\<Sum>mp \<in> active_mps (xs_store st') (tbl_id tm). mset (?D mp)) = (\<Sum>mp \<in> ?A. mset (res (B mp)))" .
  moreover have "\<forall>mp \<in> active_mps (xs_store st') (tbl_id tm). holds ev rows (xs_objects st') mp (?D mp)"
    unfolding sw a(3) using D(1) stay dis by auto
  ultimately show ?thesis by (intro exI [of _ ?D]) simp
qed

subsection \<open>A concrete table\<close>

definition sample_env :: "(byte list, string \<rightharpoonup> byte list) exec_env" where
  "sample_env =
     \<lparr>ev_plane = sample_plane, ev_fx = sample_fdb, ev_writer = mp_writer_new ''b'', ev_reader = mp_reader_new,
      ev_texts = \<lparr>tx_show_f64 = (\<lambda>_. ''''), tx_show_f32 = (\<lambda>_. ''''), tx_debug = (\<lambda>_. ''''), tx_parse_f64 = (\<lambda>_. None)\<rparr>,
      ev_clock = of_nat, ev_ids = (\<lambda>n. 100 + of_nat n), ev_error_text = '''',
      ev_mem_sql = (\<lambda>_ bs _. Ok bs), ev_sql = (\<lambda>_ _ _ _. Ok []), ev_function_calls = (\<lambda>_. Ok []), ev_create_udf = (\<lambda>_. Ok ())\<rparr>"

definition sample_table :: TableMeta where
  "sample_table =
     \<lparr>tbl_id = 7, tbl_db_id = 1, tbl_schema_id = 2, tbl_name = ''t'',
      tbl_columns = [\<lparr>cd_id = 0, cd_name = ''x'', cd_data_type = NT_Int64, cd_nullable = False, cd_default_value = None, cd_comment = None\<rparr>],
      tbl_created_at = 0, tbl_owner = 0, tbl_comment = None, tbl_version = 1, tbl_properties = Map.empty\<rparr>"

definition sample_part :: MicroPartitionMeta where
  "sample_part = (sample_mp 50 10)\<lparr>mpm_s3_path := temp_path (mp_writer_new ''b'') 3 50 1\<rparr>"

definition sample_shop :: store where
  "sample_shop = apply_sets
     [(database_key 1, VDatabase \<lparr>dbm_id = 1, dbm_name = ''shop'', dbm_created_at = 0, dbm_owner = 0\<rparr>),
      (schema_key 1 2, VSchema \<lparr>sch_id = 2, sch_db_id = 1, sch_name = ''public'', sch_created_at = 0\<rparr>),
      (table_key 1 2 7, VTable sample_table), (mp_key 50, VMp sample_part), (table_mps_key 7 50, VBytes [])] DAList.empty"

definition sample_exec :: "(string \<rightharpoonup> byte list) exec_state" where
  "sample_exec = \<lparr>xs_store = sample_shop, xs_objects = [mpm_s3_path sample_part \<mapsto> [5, 7]], xs_txn = None, xs_tick = 0\<rparr>"

lemma sample_shop_wf: "store_wf sample_shop" "db_size sample_shop \<le> 100"
proof -
  show "store_wf sample_shop"
    unfolding sample_shop_def
    by (rule store_wf_sets [OF store_wf_empty]) (simp add: sample_table_def sample_part_def sample_mp_def)
  show "db_size sample_shop \<le> 100"
    using db_size_apply_sets [of _ DAList.empty] by (simp add: sample_shop_def DAList.update.rep_eq DAList.empty.rep_eq)
qed

lemma sample_find: "find_table sample_fdb ''shop'' ''public'' ''t'' sample_shop = Ok sample_table"
proof -
  let ?d = "\<lparr>dbm_id = 1, dbm_name = ''shop'', dbm_created_at = 0, dbm_owner = 0\<rparr> :: DatabaseMeta"
  let ?c = "\<lparr>sch_id = 2, sch_db_id = 1, sch_name = ''public'', sch_created_at = 0\<rparr> :: SchemaMeta"
  have "{d. db_get sample_shop (database_key (dbm_id d)) = Some (VDatabase d)} = {?d}"
    by (auto simp: sample_shop_def split: if_splits)
  moreover have "{c. db_get sample_shop (schema_key (dbm_id ?d) (sch_id c)) = Some (VSchema c)} = {?c}"
    by (auto simp: sample_shop_def split: if_splits)
  moreover have "{x. db_get sample_shop (table_key (dbm_id ?d) (sch_id ?c) (tbl_id x)) = Some (VTable x)} = {sample_table}"
    by (auto simp: sample_shop_def sample_table_def split: if_splits)
  ultimately show ?thesis
    using find_table_run [OF sample_client sample_shop_wf, of ?d "''shop''" ?c "''public''" sample_table "''t''"]
    by (simp add: sample_table_def)
qed

lemma sample_active: "active_mps sample_shop t = (if t = 7 then {sample_part} else {})"
  by (auto simp: active_mps_def indexed_mps_def sample_shop_def sample_part_def sample_mp_def is_current_def split: if_splits)

lemma sample_active_run: "get_active_mps sample_fdb 7 sample_shop = Ok [sample_part]"
proof -
  obtain mps where mps: "get_active_mps sample_fdb 7 sample_shop = Ok mps" "set mps = {sample_part}" "distinct (map mpm_id mps)"
    using fdb_client.active_set [OF sample_client sample_shop_wf, of 7] sample_active [of 7] by (auto simp: active_mps_def)
  from mps(2) obtain m ms where m: "mps = m # ms" by (cases mps) auto
  with mps(2,3) have "m = sample_part" "set ms \<subseteq> {sample_part}" "mpm_id sample_part \<notin> mpm_id ` set ms" by auto
  then have "ms = []" by (cases ms) auto
  with m \<open>m = sample_part\<close> have "mps = [sample_part]" by simp
  with mps(1) show ?thesis by simp
qed

definition x_is :: "i64 \<Rightarrow> ResolvedFilter option" where
  "x_is v = Some \<lparr>rf_column = ''x'', rf_op = ''='', rf_value = RE_Int64 v\<rparr>"

lemma sample_env_simps [simp]:
  "ev_plane sample_env = sample_plane" "ev_fx sample_env = sample_fdb" "ev_writer sample_env = mp_writer_new ''b''"
  "ev_reader sample_env = mp_reader_new" "ev_clock sample_env = of_nat" "ev_ids sample_env = (\<lambda>n. 100 + of_nat n)"
  "xs_store sample_exec = sample_shop" "xs_tick sample_exec = 0" "xs_objects sample_exec = [mpm_s3_path sample_part \<mapsto> [5, 7]]"
  by (simp_all add: sample_env_def sample_exec_def)

lemma sample_read: "mp_read sample_plane rd sample_part [mpm_s3_path sample_part \<mapsto> [5, 7]] = Ok [[5, 7]]"
  by (simp add: mp_read_def sample_part_def sample_mp_def sample_plane_def map_err_def)

lemma sample_mask: "batch_mask sample_plane [5, 7] (x_is 5) = Ok [True, False]"
  by (simp add: batch_mask_def x_is_def eval_filter_on_batch_def sample_plane_def filter_mask_def Let_def cmp_int_def unwrap_or_def)

lemma sample_delete_batch:
  "apply_delete_to_batch sample_plane [5, 7] (x_is 5) = Ok [7]"
  "select_rows_by_indices sample_plane [5, 7] [0] = Ok (Some [5])"
  "true_indices [True, False] = [0]"
  by (simp_all add: apply_delete_to_batch_def x_is_def eval_filter_on_batch_def sample_plane_def filter_mask_def Let_def cmp_int_def
      unwrap_or_def true_indices_def take_columns_def select_rows_by_indices_def map_err_def byte_i64)

lemma sample_plane_simps:
  "ar_fields sample_plane b = [(''x'', ADT_Int64, False)]" "ar_columns sample_plane b = [Int64Array (map (\<lambda>v. Some (ucast v)) b)]"
  "ar_num_rows sample_plane b = length b" "ar_memory sample_plane a = 0" "pq_write sample_plane c bs = Ok (concat bs)"
  "os_put sample_plane p bytes ob = (Ok (), ob(p \<mapsto> bytes))"
  "ar_try_new sample_plane fs cols = sample_cells cols" "ar_take sample_plane = sample_take"
  by (simp_all add: sample_plane_def)

lemma sample_update_batch:
  "apply_update_to_batch sample_plane [5, 7] [(''x'', RE_Int64 9)] (x_is 5) = Ok [9, 7]"
  "select_rows_by_indices sample_plane [9, 7] [0] = Ok (Some [9])"
  by (simp_all add: apply_update_to_batch_def sample_mask assign_column_def select_rows_by_indices_def take_columns_def sample_plane_simps
      map_err_def unwrap_or_def Let_def)

lemma sample_cdc_batch:
  "length (crs_row_ordinals spec) = 1 \<Longrightarrow> crs_source_batch spec = [v] \<Longrightarrow> build_cdc_batch_for_rows sample_plane spec = Ok [v]"
  by (simp add: build_cdc_batch_for_rows_def append_cdc_metadata_columns_def sample_plane_def map_err_def Let_def byte_i64)

lemma sample_concat: "ar_concat sample_plane fs bs = Ok (concat bs)"
  by (simp add: sample_plane_def)

lemma sample_payload:
  assumes "b \<noteq> []"
  shows "write_payload sample_plane ''b'' t x sq b ob =
     (Ok \<lparr>cpr_path = cdc_payload_path ''b'' t x sq (sq + of_nat (length b) - 1), cpr_row_start = 0, cpr_row_count = of_nat (length b)\<rparr>,
      ob(cdc_payload_path ''b'' t x sq (sq + of_nat (length b) - 1) \<mapsto> b))"
  using assms by (simp add: write_payload_def sample_plane_def Let_def write_parquet_bytes_def put_object_def map_err_def)

lemma sample_stats: "\<exists>stats. compute_column_stats sample_plane [[7]] = Ok stats" "\<exists>stats. compute_column_stats sample_plane [[9, 7]] = Ok stats"
  by (simp_all add: compute_column_stats_def sample_plane_simps array_bounds_def bounds_of_def map_filter_def empty_stats_def
      min_pick_def max_pick_def signed_gt_def)

lemma sample_write:
  "\<exists>mp. mp_write sample_plane (mp_writer_new ''b'') t m v [[7]] x ob = (Ok mp, ob(temp_path (mp_writer_new ''b'') x m v \<mapsto> [7]))"
  "\<exists>mp. mp_write sample_plane (mp_writer_new ''b'') t m v [[9, 7]] x ob = (Ok mp, ob(temp_path (mp_writer_new ''b'') x m v \<mapsto> [9, 7]))"
  using sample_stats by (auto simp: mp_write_def sample_plane_simps write_parquet_bytes_def put_object_def map_err_def)

text \<open>A commit of one partition and one change succeeds.\<close>

lemma commit_one:
  assumes "db_get s (change_seq_key (cr_table_id r)) = None" "\<forall>(m, n) \<in> set sups. \<exists>mp. db_get s (mp_key m) = Some (VMp mp)"
    and "length sups \<le> 1" "x = 0 \<or> (\<exists>t. db_get s (txn_key x) = Some (VTxn t))" "length mps \<le> 1"
    and "fst ` set sups \<inter> mpm_id ` set mps = {}"
  shows "\<exists>s'. commit_table_cdc fx now x mps sups [r] s = (Ok (), s')"
proof -
  obtain s1 where s1: "supersede_mps sups (put_mps mps s) = Ok s1" "\<And>k. fst k \<notin> {C_mp, C_table_mps} \<Longrightarrow> db_get s1 k = db_get s k"
  proof -
    have "\<exists>s1. supersede_mps sups (put_mps mps s) = Ok s1 \<and> (\<forall>k. fst k \<notin> {C_mp, C_table_mps} \<longrightarrow> db_get s1 k = db_get s k)"
      using assms(2,3,5,6)
      by (cases sups; cases mps) (auto simp: put_mps_def deserialize_trx_def ok_or_def)
    with that show thesis by blast
  qed
  show ?thesis
    using s1 assms(1,4)
    by (auto simp: commit_table_cdc_def db_run_def table_ranges_def publish_table_def put_records_def finish_txn_def Let_def
        deserialize_trx_def ok_or_def)
qed

lemma sample_counters:
  "counter (next_id_key ''txn'') sample_shop = 0" "db_get sample_shop (next_seq_key 7) = None" "db_get sample_shop (change_seq_key 7) = None"
  "db_get sample_shop (mp_key 50) = Some (VMp sample_part)"
  by (simp_all add: sample_shop_def counter_def next_id_key_def)

lemma sample_ids: "mpm_id sample_part = 50" "tbl_id sample_table = 7" "mw_bucket (mp_writer_new ''b'') = ''b''"
  by (simp_all add: sample_part_def sample_mp_def sample_table_def mp_writer_new_def)

text \<open>The state in which the loop over the partitions starts, and what a step of it does that replaces the partition.\<close>

definition sample_start :: "(string \<rightharpoonup> byte list) exec_state \<Rightarrow> bool" where
  "sample_start st \<longleftrightarrow> xs_tick st = 2 \<and> db_get (xs_store st) (next_seq_key 7) = None \<and> db_get (xs_store st) (change_seq_key 7) = None \<and>
     xs_objects st = [mpm_s3_path sample_part \<mapsto> [5, 7]]"

definition sample_replaced ::
  "(string \<rightharpoonup> byte list) exec_state \<Rightarrow> (fault, dml_acc) result \<times> (string \<rightharpoonup> byte list) exec_state \<Rightarrow> bool" where
  "sample_replaced st out \<longleftrightarrow> (\<exists>new r st'. out = (Ok \<lparr>da_new_mps = [new], da_superseded = [(50, 102)], da_changes = [r]\<rparr>, st') \<and>
     mpm_id new = 102 \<and> cr_table_id r = 7 \<and> xs_tick st' = 3 \<and>
     (\<forall>k. fst k \<notin> {C_table_version, C_table_change_next_seq} \<longrightarrow> db_get (xs_store st') k = db_get (xs_store st) k))"

lemma sample_replace:
  assumes "xs_tick st = 2" and bs: "bs \<in> {[[7]], [[9, 7]]}"
  shows "\<exists>new st'. replace_mp sample_env sample_table sample_part bs 1 1 st = (Ok new, st') \<and> mpm_id new = 102 \<and> xs_tick st' = 3 \<and>
    (\<forall>k. fst k \<noteq> C_table_version \<longrightarrow> db_get (xs_store st') k = db_get (xs_store st) k)"
proof -
  obtain v s' where inc: "increment_table_version 7 (xs_store st) = (Ok v, s')" "\<And>k. fst k \<noteq> C_table_version \<Longrightarrow> db_get s' k = db_get (xs_store st) k"
    by (simp add: increment_table_version_def op_simps) (metis fst_conv)
  obtain mp ob where w: "mp_write sample_plane (mp_writer_new ''b'') 7 102 v bs 1 (xs_objects st) = (Ok mp, ob)"
    using sample_write bs by (metis empty_iff insert_iff)
  then have mp: "mpm_id mp = 102" using data_plane.write_stored(3) [OF sp.data_plane_axioms w] by simp
  show ?thesis
    using assms w by (simp add: replace_mp_def ex_bind_def new_id_def ex_op_def ex_obj_def inc sample_ids map_err_def committed_mp_def mp)
qed

lemma sample_delete_step:
  assumes "sample_start st"
  shows "\<exists>r s' ob'. ex_fold (delete_batch sample_env sample_table (x_is 5) 50 1 1) [[5, 7]] (0, [], 0, []) st =
      (Ok (2, [[7]], 1, [r]), st\<lparr>xs_store := s', xs_objects := ob'\<rparr>) \<and> cr_table_id r = 7 \<and>
      (\<forall>k. fst k \<noteq> C_table_change_next_seq \<longrightarrow> db_get s' k = db_get (xs_store st) k)"
  using assms unfolding sample_start_def
  by (simp add: delete_batch_def ex_bind_def sample_mask sample_delete_batch map_err_def Let_def delete_change_def ex_op_def ex_obj_def
      allocate_table_change_sequences_def db_run_def sample_ids sample_cdc_batch write_cdc_payload_and_metadata_def sample_payload
      sample_plane_simps) (rule exI, rule conjI, rule exI, rule refl, simp)

lemma sample_update_step:
  assumes "sample_start st"
  shows "\<exists>r s' ob'. ex_fold (update_batch sample_env sample_table [(''x'', RE_Int64 9)] (x_is 5) 50 1 1) [[5, 7]] (0, [], 0, []) st =
      (Ok (2, [[9, 7]], 1, [r]), st\<lparr>xs_store := s', xs_objects := ob'\<rparr>) \<and> cr_table_id r = 7 \<and>
      (\<forall>k. fst k \<noteq> C_table_change_next_seq \<longrightarrow> db_get s' k = db_get (xs_store st) k)"
  using assms unfolding sample_start_def
  by (simp add: update_batch_def ex_bind_def sample_mask sample_delete_batch sample_update_batch map_err_def Let_def update_change_def ex_op_def ex_obj_def
      allocate_table_change_sequences_def db_run_def sample_ids sample_cdc_batch write_cdc_payload_and_metadata_def sample_payload
      sample_plane_simps sample_concat) (rule exI, rule conjI, rule exI, rule refl, simp)

lemma sample_steps:
  assumes "sample_start st"
  shows "sample_replaced st (delete_mp_rows sample_env sample_table (x_is 5) 1 1 sample_part \<lparr>da_new_mps = [], da_superseded = [], da_changes = []\<rparr> st)"
    and "sample_replaced st (update_mp sample_env sample_table [(''x'', RE_Int64 9)] (x_is 5) 1 1 sample_part
           \<lparr>da_new_mps = [], da_superseded = [], da_changes = []\<rparr> st)"
proof -
  have read: "read_mp sample_env sample_part st = (Ok [[5, 7]], st)" using assms by (simp add: read_mp_Ok sample_read sample_start_def)
  show "sample_replaced st (delete_mp_rows sample_env sample_table (x_is 5) 1 1 sample_part \<lparr>da_new_mps = [], da_superseded = [], da_changes = []\<rparr> st)"
  proof -
    obtain r s' ob' where f: "ex_fold (delete_batch sample_env sample_table (x_is 5) 50 1 1) [[5, 7]] (0, [], 0, []) st =
        (Ok (2, [[7]], 1, [r]), st\<lparr>xs_store := s', xs_objects := ob'\<rparr>)" "cr_table_id r = 7"
      "\<And>k. fst k \<noteq> C_table_change_next_seq \<Longrightarrow> db_get s' k = db_get (xs_store st) k"
      using sample_delete_step [OF assms] by blast
    obtain new st' where n: "replace_mp sample_env sample_table sample_part [[7]] 1 1 (st\<lparr>xs_store := s', xs_objects := ob'\<rparr>) = (Ok new, st')"
      "mpm_id new = 102" "xs_tick st' = 3" "\<And>k. fst k \<noteq> C_table_version \<Longrightarrow> db_get (xs_store st') k = db_get s' k"
      using sample_replace [of "st\<lparr>xs_store := s', xs_objects := ob'\<rparr>" "[[7]]"] assms by (auto simp: sample_start_def)
    show ?thesis
      by (simp add: sample_replaced_def delete_mp_rows_def ex_bind_def read f n sample_ids del: ex_fold.simps)
  qed
  show "sample_replaced st (update_mp sample_env sample_table [(''x'', RE_Int64 9)] (x_is 5) 1 1 sample_part
           \<lparr>da_new_mps = [], da_superseded = [], da_changes = []\<rparr> st)"
  proof -
    obtain r s' ob' where f: "ex_fold (update_batch sample_env sample_table [(''x'', RE_Int64 9)] (x_is 5) 50 1 1) [[5, 7]] (0, [], 0, []) st =
        (Ok (2, [[9, 7]], 1, [r]), st\<lparr>xs_store := s', xs_objects := ob'\<rparr>)" "cr_table_id r = 7"
      "\<And>k. fst k \<noteq> C_table_change_next_seq \<Longrightarrow> db_get s' k = db_get (xs_store st) k"
      using sample_update_step [OF assms] by blast
    obtain new st' where n: "replace_mp sample_env sample_table sample_part [[9, 7]] 1 1 (st\<lparr>xs_store := s', xs_objects := ob'\<rparr>) = (Ok new, st')"
      "mpm_id new = 102" "xs_tick st' = 3" "\<And>k. fst k \<noteq> C_table_version \<Longrightarrow> db_get (xs_store st') k = db_get s' k"
      using sample_replace [of "st\<lparr>xs_store := s', xs_objects := ob'\<rparr>" "[[9, 7]]"] assms by (auto simp: sample_start_def)
    show ?thesis
      by (simp add: sample_replaced_def update_mp_def ex_bind_def read f n sample_ids del: ex_fold.simps)
  qed
qed

lemma sample_rewrite:
  assumes "\<And>st. sample_start st \<Longrightarrow> sample_replaced st (f sample_table 1 1 sample_part \<lparr>da_new_mps = [], da_superseded = [], da_changes = []\<rparr> st)"
  shows "\<exists>st'. ex_bind (rewrite_prepare sample_env ''shop'' ''public'' ''t'' f) (\<lambda>a.
     ex_bind (ex_timed sample_env (\<lambda>t. commit_table_cdc (ev_fx sample_env) t (fst a) (da_new_mps (snd a)) (da_superseded (snd a)) (da_changes (snd a)))) (\<lambda>_.
     ex_ret msg)) sample_exec = (Ok msg, st') \<and> xs_tick st' = 4"
proof -
  let ?t = "\<lparr>tm_id = 1, tm_status = TxnActive, tm_snapshot_ts = 0, tm_commit_ts = None, tm_affected_tables = []\<rparr>"
  let ?s = "db_set (txn_key 1) (VTxn ?t) (db_set (next_id_key ''txn'') (u64_bytes 1) sample_shop)"
  define st where "st = sample_exec\<lparr>xs_tick := Suc (Suc 0), xs_store := ?s\<rparr>"
  have "sample_start st" by (simp add: sample_start_def st_def sample_counters next_id_key_def)
  from assms [OF this] obtain new r st1 where
    f: "f sample_table 1 1 sample_part \<lparr>da_new_mps = [], da_superseded = [], da_changes = []\<rparr> st =
      (Ok \<lparr>da_new_mps = [new], da_superseded = [(50, 102)], da_changes = [r]\<rparr>, st1)"
    and n: "mpm_id new = 102" "cr_table_id r = 7" "xs_tick st1 = 3"
      "\<And>k. fst k \<notin> {C_table_version, C_table_change_next_seq} \<Longrightarrow> db_get (xs_store st1) k = db_get (xs_store st) k"
    unfolding sample_replaced_def by blast
  have now: "now_micros sample_env (sample_exec\<lparr>xs_tick := Suc 0, xs_store := ?s\<rparr>) = (Ok 1, st)" by (simp add: now_micros_def st_def)
  have p: "rewrite_prepare sample_env ''shop'' ''public'' ''t'' f sample_exec =
      (Ok (1, \<lparr>da_new_mps = [new], da_superseded = [(50, 102)], da_changes = [r]\<rparr>), st1)"
    by (simp add: rewrite_prepare_def ex_bind_def [of "ex_query q" for q] sample_find sample_active_run sample_ids map_err_def)
      (simp add: ex_bind_def ex_timed_def now_micros_def [of _ sample_exec] ex_op_def begin_transaction_run sample_counters Let_def now f map_err_def)
  have "db_get (xs_store st1) (change_seq_key 7) = None" "db_get (xs_store st1) (mp_key 50) = Some (VMp sample_part)"
    "db_get (xs_store st1) (txn_key 1) = Some (VTxn ?t)"
    by (simp_all add: n(4) st_def sample_counters next_id_key_def)
  then obtain s' where "commit_table_cdc sample_fdb 3 1 [new] [(50, 102)] [r] (xs_store st1) = (Ok (), s')"
    using commit_one [of "xs_store st1" r "[(50, 102)]" 1 "[new]" sample_fdb 3] n by auto
  then show ?thesis by (simp add: ex_bind_def p ex_timed_def now_micros_def ex_op_def n(3) map_err_def)
qed

subsection \<open>The properties of the statements\<close>


definition broken_env :: "(byte list, string \<rightharpoonup> byte list) exec_env" where
  "broken_env = sample_env\<lparr>ev_plane := sample_plane\<lparr>os_put := (\<lambda>p bytes ob. (Err ''unreachable'', ob))\<rparr>\<rparr>"

lemma broken_env_simps:
  "ev_fx broken_env = sample_fdb" "ev_clock broken_env = of_nat" "ev_ids broken_env = (\<lambda>n. 100 + of_nat n)"
  "ev_plane broken_env = sample_plane\<lparr>os_put := (\<lambda>p bytes ob. (Err ''unreachable'', ob))\<rparr>" "ev_writer broken_env = mp_writer_new ''b''"
  by (simp_all add: broken_env_def)

lemma sample_values:
  "values_to_batch sample_plane tx sample_table [[RE_Int64 7]] = Ok [7]"
  "values_to_batch (sample_plane\<lparr>os_put := p\<rparr>) tx sample_table [[RE_Int64 7]] = Ok [7]"
  by (simp_all add: values_to_batch_def sample_table_def column_array_def int_cell_def sample_plane_def map_err_def)

lemma broken_write:
  "mp_write (sample_plane\<lparr>os_put := (\<lambda>p bytes ob. (Err ''unreachable'', ob))\<rparr>) (mp_writer_new ''b'') t m v [[7]] x ob =
     (Err (Fail (ObjectStoreError ''unreachable'')), ob)"
proof -
  have "compute_column_stats (sample_plane\<lparr>os_put := p\<rparr>) [[7]] = compute_column_stats sample_plane [[7]]" for p
    by (simp add: compute_column_stats_def)
  with sample_stats(1) show ?thesis
    by (auto simp: mp_write_def sample_plane_simps write_parquet_bytes_def put_object_def map_err_def)
qed

lemma sample_txn_counter: "counter (next_id_key ''txn'') (db_set (C_table_version, es) v sample_shop) = 0"
  by (simp add: counter_def next_id_key_def sample_shop_def)



lemma sample_insert:
  "\<exists>q st'. exec_insert sample_env ''shop'' ''public'' ''t'' [[RE_Int64 7]] sample_exec = (Ok q, st')"
proof -
  let ?s1 = "db_set (C_table_version, [TInt 7]) (u64_bytes (counter (C_table_version, [TInt 7]) sample_shop + 1)) sample_shop"
  obtain v where inc: "increment_table_version 7 sample_shop = (Ok v, ?s1)" by (simp add: increment_table_version_def op_simps)
  let ?t = "\<lparr>tm_id = 1, tm_status = TxnActive, tm_snapshot_ts = 1, tm_commit_ts = None, tm_affected_tables = []\<rparr>"
  let ?s2 = "db_set (txn_key 1) (VTxn ?t) (db_set (next_id_key ''txn'') (u64_bytes 1) ?s1)"
  have beg: "begin_transaction 1 ?s1 = (Ok 1, ?s2)" by (simp add: begin_transaction_run sample_txn_counter Let_def)
  obtain mp ob where w: "mp_write sample_plane (mp_writer_new ''b'') 7 100 v [[7]] 1 [mpm_s3_path sample_part \<mapsto> [5, 7]] = (Ok mp, ob)"
    using sample_write(1) by metis
  let ?s3 = "db_set (next_seq_key 7) (u64_bytes (sat_add 0 1)) ?s2"
  have alloc: "allocate_table_change_sequences sample_fdb 7 1 ?s2 = (Ok 1, ?s3)"
    by (simp add: allocate_table_change_sequences_def db_run_def sample_counters next_id_key_def)
  have cdc: "build_insert_cdc_batch sample_plane sample_table [7] 1 1 2 100 = Ok [7]"
    by (simp add: build_insert_cdc_batch_def append_cdc_metadata_columns_def sample_plane_simps map_err_def Let_def)
  obtain c ob2 where pay: "write_payload sample_plane ''b'' 7 1 1 [7] ob = (Ok c, ob2)" using sample_payload [of "[7]"] by auto
  let ?r = "\<lparr>cr_table_id = 7, cr_sequence = 1, cr_txn_id = 1, cr_commit_ts = 2, cr_payload = c,
     cr_action_counts = \<lparr>cac_inserts = 1, cac_deletes = 0, cac_update_pairs = 0\<rparr>,
     cr_min_row_id = Some (stream_row_id 7 100 0 0), cr_max_row_id = Some (stream_row_id 7 100 0 0)\<rparr>"
  define st1 where "st1 = sample_exec\<lparr>xs_tick := 3, xs_store := ?s3, xs_objects := ob2\<rparr>"
  have p: "insert_prepare sample_env ''shop'' ''public'' ''t'' [[RE_Int64 7]] sample_exec = (Ok (1, committed_mp 2 mp, ?r), st1)"
    by (simp add: insert_prepare_def ex_bind_def sample_find sample_values map_err_def new_id_def ex_op_def sample_ids inc ex_timed_def now_micros_def
        beg ex_obj_def w alloc cdc write_cdc_payload_and_metadata_def pay st1_def)
  have "db_get ?s3 (change_seq_key 7) = None" "db_get ?s3 (txn_key 1) = Some (VTxn ?t)"
    by (simp_all add: sample_counters next_id_key_def)
  then obtain s' where "commit_table_cdc sample_fdb 3 1 [committed_mp 2 mp] [] [?r] ?s3 = (Ok (), s')"
    using commit_one [of ?s3 ?r "[]" 1 "[committed_mp 2 mp]" sample_fdb 3] by auto
  then show ?thesis
    unfolding exec_insert_split by (simp add: ex_bind_def p ex_timed_def now_micros_def ex_op_def st1_def map_err_def)
qed

lemma sample_ticks: "{0..<4} = {0, 1, 2, 3 :: nat}"
  by auto

lemma sample_fresh:
  "n \<in> {0..<4} \<Longrightarrow> fresh_mp sample_shop (100 + of_nat n)" "inj_on (\<lambda>n. 100 + of_nat n :: u64) {0..<4}"
  unfolding sample_ticks by (auto simp: fresh_mp_def sample_shop_def)


text \<open>
  C5. A successful DELETE leaves exactly the rows that do not match. Over the active partitions of
  the table, the rows that can be read after the statement are, counted with multiplicity, the
  rows that could be read before it and whose position in their batch the filter does not mark.
  The identifiers the statement draws are assumed different and unused, and the active partitions
  stored under paths that carry their identifier, as INSERT, UPDATE and DELETE store them.
\<close>

theorem delete_keeps_unmatched:
  assumes "row_plane (ev_plane ev) rows" "fdb_client (ev_fx ev) cap" "store_wf (xs_store st)" "db_size (xs_store st) \<le> cap"
    and "inj_on (ev_ids ev) {xs_tick st..<xs_tick st'}" "\<forall>n \<in> {xs_tick st..<xs_tick st'}. fresh_mp (xs_store st) (ev_ids ev n)"
    and "find_table (ev_fx ev) db schema table (xs_store st) = Ok tm" "(ucast (tbl_id tm) :: byte) \<noteq> 255"
    and read: "\<forall>mp \<in> active_mps (xs_store st) (tbl_id tm). placed ev mp \<and>
       mp_read (ev_plane ev) (ev_reader ev) mp (xs_objects st) = Ok (B mp) \<and> (\<forall>b \<in> set (B mp). batch_mask (ev_plane ev) b flt = Ok (H b))"
    and run: "exec_delete ev db schema table flt st = (Ok q, st')"
  shows "\<exists>D. (\<forall>mp \<in> active_mps (xs_store st') (tbl_id tm).
        \<exists>bs. mp_read (ev_plane ev) (ev_reader ev) mp (xs_objects st') = Ok bs \<and> concat (map rows bs) = D mp) \<and>
     (\<Sum>mp \<in> active_mps (xs_store st') (tbl_id tm). mset (D mp)) =
     (\<Sum>mp \<in> active_mps (xs_store st) (tbl_id tm). mset (remaining_rows rows H (B mp)))"
proof (rule rewrite_rows [where f = "\<lambda>tm. delete_mp_rows ev tm flt", OF assms(2-8)])
  show "rewrite_step ev rows tm (remaining_rows rows H (B mp)) st0 st1 mp acc acc'"
    if "mp \<in> active_mps (xs_store st) (tbl_id tm)" "mp_read (ev_plane ev) (ev_reader ev) mp (xs_objects st0) = Ok (B mp)"
      "delete_mp_rows ev tm flt x c mp acc st0 = (Ok acc', st1)" for x c mp acc st0 acc' st1
    using read that by (intro delete_mp_step [OF assms(1)]) auto
qed ((use read in blast), rule keeps_mps(2), rule ticks_mps(2), rule run [unfolded exec_rewrite_split])


lemma sample_placed: "placed sample_env sample_part"
  unfolding placed_def by (intro exI [of _ 3] exI [of _ 1]) (simp add: sample_part_def sample_mp_def)

lemma sample_runs:
  "\<exists>st'. exec_delete sample_env ''shop'' ''public'' ''t'' (x_is 5) sample_exec = (Ok (QR_Rows [''status''] [[''DELETE OK'']]), st') \<and> xs_tick st' = 4"
  "\<exists>st'. exec_update sample_env ''shop'' ''public'' ''t'' [(''x'', RE_Int64 9)] (x_is 5) sample_exec =
     (Ok (QR_Rows [''status''] [[''UPDATE OK'']]), st') \<and> xs_tick st' = 4"
  unfolding exec_rewrite_split by (rule sample_rewrite, erule sample_steps)+

theorem delete_keeps_unmatched_witness:
  "\<exists>st' D. exec_delete sample_env ''shop'' ''public'' ''t'' (x_is 5) sample_exec = (Ok (QR_Rows [''status''] [[''DELETE OK'']]), st') \<and>
     (\<Sum>mp \<in> active_mps (xs_store st') 7. mset (D mp)) = {#7#} \<and>
     (\<forall>mp \<in> active_mps (xs_store st') 7. \<exists>bs. mp_read sample_plane mp_reader_new mp (xs_objects st') = Ok bs \<and> concat bs = D mp)"
proof -
  obtain st' where run: "exec_delete sample_env ''shop'' ''public'' ''t'' (x_is 5) sample_exec = (Ok (QR_Rows [''status''] [[''DELETE OK'']]), st')"
    and t: "xs_tick st' = 4"
    using sample_runs(1) by (elim exE conjE)
  have "row_plane (ev_plane sample_env) (\<lambda>b. b)" by (simp add: sr.row_plane_axioms)
  note * = delete_keeps_unmatched [OF this, of 100 sample_exec st' "''shop''" "''public''" "''t''" sample_table "\<lambda>_. [[5, 7]]" "x_is 5" "\<lambda>_. [True, False]"]
  have "\<exists>D. (\<forall>mp \<in> active_mps (xs_store st') 7. \<exists>bs. mp_read sample_plane mp_reader_new mp (xs_objects st') = Ok bs \<and> concat bs = D mp) \<and>
     (\<Sum>mp \<in> active_mps (xs_store st') 7. mset (D mp)) = {#7#}"
    using * run t sample_fresh
    by (simp add: sample_client sample_shop_wf sample_find sample_ids sample_active sample_placed sample_read sample_mask remaining_rows_def unmatched_def)
  with run show ?thesis by blast
qed

end
