(* ===== verification/Exec_Ddl.thy ===== *)
theory Exec_Ddl
  imports Exec_Dml
begin

text \<open>
  The definition statements of the executor (\<^verbatim>\<open>executor.rs\<close>): databases and tables, functions and their
  grants, clones, streams, garbage collection and dynamic tables.

  A call that reads the clock draws one reading. The order in which a listing returns records is
  that of the key space.
\<close>

abbreviation need :: "('b, 'o) exec_env \<Rightarrow> SecurityContext \<Rightarrow> ObjectRef \<Rightarrow> SecurityPrivilege \<Rightarrow> ('o, unit) ex" where
  "need ev security ob privilege \<equiv> ex_query (require_privilege (ev_fx ev) security ob privilege)"

abbreviation need_primary :: "('b, 'o) exec_env \<Rightarrow> SecurityContext \<Rightarrow> ObjectRef \<Rightarrow> SecurityPrivilege \<Rightarrow> ('o, unit) ex" where
  "need_primary ev security ob privilege \<equiv> ex_timed ev (\<lambda>t. require_primary_role_privilege (ev_fx ev) t security ob privilege)"

abbreviation own :: "('b, 'o) exec_env \<Rightarrow> SecurityContext \<Rightarrow> ObjectRef \<Rightarrow> ('o, unit) ex" where
  "own ev security ob \<equiv> ex_timed ev (\<lambda>t. set_primary_role_owner (ev_fx ev) t security ob)"

abbreviation role_exists :: "('b, 'o) exec_env \<Rightarrow> SecurityContext \<Rightarrow> ('o, unit) ex" where
  "role_exists ev security \<equiv> ex_timed ev (\<lambda>t. require_primary_role_exists (ev_fx ev) t security)"

abbreviation dotted :: "string \<Rightarrow> string \<Rightarrow> string \<Rightarrow> string" where
  "dotted db schema name \<equiv> quoted (db @ ''.'' @ schema @ ''.'' @ name)"

subsection \<open>Databases and tables\<close>

definition exec_create_database :: "('b, 'o) exec_env \<Rightarrow> SecurityContext \<Rightarrow> string \<Rightarrow> ('o, QueryResult) ex" where
  "exec_create_database ev security name =
     ex_bind (role_exists ev security) (\<lambda>_.
     ex_bind (now_micros ev) (\<lambda>now.
     ex_bind (ex_op (create_database \<lparr>dbm_id = 0, dbm_name = name, dbm_created_at = now, dbm_owner = 1\<rparr>)) (\<lambda>_.
     ex_bind (ex_query (find_database (ev_fx ev) name)) (\<lambda>created.
     ex_bind (own ev security (object_ref OT_Database (dbm_id created))) (\<lambda>_.
     success (''Database '' @ quoted name @ '' created''))))))"

record ResolvedColumn =
  rc_name :: string
  rc_data_type :: string
  rc_nullable :: bool

definition resolved_columns :: "ResolvedColumn list \<Rightarrow> ColumnDef list" where
  "resolved_columns columns =
     map (\<lambda>(i, c). \<lparr>cd_id = of_nat i, cd_name = rc_name c, cd_data_type = parse_sql_type (rc_data_type c),
                    cd_nullable = rc_nullable c, cd_default_value = None, cd_comment = None\<rparr>)
       (zip [0..<length columns] columns)"

text \<open>The schema is created with identifier 0 when the database has none of that name.\<close>

definition find_or_create_schema ::
  "('b, 'o) exec_env \<Rightarrow> SecurityContext \<Rightarrow> DatabaseId \<Rightarrow> string \<Rightarrow> ('o, SchemaMeta) ex" where
  "find_or_create_schema ev security db_id schema =
     ex_bind (ex_query (list_schemas (ev_fx ev) db_id)) (\<lambda>schemas.
     case find (\<lambda>s. sch_name s = schema) schemas of
       Some s \<Rightarrow> ex_ret s
     | None \<Rightarrow>
         ex_bind (now_micros ev) (\<lambda>now.
         ex_bind (ex_op (create_schema \<lparr>sch_id = 0, sch_db_id = db_id, sch_name = schema, sch_created_at = now\<rparr>)) (\<lambda>_.
         ex_bind (ex_query (\<lambda>s. and_then (list_schemas (ev_fx ev) db_id s)
            (\<lambda>ss. ok_or (SchemaNotFound schema) (find (\<lambda>s. sch_name s = schema) ss)))) (\<lambda>created_schema.
         ex_bind (own ev security (object_ref OT_Schema (sch_id created_schema))) (\<lambda>_.
         ex_ret created_schema)))))"

definition exec_create_table ::
  "('b, 'o) exec_env \<Rightarrow> SecurityContext \<Rightarrow> string \<Rightarrow> string \<Rightarrow> string \<Rightarrow> ResolvedColumn list \<Rightarrow> ('o, QueryResult) ex" where
  "exec_create_table ev security db schema table columns =
     ex_bind (role_exists ev security) (\<lambda>_.
     ex_bind (ex_query (find_database (ev_fx ev) db)) (\<lambda>db_meta.
     ex_bind (find_or_create_schema ev security (dbm_id db_meta) schema) (\<lambda>schema_meta.
     ex_bind (now_micros ev) (\<lambda>now.
     ex_bind (ex_op (create_table
        \<lparr>tbl_id = 0, tbl_db_id = dbm_id db_meta, tbl_schema_id = sch_id schema_meta, tbl_name = table,
         tbl_columns = resolved_columns columns, tbl_created_at = now, tbl_owner = 1, tbl_comment = None, tbl_version = 0,
         tbl_properties = Map.empty\<rparr>)) (\<lambda>_.
     ex_bind (ex_query (find_table (ev_fx ev) db schema table)) (\<lambda>created.
     ex_bind (own ev security (object_ref OT_Table (tbl_id created))) (\<lambda>_.
     success (''Table '' @ dotted db schema table @ '' created''))))))))"

subsection \<open>Functions and their grants\<close>

definition format_function_name :: "string \<Rightarrow> string \<Rightarrow> string \<Rightarrow> FunctionSignature \<Rightarrow> string" where
  "format_function_name db schema name signature = db @ ''.'' @ schema @ ''.'' @ name @ ''('' @ signature_key signature @ '')''"

text \<open>The parts of a CREATE FUNCTION statement that go into the record as they are.\<close>

record function_spec =
  fs_name :: string
  fs_args :: "FunctionArg list"
  fs_signature :: FunctionSignature
  fs_return_type :: string
  fs_language :: FunctionLanguage
  fs_body :: FunctionBody
  fs_volatility :: FunctionVolatility
  fs_null_handling :: FunctionNullHandling

definition function_of :: "function_spec \<Rightarrow> FunctionId \<Rightarrow> DatabaseId \<Rightarrow> SchemaId \<Rightarrow> Timestamp \<Rightarrow> Timestamp \<Rightarrow> RoleId \<Rightarrow>
    string option \<Rightarrow> (string \<rightharpoonup> string) \<Rightarrow> FunctionMeta" where
  "function_of sp i db_id schema_id created updated role comment props =
     \<lparr>fn_id = i, fn_db_id = db_id, fn_schema_id = schema_id, fn_name = fs_name sp, fn_signature = fs_signature sp,
      fn_args = fs_args sp, fn_return_type = fs_return_type sp, fn_language = fs_language sp, fn_body = fs_body sp,
      fn_volatility = fs_volatility sp, fn_null_handling = fs_null_handling sp, fn_created_at = created,
      fn_updated_at = updated, fn_owner_role_id = role, fn_comment = comment, fn_properties = props\<rparr>"

definition exec_create_function ::
  "('b, 'o) exec_env \<Rightarrow> SecurityContext \<Rightarrow> string \<Rightarrow> string \<Rightarrow> DatabaseId \<Rightarrow> SchemaId \<Rightarrow> function_spec \<Rightarrow> bool \<Rightarrow> bool \<Rightarrow>
   ('o, QueryResult) ex" where
  "exec_create_function ev security db schema db_id schema_id sp or_replace if_not_exists =
     (if fs_language sp \<noteq> FL_Sql
      then ex_fail (SqlAnalysisError (''function language '' @ function_language_name (fs_language sp) @
             '' is not supported yet; only SQL is supported''))
      else if \<not> (case fs_body sp of SqlExpression _ \<Rightarrow> True | _ \<Rightarrow> False)
      then ex_fail (SqlAnalysisError ''CREATE FUNCTION LANGUAGE SQL requires a SQL expression body'')
      else
        ex_bind (ex_query (get_function_by_signature db_id schema_id (fs_name sp) (fs_signature sp))) (\<lambda>existing.
        ex_bind (now_micros ev) (\<lambda>now.
        let message_name = quoted (format_function_name db schema (fs_name sp) (fs_signature sp)) in
        case existing of
          Some f \<Rightarrow>
            if if_not_exists \<and> \<not> or_replace then success (''Function '' @ message_name @ '' already exists'')
            else if \<not> or_replace then ex_fail (Internal (''function '' @ message_name @ '' already exists''))
            else
              ex_bind (ex_op (replace_function (ev_fx ev)
                 (function_of sp (fn_id f) db_id schema_id (fn_created_at f) now (fn_owner_role_id f) (fn_comment f) (fn_properties f)))) (\<lambda>_.
              success (''Function '' @ message_name @ '' replaced''))
        | None \<Rightarrow>
            ex_bind (new_id ev) (\<lambda>function_id.
            ex_bind (ex_op (create_function (ev_fx ev)
               (function_of sp function_id db_id schema_id now now (sec_primary_role_id security) None Map.empty))) (\<lambda>_.
            ex_bind (ex_query (get_role (sec_primary_role_id security))) (\<lambda>role.
            ex_bind (if role \<noteq> None
                     then ex_op (set_object_owner (ev_fx ev)
                        \<lparr>own_object = object_ref OT_Function function_id, own_owner_role_id = sec_primary_role_id security,
                         own_created_by_user_id = sec_user_id security, own_created_at = now, own_transferred_at = None\<rparr>)
                     else ex_ret ()) (\<lambda>_.
            success (''Function '' @ message_name @ '' created''))))))))"

definition exec_drop_function ::
  "('b, 'o) exec_env \<Rightarrow> string \<Rightarrow> string \<Rightarrow> string \<Rightarrow> FunctionSignature \<Rightarrow> bool \<Rightarrow> ('o, QueryResult) ex" where
  "exec_drop_function ev db schema name signature if_exists =
     ex_bind (ex_query (find_database (ev_fx ev) db)) (\<lambda>db_meta.
     ex_bind (ex_query (find_schema_meta (ev_fx ev) (dbm_id db_meta) schema)) (\<lambda>schema_meta.
     ex_bind (ex_query (get_function_by_signature (dbm_id db_meta) (sch_id schema_meta) name signature)) (\<lambda>f.
     let message_name = quoted (format_function_name db schema name signature) in
     case f of
       None \<Rightarrow> if if_exists then success (''Function '' @ message_name @ '' does not exist, skipping'')
               else ex_fail (Internal (''function '' @ message_name @ '' not found''))
     | Some function \<Rightarrow>
         ex_bind (ex_op (drop_function (ev_fx ev) (fn_id function))) (\<lambda>_.
         success (''Function '' @ message_name @ '' dropped'')))))"

definition resolve_function ::
  "fdb \<Rightarrow> string \<Rightarrow> string \<Rightarrow> string \<Rightarrow> FunctionSignature \<Rightarrow> (DatabaseMeta \<times> SchemaMeta \<times> FunctionMeta) query" where
  "resolve_function fx db schema name signature s =
     and_then (find_database fx db s) (\<lambda>db_meta.
     and_then (find_schema_meta fx (dbm_id db_meta) schema s) (\<lambda>schema_meta.
     and_then (get_function_by_signature (dbm_id db_meta) (sch_id schema_meta) name signature s) (\<lambda>f.
     and_then (ok_or (Internal (''function '' @ quoted (format_function_name db schema name signature) @ '' not found'')) f) (\<lambda>function.
     Ok (db_meta, schema_meta, function)))))"

definition require_can_manage_function_grants :: "fdb \<Rightarrow> SecurityContext \<Rightarrow> FunctionId \<Rightarrow> unit query" where
  "require_can_manage_function_grants fx security function_id s =
     and_then (exec_has_privilege fx security (object_ref OT_Function function_id) SP_Ownership s) (\<lambda>owns.
     and_then (if owns then Ok True else exec_has_privilege fx security (object_ref OT_Account ACCOUNT_OBJECT_ID) SP_ManageGrants s) (\<lambda>ok.
     if ok then Ok ()
     else Err (PermissionDenied (sec_username security) (''MANAGE GRANTS on FUNCTION:'' @ show_u64 function_id))))"

definition role_named :: "string \<Rightarrow> RoleMeta query" where
  "role_named role s = and_then (get_role_by_name role s) (ok_or (Internal (''role '' @ quoted role @ '' not found'')))"

definition exec_grant_function_usage ::
  "('b, 'o) exec_env \<Rightarrow> SecurityContext \<Rightarrow> string \<Rightarrow> string \<Rightarrow> string \<Rightarrow> FunctionSignature \<Rightarrow> string \<Rightarrow> ('o, QueryResult) ex" where
  "exec_grant_function_usage ev security db schema name signature role =
     ex_bind (ex_query (resolve_function (ev_fx ev) db schema name signature)) (\<lambda>(db_meta, schema_meta, function).
     ex_bind (need ev security (object_ref OT_Database (dbm_id db_meta)) SP_Usage) (\<lambda>_.
     ex_bind (need ev security (object_ref OT_Schema (sch_id schema_meta)) SP_Usage) (\<lambda>_.
     ex_bind (ex_query (require_can_manage_function_grants (ev_fx ev) security (fn_id function))) (\<lambda>_.
     ex_bind (ex_query (role_named role)) (\<lambda>target_role.
     ex_bind (now_micros ev) (\<lambda>now.
     ex_bind (ex_timed ev (\<lambda>t. grant_privileges (ev_fx ev) t
        \<lparr>gr_role_id = rol_id target_role, gr_object = object_ref OT_Function (fn_id function),
         gr_privileges = from_privileges [SP_Usage], gr_grant_options = ps_empty,
         gr_granted_by_role_id = sec_primary_role_id security, gr_updated_at = now\<rparr>)) (\<lambda>_.
     success (''Granted USAGE on FUNCTION '' @ quoted (format_function_name db schema (fn_name function) (fn_signature function)) @
       '' to role '' @ quoted (rol_name target_role)))))))))"

definition exec_revoke_function_usage ::
  "('b, 'o) exec_env \<Rightarrow> SecurityContext \<Rightarrow> string \<Rightarrow> string \<Rightarrow> string \<Rightarrow> FunctionSignature \<Rightarrow> string \<Rightarrow> ('o, QueryResult) ex" where
  "exec_revoke_function_usage ev security db schema name signature role =
     ex_bind (ex_query (resolve_function (ev_fx ev) db schema name signature)) (\<lambda>(db_meta, schema_meta, function).
     ex_bind (need ev security (object_ref OT_Database (dbm_id db_meta)) SP_Usage) (\<lambda>_.
     ex_bind (need ev security (object_ref OT_Schema (sch_id schema_meta)) SP_Usage) (\<lambda>_.
     ex_bind (ex_query (require_can_manage_function_grants (ev_fx ev) security (fn_id function))) (\<lambda>_.
     ex_bind (ex_query (role_named role)) (\<lambda>target_role.
     ex_bind (ex_op (revoke_privileges (ev_fx ev) (rol_id target_role) (object_ref OT_Function (fn_id function)) (from_privileges [SP_Usage]))) (\<lambda>_.
     success (''Revoked USAGE on FUNCTION '' @ quoted (format_function_name db schema (fn_name function) (fn_signature function)) @
       '' from role '' @ quoted (rol_name target_role))))))))"

definition grant_result_columns :: "string list" where
  "grant_result_columns = [''role'', ''object_type'', ''object_name'', ''privilege'', ''grant_option'']"

definition function_grant_rows :: "string \<Rightarrow> string \<Rightarrow> GrantSetMeta \<Rightarrow> string list list" where
  "function_grant_rows role_name function_name grant =
     (if ps_contains (gr_privileges grant) SP_Usage
      then [[role_name, object_type_name OT_Function, function_name, privilege_name SP_Usage,
             show_bool (ps_contains (gr_grant_options grant) SP_Usage)]]
      else [])"

definition exec_show_grants_on_function ::
  "('b, 'o) exec_env \<Rightarrow> SecurityContext \<Rightarrow> string \<Rightarrow> string \<Rightarrow> string \<Rightarrow> FunctionSignature \<Rightarrow> ('o, QueryResult) ex" where
  "exec_show_grants_on_function ev security db schema name signature =
     ex_bind (ex_query (resolve_function (ev_fx ev) db schema name signature)) (\<lambda>(_, _, function).
     ex_bind (ex_query (require_can_manage_function_grants (ev_fx ev) security (fn_id function))) (\<lambda>_.
     ex_bind (ex_query (list_grants_on_object (ev_fx ev) (object_ref OT_Function (fn_id function)))) (\<lambda>grants.
     ex_bind (ex_query (\<lambda>s. collect_results (\<lambda>grant. and_then (get_role (gr_role_id grant) s) (\<lambda>r.
          Ok (case r of None \<Rightarrow> []
              | Some role \<Rightarrow> function_grant_rows (rol_name role)
                  (format_function_name db schema (fn_name function) (fn_signature function)) grant))) grants)) (\<lambda>rows.
     ex_ret (QR_Rows grant_result_columns (concat rows))))))"

text \<open>The first function with the identifier, databases and schemas in listing order.\<close>

fun first_found :: "('a \<Rightarrow> (NovaError, 'c option) result) \<Rightarrow> 'a list \<Rightarrow> (NovaError, 'c option) result" where
  "first_found f [] = Ok None"
| "first_found f (x # xs) = and_then (f x) (\<lambda>r. case r of Some y \<Rightarrow> Ok (Some y) | None \<Rightarrow> first_found f xs)"

definition find_function_by_id :: "fdb \<Rightarrow> FunctionId \<Rightarrow> (string \<times> string \<times> FunctionMeta) option query" where
  "find_function_by_id fx function_id s =
     and_then (list_databases fx s) (\<lambda>dbs.
     first_found (\<lambda>db.
       and_then (list_schemas fx (dbm_id db) s) (\<lambda>schemas.
       first_found (\<lambda>schema.
         and_then (list_functions fx (dbm_id db) (sch_id schema) s) (\<lambda>functions.
         Ok (map_option (\<lambda>f. (dbm_name db, sch_name schema, f)) (find (\<lambda>f. fn_id f = function_id) functions)))) schemas)) dbs)"

definition exec_show_grants_to_role :: "('b, 'o) exec_env \<Rightarrow> SecurityContext \<Rightarrow> string \<Rightarrow> ('o, QueryResult) ex" where
  "exec_show_grants_to_role ev security role =
     ex_bind (ex_query (role_named role)) (\<lambda>target_role.
     ex_bind (if rol_id target_role \<in> set (active_role_ids security) then ex_ret True
              else ex_query (exec_has_privilege (ev_fx ev) security (object_ref OT_Account ACCOUNT_OBJECT_ID) SP_ManageGrants)) (\<lambda>ok.
     if \<not> ok then ex_fail (PermissionDenied (sec_username security) (''SHOW GRANTS TO ROLE:'' @ show_u64 (rol_id target_role)))
     else
       ex_bind (ex_query (list_grants_to_role (ev_fx ev) (rol_id target_role))) (\<lambda>grants.
       ex_bind (ex_query (\<lambda>s. collect_results (\<lambda>grant. and_then (find_function_by_id (ev_fx ev) (obj_id (gr_object grant)) s) (\<lambda>r.
            Ok (case r of None \<Rightarrow> []
                | Some (db_name, schema_name, function) \<Rightarrow> function_grant_rows (rol_name target_role)
                    (format_function_name db_name schema_name (fn_name function) (fn_signature function)) grant)))
          (filter (\<lambda>g. obj_type (gr_object g) = OT_Function) grants))) (\<lambda>rows.
       ex_ret (QR_Rows grant_result_columns (concat rows))))))"

subsection \<open>Clones\<close>

definition clone_mp :: "TableId \<Rightarrow> MicroPartitionMeta \<Rightarrow> MicroPartitionMeta" where
  "clone_mp table_id mp =
     mp\<lparr>mpm_id := 0, mpm_table_id := table_id, mpm_s3_temp_path := None, mpm_supersedes := None, mpm_superseded_by := None,
        mpm_active := True\<rparr>"

definition exec_clone ::
  "('b, 'o) exec_env \<Rightarrow> SecurityContext \<Rightarrow> string \<Rightarrow> string \<Rightarrow> string \<Rightarrow> string \<Rightarrow> Timestamp option \<Rightarrow> ('o, QueryResult) ex" where
  "exec_clone ev security db schema clone_table source_table at_timestamp =
     ex_bind (role_exists ev security) (\<lambda>_.
     ex_bind (ex_query (find_table (ev_fx ev) db schema source_table)) (\<lambda>source_meta.
     ex_bind (case at_timestamp of
                Some ts \<Rightarrow> ex_query (get_mps_at_timestamp (ev_fx ev) (tbl_id source_meta) ts)
              | None \<Rightarrow> ex_query (get_active_mps (ev_fx ev) (tbl_id source_meta))) (\<lambda>source_mps.
     ex_bind (now_micros ev) (\<lambda>now.
     ex_bind (ex_op (create_table
        \<lparr>tbl_id = 0, tbl_db_id = tbl_db_id source_meta, tbl_schema_id = tbl_schema_id source_meta, tbl_name = clone_table,
         tbl_columns = tbl_columns source_meta, tbl_created_at = now, tbl_owner = tbl_owner source_meta,
         tbl_comment = Some (''Clone of '' @ source_table), tbl_version = 0, tbl_properties = tbl_properties source_meta\<rparr>)) (\<lambda>_.
     ex_bind (ex_query (find_table (ev_fx ev) db schema clone_table)) (\<lambda>created.
     ex_bind (own ev security (object_ref OT_Table (tbl_id created))) (\<lambda>_.
     ex_bind (ex_for (\<lambda>mp. ex_op (insert_mp (ev_fx ev) (clone_mp (tbl_id created) mp))) source_mps) (\<lambda>_.
     ex_bind (ex_timed ev (\<lambda>t. create_clone
        \<lparr>cl_clone_table_id = tbl_id created, cl_source_table_id = tbl_id source_meta, cl_clone_ts = t\<rparr>)) (\<lambda>_.
     success (''Table '' @ clone_table @ '' cloned from '' @ source_table @ '' ('' @ show_nat (length source_mps) @ '' MPs, zero-copy)''))))))))))"

subsection \<open>Streams\<close>

definition exec_create_stream ::
  "('b, 'o) exec_env \<Rightarrow> SecurityContext \<Rightarrow> string \<Rightarrow> string \<Rightarrow> string \<Rightarrow> string \<Rightarrow> bool \<Rightarrow> ('o, QueryResult) ex" where
  "exec_create_stream ev security db schema stream_name table append_only =
     ex_bind (role_exists ev security) (\<lambda>_.
     ex_bind (ex_query (find_table (ev_fx ev) db schema table)) (\<lambda>table_meta.
     ex_bind (new_id ev) (\<lambda>stream_id.
     ex_bind (now_micros ev) (\<lambda>now.
     ex_bind (ex_query (get_table_change_sequence (tbl_id table_meta))) (\<lambda>current_sequence.
     ex_bind (ex_op (create_stream (ev_fx ev)
        \<lparr>str_stream_id = stream_id, str_db_id = tbl_db_id table_meta, str_schema_id = tbl_schema_id table_meta,
         str_source_table_id = tbl_id table_meta, str_name = stream_name, str_created_at = now, str_updated_at = now,
         str_owner_role_id = sec_primary_role_id security, str_comment = None, str_stale_after = None, str_dropped = False\<rparr>)) (\<lambda>_.
     ex_bind (ex_op (set_stream_offset stream_id
        \<lparr>off_table_id = tbl_id table_meta, off_committed_sequence = current_sequence, off_committed_ts = now,
         off_last_consumed_at = None, off_last_consumed_txn_id = None\<rparr>)) (\<lambda>_.
     ex_bind (own ev security (object_ref OT_Stream stream_id)) (\<lambda>_.
     success (''Stream '' @ quoted stream_name @ '' created on table '' @ quoted table @ '' (id='' @ show_u64 stream_id @ '')'')))))))))"

definition exec_drop_stream :: "('b, 'o) exec_env \<Rightarrow> SecurityContext \<Rightarrow> string \<Rightarrow> string \<Rightarrow> string \<Rightarrow> ('o, QueryResult) ex" where
  "exec_drop_stream ev security db schema name =
     ex_bind (ex_query (find_stream (ev_fx ev) db schema name)) (\<lambda>sm.
     ex_bind (ex_query (authorize_stream_ownership (ev_fx ev) security db schema sm)) (\<lambda>_.
     ex_bind (ex_op (drop_stream (ev_fx ev) (str_stream_id sm))) (\<lambda>_.
     success (''Stream '' @ dotted db schema name @ '' dropped''))))"

definition show_stream_row :: "('b, 'o) exec_env \<Rightarrow> SecurityContext \<Rightarrow> string option \<Rightarrow> StreamMeta \<Rightarrow> string list list query" where
  "show_stream_row ev security pattern sm s =
     (if (case pattern of Some p \<Rightarrow> \<not> sql_like_matches (str_name sm) p | None \<Rightarrow> False) then Ok []
      else
        and_then (exec_has_privilege (ev_fx ev) security (object_ref OT_Stream (str_stream_id sm)) SP_Select s) (\<lambda>b.
        if \<not> b then Ok []
        else
          and_then (get_table (str_db_id sm) (str_schema_id sm) (str_source_table_id sm) s) (\<lambda>t.
          case t of
            None \<Rightarrow> Ok []
          | Some source \<Rightarrow>
              and_then (exec_has_privilege (ev_fx ev) security (object_ref OT_Table (tbl_id source)) SP_Select s) (\<lambda>b2.
              Ok (if b2 then [[str_name sm, show_u64 (str_stream_id sm), tbl_name source, show_u64 (str_source_table_id sm),
                               show_u64 (str_created_at sm), (case str_stale_after sm of Some ts \<Rightarrow> show_u64 ts | None \<Rightarrow> '''')]]
                  else [])))))"

definition exec_show_streams :: "('b, 'o) exec_env \<Rightarrow> SecurityContext \<Rightarrow> string \<Rightarrow> string \<Rightarrow> string option \<Rightarrow> ('o, QueryResult) ex" where
  "exec_show_streams ev security db schema pattern =
     ex_bind (ex_query (find_database (ev_fx ev) db)) (\<lambda>db_meta.
     ex_bind (ex_query (find_schema_meta (ev_fx ev) (dbm_id db_meta) schema)) (\<lambda>schema_meta.
     ex_bind (need ev security (object_ref OT_Database (dbm_id db_meta)) SP_Usage) (\<lambda>_.
     ex_bind (need ev security (object_ref OT_Schema (sch_id schema_meta)) SP_Usage) (\<lambda>_.
     ex_bind (ex_query (list_streams (ev_fx ev) (dbm_id db_meta) (sch_id schema_meta))) (\<lambda>streams.
     ex_bind (ex_query (\<lambda>s. collect_results (\<lambda>sm. show_stream_row ev security pattern sm s) streams)) (\<lambda>rows.
     ex_ret (QR_Rows [''name'', ''stream_id'', ''source_table'', ''source_table_id'', ''created_at'', ''stale_after''] (concat rows))))))))"

definition exec_describe_stream :: "('b, 'o) exec_env \<Rightarrow> SecurityContext \<Rightarrow> string \<Rightarrow> string \<Rightarrow> string \<Rightarrow> ('o, QueryResult) ex" where
  "exec_describe_stream ev security db schema name =
     ex_bind (ex_query (find_stream (ev_fx ev) db schema name)) (\<lambda>sm.
     ex_bind (ex_query (authorize_stream_read (ev_fx ev) security db schema sm)) (\<lambda>source.
     ex_bind (ex_query (get_stream_offset (str_stream_id sm))) (\<lambda>offset.
     ex_ret (QR_Rows [''name'', ''stream_id'', ''source_table'', ''source_table_id'', ''owner_role_id'', ''created_at'', ''updated_at'', ''committed_sequence'']
       [[str_name sm, show_u64 (str_stream_id sm), tbl_name source, show_u64 (str_source_table_id sm), show_u64 (str_owner_role_id sm),
         show_u64 (str_created_at sm), show_u64 (str_updated_at sm),
         (case offset of Some off \<Rightarrow> show_u64 (off_committed_sequence off) | None \<Rightarrow> ''0'')]]))))"

subsection \<open>Garbage collection\<close>

definition gc_mp :: "('b, 'o) exec_env \<Rightarrow> Timestamp \<Rightarrow> MicroPartitionMeta \<Rightarrow> u64 \<Rightarrow> ('o, u64) ex" where
  "gc_mp ev cutoff_ts mp deleted =
     (if mpm_superseded_by mp \<noteq> None \<and> mpm_commit_ts mp < cutoff_ts
      then ex_bind (ex_op (delete_mp (ev_fx ev) (mpm_id mp))) (\<lambda>_. ex_ret (deleted + 1))
      else ex_ret deleted)"

definition gc_internal :: "('b, 'o) exec_env \<Rightarrow> u32 \<Rightarrow> ('o, u64) ex" where
  "gc_internal ev retention_days =
     ex_bind (now_micros ev) (\<lambda>now.
     let cutoff_ts = sat_sub now (ucast retention_days * 86400 * 1000000) in
     ex_bind (ex_query (list_databases (ev_fx ev))) (\<lambda>dbs.
     ex_fold (\<lambda>db deleted1.
       ex_bind (ex_query (list_schemas (ev_fx ev) (dbm_id db))) (\<lambda>schemas.
       ex_fold (\<lambda>schema deleted2.
         ex_bind (ex_query (list_tables (ev_fx ev) (dbm_id db) (sch_id schema))) (\<lambda>tables.
         ex_fold (\<lambda>table deleted3.
           ex_bind (ex_query (get_active_mps (ev_fx ev) (tbl_id table))) (\<lambda>mps.
           ex_fold (gc_mp ev cutoff_ts) mps deleted3)) tables deleted2)) schemas deleted1)) dbs 0))"

definition exec_gc :: "('b, 'o) exec_env \<Rightarrow> u32 \<Rightarrow> ('o, QueryResult) ex" where
  "exec_gc ev retention_days =
     ex_bind (gc_internal ev retention_days) (\<lambda>deleted.
     success (''GC: deleted '' @ show_u64 deleted @ '' expired MPs (retention='' @ show_nat (unat retention_days) @ ''d)''))"

subsection \<open>Dynamic tables\<close>

text \<open>The statements that act on a dynamic table take the first of that name in the database.\<close>

definition named_dynamic_table :: "fdb \<Rightarrow> string \<Rightarrow> string \<Rightarrow> DynamicTableMeta query" where
  "named_dynamic_table fx db name s =
     and_then (find_database fx db s) (\<lambda>db_meta.
     and_then (list_dynamic_tables fx (dbm_id db_meta) s) (\<lambda>dts.
     ok_or (Internal (''dynamic table '' @ quoted name @ '' not found'')) (find (\<lambda>d. dtm_name d = name) dts)))"

definition dynamic_table_uses_source_watermark :: "DynamicTableMeta \<Rightarrow> bool" where
  "dynamic_table_uses_source_watermark dt = (dtm_refresh_mode dt = DtAuto \<or> dtm_refresh_mode dt = DtIncremental)"

definition dynamic_table_source_backlog_watermark :: "fdb \<Rightarrow> DynamicTableMeta \<Rightarrow> Timestamp option query" where
  "dynamic_table_source_backlog_watermark fx dt s =
     and_then (get_active_mps fx (dtm_output_table_id dt) s) (\<lambda>mps.
     Ok (case map mpm_commit_ts mps of [] \<Rightarrow> None | t # ts \<Rightarrow> Some (fold max ts t)))"

text \<open>
  The tables DataFusion sees: every table of every database with a partition the refresh reads.
  A listing that fails counts as empty.
\<close>

definition or_empty :: "('e, 'a list) result \<Rightarrow> 'a list" where
  "or_empty r = (case r of Inr xs \<Rightarrow> xs | Inl _ \<Rightarrow> [])"

definition registered_tables :: "fdb \<Rightarrow> (MicroPartitionMeta \<Rightarrow> bool) \<Rightarrow> store \<Rightarrow> registration list" where
  "registered_tables fx wanted s =
     [(tbl_name table, table, mps).
        db \<leftarrow> or_empty (list_databases fx s), schema \<leftarrow> or_empty (list_schemas fx (dbm_id db) s),
        table \<leftarrow> or_empty (list_tables fx (dbm_id db) (sch_id schema) s),
        mps \<leftarrow> [filter wanted (or_empty (get_active_mps fx (tbl_id table) s))], mps \<noteq> []]"

fun refresh_error :: "df_error \<Rightarrow> NovaError" where
  "refresh_error (DfTable m) = Internal m"
| "refresh_error (DfRegister m) = Internal m"
| "refresh_error (DfPlan m) = Internal m"
| "refresh_error (DfCollect m) = Internal m"

text \<open>Running the query and writing one partition per batch of its result.\<close>

definition run_refresh_query :: "('b, 'o) exec_env \<Rightarrow> registration list \<Rightarrow> string \<Rightarrow> ('o, 'b list) ex" where
  "run_refresh_query ev tables sql = ex_obj (\<lambda>ob. (map_err (\<lambda>e. Fail (refresh_error e)) (ev_sql ev tables [] sql ob), ob))"

definition append_output :: "('b, 'o) exec_env \<Rightarrow> TableId \<Rightarrow> 'b \<Rightarrow> ('o, unit) ex" where
  "append_output ev output_table_id batch =
     ex_bind (ex_obj (mp_write (ev_plane ev) (ev_writer ev) output_table_id 0 0 [batch] 1)) (\<lambda>mp_meta.
     ex_op (insert_mp (ev_fx ev) mp_meta))"

definition supersede_output :: "('b, 'o) exec_env \<Rightarrow> MicroPartitionMeta list \<Rightarrow> MicroPartitionMeta \<Rightarrow> ('o, unit) ex" where
  "supersede_output ev new_mps old =
     (case find (\<lambda>n. mpm_id n \<noteq> mpm_id old) new_mps of
        None \<Rightarrow> ex_ret ()
      | Some new \<Rightarrow> ex_bind (ex_try (ex_op (mark_superseded (mpm_id old) (mpm_id new)))) (\<lambda>_. ex_ret ()))"

definition do_full_refresh :: "('b, 'o) exec_env \<Rightarrow> string \<Rightarrow> TableId \<Rightarrow> ('o, u64) ex" where
  "do_full_refresh ev query_definition output_table_id =
     ex_bind (ex_query (\<lambda>s. Ok (registered_tables (ev_fx ev) (\<lambda>_. True) s))) (\<lambda>tables.
     ex_bind (run_refresh_query ev tables query_definition) (\<lambda>batches.
     ex_bind (ex_for (append_output ev output_table_id) batches) (\<lambda>_.
     ex_bind (ex_query (get_active_mps (ev_fx ev) output_table_id)) (\<lambda>old_mps.
     ex_bind (ex_query (get_active_mps (ev_fx ev) output_table_id)) (\<lambda>new_mps.
     ex_bind (ex_for (supersede_output ev new_mps) old_mps) (\<lambda>_.
     ex_ret (total_rows (ev_plane ev) batches)))))))"

definition do_incremental_refresh :: "('b, 'o) exec_env \<Rightarrow> string \<Rightarrow> TableId \<Rightarrow> u64 \<Rightarrow> ('o, u64) ex" where
  "do_incremental_refresh ev query_definition output_table_id last_ts =
     ex_bind (ex_query (\<lambda>s. Ok (registered_tables (ev_fx ev) (\<lambda>mp. mpm_commit_ts mp > last_ts) s))) (\<lambda>tables.
     if tables = [] then ex_ret 0
     else
       ex_bind (run_refresh_query ev tables query_definition) (\<lambda>batches.
       ex_bind (ex_for (append_output ev output_table_id) batches) (\<lambda>_.
       ex_ret (total_rows (ev_plane ev) batches))))"

definition use_incremental :: "DtRefreshMode \<Rightarrow> string \<Rightarrow> bool" where
  "use_incremental refresh_mode query_definition =
     (case refresh_mode of
        DtIncremental \<Rightarrow> True
      | DtFull \<Rightarrow> False
      | DtAuto \<Rightarrow> list_all (\<lambda>w. \<not> contains_str (to_ascii_uppercase query_definition) w)
          [''GROUP BY'', ''COUNT('', ''SUM('', ''AVG('', ''MIN('', ''MAX('', ''DISTINCT'', ''HAVING'', ''OVER (''])"

definition exec_refresh_dynamic_table_by_id ::
  "('b, 'o) exec_env \<Rightarrow> TableId \<Rightarrow> string \<Rightarrow> TableId \<Rightarrow> DtRefreshMode \<Rightarrow> ('o, u64) ex" where
  "exec_refresh_dynamic_table_by_id ev dt_id query_definition output_table_id refresh_mode =
     (if use_incremental refresh_mode query_definition
      then do_incremental_refresh ev query_definition output_table_id 0
      else do_full_refresh ev query_definition output_table_id)"

definition exec_refresh_dynamic_table_meta :: "('b, 'o) exec_env \<Rightarrow> DynamicTableMeta \<Rightarrow> ('o, QueryResult) ex" where
  "exec_refresh_dynamic_table_meta ev dt =
     ex_bind (ex_op (begin_dynamic_table_refresh dt)) (\<lambda>started.
     ex_bind (ex_try (exec_refresh_dynamic_table_by_id ev (dtm_id started) (dtm_query_definition started)
        (dtm_output_table_id started) (dtm_refresh_mode started))) (\<lambda>result.
     case result of
       Inr rows \<Rightarrow>
         ex_bind (ex_timed ev (\<lambda>t. finish_dynamic_table_refresh t started)) (\<lambda>_.
         success (''Dynamic table refreshed ('' @ show_u64 rows @ '' rows)''))
     | Inl err \<Rightarrow>
         ex_bind (now_micros ev) (\<lambda>now.
         ex_bind (ex_op (update_dynamic_table (started\<lparr>dtm_refresh_status := DtFailed (show_error (ev_error_text ev) err),
            dtm_last_refresh_ts := Some now\<rparr>))) (\<lambda>_.
         ex_fail err))))"

definition exec_refresh_dynamic_table :: "('b, 'o) exec_env \<Rightarrow> string \<Rightarrow> string \<Rightarrow> string \<Rightarrow> ('o, QueryResult) ex" where
  "exec_refresh_dynamic_table ev db schema name =
     ex_bind (ex_query (named_dynamic_table (ev_fx ev) db name)) (\<lambda>dt0.
     let dt = dt0\<lparr>dtm_refresh_status := DtRunning\<rparr> in
     ex_bind (ex_op (update_dynamic_table dt)) (\<lambda>_.
     ex_bind (ex_try (exec_refresh_dynamic_table_by_id ev (dtm_id dt) (dtm_query_definition dt)
        (dtm_output_table_id dt) (dtm_refresh_mode dt))) (\<lambda>result.
     ex_bind (now_micros ev) (\<lambda>now.
     ex_bind (ex_op (update_dynamic_table (dt\<lparr>dtm_refresh_status :=
          (case result of Inr _ \<Rightarrow> DtSuccess | Inl e \<Rightarrow> DtFailed (show_error (ev_error_text ev) e)),
        dtm_last_refresh_ts := Some now\<rparr>))) (\<lambda>_.
     case result of
       Inr rows \<Rightarrow> success (''Dynamic table '' @ quoted name @ '' refreshed ('' @ show_u64 rows @ '' rows)'')
     | Inl e \<Rightarrow> ex_fail e)))))"

definition exec_create_dynamic_table ::
  "('b, 'o) exec_env \<Rightarrow> SecurityContext \<Rightarrow> string \<Rightarrow> string \<Rightarrow> string \<Rightarrow> string \<Rightarrow> u64 \<Rightarrow> DtRefreshMode \<Rightarrow> bool \<Rightarrow>
   ('o, QueryResult) ex" where
  "exec_create_dynamic_table ev security db schema name query_definition target_lag_seconds refresh_mode initialize_on_create =
     ex_bind (role_exists ev security) (\<lambda>_.
     ex_bind (ex_query (find_database (ev_fx ev) db)) (\<lambda>db_meta.
     ex_bind (ex_query (\<lambda>s. and_then (list_schemas (ev_fx ev) (dbm_id db_meta) s)
        (\<lambda>ss. ok_or (Internal (''schema '' @ quoted schema @ '' not found'')) (find (\<lambda>sc. sch_name sc = schema) ss)))) (\<lambda>schema_meta.
     ex_bind (new_id ev) (\<lambda>output_table_id.
     ex_bind (now_micros ev) (\<lambda>now1.
     ex_bind (ex_op (create_table
        \<lparr>tbl_id = output_table_id, tbl_db_id = dbm_id db_meta, tbl_schema_id = sch_id schema_meta, tbl_name = ''__dt_output_'' @ name,
         tbl_columns = [], tbl_created_at = now1, tbl_owner = 1, tbl_comment = Some (''Dynamic table output for '' @ name),
         tbl_version = 0, tbl_properties = Map.empty\<rparr>)) (\<lambda>_.
     ex_bind (own ev security (object_ref OT_Table output_table_id)) (\<lambda>_.
     ex_bind (new_id ev) (\<lambda>new_dt_id.
     ex_bind (now_micros ev) (\<lambda>now2.
     ex_bind (ex_try (ex_op (create_dynamic_table
        \<lparr>dtm_id = new_dt_id, dtm_db_id = dbm_id db_meta, dtm_schema_id = sch_id schema_meta, dtm_name = name,
         dtm_query_definition = query_definition, dtm_target_lag_seconds = max target_lag_seconds 60,
         dtm_refresh_mode = refresh_mode, dtm_initialize_on_create = initialize_on_create, dtm_output_table_id = output_table_id,
         dtm_last_refresh_ts = None, dtm_refresh_status = DtPending, dtm_comment = None, dtm_created_at = now2,
         dtm_scheduler_enabled = True\<rparr>))) (\<lambda>stored.
     case stored of
       Inl err \<Rightarrow> ex_bind (ex_try (ex_op (drop_table (ev_fx ev) output_table_id))) (\<lambda>_. ex_fail err)
     | Inr _ \<Rightarrow>
         ex_bind (ex_query (\<lambda>s. and_then (list_dynamic_tables (ev_fx ev) (dbm_id db_meta) s)
            (\<lambda>dts. ok_or (Internal (''dynamic table '' @ quoted name @ '' was not created''))
               (find (\<lambda>dt. dtm_schema_id dt = sch_id schema_meta \<and> dtm_name dt = name) dts)))) (\<lambda>dt.
         ex_bind (own ev security (object_ref OT_DynamicTable (dtm_id dt))) (\<lambda>_.
         ex_bind (if initialize_on_create
                  then ex_bind (ex_try (exec_refresh_dynamic_table_by_id ev (dtm_id dt) query_definition output_table_id refresh_mode))
                         (\<lambda>_. ex_ret ())
                  else ex_ret ()) (\<lambda>_.
         success (''Dynamic table '' @ quoted name @ '' created (lag='' @ show_u64 target_lag_seconds @ ''s, mode='' @
           dt_refresh_mode_name refresh_mode @ '')''))))))))))))))"

definition exec_set_dt_scheduler :: "('b, 'o) exec_env \<Rightarrow> string \<Rightarrow> string \<Rightarrow> string \<Rightarrow> bool \<Rightarrow> ('o, QueryResult) ex" where
  "exec_set_dt_scheduler ev db schema name enabled =
     ex_bind (ex_query (named_dynamic_table (ev_fx ev) db name)) (\<lambda>dt.
     ex_bind (ex_op (update_dynamic_table (dt\<lparr>dtm_scheduler_enabled := enabled\<rparr>))) (\<lambda>_.
     success (''Dynamic table '' @ quoted name @ '' scheduler '' @ (if enabled then ''RESUMED'' else ''SUSPENDED''))))"

definition exec_drop_dynamic_table :: "('b, 'o) exec_env \<Rightarrow> string \<Rightarrow> string \<Rightarrow> string \<Rightarrow> ('o, QueryResult) ex" where
  "exec_drop_dynamic_table ev db schema name =
     ex_bind (ex_query (named_dynamic_table (ev_fx ev) db name)) (\<lambda>dt.
     ex_bind (ex_query (\<lambda>s. Ok (or_empty (get_active_mps (ev_fx ev) (dtm_output_table_id dt) s)))) (\<lambda>mps.
     ex_bind (ex_for (\<lambda>mp. ex_bind (ex_try (ex_op (delete_mp (ev_fx ev) (mpm_id mp)))) (\<lambda>_. ex_ret ())) mps) (\<lambda>_.
     ex_bind (ex_try (ex_op (drop_table (ev_fx ev) (dtm_output_table_id dt)))) (\<lambda>_.
     ex_bind (ex_op (drop_dynamic_table (dtm_id dt))) (\<lambda>_.
     success (''Dynamic table '' @ quoted name @ '' dropped''))))))"

definition dynamic_table_row :: "DynamicTableMeta \<Rightarrow> string list" where
  "dynamic_table_row dt =
     [dtm_name dt, dt_refresh_mode_name (dtm_refresh_mode dt), show_u64 (dtm_target_lag_seconds dt),
      (case dtm_last_refresh_ts dt of Some t \<Rightarrow> show_u64 t | None \<Rightarrow> ''never''), dt_refresh_status_name (dtm_refresh_status dt),
      (if dtm_scheduler_enabled dt then ''enabled'' else ''disabled'')]"

definition exec_show_dynamic_tables :: "('b, 'o) exec_env \<Rightarrow> SecurityContext \<Rightarrow> string \<Rightarrow> string option \<Rightarrow> ('o, QueryResult) ex" where
  "exec_show_dynamic_tables ev security db pattern =
     ex_bind (ex_query (find_database (ev_fx ev) db)) (\<lambda>db_meta.
     ex_bind (ex_query (list_dynamic_tables (ev_fx ev) (dbm_id db_meta))) (\<lambda>dts.
     ex_bind (ex_query (\<lambda>s. keep_if (\<lambda>dt.
          and_then (exec_has_privilege (ev_fx ev) security (object_ref OT_Schema (dtm_schema_id dt)) SP_Usage s) (\<lambda>has_schema_usage.
          and_then (exec_has_privilege (ev_fx ev) security (object_ref OT_DynamicTable (dtm_id dt)) SP_Usage s) (\<lambda>has_object_usage.
          Ok (has_schema_usage \<or> has_object_usage))))
        (filter (\<lambda>dt. case pattern of Some p \<Rightarrow> contains_str (dtm_name dt) p | None \<Rightarrow> True) dts))) (\<lambda>shown.
     ex_ret (QR_Rows [''name'', ''refresh_mode'', ''target_lag_s'', ''last_refresh_ts'', ''status'', ''scheduler'']
       (map dynamic_table_row shown)))))"

subsection \<open>Garbage collection removes nothing\<close>

text \<open>
  The sweep looks for superseded partitions among the active ones, and an active partition is
  never superseded: whatever the retention period, the sweep deletes nothing and reports 0.
\<close>

lemma active_current:
  assumes "get_active_mps fx t s = Ok mps" "mp \<in> set mps"
  shows "mpm_superseded_by mp = None"
proof -
  from assms obtain kvs xss xs where run: "collect_results (\<lambda>kv. load_indexed fx is_current kv s) kvs = Ok xss"
    and xs: "xs \<in> set xss" "mp \<in> set xs" by (auto simp: get_active_mps_def and_then_Inr_iff)
  from collect_results_mem [OF run xs(1)] obtain kv where "load_indexed fx is_current kv s = Ok xs" by blast
  with xs(2) show ?thesis
    by (auto simp: load_indexed_def and_then_Inr_iff is_current_def split: option.splits if_splits)
qed

lemma gc_mps_none: "\<forall>mp \<in> set mps. mpm_superseded_by mp = None \<Longrightarrow> ex_fold (gc_mp ev cutoff) mps n st = (Ok n, st)"
  by (induction mps) (auto simp: ex_bind_def gc_mp_def)

definition gc_idle :: "(u64 \<Rightarrow> ('o, u64) ex) \<Rightarrow> bool" where
  "gc_idle f \<longleftrightarrow> (\<forall>n st r st'. f n st = (r, st') \<longrightarrow> st' = st \<and> (\<forall>m. r = Ok m \<longrightarrow> m = n))"

lemma gc_idle_fold: "(\<And>x. gc_idle (f x)) \<Longrightarrow> gc_idle (ex_fold f xs)"
proof (induction xs)
  case (Cons x xs)
  then have "gc_idle (ex_fold f xs)" "gc_idle (f x)" by blast+
  then show ?case unfolding gc_idle_def ex_fold.simps ex_bind_def
    by (clarsimp split: prod.splits sum.splits) metis
qed (simp add: gc_idle_def)

lemma gc_idle_query:
  "(\<And>s x. q s = Ok x \<Longrightarrow> gc_idle (g x)) \<Longrightarrow> gc_idle (\<lambda>n. ex_bind (ex_query q) (\<lambda>x. g x n))"
  by (fastforce simp: gc_idle_def ex_bind_def map_err_def split: prod.splits sum.splits)

lemma gc_deletes_nothing:
  assumes "gc_internal ev retention_days st = (r, st')"
  shows "xs_store st' = xs_store st \<and> (\<forall>n. r = Ok n \<longrightarrow> n = 0)"
proof -
  have mps: "gc_idle (ex_fold (gc_mp ev c) mps)" if "get_active_mps fx t s = Ok mps" for c fx t s mps
    using gc_mps_none [of mps ev c] active_current [OF that] by (simp add: gc_idle_def)
  let ?dbs = "\<lambda>c dbs. ex_fold (\<lambda>db deleted1.
       ex_bind (ex_query (list_schemas (ev_fx ev) (dbm_id db))) (\<lambda>schemas.
       ex_fold (\<lambda>schema deleted2.
         ex_bind (ex_query (list_tables (ev_fx ev) (dbm_id db) (sch_id schema))) (\<lambda>tables.
         ex_fold (\<lambda>table deleted3.
           ex_bind (ex_query (get_active_mps (ev_fx ev) (tbl_id table))) (\<lambda>mps.
           ex_fold (gc_mp ev c) mps deleted3)) tables deleted2)) schemas deleted1)) dbs"
  have "gc_idle (?dbs c dbs)" for c dbs by (intro gc_idle_fold gc_idle_query mps)
  then have "gc_idle (\<lambda>n. ex_bind (ex_query (list_databases (ev_fx ev))) (\<lambda>dbs. ?dbs c dbs n))" for c
    by (rule gc_idle_query)
  moreover have "ex_bind (ex_query (list_databases (ev_fx ev)))
      (\<lambda>dbs. ?dbs (sat_sub (ev_clock ev (xs_tick st)) (ucast retention_days * 86400 * 1000000)) dbs 0)
      (st\<lparr>xs_tick := xs_tick st + 1\<rparr>) = (r, st')"
    using assms unfolding gc_internal_def Let_def ex_bind_def [of "now_micros ev"] now_micros_def prod.case sum.case .
  ultimately have "st' = st\<lparr>xs_tick := xs_tick st + 1\<rparr> \<and> (\<forall>m. r = Ok m \<longrightarrow> m = 0)" unfolding gc_idle_def by blast
  then show ?thesis by simp
qed

subsection \<open>Clones share one identifier\<close>

text \<open>Every partition of a clone is written under identifier 0, so the last one replaces the others.\<close>

lemma clone_mps_collide: "mpm_id (clone_mp t mp) = 0 \<and> mpm_s3_path (clone_mp t mp) = mpm_s3_path mp"
  by (simp add: clone_mp_def)

subsection \<open>Dynamic tables by name\<close>

text \<open>
  The check of the rights on a dynamic table looks in its schema, the action takes the first
  table of that name in the database: with the same name in two schemas they differ.
\<close>

lemma dynamic_table_confused:
  assumes "find_database fx db s = Ok d" "find_schema_meta fx (dbm_id d) schema s = Ok sc"
    and "list_dynamic_tables fx (dbm_id d) s = Ok [other, mine]"
    and "dtm_name other = name" "dtm_name mine = name" "dtm_schema_id mine = sch_id sc" "dtm_schema_id other \<noteq> sch_id sc"
  shows "find_dynamic_table fx db schema name s = Ok mine" "named_dynamic_table fx db name s = Ok other"
  using assms by (simp_all add: find_dynamic_table_def named_dynamic_table_def)
end
