(* ===== verification/Coord_Background.thy ===== *)
theory Coord_Background
  imports Exec_Ddl
begin

text \<open>
  The background tasks of the coordinator: the transaction manager (\<^verbatim>\<open>txn_manager.rs\<close>), compaction
  (\<^verbatim>\<open>compaction.rs\<close>) and the scheduler of dynamic tables (\<^verbatim>\<open>dynamic_table_scheduler.rs\<close>). A task is a
  loop that sleeps and then runs one sweep; the sweep is modelled, the sleeping is not. Log
  output and the counters that only go into it are left out.

  The lemmas show what one merge of the compaction does to a table (its rows are gone), that
  a refresh of a dynamic table adds nothing visible, and when a dynamic table is due.
\<close>

subsection \<open>Transactions\<close>

datatype CommitResult = Committed Timestamp | Aborted string

definition txn_begin :: "('b, 'o) exec_env \<Rightarrow> ('o, TxnId \<times> Timestamp) ex" where
  "txn_begin ev =
     ex_bind (ex_timed ev begin_transaction) (\<lambda>txn_id.
     ex_bind (ex_query (\<lambda>s. and_then (get_transaction txn_id s)
        (ok_or (Internal (''transaction '' @ show_u64 txn_id @ '' not found after begin''))))) (\<lambda>txn.
     ex_ret (txn_id, tm_snapshot_ts txn)))"

definition txn_record_read :: "TxnId \<Rightarrow> MpId \<Rightarrow> unit query" where
  "txn_record_read txn_id mp_id s =
     and_then (and_then (get_transaction txn_id s)
       (ok_or (Internal (''transaction '' @ show_u64 txn_id @ '' not found'')))) (\<lambda>txn.
     if tm_status txn \<noteq> TxnActive then Err (Internal (''transaction '' @ show_u64 txn_id @ '' is not active'')) else Ok ())"

definition txn_commit :: "('b, 'o) exec_env \<Rightarrow> TxnId \<Rightarrow> ('o, CommitResult) ex" where
  "txn_commit ev txn_id =
     ex_bind (ex_query (\<lambda>s. and_then (get_transaction txn_id s)
        (ok_or (Internal (''transaction '' @ show_u64 txn_id @ '' not found''))))) (\<lambda>txn.
     if tm_status txn \<noteq> TxnActive then ex_ret (Aborted (''transaction '' @ show_u64 txn_id @ '' is not active''))
     else
       ex_bind (ex_timed ev (\<lambda>t. commit_transaction t txn_id)) (\<lambda>_.
       ex_bind (ex_query (\<lambda>s. and_then (get_transaction txn_id s)
          (ok_or (Internal (''transaction '' @ show_u64 txn_id @ '' not found after commit''))))) (\<lambda>committed_txn.
       ex_ret (Committed (case tm_commit_ts committed_txn of Some t \<Rightarrow> t | None \<Rightarrow> 0)))))"

definition txn_abort :: "TxnId \<Rightarrow> unit op" where
  "txn_abort txn_id = abort_transaction txn_id"

definition get_visible_mps :: "fdb \<Rightarrow> TableId \<Rightarrow> Timestamp \<Rightarrow> MicroPartitionMeta list query" where
  "get_visible_mps fx table_id snapshot_ts = get_mps_at_timestamp fx table_id snapshot_ts"

subsection \<open>Compaction\<close>

record CompactionConfig =
  cc_enabled :: bool
  cc_gc_interval_secs :: u64
  cc_gc_retention_days :: u32
  cc_merge_enabled :: bool
  cc_merge_interval_secs :: u64
  cc_merge_min_mps :: nat
  cc_merge_target_rows :: u64

definition compaction_default :: CompactionConfig where
  "compaction_default =
     \<lparr>cc_enabled = True, cc_gc_interval_secs = 3600, cc_gc_retention_days = 7, cc_merge_enabled = True,
      cc_merge_interval_secs = 7200, cc_merge_min_mps = 8, cc_merge_target_rows = 500000\<rparr>"

definition flush_batch :: "('b, 'o) exec_env \<Rightarrow> MicroPartitionMeta list \<Rightarrow> ('o, u64) ex" where
  "flush_batch ev batch =
     (if length batch < 2 then ex_ret 0
      else
        ex_bind (read_all_mps ev batch) (\<lambda>all_batches.
        if all_batches = [] then ex_ret 0
        else
          ex_bind (ex_pure (map_err Internal (ar_concat (ev_plane ev) (ar_fields (ev_plane ev) (hd all_batches)) all_batches))) (\<lambda>merged.
          ex_bind (ex_obj (mp_write (ev_plane ev) (ev_writer ev) (mpm_table_id (hd batch)) 0 0 [merged] (mpm_txn_id (hd batch)))) (\<lambda>new_mp.
          ex_bind (ex_for (\<lambda>old_mp. ex_op (mark_superseded (mpm_id old_mp) (mpm_id new_mp))) batch) (\<lambda>_.
          ex_ret (of_nat (length batch)))))))"

text \<open>Greedy packing: partitions are collected until they reach the target, then merged.\<close>

fun merge_mp_group ::
  "('b, 'o) exec_env \<Rightarrow> u64 \<Rightarrow> MicroPartitionMeta list \<Rightarrow> u64 \<Rightarrow> u64 \<Rightarrow> MicroPartitionMeta list \<Rightarrow> ('o, u64) ex" where
  "merge_mp_group ev target_rows batch_mps batch_rows superseded [] =
     (if length batch_mps \<ge> 2
      then ex_bind (flush_batch ev batch_mps) (\<lambda>n. ex_ret (superseded + n))
      else ex_ret superseded)"
| "merge_mp_group ev target_rows batch_mps batch_rows superseded (mp # candidates) =
     (if batch_rows + mpm_row_count mp \<ge> target_rows
      then ex_bind (flush_batch ev (batch_mps @ [mp])) (\<lambda>n. merge_mp_group ev target_rows [] 0 (superseded + n) candidates)
      else merge_mp_group ev target_rows (batch_mps @ [mp]) (batch_rows + mpm_row_count mp) superseded candidates)"

definition merge_table :: "('b, 'o) exec_env \<Rightarrow> nat \<Rightarrow> u64 \<Rightarrow> TableMeta \<Rightarrow> ('o, unit) ex" where
  "merge_table ev min_mps target_rows table =
     ex_bind (ex_query (get_active_mps (ev_fx ev) (tbl_id table))) (\<lambda>active_mps.
     if length active_mps < min_mps then ex_ret ()
     else
       let candidates = filter (\<lambda>mp. mpm_row_count mp < target_rows div 2) active_mps in
       if length candidates < 2 then ex_ret ()
       else ex_bind (merge_mp_group ev target_rows [] 0 0 candidates) (\<lambda>_. ex_ret ()))"

definition run_merge_sweep :: "('b, 'o) exec_env \<Rightarrow> nat \<Rightarrow> u64 \<Rightarrow> ('o, unit) ex" where
  "run_merge_sweep ev min_mps target_rows =
     ex_bind (ex_query (list_databases (ev_fx ev))) (\<lambda>dbs.
     ex_for (\<lambda>db.
       ex_bind (ex_query (list_schemas (ev_fx ev) (dbm_id db))) (\<lambda>schemas.
       ex_for (\<lambda>schema.
         ex_bind (ex_query (list_tables (ev_fx ev) (dbm_id db) (sch_id schema))) (\<lambda>tables.
         ex_for (merge_table ev min_mps target_rows) tables)) schemas)) dbs)"

text \<open>One round of the two tasks that \<^verbatim>\<open>start\<close> spawns; a sweep that fails is logged.\<close>

definition compaction_round :: "('b, 'o) exec_env \<Rightarrow> CompactionConfig \<Rightarrow> ('o, unit) ex" where
  "compaction_round ev cfg =
     (if \<not> cc_enabled cfg then ex_ret ()
      else
        ex_bind (ex_try (gc_internal ev (cc_gc_retention_days cfg))) (\<lambda>_.
        if cc_merge_enabled cfg
        then ex_bind (ex_try (run_merge_sweep ev (cc_merge_min_mps cfg) (cc_merge_target_rows cfg))) (\<lambda>_. ex_ret ())
        else ex_ret ()))"

subsection \<open>Refreshing dynamic tables\<close>

definition sat_mul :: "u64 \<Rightarrow> u64 \<Rightarrow> u64" where
  "sat_mul a b = (if unat a * unat b < 2 ^ 64 then a * b else - 1)"

definition dynamic_table_due_for_refresh :: "DynamicTableMeta \<Rightarrow> Timestamp \<Rightarrow> Timestamp option \<Rightarrow> bool \<Rightarrow> bool" where
  "dynamic_table_due_for_refresh dt now source_backlog_watermark uses_source_watermark =
     (let lag_micros = sat_mul (dtm_target_lag_seconds dt) 1000000 in
      if uses_source_watermark then
        (case (dtm_last_refresh_ts dt, source_backlog_watermark) of
           (None, _) \<Rightarrow> True
         | (Some last_ts, Some watermark) \<Rightarrow> watermark > last_ts \<and> sat_sub now watermark \<ge> lag_micros
         | _ \<Rightarrow> False)
      else
        (let last_ts = (case dtm_last_refresh_ts dt of Some t \<Rightarrow> t | None \<Rightarrow> 0) in
         sat_sub now last_ts \<ge> lag_micros))"

definition scheduler_visit :: "('b, 'o) exec_env \<Rightarrow> DynamicTableMeta \<Rightarrow> ('o, unit) ex" where
  "scheduler_visit ev dt =
     (if \<not> dtm_scheduler_enabled dt \<or> dtm_refresh_status dt = DtRunning then ex_ret ()
      else
        ex_bind (now_micros ev) (\<lambda>now.
        let uses = dynamic_table_uses_source_watermark dt in
        ex_bind (if uses then ex_try (ex_query (dynamic_table_source_backlog_watermark (ev_fx ev) dt)) else ex_ret (Ok None)) (\<lambda>w.
        let watermark = (case w of Inr x \<Rightarrow> x | Inl _ \<Rightarrow> None) in
        if dynamic_table_due_for_refresh dt now watermark uses
        then ex_bind (ex_try (exec_refresh_dynamic_table_meta ev dt)) (\<lambda>_. ex_ret ())
        else ex_ret ())))"

definition scheduler_tick :: "('b, 'o) exec_env \<Rightarrow> ('o, unit) ex" where
  "scheduler_tick ev =
     ex_bind (ex_query (\<lambda>s. Ok (or_empty (list_databases (ev_fx ev) s)))) (\<lambda>dbs.
     ex_for (\<lambda>db.
       ex_bind (ex_query (\<lambda>s. Ok (or_empty (list_dynamic_tables (ev_fx ev) (dbm_id db) s)))) (\<lambda>dts.
       ex_for (scheduler_visit ev) dts)) dbs)"

subsection \<open>A merge loses the rows it merges\<close>

text \<open>
  The merged partition is written to the object store, but its record is never stored; the
  partitions it was made from are marked as superseded by identifier 0. So a successful merge
  takes them out of the table and puts nothing in.
\<close>

lemma supersede_all:
  assumes "ex_for (\<lambda>old. ex_op (mark_superseded (mpm_id old) new)) batch st = (Ok u, st')"
    and "\<forall>mp \<in> set batch. db_get (xs_store st) (mp_key (mpm_id mp)) \<noteq> None"
  shows "active_mps (xs_store st') t = {mp \<in> active_mps (xs_store st) t. mpm_id mp \<notin> mpm_id ` set batch}"
  using assms
proof (induction batch arbitrary: st u)
  case (Cons b batch)
  from Cons.prems(1) obtain st1 where m: "ex_op (mark_superseded (mpm_id b) new) st = (Ok (), st1)"
    and rest: "ex_for (\<lambda>old. ex_op (mark_superseded (mpm_id old) new)) batch st1 = (Ok u, st')" by (auto simp: ex_bind_Ok)
  from m obtain old where old: "db_get (xs_store st) (mp_key (mpm_id b)) = Some (VMp old)"
    by (auto simp: ex_op_def mark_superseded_def op_bind_def op_query_def op_fail_def map_err_def get_mp_def get_record_def
        deserialize_def ok_or_def as_iff split: option.splits prod.splits sum.splits)
  have s1: "xs_store st1 = db_set (mp_key (mpm_id b)) (VMp (old\<lparr>mpm_superseded_by := Some new, mpm_active := False\<rparr>)) (xs_store st)"
    using m by (auto simp: ex_op_def mark_superseded_run [OF old])
  have "active_mps (xs_store st1) t = {mp \<in> active_mps (xs_store st) t. mpm_id mp \<noteq> mpm_id b}"
    unfolding s1 by (auto simp: active_mps_def indexed_mps_def is_current_def split: if_splits)
  moreover have "active_mps (xs_store st') t = {mp \<in> active_mps (xs_store st1) t. mpm_id mp \<notin> mpm_id ` set batch}"
    by (rule Cons.IH [OF rest]) (use Cons.prems(2) in \<open>auto simp: s1\<close>)
  ultimately show ?case by auto
qed simp

lemma flush_loses_rows:
  assumes "flush_batch ev batch st = (Ok n, st')" "n \<noteq> 0"
    and "\<forall>mp \<in> set batch. db_get (xs_store st) (mp_key (mpm_id mp)) \<noteq> None"
  shows "active_mps (xs_store st') t = {mp \<in> active_mps (xs_store st) t. mpm_id mp \<notin> mpm_id ` set batch}"
proof -
  from assms(1,2) obtain all_batches merged new st2 st1 where
    read: "read_all_mps ev batch st = (Ok all_batches, st2)"
    and wr: "ex_obj (mp_write (ev_plane ev) (ev_writer ev) (mpm_table_id (hd batch)) 0 0 [merged] (mpm_txn_id (hd batch))) st2 = (Ok new, st1)"
    and run: "ex_for (\<lambda>old. ex_op (mark_superseded (mpm_id old) (mpm_id new))) batch st1 = (Ok (), st')"
    by (auto simp: flush_batch_def ex_bind_Ok split: if_splits)
  have same: "xs_store st1 = xs_store st"
    using read wr by (auto simp: read_all_mps_def ex_obj_def split: prod.splits)
  show ?thesis using supersede_all [OF run] assms(3) by (simp add: same)
qed

text \<open>
  The partitions a refresh writes are stored as inactive, so a refresh of a dynamic table adds
  nothing that a query on its output table could see.
\<close>

lemma refresh_adds_nothing:
  assumes "append_output ev out batch st = (r, st')"
  shows "active_mps (xs_store st') t \<subseteq> active_mps (xs_store st) t"
proof (cases "mp_write (ev_plane ev) (ev_writer ev) out 0 0 [batch] 1 (xs_objects st)")
  case (Pair w ob)
  show ?thesis
  proof (cases w)
    case (Inl e)
    then have "xs_store st' = xs_store st" using assms Pair by (auto simp: append_output_def ex_bind_def ex_obj_def)
    then show ?thesis by simp
  next
    case (Inr mp)
    then have mp: "mpm_id mp = 0" "\<not> mpm_active mp"
      using Pair by (auto simp: mp_write_def split: if_splits sum.splits prod.splits)
    have "xs_store st' = db_set (table_mps_key (mpm_table_id mp) 0) (VBytes []) (db_set (mp_key 0) (VMp mp) (xs_store st))"
      using assms Pair Inr by (auto simp: append_output_def ex_bind_def ex_obj_def ex_op_def insert_mp_def db_run_def Let_def mp(1))
    then show ?thesis using mp by (auto simp: active_mps_def indexed_mps_def is_current_def split: if_splits)
  qed
qed

subsection \<open>When a dynamic table is due\<close>

lemma unat_sat_mul: "unat (sat_mul a b) = min (unat a * unat b) (2 ^ 64 - 1)"
proof (cases "unat a * unat b < 2 ^ 64")
  case True
  then have "unat (a * b) = unat a * unat b" using unat_mult_lem [of a b] by simp
  with True show ?thesis by (simp add: sat_mul_def)
next
  case False
  then show ?thesis by (simp add: sat_mul_def unat_max_u64)
qed

lemma waited_iff: "sat_sub now base \<ge> lag \<Longrightarrow> 0 < lag \<Longrightarrow> unat base + unat lag \<le> unat now"
  by (simp add: word_le_nat_alt word_less_nat_alt unat_sat_sub)

lemma waited_later: "sat_sub now base \<ge> lag \<Longrightarrow> now \<le> later \<Longrightarrow> sat_sub later base \<ge> lag"
  by (simp add: word_le_nat_alt unat_sat_sub)

text \<open>C38. A dynamic table with a positive lag that has been refreshed before is due only after its
  whole lag has passed since that refresh, even for lags and clock values at the end of their
  range where the arithmetic saturates; and a table that is due stays due until it is refreshed
  or its source moves.\<close>

theorem refresh_respects_lag:
  assumes "dtm_last_refresh_ts dt = Some last_ts" "0 < dtm_target_lag_seconds dt"
    and "dynamic_table_due_for_refresh dt now watermark uses_source_watermark" "now \<le> later"
  shows "unat last_ts + min (unat (dtm_target_lag_seconds dt) * 1000000) (2 ^ 64 - 1) \<le> unat now \<and>
     dynamic_table_due_for_refresh dt later watermark uses_source_watermark"
proof -
  let ?lag = "sat_mul (dtm_target_lag_seconds dt) 1000000"
  have lag: "unat ?lag = min (unat (dtm_target_lag_seconds dt) * 1000000) (2 ^ 64 - 1)" by (simp add: unat_sat_mul)
  have pos: "0 < ?lag" using assms(2) by (simp add: word_less_nat_alt lag)
  obtain base where base: "last_ts \<le> base" "sat_sub now base \<ge> ?lag"
    "\<And>n. sat_sub n base \<ge> ?lag \<Longrightarrow> dynamic_table_due_for_refresh dt n watermark uses_source_watermark"
  proof (cases uses_source_watermark)
    case True
    then obtain w where "watermark = Some w" "last_ts < w" "sat_sub now w \<ge> ?lag"
      using assms(1,3) by (auto simp: dynamic_table_due_for_refresh_def Let_def split: option.splits)
    with True assms(1) show ?thesis by (intro that [of w]) (simp_all add: dynamic_table_due_for_refresh_def Let_def)
  next
    case False
    with assms(1,3) show ?thesis by (intro that [of last_ts]) (simp_all add: dynamic_table_due_for_refresh_def Let_def)
  qed
  have "unat last_ts \<le> unat base" using base(1) by (simp add: word_le_nat_alt)
  with waited_iff [OF base(2) pos] have "unat last_ts + unat ?lag \<le> unat now" by linarith
  then show ?thesis using base(3) [OF waited_later [OF base(2) assms(4)]] lag by simp
qed

definition sample_dynamic :: DynamicTableMeta where
  "sample_dynamic = \<lparr>dtm_id = 1, dtm_db_id = 1, dtm_schema_id = 2, dtm_name = ''d'', dtm_query_definition = ''SELECT 1'',
     dtm_target_lag_seconds = 60, dtm_refresh_mode = DtFull, dtm_initialize_on_create = False, dtm_output_table_id = 8,
     dtm_last_refresh_ts = Some 5, dtm_refresh_status = DtSuccess, dtm_comment = None, dtm_created_at = 0,
     dtm_scheduler_enabled = True\<rparr>"

theorem refresh_respects_lag_witness:
  "dynamic_table_due_for_refresh sample_dynamic 70000000 None False \<and>
   unat (5 :: u64) + min (unat (60 :: u64) * 1000000) (2 ^ 64 - 1) \<le> unat (70000000 :: u64)"
proof -
  have due: "dynamic_table_due_for_refresh sample_dynamic 60000005 None False"
    by (simp add: dynamic_table_due_for_refresh_def sample_dynamic_def sat_mul_def sat_sub_def)
  have "dtm_last_refresh_ts sample_dynamic = Some 5" "0 < dtm_target_lag_seconds sample_dynamic" "(60000005 :: u64) \<le> 70000000"
    by (simp_all add: sample_dynamic_def)
  from refresh_respects_lag [OF this(1,2) due this(3)] show ?thesis by (simp add: sample_dynamic_def)
qed
end
