(* ===== verification/Exec_Stream.thy ===== *)
theory Exec_Stream
  imports Exec_Dml
begin

text \<open>
  A committed read of a stream delivers every change once: the read sees exactly the changes
  between the offset of the stream and the watermark of its table, and moves the offset to the
  watermark. An offset is always a watermark of the past: CREATE STREAM takes the current one
  and a read leaves the one it read up to.
\<close>

subsection \<open>The walk over the records\<close>

lemma walk_publish:
  "published_walk n p rs =
     publish_through n p (map (\<lambda>r. (cr_sequence r, change_end r)) (filter (\<lambda>r. cpr_row_count (cr_payload r) \<noteq> 0) rs))"
  by (induction n p rs rule: published_walk.induct) simp_all

lemma publish_maximal:
  assumes "w \<noteq> - 1" "chain w rs"
  shows "(sat_add (publish_through (sat_add w 1) w rs) 1, e) \<notin> set rs"
  using assms
proof (induction w rs rule: chain.induct)
  case (2 w a b rs)
  then have wab: "w < a" "a \<le> b" "b \<noteq> - 1" "chain b rs" by simp_all
  note nxt = sat_add_one [OF "2.prems"(1)]
  have skip: "\<not> b < sat_add w 1" using wab(1,2) by (simp add: word_less_nat_alt word_le_nat_alt nxt)
  have above: "b < c" if "(c, d) \<in> set rs" for c d using chain_above [OF wab(4) that] by simp
  show ?case
  proof (cases "a > sat_add w 1")
    case True
    then have "publish_through (sat_add w 1) w ((a, b) # rs) = w" using skip by simp
    moreover have "(sat_add w 1, e) \<notin> set rs" using above [of "sat_add w 1" e] True wab(2) by auto
    ultimately show ?thesis using True by auto
  next
    case False
    let ?p = "publish_through (sat_add b 1) b rs"
    have p: "publish_through (sat_add w 1) w ((a, b) # rs) = ?p" using skip False by simp
    have "a \<le> ?p" "?p \<noteq> - 1" using publish_chain(1,4) [OF wab(3,4)] wab(2) by simp_all
    then have "a \<noteq> sat_add ?p 1" using sat_add_one [of ?p] by (auto simp: word_le_nat_alt)
    with "2.IH" [OF wab(3,4)] show ?thesis unfolding p by auto
  qed
qed simp

subsection \<open>Offsets are past watermarks\<close>

definition boundary :: "store \<Rightarrow> TableId \<Rightarrow> u64 \<Rightarrow> bool" where
  "boundary s t c \<longleftrightarrow> c \<le> published s t \<and>
     (\<forall>a n. (t, a, n) \<in> logged s \<longrightarrow> unat a + unat n \<le> Suc (unat c) \<or> c < a)"

lemma boundary_watermark: "cdc_inv s A \<Longrightarrow> boundary s t (published s t)"
  unfolding boundary_def using cdc_invD(8) by blast

lemma boundary_step:
  assumes "cdc_step fx \<sigma> \<sigma>'" "cdc_inv (fst \<sigma>) (snd \<sigma>)" "boundary (fst \<sigma>) t c"
  shows "boundary (fst \<sigma>') t c"
  using assms(1)
proof (cases rule: cdc_step.cases)
  case (allocate u n s a s' A)
  with assms have inv: "cdc_inv s A" and b: "boundary s t c" by simp_all
  have "s' = db_set (next_seq_key u) (u64_bytes (sat_add (allocated s u) n)) s"
    using allocate(3) allocate_run [OF cdc_invD(1) [OF inv], of fx u n] by simp
  then have "logged s' = logged s" by (simp add: logged_def)
  with b allocate(2) cdc_allocate(2) [OF inv allocate(4,5,3), of t] show ?thesis by (simp add: boundary_def)
next
  case (commit now x mps sups rs s s' A)
  with assms have inv: "cdc_inv s A" and b: "boundary s t c" by simp_all
  then have B: "cdc_batch s A rs" using commit by (simp add: cdc_batch_def)
  have p: "published s t \<noteq> - 1"
    using cdc_invD(5,6) [OF inv, of t] word_order.extremum_unique [of "allocated s t"] by auto
  have le: "published s t \<le> published s' t"
    using publish_chain(1) [OF p batch_chain [OF B]] commit_counters(1) [OF B commit(3), of t] by simp
  have "c < a" if "(t, a, n) \<in> alloc_of ` set rs" for a n
  proof -
    from that commit(5) have "(t, a, n) \<in> A" by blast
    from pending_above [OF inv this] b show ?thesis by (auto simp: boundary_def)
  qed
  with b le have "boundary s' t c" unfolding boundary_def commit_logged [OF B commit(3)] by auto
  with commit(2) show ?thesis by simp
next
  case (abandon s A y)
  with assms(3) show ?thesis by simp
next
  case (other s' s A)
  with assms(3) same_cdcD(1,5) [OF other(4)] show ?thesis by (simp add: boundary_def)
qed

lemma boundary_reachable:
  assumes "(cdc_step fx)\<^sup>*\<^sup>* \<sigma> \<sigma>'" "cdc_inv (fst \<sigma>) (snd \<sigma>)" "boundary (fst \<sigma>) t c"
  shows "boundary (fst \<sigma>') t c"
  using assms(1)
proof (induction rule: rtranclp_induct)
  case (step \<tau> \<tau>')
  with boundary_step [OF step(2) cdc_reachable [OF step(1) assms(2)]] show ?case by blast
qed (use assms(3) in simp)

subsection \<open>The window of a read\<close>

lemma logged_end:
  assumes "cdc_inv s A" "alloc_of r \<in> logged s"
  shows "unat (change_end r) + 1 = unat (cr_sequence r) + unat (cpr_row_count (cr_payload r))"
    "cr_sequence r \<le> change_end r" "change_end r \<noteq> - 1" "cpr_row_count (cr_payload r) \<noteq> 0"
proof -
  let ?a = "unat (cr_sequence r)" and ?n = "unat (cpr_row_count (cr_payload r))" and ?m = "unat (allocated s (cr_table_id r))"
  from cdc_invD(3) [OF assms(1), of "cr_table_id r" "cr_sequence r" "cpr_row_count (cr_payload r)"] assms(2)
  have b: "0 < ?a" "0 < ?n" "?a + ?n \<le> Suc ?m" by (simp_all add: alloc_of_def word_less_nat_alt)
  have "?m \<noteq> 2 ^ 64 - 1" using cdc_invD(5) [OF assms(1)] by (auto simp: word_unat_eq_iff unat_max_u64)
  moreover have "?m < 2 ^ 64" using unsigned_less [of "allocated s (cr_table_id r)"] by simp
  ultimately have m: "?m < 2 ^ 64 - 1" by simp
  have e: "unat (change_end r) = ?a + ?n - 1" using b m by (simp add: change_end_def unat_sat_sub unat_sat_add)
  with b show "unat (change_end r) + 1 = ?a + ?n" "cr_sequence r \<le> change_end r" by (simp_all add: word_le_nat_alt)
  show "cpr_row_count (cr_payload r) \<noteq> 0" using b(2) by auto
  show "change_end r \<noteq> - 1"
  proof
    assume "change_end r = - 1"
    then have "unat (change_end r) = 2 ^ 64 - 1" using unat_max_u64 by simp
    with e b m show False by simp
  qed
qed

text \<open>The records from an offset to the watermark, in order.\<close>

definition window_of :: "store \<Rightarrow> TableId \<Rightarrow> u64 \<Rightarrow> ChangeRecordMeta list \<Rightarrow> bool" where
  "window_of s t c rs \<longleftrightarrow>
     set rs = {r. db_get s (change_log_key t (cr_sequence r)) = Some (VChange r) \<and> c < cr_sequence r \<and> cr_sequence r \<le> published s t} \<and>
     sorted_wrt (<) (map cr_sequence rs)"

lemma window_member:
  assumes inv: "cdc_inv s A" and "window_of s t c rs" "r \<in> set rs"
  shows "cr_table_id r = t" "alloc_of r \<in> logged s" "c < cr_sequence r" "change_end r \<le> published s t"
    "db_get s (change_log_key t (cr_sequence r)) = Some (VChange r)"
proof -
  from assms have r: "db_get s (change_log_key t (cr_sequence r)) = Some (VChange r)" "c < cr_sequence r" "cr_sequence r \<le> published s t"
    by (auto simp: window_of_def)
  have "value_ok (VChange r) (change_log_key t (cr_sequence r))" by (rule store_wfD [OF cdc_invD(1) [OF inv] r(1)])
  then show t: "cr_table_id r = t" by (simp add: object_keys)
  show l: "alloc_of r \<in> logged s" unfolding logged_def using r(1) t by blast
  show "c < cr_sequence r" "db_get s (change_log_key t (cr_sequence r)) = Some (VChange r)" by (rule r(2), rule r(1))
  from cdc_invD(8) [OF inv, of t "cr_sequence r" "cpr_row_count (cr_payload r)"] l r(3) t logged_end(1) [OF inv l]
  show "change_end r \<le> published s t" by (auto simp: alloc_of_def word_le_nat_alt word_less_nat_alt)
qed

lemma window_chain:
  assumes inv: "cdc_inv s A" and w: "window_of s t c rs"
  shows "chain c (map (\<lambda>r. (cr_sequence r, change_end r)) rs)"
proof (rule chain_sorted)
  let ?f = "\<lambda>r. (cr_sequence r, change_end r)"
  note mem = window_member [OF inv w]
  have srt: "sorted_wrt (<) (map cr_sequence rs)" using w by (simp add: window_of_def)
  then show "sorted (map fst (map ?f rs))" by (simp add: comp_def strict_sorted_imp_sorted)
  from srt have "distinct (map cr_sequence rs)" by (simp add: strict_sorted_iff)
  then show "distinct (map ?f rs)" by (auto simp: distinct_map inj_on_def)
  show "c < a \<and> a \<le> b \<and> b \<noteq> - 1" if "(a, b) \<in> set (map ?f rs)" for a b
    using that mem logged_end(2,3) [OF inv] by auto
  show "snd x < fst y" if xy: "x \<in> set (map ?f rs)" "y \<in> set (map ?f rs)" "x \<noteq> y" "fst x \<le> fst y" for x y
  proof -
    from xy obtain q r where q: "q \<in> set rs" "x = ?f q" and r: "r \<in> set rs" "y = ?f r" by auto
    with xy(3) have "q \<noteq> r" by auto
    then have "cr_sequence q \<noteq> cr_sequence r"
      using \<open>distinct (map cr_sequence rs)\<close> q(1) r(1) by (auto simp: distinct_map inj_on_def)
    then have ne: "alloc_of q \<noteq> alloc_of r" by (simp add: alloc_of_def)
    show ?thesis
    proof (rule ccontr)
      assume "\<not> snd x < fst y"
      then have "unat (cr_sequence r) \<le> unat (change_end q)" using q(2) r(2) by (simp add: word_less_nat_alt)
      moreover have "unat (cr_sequence q) \<le> unat (cr_sequence r)" using xy(4) q(2) r(2) by (simp add: word_le_nat_alt)
      ultimately have "(t, unat (cr_sequence r)) \<in> span (alloc_of q)"
        using logged_end(1) [OF inv mem(2) [OF q(1)]] mem(1) [OF q(1)] by (simp add: alloc_of_def)
      moreover have "(t, unat (cr_sequence r)) \<in> span (alloc_of r)"
        using logged_end(4) [OF inv mem(2) [OF r(1)]] mem(1) [OF r(1)] by (simp add: alloc_of_def unat_gt_0)
      ultimately show False using logged_unique [OF inv mem(2) [OF q(1)] mem(2) [OF r(1)]] ne by blast
    qed
  qed
qed

text \<open>Every number of the window belongs to one record of it.\<close>

lemma window_cover:
  assumes inv: "cdc_inv s A" and b: "boundary s t c" and w: "window_of s t c rs" and k: "unat c < k" "k \<le> unat (published s t)"
  shows "\<exists>r \<in> set rs. unat (cr_sequence r) \<le> k \<and> k \<le> unat (change_end r)"
proof -
  have "0 < k" using k(1) by simp
  then obtain r where r: "alloc_of r \<in> logged s" "(t, k) \<in> span (alloc_of r)"
    "db_get s (change_log_key (cr_table_id r) (cr_sequence r)) = Some (VChange r)"
    using cdc_invD(7) [OF inv _ k(2)] unfolding logged_def by blast
  have t: "cr_table_id r = t" and rk: "unat (cr_sequence r) \<le> k" "k \<le> unat (change_end r)"
    using r(2) logged_end(1) [OF inv r(1)] by (auto simp: alloc_of_def)
  have "unat (cr_sequence r) + unat (cpr_row_count (cr_payload r)) \<le> Suc (unat c) \<or> c < cr_sequence r"
    using b r(1) t unfolding boundary_def alloc_of_def by blast
  then have "c < cr_sequence r" using rk(2) k(1) logged_end(1) [OF inv r(1)] by linarith
  moreover have "cr_sequence r \<le> published s t" using rk(1) k(2) by (simp add: word_le_nat_alt)
  ultimately have "r \<in> set rs" using w r(3) t by (simp add: window_of_def)
  with rk show ?thesis by blast
qed

lemma window_walk:
  assumes inv: "cdc_inv s A" and b: "boundary s t c" and w: "window_of s t c rs"
  shows "contiguous_published_stream_sequence c rs = published s t" "consumable (published s t) rs = rs"
proof -
  let ?g = "map (\<lambda>r. (cr_sequence r, change_end r)) rs"
  note mem = window_member [OF inv w]
  have le: "c \<le> published s t" using b by (simp add: boundary_def)
  have top: "published s t \<noteq> - 1"
    using cdc_invD(5,6) [OF inv, of t] word_order.extremum_unique [of "allocated s t"] by auto
  then have c: "c \<noteq> - 1" using le word_order.extremum_unique [of "published s t"] by auto
  have nxt: "c + 1 = sat_add c 1" using sat_add_one [OF c] unat_u64_Suc [OF c] by (simp add: word_unat_eq_iff)
  have "filter (\<lambda>r. cpr_row_count (cr_payload r) \<noteq> 0) rs = rs" using mem(2) logged_end(4) [OF inv] by (intro filter_True) blast
  then have walk: "contiguous_published_stream_sequence c rs = publish_through (sat_add c 1) c ?g"
    by (simp add: contiguous_published_stream_sequence_def walk_publish nxt)
  note ch = window_chain [OF inv w]
  define p where "p = publish_through (sat_add c 1) c ?g"
  note pub = publish_chain [OF c ch, folded p_def]
  have up: "p \<le> published s t"
  proof (cases "p = c")
    case False
    with pub(1) have "c < p" by simp
    then have "unat c < unat p" by (simp add: word_less_nat_alt)
    from pub(2) [OF this] obtain r where "r \<in> set rs" "unat p \<le> unat (change_end r)" by auto
    with mem(4) [of r] show ?thesis by (simp add: word_le_nat_alt)
  qed (use le in simp)
  have "\<not> p < published s t"
  proof
    assume "p < published s t"
    then have lt: "unat p < unat (published s t)" by (simp add: word_less_nat_alt)
    note sp = sat_add_one [OF pub(4)]
    have "unat c \<le> unat p" using pub(1) by (simp add: word_le_nat_alt)
    with lt sp have "unat c < unat (sat_add p 1)" "unat (sat_add p 1) \<le> unat (published s t)" by linarith+
    from window_cover [OF inv b w this] obtain r where r: "r \<in> set rs"
      "unat (cr_sequence r) \<le> unat (sat_add p 1)" "unat (sat_add p 1) \<le> unat (change_end r)" by blast
    have g: "(cr_sequence r, change_end r) \<in> set ?g" using r(1) by auto
    have "\<not> change_end r \<le> p" using r(3) sp by (simp add: word_le_nat_alt)
    with pub(3) [OF g] have "p < cr_sequence r" by blast
    then have "unat p < unat (cr_sequence r)" by (simp add: word_less_nat_alt)
    with r(2) sp have "unat (cr_sequence r) = unat (sat_add p 1)" by linarith
    then have eq: "cr_sequence r = sat_add p 1" by (simp only: word_unat_eq_iff)
    show False by (rule notE [OF publish_maximal [OF c ch, folded p_def] g [unfolded eq]])
  qed
  with up walk show "contiguous_published_stream_sequence c rs = published s t" by (simp add: p_def)
  show "consumable (published s t) rs = rs" unfolding consumable_def using mem(4) by (intro filter_True) blast
qed

lemma window_unique:
  assumes inv: "cdc_inv s A" and b: "boundary s t c" and w: "window_of s t c rs" and k: "unat c < k" "k \<le> unat (published s t)"
  shows "\<exists>!r. r \<in> set rs \<and> unat (cr_sequence r) \<le> k \<and> k < unat (cr_sequence r) + unat (cpr_row_count (cr_payload r))"
proof -
  note mem = window_member [OF inv w]
  obtain r where r: "r \<in> set rs" "unat (cr_sequence r) \<le> k" "k \<le> unat (change_end r)" using window_cover [OF assms] by blast
  have eq: "q = r" if q: "q \<in> set rs" "unat (cr_sequence q) \<le> k" "k < unat (cr_sequence q) + unat (cpr_row_count (cr_payload q))" for q
  proof -
    have "(t, k) \<in> span (alloc_of q)" "(t, k) \<in> span (alloc_of r)"
      using q r mem(1) [OF q(1)] mem(1) [OF r(1)] logged_end(1) [OF inv mem(2) [OF r(1)]] by (simp_all add: alloc_of_def)
    then have "alloc_of q = alloc_of r" using logged_unique [OF inv mem(2) [OF q(1)] mem(2) [OF r(1)]] by blast
    then have "cr_sequence q = cr_sequence r" by (simp add: alloc_of_def)
    from mem(5) [OF q(1), unfolded this] have "Some (VChange q) = Some (VChange r)" unfolding mem(5) [OF r(1)] by (rule sym)
    then show ?thesis by simp
  qed
  have "k < unat (cr_sequence r) + unat (cpr_row_count (cr_payload r))"
    using r(3) logged_end(1) [OF inv mem(2) [OF r(1)]] by linarith
  with r(1,2) have "r \<in> set rs \<and> unat (cr_sequence r) \<le> k \<and> k < unat (cr_sequence r) + unat (cpr_row_count (cr_payload r))"
    by (intro conjI)
  then show ?thesis by (rule ex1I) (elim conjE, rule eq)
qed

subsection \<open>A committed read\<close>

lemma offset_kept:
  "fst k \<notin> cdc_categories \<Longrightarrow> same_cdc s (db_set k v s)"
  by (auto simp: same_cdc_def)

lemma advance_run:
  assumes "db_get (xs_store st) (offset_key (str_stream_id sm)) = Some (VOffset off)"
    and "advance_offset ev sm off w rs st = (r, st')"
  shows "r = Ok () \<and> (\<exists>off'. xs_store st' = db_set (offset_key (str_stream_id sm)) (VOffset off') (xs_store st) \<and>
     off_committed_sequence off' = w) \<and> xs_objects st' = xs_objects st"
proof -
  let ?off = "\<lparr>off_table_id = str_source_table_id sm, off_committed_sequence = w, off_committed_ts = ev_clock ev (xs_tick st),
    off_last_consumed_at = Some (ev_clock ev (Suc (xs_tick st))),
    off_last_consumed_txn_id = (if rs = [] then None else Some (cr_txn_id (last rs)))\<rparr>"
  have "r = Ok ()" "xs_store st' = db_set (offset_key (str_stream_id sm)) (VOffset ?off) (xs_store st)" "xs_objects st' = xs_objects st"
    using assms(2) by (auto simp: advance_offset_def ex_bind_def now_micros_def ex_op_def cas_run assms(1) map_err_def)
  moreover have "off_committed_sequence ?off = w" by simp
  ultimately show ?thesis by blast
qed

lemma read_window:
  assumes "fdb_client fx n" "db_size s \<le> n" "cdc_inv s A"
  shows "get_table_change_sequence t s = Ok (published s t) \<and>
     (\<exists>rs. get_change_records fx t c (published s t) s = Ok rs \<and> window_of s t c rs)"
proof -
  have p: "published s t \<noteq> - 1"
    using cdc_invD(5,6) [OF assms(3), of t] word_order.extremum_unique [of "allocated s t"] by auto
  from fdb_client.change_log_read [OF assms(1) cdc_invD(1) [OF assms(3)] assms(2) p, of t c]
  show ?thesis using change_sequence_published [OF cdc_invD(1) [OF assms(3)]] by (auto simp: window_of_def)
qed

lemma read_parts:
  assumes q: "get_table_change_sequence (str_source_table_id sm) (xs_store st) = Ok w"
    "get_change_records (ev_fx ev) (str_source_table_id sm) (off_committed_sequence off) w (xs_store st) = Ok rs"
    and walk: "contiguous_published_stream_sequence (off_committed_sequence off) rs = w" "consumable w rs = rs"
    and sm: "find_stream (ev_fx ev) db schema name (xs_store st) = Ok sm"
    and off: "db_get (xs_store st) (offset_key (str_stream_id sm)) = Some (VOffset off)"
    and run: "exec_read_stream ev security db schema name ReadCommit sql st = (Ok res, st')"
  shows "\<exists>source batches out.
     stream_input ev sm source rs st = (Ok batches, st) \<and>
     ev_mem_sql ev (str_name sm) batches (remove_stream_preview_clause sql) = Ok out \<and>
     (if w > off_committed_sequence off then advance_offset ev sm off w rs st = (Ok (), st') else st' = st) \<and>
     res = (case batches_to_query_result (ev_plane ev) (ev_texts ev) out of (columns, rows) \<Rightarrow> QR_Rows columns rows)"
proof -
  have o: "get_stream_offset (str_stream_id sm) (xs_store st) = Ok (Some off)" by (simp add: get_offset_Some_iff off)
  from run obtain source batches st1 out st2 u where
    i: "stream_input ev sm source rs st = (Ok batches, st1)"
    and m: "ev_mem_sql ev (str_name sm) batches (remove_stream_preview_clause sql) = Ok out"
    and a: "(if w > off_committed_sequence off then advance_offset ev sm off w rs else ex_ret ()) st1 = (Ok u, st2)"
    and r: "(case batches_to_query_result (ev_plane ev) (ev_texts ev) out of (columns, rows) \<Rightarrow> ex_ret (QR_Rows columns rows)) st2 = (Ok res, st')"
    by (auto simp: exec_read_stream_def ex_bind_Ok and_then_Inr_iff sm q walk o Let_def cong: if_cong)
  have "st1 = st" using i
    by (auto simp: stream_input_def ex_bind_def ex_obj_def map_err_def split: sum.splits if_splits)
  have "st2 = st'" and res: "res = (case batches_to_query_result (ev_plane ev) (ev_texts ev) out of (columns, rows) \<Rightarrow> QR_Rows columns rows)"
    using r by (auto split: prod.splits)
  then have "if w > off_committed_sequence off then advance_offset ev sm off w rs st = (Ok (), st') else st' = st"
    using a \<open>st1 = st\<close> by (simp split: if_splits)
  with i m res \<open>st1 = st\<close> show ?thesis by blast
qed

text \<open>C2. A committed read of a stream delivers every change exactly once. Let the offset of the
  stream be the watermark its table had at some earlier moment, which is what CREATE STREAM
  stores, and let allocations, commits, failed writers and other operations have run since
  in any order. A read in commit mode that succeeds gives the query exactly the payloads of
  the change records between the offset and the current watermark: every sequence number in
  between belongs to exactly one of them, none reaches below the offset or beyond the
  watermark, and they come in order. The read leaves the offset at the watermark it has read up to, and
  changes nothing else in the metadata, so the next read starts where this one ended.\<close>

theorem committed_read_exactly_once:
  assumes "fdb_client (ev_fx ev) n" "db_size (xs_store st) \<le> n"
    and "(cdc_step (ev_fx ev))\<^sup>*\<^sup>* (DAList.empty, {}) (s0, A0)" "(cdc_step (ev_fx ev))\<^sup>*\<^sup>* (s0, A0) (xs_store st, A)"
    and "find_stream (ev_fx ev) db schema name (xs_store st) = Ok sm"
    and "get_stream_offset (str_stream_id sm) (xs_store st) = Ok (Some off)"
    and "get_table_change_sequence (str_source_table_id sm) s0 = Ok (off_committed_sequence off)"
    and "exec_read_stream ev security db schema name ReadCommit sql st = (Ok res, st')"
  shows "\<exists>w records source batches out off'.
     get_table_change_sequence (str_source_table_id sm) (xs_store st) = Ok w \<and>
     (\<forall>k. unat (off_committed_sequence off) < k \<and> k \<le> unat w \<longrightarrow>
        (\<exists>!r. r \<in> set records \<and> unat (cr_sequence r) \<le> k \<and> k < unat (cr_sequence r) + unat (cpr_row_count (cr_payload r)))) \<and>
     (\<forall>r \<in> set records. db_get (xs_store st) (change_log_key (str_source_table_id sm) (cr_sequence r)) = Some (VChange r) \<and>
        off_committed_sequence off < cr_sequence r \<and> change_end r \<le> w) \<and>
     sorted_wrt (<) (map cr_sequence records) \<and>
     stream_input ev sm source records st = (Ok batches, st) \<and>
     ev_mem_sql ev (str_name sm) batches (remove_stream_preview_clause sql) = Ok out \<and>
     res = (case batches_to_query_result (ev_plane ev) (ev_texts ev) out of (columns, rows) \<Rightarrow> QR_Rows columns rows) \<and>
     get_stream_offset (str_stream_id sm) (xs_store st') = Ok (Some off') \<and> off_committed_sequence off' = w \<and>
     (\<forall>k. k \<noteq> offset_key (str_stream_id sm) \<longrightarrow> db_get (xs_store st') k = db_get (xs_store st) k)"
proof -
  let ?s = "xs_store st" and ?t = "str_source_table_id sm" and ?c = "off_committed_sequence off" and ?i = "str_stream_id sm"
  have inv0: "cdc_inv s0 A0" using cdc_reachable [OF assms(3)] cdc_empty by simp
  have inv: "cdc_inv ?s A" using cdc_reachable [OF assms(4)] inv0 by simp
  have c: "?c = published s0 ?t" using assms(7) change_sequence_published [OF cdc_invD(1) [OF inv0]] by simp
  have b: "boundary ?s ?t ?c"
    using boundary_reachable [OF assms(4)] inv0 boundary_watermark [OF inv0, of ?t] c by simp
  from read_window [OF assms(1,2) inv] obtain rs where seq: "get_table_change_sequence ?t ?s = Ok (published ?s ?t)"
    and rs: "get_change_records (ev_fx ev) ?t ?c (published ?s ?t) ?s = Ok rs" and win: "window_of ?s ?t ?c rs" by blast
  have off: "db_get ?s (offset_key ?i) = Some (VOffset off)" using assms(6) by (simp add: get_offset_Some_iff)
  from read_parts [OF seq rs window_walk [OF inv b win] assms(5) off assms(8)] obtain source batches out where
    run: "stream_input ev sm source rs st = (Ok batches, st)" "ev_mem_sql ev (str_name sm) batches (remove_stream_preview_clause sql) = Ok out"
    and adv: "if ?c < published ?s ?t then advance_offset ev sm off (published ?s ?t) rs st = (Ok (), st') else st' = st"
    and res: "res = (case batches_to_query_result (ev_plane ev) (ev_texts ev) out of (columns, rows) \<Rightarrow> QR_Rows columns rows)"
    by (elim exE conjE)
  have "\<exists>off'. get_stream_offset ?i (xs_store st') = Ok (Some off') \<and> off_committed_sequence off' = published ?s ?t \<and>
     (\<forall>k. k \<noteq> offset_key ?i \<longrightarrow> db_get (xs_store st') k = db_get ?s k)"
  proof (cases "?c < published ?s ?t")
    case True
    then have "advance_offset ev sm off (published ?s ?t) rs st = (Ok (), st')" using adv by simp
    from advance_run [OF off this] show ?thesis by (auto simp: get_offset_Some_iff)
  next
    case False
    then have "st' = st" using adv by simp
    moreover have "?c = published ?s ?t" using b False by (simp add: boundary_def)
    ultimately show ?thesis using assms(6) by auto
  qed
  then obtain off' where off': "get_stream_offset ?i (xs_store st') = Ok (Some off')" "off_committed_sequence off' = published ?s ?t"
    "\<forall>k. k \<noteq> offset_key ?i \<longrightarrow> db_get (xs_store st') k = db_get ?s k" by (elim exE conjE)
  have each: "\<forall>k. unat ?c < k \<and> k \<le> unat (published ?s ?t) \<longrightarrow>
      (\<exists>!r. r \<in> set rs \<and> unat (cr_sequence r) \<le> k \<and> k < unat (cr_sequence r) + unat (cpr_row_count (cr_payload r)))"
    using window_unique [OF inv b win] by (intro allI impI, elim conjE)
  have members: "\<forall>r \<in> set rs. db_get ?s (change_log_key ?t (cr_sequence r)) = Some (VChange r) \<and> ?c < cr_sequence r \<and>
      change_end r \<le> published ?s ?t"
    using window_member(3-5) [OF inv win] by (intro ballI conjI)
  have "sorted_wrt (<) (map cr_sequence rs)" using win by (simp add: window_of_def)
  with seq each members run res off' show ?thesis
    by (intro exI [of _ "published ?s ?t"] exI [of _ rs] exI [of _ source] exI [of _ batches] exI [of _ out] exI [of _ off'] conjI)
qed

subsection \<open>A concrete stream\<close>

definition sample_feed_stream :: StreamMeta where
  "sample_feed_stream = \<lparr>str_stream_id = 9, str_db_id = 1, str_schema_id = 2, str_source_table_id = 7, str_name = ''f'',
     str_created_at = 0, str_updated_at = 0, str_owner_role_id = 1, str_comment = None, str_stale_after = None, str_dropped = False\<rparr>"

definition sample_offset :: StreamOffset where
  "sample_offset = \<lparr>off_table_id = 7, off_committed_sequence = 0, off_committed_ts = 0, off_last_consumed_at = None,
     off_last_consumed_txn_id = None\<rparr>"

definition sample_feed_start :: store where
  "sample_feed_start = apply_sets
     [(database_key 1, VDatabase \<lparr>dbm_id = 1, dbm_name = ''shop'', dbm_created_at = 0, dbm_owner = 0\<rparr>),
      (schema_key 1 2, VSchema \<lparr>sch_id = 2, sch_db_id = 1, sch_name = ''public'', sch_created_at = 0\<rparr>),
      (table_key 1 2 7, VTable sample_table), (role_key 1, VRole (sample_role 1 ''accountadmin'')),
      (stream_key 9, VStream sample_feed_stream), (stream_name_key 1 2 ''f'', u64_bytes 9), (stream_table_key 7 9, VBytes []),
      (offset_key 9, VOffset sample_offset)] DAList.empty"

text \<open>One change of table 7 is committed.\<close>

definition sample_feed :: store where
  "sample_feed = db_set (change_seq_key 7) (u64_bytes 1)
     (put_records [sample_change 1] (db_set (next_seq_key 7) (u64_bytes 1) sample_feed_start))"

definition sample_root :: SecurityContext where
  "sample_root = \<lparr>sec_user_id = 1, sec_username = ''root'', sec_primary_role_id = ACCOUNTADMIN_ROLE_ID, sec_secondary_role_ids = [],
     sec_secondary_all = True\<rparr>"

definition sample_feed_exec :: "(string \<rightharpoonup> byte list) exec_state" where
  "sample_feed_exec = \<lparr>xs_store = sample_feed, xs_objects = [''p'' \<mapsto> [5]], xs_txn = None, xs_tick = 0\<rparr>"

lemma sample_feed_wf: "store_wf sample_feed_start" "db_size sample_feed \<le> 100"
proof -
  show "store_wf sample_feed_start"
    unfolding sample_feed_start_def
    by (rule store_wf_sets [OF store_wf_empty])
      (simp add: sample_table_def sample_role_def sample_feed_stream_def sample_offset_def)
  show "db_size sample_feed \<le> 100"
    using db_size_apply_sets [of _ DAList.empty]
    by (simp add: sample_feed_def put_records_def sample_feed_start_def DAList.update.rep_eq DAList.empty.rep_eq)
qed

lemma sample_feed_reach:
  "(cdc_step fx)\<^sup>*\<^sup>* (DAList.empty, {}) (sample_feed_start, {})" "(cdc_step fx)\<^sup>*\<^sup>* (sample_feed_start, {}) (sample_feed, {})"
proof -
  let ?s = "db_set (next_seq_key 7) (u64_bytes 1) sample_feed_start"
  have "same_cdc DAList.empty sample_feed_start" by (auto simp: same_cdc_def sample_feed_start_def)
  then have "cdc_step fx (DAList.empty, {}) (sample_feed_start, {})" by (rule cdc_step.other [OF sample_feed_wf(1)])
  then show "(cdc_step fx)\<^sup>*\<^sup>* (DAList.empty, {}) (sample_feed_start, {})" by (rule r_into_rtranclp)
  have a0: "allocated sample_feed_start 7 = 0" by (simp add: allocated_def counter_def sample_feed_start_def)
  have "allocate_table_change_sequences fx 7 1 sample_feed_start = (Ok 1, ?s)"
    using allocate_run [OF sample_feed_wf(1), of fx 7 1] by (simp add: a0 small_numbers)
  then have one: "cdc_step fx (sample_feed_start, {}) (?s, {(7, 1, 1)})" by (rule cdc_step.allocate) (simp_all add: a0)
  have pub: "db_get ?s (change_seq_key 7) = None" by (simp add: sample_feed_start_def)
  have "commit_table_cdc fx 0 0 [] [] [sample_change 1] ?s = (Ok (), sample_feed)"
    using pub
    by (simp add: commit_table_cdc_def db_run_def put_mps_def table_ranges_def publish_table_def finish_txn_def Let_def put_records_other
        sample_feed_def sample_change_def change_end_def small_numbers)
  then have "cdc_step fx (?s, {(7, 1, 1)}) (sample_feed, {(7, 1, 1)} - alloc_of ` set [sample_change 1])"
    by (rule cdc_step.commit) (simp_all add: sample_change_alloc)
  then have "cdc_step fx (?s, {(7, 1, 1)}) (sample_feed, {})" by (simp add: sample_change_alloc)
  with one show "(cdc_step fx)\<^sup>*\<^sup>* (sample_feed_start, {}) (sample_feed, {})"
    by (meson r_into_rtranclp converse_rtranclp_into_rtranclp)
qed

lemma sample_feed_get:
  "db_get sample_feed (stream_name_key 1 2 ''f'') = Some (u64_bytes 9)" "db_get sample_feed (stream_key 9) = Some (VStream sample_feed_stream)"
  "db_get sample_feed (offset_key 9) = Some (VOffset sample_offset)" "db_get sample_feed (table_key 1 2 7) = Some (VTable sample_table)"
  "db_get sample_feed (change_seq_key 7) = Some (u64_bytes 1)" "db_get sample_feed (role_key 1) = Some (VRole (sample_role 1 ''accountadmin''))"
  "db_get sample_feed_start (change_seq_key 7) = None"
  by (simp_all add: sample_feed_def put_records_def sample_feed_start_def)

lemma sample_feed_log: "db_get sample_feed (change_log_key t n) = (if t = 7 \<and> n = 1 then Some (VChange (sample_change 1)) else None)"
  by (simp add: sample_feed_def put_records_def sample_feed_start_def sample_change_def)

lemma sample_feed_inv: "cdc_inv sample_feed {}" "store_wf sample_feed"
proof -
  have "cdc_inv sample_feed_start {}" using cdc_reachable [OF sample_feed_reach(1)] cdc_empty by simp
  then show inv: "cdc_inv sample_feed {}" using cdc_reachable [OF sample_feed_reach(2)] by simp
  show "store_wf sample_feed" by (rule cdc_invD(1) [OF inv])
qed

lemma sample_feed_names:
  "find_database sample_fdb ''shop'' sample_feed = Ok \<lparr>dbm_id = 1, dbm_name = ''shop'', dbm_created_at = 0, dbm_owner = 0\<rparr>"
  "find_schema_meta sample_fdb 1 ''public'' sample_feed = Ok \<lparr>sch_id = 2, sch_db_id = 1, sch_name = ''public'', sch_created_at = 0\<rparr>"
proof -
  let ?d = "\<lparr>dbm_id = 1, dbm_name = ''shop'', dbm_created_at = 0, dbm_owner = 0\<rparr> :: DatabaseMeta"
  let ?c = "\<lparr>sch_id = 2, sch_db_id = 1, sch_name = ''public'', sch_created_at = 0\<rparr> :: SchemaMeta"
  have d: "{d. db_get sample_feed (database_key (dbm_id d)) = Some (VDatabase d)} = {?d}"
    by (auto simp: sample_feed_def put_records_def sample_feed_start_def split: if_splits)
  moreover have "{c. db_get sample_feed (schema_key (dbm_id ?d) (sch_id c)) = Some (VSchema c)} = {?c}"
    by (auto simp: sample_feed_def put_records_def sample_feed_start_def split: if_splits)
  moreover have "{x. db_get sample_feed (table_key (dbm_id ?d) (sch_id ?c) (tbl_id x)) = Some (VTable x)} = {sample_table}"
    by (auto simp: sample_feed_def put_records_def sample_feed_start_def sample_table_def split: if_splits)
  ultimately show "find_schema_meta sample_fdb 1 ''public'' sample_feed = Ok ?c"
    using find_table_run [OF sample_client sample_feed_inv(2) sample_feed_wf(2), of ?d "''shop''" ?c "''public''" sample_table "''t''"]
    by (simp add: sample_table_def)
  show "find_database sample_fdb ''shop'' sample_feed = Ok ?d"
    using find_database_run [OF sample_client sample_feed_inv(2) sample_feed_wf(2) d] by simp
qed

lemma sample_feed_stream_found: "find_stream sample_fdb ''shop'' ''public'' ''f'' sample_feed = Ok sample_feed_stream"
  by (simp add: find_stream_def sample_feed_names get_stream_by_name_def sample_feed_get get_stream_def get_record_def deserialize_def as_stream_def)

lemma sample_root_may: "require_privilege sample_fdb sample_root ob p sample_feed = Ok ()"
proof -
  have edges: "role_edges sample_feed = {}"
    by (auto simp: role_edges_def sample_feed_def put_records_def sample_feed_start_def split: if_splits)
  have act: "active_role_ids sample_root = [1]" by (simp add: active_role_ids_def sample_root_def ACCOUNTADMIN_ROLE_ID_def)
  have reach: "reachable_role sample_feed sample_root r \<longleftrightarrow> r = 1" for r by (auto simp: reachable_role_def edges act)
  have "{} ^^ 65 = ({} :: (RoleId \<times> RoleId) set)" by (simp add: numeral_eq_Suc)
  then have "roles_sane sample_feed sample_root" unfolding roles_sane_def reach act edges using sample_feed_get(6) by simp
  note exact = has_privilege_exact [OF sample_client sample_feed_inv(2) sample_feed_wf(2) this]
  have "authorised sample_feed sample_root ob p"
    unfolding authorised_def using reach by (auto simp: role_permits_def ACCOUNTADMIN_ROLE_ID_def)
  then show ?thesis by (simp add: require_privilege_def exact)
qed

lemma sample_feed_records: "get_change_records sample_fdb 7 0 1 sample_feed = Ok [sample_change 1]"
proof -
  have w: "(1 :: u64) \<noteq> - 1" by simp
  obtain rs where rs: "get_change_records sample_fdb 7 0 1 sample_feed = Ok rs"
    "set rs = {r. db_get sample_feed (change_log_key 7 (cr_sequence r)) = Some (VChange r) \<and> 0 < cr_sequence r \<and> cr_sequence r \<le> 1}"
    "sorted_wrt (<) (map cr_sequence rs)"
    using fdb_client.change_log_read [OF sample_client sample_feed_inv(2) sample_feed_wf(2) w, of 7 0] by blast
  have "set rs = {sample_change 1}"
    unfolding rs(2) sample_feed_log by (auto simp: sample_change_def split: if_splits)
  moreover have "distinct rs" using rs(3) by (auto simp: strict_sorted_iff distinct_map)
  ultimately have "rs = [sample_change 1]" by (cases rs; cases "tl rs") auto
  with rs(1) show ?thesis by simp
qed

lemma sample_feed_input:
  "stream_input sample_env sample_feed_stream tm [sample_change 1] sample_feed_exec = (Ok [[5]], sample_feed_exec)"
  by (simp add: stream_input_def ex_bind_def ex_obj_def read_stream_payload_batches_def record_batches_def read_payload_def
      sample_change_def sample_plane_def sample_feed_exec_def map_err_def)

lemma sample_feed_read:
  "\<exists>res st'. exec_read_stream sample_env sample_root ''shop'' ''public'' ''f'' ReadCommit '''' sample_feed_exec = (Ok res, st')"
proof -
  have st: "xs_store sample_feed_exec = sample_feed" by (simp add: sample_feed_exec_def)
  have auth: "authorize_stream_read sample_fdb sample_root ''shop'' ''public'' sample_feed_stream sample_feed = Ok sample_table"
    by (simp add: authorize_stream_read_def sample_feed_names sample_root_may get_table_def get_record_def deserialize_def as_table_def
        sample_feed_stream_def sample_feed_get)
  have off: "get_stream_offset 9 sample_feed = Ok (Some sample_offset)" by (simp add: get_offset_Some_iff sample_feed_get)
  have seq: "get_table_change_sequence 7 sample_feed = Ok 1" by (simp add: get_table_change_sequence_def sample_feed_get)
  have sm: "str_stream_id sample_feed_stream = 9" "str_source_table_id sample_feed_stream = 7" "off_committed_sequence sample_offset = 0"
    by (simp_all add: sample_feed_stream_def sample_offset_def)
  have walk: "contiguous_published_stream_sequence 0 [sample_change 1] = 1" "consumable 1 [sample_change 1] = [sample_change 1]"
    by (simp_all add: contiguous_published_stream_sequence_def consumable_def sample_change_def change_end_def small_numbers)
  have sql: "ev_mem_sql sample_env n bs q = Ok bs" for n bs q by (simp add: sample_env_def)
  obtain r st1 where adv: "advance_offset sample_env sample_feed_stream sample_offset 1 [sample_change 1] sample_feed_exec = (r, st1)" by fastforce
  then have "r = Ok ()" using advance_run [OF _ adv] by (simp add: sm st sample_feed_get)
  with adv have adv: "advance_offset sample_env sample_feed_stream sample_offset 1 [sample_change 1] sample_feed_exec = (Ok (), st1)" by simp
  show ?thesis
    by (simp add: exec_read_stream_def ex_bind_def st sample_feed_stream_found auth sm off seq sample_feed_records walk Let_def
        sample_feed_input sql adv map_err_def split: prod.splits)
qed

theorem committed_read_exactly_once_witness:
  "\<exists>res st' w off'. \<exists>records :: ChangeRecordMeta list.
     exec_read_stream sample_env sample_root ''shop'' ''public'' ''f'' ReadCommit '''' sample_feed_exec = (Ok res, st') \<and>
     get_table_change_sequence 7 sample_feed = Ok w \<and>
     (\<forall>k. 0 < k \<and> k \<le> unat w \<longrightarrow>
        (\<exists>!r. r \<in> set records \<and> unat (cr_sequence r) \<le> k \<and> k < unat (cr_sequence r) + unat (cpr_row_count (cr_payload r)))) \<and>
     get_stream_offset 9 (xs_store st') = Ok (Some off') \<and> off_committed_sequence off' = w"
proof -
  obtain res st' where run: "exec_read_stream sample_env sample_root ''shop'' ''public'' ''f'' ReadCommit '''' sample_feed_exec = (Ok res, st')"
    using sample_feed_read by blast
  have fx: "ev_fx sample_env = sample_fdb" and st: "xs_store sample_feed_exec = sample_feed" by (simp_all add: sample_feed_exec_def)
  have sm: "str_stream_id sample_feed_stream = 9" "str_source_table_id sample_feed_stream = 7" "off_committed_sequence sample_offset = 0"
    by (simp_all add: sample_feed_stream_def sample_offset_def)
  have off: "get_stream_offset 9 sample_feed = Ok (Some sample_offset)" by (simp add: get_offset_Some_iff sample_feed_get)
  have seq: "get_table_change_sequence 7 sample_feed_start = Ok 0" by (simp add: get_table_change_sequence_def sample_feed_get)
  note all = committed_read_exactly_once [where ev = sample_env and st = sample_feed_exec and sm = sample_feed_stream and off = sample_offset,
    unfolded fx st sm, OF sample_client sample_feed_wf(2) sample_feed_reach sample_feed_stream_found off seq run]
  then obtain w and records :: "ChangeRecordMeta list" and off' where "get_table_change_sequence 7 sample_feed = Ok w"
    "\<forall>k. 0 < k \<and> k \<le> unat w \<longrightarrow>
       (\<exists>!r. r \<in> set records \<and> unat (cr_sequence r) \<le> k \<and> k < unat (cr_sequence r) + unat (cpr_row_count (cr_payload r)))"
    "get_stream_offset 9 (xs_store st') = Ok (Some off')" "off_committed_sequence off' = w"
    unfolding unat_0 by (elim exE conjE)
  with run show ?thesis
    by (intro exI [of _ res] exI [of _ st'] exI [of _ w] exI [of _ off'] exI [of _ records] conjI)
qed
end
