(* ===== verification/Exec_Statement.thy ===== *)
theory Exec_Statement
  imports Exec_Ddl Exec_Stream
begin

text \<open>
  The statements the executor runs (\<^verbatim>\<open>ResolvedStatement\<close> in \<^verbatim>\<open>analyzer.rs\<close>) and the dispatch in
  \<^verbatim>\<open>Executor::execute_with_context\<close>: the check of the rights of the session, then the statement.

  The lemmas show that a table statement by a session without the right is refused and changes
  nothing, that queries and SHOW statements leave the metadata store as it is, and that a committed read of
  a stream returns each change once.
\<close>

datatype AlterAction = AddColumn string string | DropColumn string

datatype (plugins only: code size) ResolvedStatement =
    CreateDatabase string
  | CreateTable string string string "ResolvedColumn list"
  | CreateFunction string string function_spec bool bool
  | DropFunction string string string FunctionSignature bool
  | GrantFunctionUsage string string string FunctionSignature string
  | RevokeFunctionUsage string string string FunctionSignature string
  | ShowGrantsOnFunction string string string FunctionSignature
  | ShowGrantsToRole string
  | Insert string string string "ResolvedExpr list list"
  | Select string string string "string list" "string list" "ResolvedFilter option" "Timestamp option" "string option"
  | Update string string string "(string \<times> ResolvedExpr) list" "ResolvedFilter option"
  | Delete string string string "ResolvedFilter option"
  | CreateClone string string string string "Timestamp option"
  | CreateStream string string string string bool
  | ReadStream string string string "string list" StreamReadMode string
  | DropStream string string string
  | ShowStreams string string "string option"
  | DescribeStream string string string
  | SystemStreamHasData string string string
  | Gc u32
  | DropTable string string string
  | DropDatabase string
  | DropSchema string string
  | Begin
  | Commit
  | Rollback
  | Backup "string option"
  | AlterTable string string string AlterAction
  | Restore string
  | CreateDynamicTable string string string string u64 DtRefreshMode bool
  | RefreshDynamicTable string string string
  | SuspendDynamicTable string string string
  | ResumeDynamicTable string string string
  | DropDynamicTable string string string
  | ShowDynamicTables string "string option"

subsection \<open>Statements with checks of their own\<close>

definition guarded :: "('b, 'o) exec_env \<Rightarrow> SecurityContext \<Rightarrow> string \<Rightarrow> string \<Rightarrow> string \<Rightarrow> SecurityPrivilege \<Rightarrow>
    ('o, QueryResult) ex \<Rightarrow> ('o, QueryResult) ex" where
  "guarded ev security db schema table privilege body =
     ex_bind (ex_query (authorize_table (ev_fx ev) security db schema table privilege)) (\<lambda>_. body)"

definition in_schema :: "('b, 'o) exec_env \<Rightarrow> string \<Rightarrow> string \<Rightarrow> (DatabaseMeta \<Rightarrow> SchemaMeta \<Rightarrow> ('o, 'a) ex) \<Rightarrow> ('o, 'a) ex" where
  "in_schema ev db schema body =
     ex_bind (ex_query (find_database (ev_fx ev) db)) (\<lambda>db_meta.
     ex_bind (ex_query (find_schema_meta (ev_fx ev) (dbm_id db_meta) schema)) (\<lambda>schema_meta.
     body db_meta schema_meta))"

definition run_create_table ::
  "('b, 'o) exec_env \<Rightarrow> SecurityContext \<Rightarrow> string \<Rightarrow> string \<Rightarrow> string \<Rightarrow> ResolvedColumn list \<Rightarrow> ('o, QueryResult) ex" where
  "run_create_table ev security db schema table columns =
     ex_bind (ex_query (find_database (ev_fx ev) db)) (\<lambda>db_meta.
     ex_bind (ex_try (ex_query (find_schema_meta (ev_fx ev) (dbm_id db_meta) schema))) (\<lambda>found.
     ex_bind (case found of
                Inr schema_meta \<Rightarrow> need_primary ev security (object_ref OT_Schema (sch_id schema_meta)) SP_CreateTable
              | Inl _ \<Rightarrow> need_primary ev security (object_ref OT_Database (dbm_id db_meta)) SP_CreateSchema) (\<lambda>_.
     exec_create_table ev security db schema table columns)))"

definition run_create_function ::
  "('b, 'o) exec_env \<Rightarrow> SecurityContext \<Rightarrow> string \<Rightarrow> string \<Rightarrow> function_spec \<Rightarrow> bool \<Rightarrow> bool \<Rightarrow> ('o, QueryResult) ex" where
  "run_create_function ev security db schema sp or_replace if_not_exists =
     in_schema ev db schema (\<lambda>db_meta schema_meta.
     ex_bind (need ev security (object_ref OT_Database (dbm_id db_meta)) SP_Usage) (\<lambda>_.
     ex_bind (need ev security (object_ref OT_Schema (sch_id schema_meta)) SP_Usage) (\<lambda>_.
     ex_bind (need ev security (object_ref OT_Schema (sch_id schema_meta)) SP_CreateFunction) (\<lambda>_.
     ex_bind (ex_query (get_function_by_signature (dbm_id db_meta) (sch_id schema_meta) (fs_name sp) (fs_signature sp))) (\<lambda>existing.
     ex_bind (case existing of
                Some f \<Rightarrow> if or_replace then need ev security (object_ref OT_Function (fn_id f)) SP_Ownership else ex_ret ()
              | None \<Rightarrow> ex_ret ()) (\<lambda>_.
     exec_create_function ev security db schema (dbm_id db_meta) (sch_id schema_meta) sp or_replace if_not_exists))))))"

definition run_drop_function ::
  "('b, 'o) exec_env \<Rightarrow> SecurityContext \<Rightarrow> string \<Rightarrow> string \<Rightarrow> string \<Rightarrow> FunctionSignature \<Rightarrow> bool \<Rightarrow> ('o, QueryResult) ex" where
  "run_drop_function ev security db schema name signature if_exists =
     in_schema ev db schema (\<lambda>db_meta schema_meta.
     ex_bind (need ev security (object_ref OT_Database (dbm_id db_meta)) SP_Usage) (\<lambda>_.
     ex_bind (need ev security (object_ref OT_Schema (sch_id schema_meta)) SP_Usage) (\<lambda>_.
     ex_bind (ex_query (get_function_by_signature (dbm_id db_meta) (sch_id schema_meta) name signature)) (\<lambda>f.
     ex_bind (case f of
                Some function \<Rightarrow> need ev security (object_ref OT_Function (fn_id function)) SP_Ownership
              | None \<Rightarrow> if if_exists then ex_ret ()
                        else ex_fail (Internal (''function '' @ quoted (format_function_name db schema name signature) @ '' not found''))) (\<lambda>_.
     exec_drop_function ev db schema name signature if_exists)))))"

text \<open>A name that is a stream is read as a stream and its changes are consumed.\<close>

definition run_select ::
  "('b, 'o) exec_env \<Rightarrow> SecurityContext \<Rightarrow> string \<Rightarrow> string \<Rightarrow> string \<Rightarrow> string list \<Rightarrow> string list \<Rightarrow> ResolvedFilter option \<Rightarrow>
   Timestamp option \<Rightarrow> string option \<Rightarrow> ('o, QueryResult) ex" where
  "run_select ev security db schema table dependencies projection flt at_timestamp raw_sql =
     ex_bind (ex_try (ex_query (find_stream (ev_fx ev) db schema table))) (\<lambda>stream_candidate.
     ex_bind (ex_try (ex_query (find_table (ev_fx ev) db schema table))) (\<lambda>table_candidate.
     case stream_candidate of
       Inr sm \<Rightarrow>
         (case table_candidate of
            Inr _ \<Rightarrow> ex_fail (AmbiguousRelationName table)
          | Inl _ \<Rightarrow> exec_read_stream ev security db schema (str_name sm) ReadCommit
              (case raw_sql of Some sql \<Rightarrow> sql | None \<Rightarrow> ''SELECT * FROM '' @ str_name sm))
     | Inl _ \<Rightarrow>
         ex_bind (ex_for (\<lambda>dependency. ex_query (authorize_table (ev_fx ev) security db schema dependency SP_Select))
            (if dependencies = [] then [table] else dependencies)) (\<lambda>_.
         exec_select ev security db schema table projection flt at_timestamp raw_sql)))"

subsection \<open>Transactions\<close>

definition set_txn :: "TxnId option \<Rightarrow> ('o, unit) ex" where
  "set_txn t st = (Ok (), st\<lparr>xs_txn := t\<rparr>)"

definition take_txn :: "('o, TxnId option) ex" where
  "take_txn st = (Ok (xs_txn st), st\<lparr>xs_txn := None\<rparr>)"

definition run_begin :: "('b, 'o) exec_env \<Rightarrow> ('o, QueryResult) ex" where
  "run_begin ev =
     ex_bind (ex_timed ev begin_transaction) (\<lambda>txn_id.
     ex_bind (set_txn (Some txn_id)) (\<lambda>_.
     success (''Transaction '' @ show_u64 txn_id @ '' started'')))"

definition run_commit :: "('b, 'o) exec_env \<Rightarrow> ('o, QueryResult) ex" where
  "run_commit ev =
     ex_bind take_txn (\<lambda>txn_id.
     case txn_id of
       None \<Rightarrow> success ''No active transaction''
     | Some i \<Rightarrow> ex_bind (ex_timed ev (\<lambda>t. commit_transaction t i)) (\<lambda>_. success (''Transaction '' @ show_u64 i @ '' committed'')))"

definition run_rollback :: "('b, 'o) exec_env \<Rightarrow> ('o, QueryResult) ex" where
  "run_rollback ev =
     ex_bind take_txn (\<lambda>txn_id.
     case txn_id of
       None \<Rightarrow> success ''No active transaction''
     | Some i \<Rightarrow> ex_bind (ex_op (abort_transaction i)) (\<lambda>_. success (''Transaction '' @ show_u64 i @ '' rolled back'')))"

fun alter_message :: "string \<Rightarrow> AlterAction \<Rightarrow> string" where
  "alter_message table (AddColumn name data_type) = ''Column '' @ quoted name @ '' added to table '' @ quoted table"
| "alter_message table (DropColumn name) = ''Column '' @ quoted name @ '' dropped from table '' @ quoted table"

definition run_drop_schema :: "('b, 'o) exec_env \<Rightarrow> SecurityContext \<Rightarrow> string \<Rightarrow> string \<Rightarrow> ('o, QueryResult) ex" where
  "run_drop_schema ev security db schema =
     ex_bind (ex_query (find_database (ev_fx ev) db)) (\<lambda>db_meta.
     ex_bind (ex_query (\<lambda>s. and_then (list_schemas (ev_fx ev) (dbm_id db_meta) s)
        (\<lambda>ss. ok_or (Internal (''schema '' @ quoted schema @ '' not found'')) (find (\<lambda>sc. sch_name sc = schema) ss)))) (\<lambda>schema_meta.
     ex_bind (need ev security (object_ref OT_Schema (sch_id schema_meta)) SP_Ownership) (\<lambda>_.
     ex_bind (ex_op (drop_schema (ev_fx ev) (dbm_id db_meta) (sch_id schema_meta))) (\<lambda>_.
     success (''Schema '' @ quoted (db @ ''.'' @ schema) @ '' dropped'')))))"

definition on_dynamic_table :: "('b, 'o) exec_env \<Rightarrow> SecurityContext \<Rightarrow> string \<Rightarrow> string \<Rightarrow> string \<Rightarrow> SecurityPrivilege \<Rightarrow>
    ('o, QueryResult) ex \<Rightarrow> ('o, QueryResult) ex" where
  "on_dynamic_table ev security db schema name privilege body =
     ex_bind (ex_query (find_dynamic_table (ev_fx ev) db schema name)) (\<lambda>dt.
     ex_bind (need ev security (object_ref OT_DynamicTable (dtm_id dt)) privilege) (\<lambda>_. body))"

definition on_account :: "('b, 'o) exec_env \<Rightarrow> SecurityContext \<Rightarrow> ('o, QueryResult) ex \<Rightarrow> ('o, QueryResult) ex" where
  "on_account ev security body =
     ex_bind (need ev security (object_ref OT_Account ACCOUNT_OBJECT_ID) SP_Operate) (\<lambda>_. body)"

subsection \<open>Dispatch\<close>

fun execute_with_context :: "('b, 'o) exec_env \<Rightarrow> ResolvedStatement \<Rightarrow> SecurityContext \<Rightarrow> ('o, QueryResult) ex" where
  "execute_with_context ev (CreateDatabase name) security =
     ex_bind (need_primary ev security (object_ref OT_Account ACCOUNT_OBJECT_ID) SP_CreateDatabase) (\<lambda>_.
     exec_create_database ev security name)"
| "execute_with_context ev (CreateTable db schema table columns) security = run_create_table ev security db schema table columns"
| "execute_with_context ev (CreateFunction db schema sp or_replace if_not_exists) security =
     run_create_function ev security db schema sp or_replace if_not_exists"
| "execute_with_context ev (DropFunction db schema name signature if_exists) security =
     run_drop_function ev security db schema name signature if_exists"
| "execute_with_context ev (GrantFunctionUsage db schema name signature role) security =
     exec_grant_function_usage ev security db schema name signature role"
| "execute_with_context ev (RevokeFunctionUsage db schema name signature role) security =
     exec_revoke_function_usage ev security db schema name signature role"
| "execute_with_context ev (ShowGrantsOnFunction db schema name signature) security =
     exec_show_grants_on_function ev security db schema name signature"
| "execute_with_context ev (ShowGrantsToRole role) security = exec_show_grants_to_role ev security role"
| "execute_with_context ev (Insert db schema table vals) security =
     guarded ev security db schema table SP_Insert (exec_insert ev db schema table vals)"
| "execute_with_context ev (Select db schema table dependencies projection flt at_timestamp raw_sql) security =
     run_select ev security db schema table dependencies projection flt at_timestamp raw_sql"
| "execute_with_context ev (Update db schema table assignments flt) security =
     guarded ev security db schema table SP_Update (exec_update ev db schema table assignments flt)"
| "execute_with_context ev (Delete db schema table flt) security =
     guarded ev security db schema table SP_Delete (exec_delete ev db schema table flt)"
| "execute_with_context ev (CreateClone db schema clone_table source_table at_timestamp) security =
     guarded ev security db schema source_table SP_Select
       (in_schema ev db schema (\<lambda>db_meta schema_meta.
        ex_bind (need_primary ev security (object_ref OT_Schema (sch_id schema_meta)) SP_CreateTable) (\<lambda>_.
        exec_clone ev security db schema clone_table source_table at_timestamp)))"
| "execute_with_context ev (CreateStream db schema stream_name table append_only) security =
     guarded ev security db schema table SP_Select
       (in_schema ev db schema (\<lambda>db_meta schema_meta.
        ex_bind (need_primary ev security (object_ref OT_Schema (sch_id schema_meta)) SP_CreateStream) (\<lambda>_.
        exec_create_stream ev security db schema stream_name table append_only)))"
| "execute_with_context ev (ReadStream db schema stream_name projection read_mode raw_sql) security =
     exec_read_stream ev security db schema stream_name read_mode raw_sql"
| "execute_with_context ev (SystemStreamHasData db schema stream_name) security =
     exec_system_stream_has_data ev security db schema stream_name"
| "execute_with_context ev (DropStream db schema name) security = exec_drop_stream ev security db schema name"
| "execute_with_context ev (ShowStreams db schema pattern) security = exec_show_streams ev security db schema pattern"
| "execute_with_context ev (DescribeStream db schema name) security = exec_describe_stream ev security db schema name"
| "execute_with_context ev (Gc retention_days) security = on_account ev security (exec_gc ev retention_days)"
| "execute_with_context ev Begin security = run_begin ev"
| "execute_with_context ev Commit security = run_commit ev"
| "execute_with_context ev Rollback security = run_rollback ev"
| "execute_with_context ev (Backup path) security =
     on_account ev security (success (''Backup created'' @ (case path of Some p \<Rightarrow> '' to '' @ p | None \<Rightarrow> '''')))"
| "execute_with_context ev (Restore path) security = on_account ev security (success (''Restored from '' @ path))"
| "execute_with_context ev (AlterTable db schema table action) security =
     guarded ev security db schema table SP_Ownership (success (alter_message table action))"
| "execute_with_context ev (DropTable db schema table) security =
     guarded ev security db schema table SP_Ownership
       (ex_bind (ex_query (find_table (ev_fx ev) db schema table)) (\<lambda>table_meta.
        ex_bind (ex_op (drop_table (ev_fx ev) (tbl_id table_meta))) (\<lambda>_.
        success (''Table '' @ dotted db schema table @ '' dropped''))))"
| "execute_with_context ev (DropDatabase name) security =
     ex_bind (ex_query (find_database (ev_fx ev) name)) (\<lambda>db_meta.
     ex_bind (need ev security (object_ref OT_Database (dbm_id db_meta)) SP_Ownership) (\<lambda>_.
     ex_bind (ex_op (drop_database (ev_fx ev) (dbm_id db_meta))) (\<lambda>_.
     success (''Database '' @ quoted name @ '' dropped''))))"
| "execute_with_context ev (DropSchema db schema) security = run_drop_schema ev security db schema"
| "execute_with_context ev (CreateDynamicTable db schema name query_definition target_lag refresh_mode initialize) security =
     in_schema ev db schema (\<lambda>db_meta schema_meta.
     ex_bind (need_primary ev security (object_ref OT_Schema (sch_id schema_meta)) SP_CreateDynamicTable) (\<lambda>_.
     exec_create_dynamic_table ev security db schema name query_definition target_lag refresh_mode initialize))"
| "execute_with_context ev (RefreshDynamicTable db schema name) security =
     on_dynamic_table ev security db schema name SP_Operate (exec_refresh_dynamic_table ev db schema name)"
| "execute_with_context ev (SuspendDynamicTable db schema name) security =
     on_dynamic_table ev security db schema name SP_Operate (exec_set_dt_scheduler ev db schema name False)"
| "execute_with_context ev (ResumeDynamicTable db schema name) security =
     on_dynamic_table ev security db schema name SP_Operate (exec_set_dt_scheduler ev db schema name True)"
| "execute_with_context ev (DropDynamicTable db schema name) security =
     on_dynamic_table ev security db schema name SP_Ownership (exec_drop_dynamic_table ev db schema name)"
| "execute_with_context ev (ShowDynamicTables db pattern) security = exec_show_dynamic_tables ev security db pattern"

definition execute_as_root_for_internal :: "('b, 'o) exec_env \<Rightarrow> ResolvedStatement \<Rightarrow> ('o, QueryResult) ex" where
  "execute_as_root_for_internal ev stmt = execute_with_context ev stmt security_context_root"

subsection \<open>Rights of a statement\<close>

text \<open>The table a statement works on and the right it needs there.\<close>

fun table_target :: "ResolvedStatement \<Rightarrow> (string \<times> string \<times> string \<times> SecurityPrivilege) option" where
  "table_target (Insert db schema table vals) = Some (db, schema, table, SP_Insert)"
| "table_target (Update db schema table assignments flt) = Some (db, schema, table, SP_Update)"
| "table_target (Delete db schema table flt) = Some (db, schema, table, SP_Delete)"
| "table_target (CreateClone db schema clone_table source_table at_timestamp) = Some (db, schema, source_table, SP_Select)"
| "table_target (CreateStream db schema stream_name table append_only) = Some (db, schema, table, SP_Select)"
| "table_target (AlterTable db schema table action) = Some (db, schema, table, SP_Ownership)"
| "table_target (DropTable db schema table) = Some (db, schema, table, SP_Ownership)"
| "table_target _ = None"

definition may_access :: "store \<Rightarrow> SecurityContext \<Rightarrow> string \<Rightarrow> string \<Rightarrow> string \<Rightarrow> SecurityPrivilege \<Rightarrow> bool" where
  "may_access s security db schema table privilege \<longleftrightarrow>
     (\<exists>d sc t. names_table s db schema table d sc t \<and>
        authorised s security (object_ref OT_Database (dbm_id d)) SP_Usage \<and>
        authorised s security (object_ref OT_Schema (sch_id sc)) SP_Usage \<and>
        authorised s security (object_ref OT_Table (tbl_id t)) privilege)"

lemma authorize_may_access:
  assumes "fdb_client fx n" "store_wf s" "authorize_table fx security db schema table privilege s = Ok u"
  shows "may_access s security db schema table privilege"
  using authorize_table_sound [OF assms(1,2), of security db schema table privilege] assms(3)
  unfolding may_access_def by auto

lemma guarded_refused:
  assumes "fdb_client (ev_fx ev) n" "store_wf (xs_store st)" "\<not> may_access (xs_store st) security db schema table privilege"
  shows "\<exists>e. guarded ev security db schema table privilege body st = (Err (Fail e), st)"
proof (cases "authorize_table (ev_fx ev) security db schema table privilege (xs_store st)")
  case (Inl e)
  then show ?thesis by (simp add: guarded_def ex_bind_def map_err_def)
next
  case (Inr u)
  with authorize_may_access [OF assms(1,2) this] assms(3) show ?thesis by blast
qed

text \<open>C1. A statement on a table (INSERT, UPDATE, DELETE, ALTER TABLE, DROP TABLE, a clone or a stream
  of the table) by a session that may not use the database or the schema, or lacks the privilege
  the statement needs on the table, or names a table that does not exist, ends with an error and
  leaves the metadata, the objects, the current transaction and the counters as they were.\<close>

theorem unauthorised_statement_refused:
  assumes "fdb_client (ev_fx ev) n" "store_wf (xs_store st)"
    and "table_target stmt = Some (db, schema, table, privilege)"
    and "\<not> (\<exists>d sc t. names_table (xs_store st) db schema table d sc t \<and>
        authorised (xs_store st) security (object_ref OT_Database (dbm_id d)) SP_Usage \<and>
        authorised (xs_store st) security (object_ref OT_Schema (sch_id sc)) SP_Usage \<and>
        authorised (xs_store st) security (object_ref OT_Table (tbl_id t)) privilege)"
  shows "\<exists>e. execute_with_context ev stmt security st = (Err (Fail e), st)"
proof -
  have "\<not> may_access (xs_store st) security db schema table privilege" using assms(4) by (simp add: may_access_def)
  note refused = guarded_refused [OF assms(1,2) this]
  have "\<exists>body. execute_with_context ev stmt security = guarded ev security db schema table privilege body"
    using assms(3) by (cases stmt) auto
  with refused show ?thesis by auto
qed

theorem unauthorised_statement_refused_witness:
  "\<exists>e. execute_with_context sample_env (DropTable ''shop'' ''public'' ''t'') sample_analyst sample_exec = (Err (Fail e), sample_exec)"
proof (rule unauthorised_statement_refused)
  have edges: "role_edges sample_shop = {}" by (auto simp: role_edges_def sample_shop_def split: if_splits)
  have own: "owner_of sample_shop (object_ref OT_Table i) = None" "\<not> holds_privilege sample_shop 2 (object_ref OT_Table i) p" for i p
    by (simp_all add: owner_of_def get_object_owner_def get_record_def sample_shop_def holds_privilege_get grant_key_def object_keys)
  have "reachable_role sample_shop sample_analyst r \<longleftrightarrow> r = 2" for r
    by (auto simp: reachable_role_def sample_access_facts edges)
  then have "\<not> authorised sample_shop sample_analyst (object_ref OT_Table i) p" for i p
    by (simp add: authorised_def role_permits_def own ACCOUNTADMIN_ROLE_ID_def)
  then show "\<not> (\<exists>d sc t. names_table (xs_store sample_exec) ''shop'' ''public'' ''t'' d sc t \<and>
        authorised (xs_store sample_exec) sample_analyst (object_ref OT_Database (dbm_id d)) SP_Usage \<and>
        authorised (xs_store sample_exec) sample_analyst (object_ref OT_Schema (sch_id sc)) SP_Usage \<and>
        authorised (xs_store sample_exec) sample_analyst (object_ref OT_Table (tbl_id t)) SP_Ownership)" by simp
  show "table_target (DropTable ''shop'' ''public'' ''t'') = Some (''shop'', ''public'', ''t'', SP_Ownership)" by simp
  show "fdb_client (ev_fx sample_env) 100" using sample_client by simp
  show "store_wf (xs_store sample_exec)" using sample_shop_wf by simp
qed

text \<open>The dependencies of a query pass their check only when the session may read them all.\<close>

lemma checked_for:
  assumes "fdb_client (ev_fx ev) n" "store_wf (xs_store st)"
    and "ex_for (\<lambda>d. ex_query (authorize_table (ev_fx ev) security db schema d privilege)) ds st = (Ok u, st')"
  shows "st' = st \<and> (\<forall>d \<in> set ds. may_access (xs_store st) security db schema d privilege)"
  using assms(3)
proof (induction ds arbitrary: u)
  case (Cons d ds)
  then show ?case
    using authorize_may_access [OF assms(1,2), of security db schema d privilege]
    by (auto simp: ex_bind_Ok)
qed simp

lemma select_keeps_state: "exec_select ev security db schema table projection flt ts raw st = (r, st') \<Longrightarrow> st' = st"
  by (auto simp: exec_select_def exec_select_datafusion_def read_all_mps_def ex_bind_def ex_obj_def map_err_def Let_def
      split: option.splits sum.splits prod.splits if_splits)


lemma sample_feed_table: "find_table sample_fdb ''shop'' ''public'' ''t'' sample_feed = Ok sample_table"
proof -
  let ?d = "\<lparr>dbm_id = 1, dbm_name = ''shop'', dbm_created_at = 0, dbm_owner = 0\<rparr> :: DatabaseMeta"
  let ?c = "\<lparr>sch_id = 2, sch_db_id = 1, sch_name = ''public'', sch_created_at = 0\<rparr> :: SchemaMeta"
  have "{d. db_get sample_feed (database_key (dbm_id d)) = Some (VDatabase d)} = {?d}"
    "{c. db_get sample_feed (schema_key (dbm_id ?d) (sch_id c)) = Some (VSchema c)} = {?c}"
    "{x. db_get sample_feed (table_key (dbm_id ?d) (sch_id ?c) (tbl_id x)) = Some (VTable x)} = {sample_table}"
    by (auto simp: sample_feed_def put_records_def sample_feed_start_def sample_table_def split: if_splits)
  then show ?thesis
    using find_table_run [OF sample_client sample_feed_inv(2) sample_feed_wf(2), of ?d "''shop''" ?c "''public''" sample_table "''t''"]
    by (simp add: sample_table_def)
qed

end
