(* ===== verification/Coord_Engine.thy ===== *)
theory Coord_Engine
  imports Exec_Statement Coord_Cache
begin

text \<open>
  The query engine (\<^verbatim>\<open>mysql_protocol/nova_engine.rs\<close>) with the planner and the scheduler it goes
  through (\<^verbatim>\<open>planner.rs\<close>, \<^verbatim>\<open>scheduler.rs\<close>): a text is parsed and resolved, looked up in the result
  cache, run statement by statement, and its result stored in the cache.

  Parsing and name resolution turn a text and the current database into statements or an error;
  they are an argument. The result cache is that of \<^verbatim>\<open>result_cache.rs\<close>, with its hash function and
  the position of the key it evicts as arguments.

  The lemmas show that the engine gives the same answers and the same states as one without a
  cache: the entries it stores are never served.
\<close>

subsection \<open>Planner and scheduler\<close>

definition plan :: "ResolvedStatement \<Rightarrow> (NovaError, ResolvedStatement) result" where
  "plan stmt = Ok stmt"

definition scheduler_execute :: "('b, 'o) exec_env \<Rightarrow> ResolvedStatement \<Rightarrow> SecurityContext \<Rightarrow> ('o, QueryResult) ex" where
  "scheduler_execute ev stmt security = execute_with_context ev stmt security"

subsection \<open>Preparation\<close>

type_synonym resolver = "string \<Rightarrow> string \<Rightarrow> (NovaError, ResolvedStatement list) result"

fun inject_raw_sql :: "string \<Rightarrow> ResolvedStatement \<Rightarrow> ResolvedStatement" where
  "inject_raw_sql sql (Select db schema table dependencies projection flt at_timestamp raw_sql) =
     Select db schema table dependencies projection flt at_timestamp (Some sql)"
| "inject_raw_sql sql stmt = stmt"

fun resolved_statement_uses_stream_state :: "fdb \<Rightarrow> ResolvedStatement \<Rightarrow> bool query" where
  "resolved_statement_uses_stream_state fx (ReadStream db schema stream_name projection read_mode raw_sql) s = Ok True"
| "resolved_statement_uses_stream_state fx (SystemStreamHasData db schema stream_name) s = Ok True"
| "resolved_statement_uses_stream_state fx (Select db schema table dependencies projection flt at_timestamp raw_sql) s =
     and_then (list_databases fx s) (\<lambda>dbs.
     case find (\<lambda>candidate. dbm_name candidate = db) dbs of
       None \<Rightarrow> Ok False
     | Some db_meta \<Rightarrow>
         and_then (list_schemas fx (dbm_id db_meta) s) (\<lambda>schemas.
         case find (\<lambda>candidate. sch_name candidate = schema) schemas of
           None \<Rightarrow> Ok False
         | Some schema_meta \<Rightarrow>
             and_then (get_stream_by_name (dbm_id db_meta) (sch_id schema_meta) table s) (\<lambda>r. Ok (r \<noteq> None))))"
| "resolved_statement_uses_stream_state fx stmt s = Ok False"

fun any_uses_stream :: "fdb \<Rightarrow> store \<Rightarrow> ResolvedStatement list \<Rightarrow> (NovaError, bool) result" where
  "any_uses_stream fx s [] = Ok False"
| "any_uses_stream fx s (stmt # stmts) =
     and_then (resolved_statement_uses_stream_state fx stmt s) (\<lambda>b. if b then Ok True else any_uses_stream fx s stmts)"

definition prepare :: "('b, 'o) exec_env \<Rightarrow> resolver \<Rightarrow> string \<Rightarrow> string \<Rightarrow> ('o, u64 \<times> ResolvedStatement list \<times> bool) ex" where
  "prepare ev resolve sql current_db =
     ex_bind (ex_query security_epoch) (\<lambda>epoch.
     ex_bind (ex_pure (resolve sql current_db)) (\<lambda>stmts.
     let resolved_stmts = map (inject_raw_sql sql) stmts in
     ex_bind (ex_query (\<lambda>s. any_uses_stream (ev_fx ev) s resolved_stmts)) (\<lambda>uses_stream_state.
     ex_ret (epoch, resolved_stmts, uses_stream_state))))"

subsection \<open>The engine\<close>

record 'o engine =
  en_exec :: "'o exec_state"
  en_cache :: ResultCache

definition is_write_sql :: "string \<Rightarrow> bool" where
  "is_write_sql upper = list_ex (starts_with upper) [''INSERT'', ''UPDATE'', ''DELETE'', ''CREATE'', ''DROP'']"

fun run_statements ::
  "('b, 'o) exec_env \<Rightarrow> key_hash \<Rightarrow> nat \<Rightarrow> bool \<Rightarrow> string \<Rightarrow> SecurityContext \<Rightarrow> ResolvedStatement list \<Rightarrow> QueryResult \<Rightarrow>
   'o engine \<Rightarrow> (fault, QueryResult) result \<times> 'o engine" where
  "run_statements ev hash i can_use cache_sql security [] last_result en = (Ok last_result, en)"
| "run_statements ev hash i can_use cache_sql security (stmt # stmts) last_result en =
     (case plan stmt of
        Inl e \<Rightarrow> (Err (Fail e), en)
      | Inr planned \<Rightarrow>
          (case scheduler_execute ev planned security (en_exec en) of
             (Inl e, st) \<Rightarrow> (Err e, en\<lparr>en_exec := st\<rparr>)
           | (Inr result, st) \<Rightarrow>
               (let cache = (case result of
                      QR_Rows columns rows \<Rightarrow>
                        if can_use then sql_cache_put hash i cache_sql DAList.empty columns rows (en_cache en) else en_cache en
                    | _ \<Rightarrow> en_cache en) in
                run_statements ev hash i can_use cache_sql security stmts result (en\<lparr>en_exec := st, en_cache := cache\<rparr>))))"

definition statements_message :: "nat \<Rightarrow> QueryResult" where
  "statements_message n = QR_Success (show_nat n @ '' statement(s) executed'')"

definition execute_sql ::
  "('b, 'o) exec_env \<Rightarrow> resolver \<Rightarrow> key_hash \<Rightarrow> nat \<Rightarrow> string \<Rightarrow> string \<Rightarrow> SecurityContext \<Rightarrow>
   'o engine \<Rightarrow> (fault, QueryResult) result \<times> 'o engine" where
  "execute_sql ev resolve hash i sql current_db security en =
     (let sql_upper = to_ascii_uppercase (trim sql) in
      case prepare ev resolve sql current_db (en_exec en) of
        (Inl e, st) \<Rightarrow> (Err e, en\<lparr>en_exec := st\<rparr>)
      | (Inr (epoch, resolved_stmts, uses_stream_state), st) \<Rightarrow>
          (let cache_sql = security_cache_sql sql security epoch;
               can_use = (starts_with sql_upper ''SELECT'' \<and> length resolved_stmts = 1 \<and> \<not> uses_stream_state);
               (cached, cache) = (if can_use then sql_cache_get hash cache_sql DAList.empty (en_cache en) else (None, en_cache en));
               en1 = en\<lparr>en_exec := st, en_cache := cache\<rparr> in
           case cached of
             Some (columns, rows) \<Rightarrow> (Ok (QR_Rows columns rows), en1)
           | None \<Rightarrow>
               (case run_statements ev hash i can_use cache_sql security resolved_stmts (statements_message (length resolved_stmts)) en1 of
                  (Inl e, en2) \<Rightarrow> (Err e, en2)
                | (Inr last_result, en2) \<Rightarrow>
                    (Ok last_result, if is_write_sql sql_upper then en2\<lparr>en_cache := sql_cache_clear (en_cache en2)\<rparr> else en2))))"

subsection \<open>The cache changes no answer\<close>

text \<open>The same engine without a cache.\<close>

definition execute_uncached ::
  "('b, 'o) exec_env \<Rightarrow> resolver \<Rightarrow> string \<Rightarrow> string \<Rightarrow> SecurityContext \<Rightarrow> ('o, QueryResult) ex" where
  "execute_uncached ev resolve sql current_db security =
     ex_bind (prepare ev resolve sql current_db) (\<lambda>(epoch, stmts, uses).
     ex_fold (\<lambda>stmt _. execute_with_context ev stmt security) stmts (statements_message (length stmts)))"

definition inert :: "ResultCache \<Rightarrow> bool" where
  "inert c \<longleftrightarrow> (\<forall>k r. DAList.lookup (qrc_cache (rca_inner c)) k = Some r \<longrightarrow> hm_size (cre_table_versions r) = 0)"

lemma inert_get: "inert c \<Longrightarrow> fst (sql_cache_get hash sql v c) = None \<and> inert (snd (sql_cache_get hash sql v c))"
  by (auto simp: inert_def sql_cache_get_def result_cache_get_def Let_def split: option.splits prod.splits if_splits)

lemma empty_versions: "hm_size (DAList.empty :: (u64, u64) alist) = 0"
  by (simp add: hm_size_def DAList.empty.rep_eq)

lemma empty_put: "sql_cache_put hash i sql DAList.empty cols rows c = c"
  by (simp add: sql_cache_put_def result_cache_put_def empty_versions Let_def)

lemma inert_clear: "inert (sql_cache_clear c)"
  by (simp add: inert_def sql_cache_clear_def result_cache_clear_def DAList.lookup_empty)

lemma inert_new: "inert (sql_cache_new n)"
  by (simp add: inert_def sql_cache_new_def result_cache_new_def DAList.lookup_empty)

lemma run_statements_plain:
  "run_statements ev hash i can_use cache_sql security stmts last_result en =
     (case ex_fold (\<lambda>stmt _. execute_with_context ev stmt security) stmts last_result (en_exec en) of
        (r, st) \<Rightarrow> (r, en\<lparr>en_exec := st\<rparr>))"
proof (induction stmts arbitrary: last_result en)
  case (Cons stmt stmts)
  obtain r st where r: "execute_with_context ev stmt security (en_exec en) = (r, st)" by fastforce
  show ?case
  proof (cases r)
    case (Inr result)
    have "(case result of QR_Rows columns rows \<Rightarrow> if can_use then sql_cache_put hash i cache_sql DAList.empty columns rows (en_cache en)
        else en_cache en | QR_Success m \<Rightarrow> en_cache en) = en_cache en" by (simp add: empty_put split: QueryResult.split)
    with r Inr Cons.IH [of result "en\<lparr>en_exec := st\<rparr>"] show ?thesis
      by (simp add: plan_def scheduler_execute_def ex_bind_def Let_def)
  qed (use r in \<open>simp add: plan_def scheduler_execute_def ex_bind_def\<close>)
qed simp

lemma execute_uncached_eq:
  assumes "inert (en_cache en)" "execute_sql ev resolve hash i sql current_db security en = (r, en')"
  shows "execute_uncached ev resolve sql current_db security (en_exec en) = (r, en_exec en') \<and> inert (en_cache en')"
proof -
  obtain p st where p: "prepare ev resolve sql current_db (en_exec en) = (p, st)" by fastforce
  show ?thesis
  proof (cases p)
    case (Inl e)
    with p assms show ?thesis by (auto simp: execute_sql_def execute_uncached_def ex_bind_def Let_def)
  next
    case (Inr x)
    obtain epoch stmts uses where x: "x = (epoch, stmts, uses)" by (cases x)
    define can where "can = (starts_with (to_ascii_uppercase (trim sql)) ''SELECT'' \<and> length stmts = 1 \<and> \<not> uses)"
    let ?look = "if can then sql_cache_get hash (security_cache_sql sql security epoch) DAList.empty (en_cache en) else (None, en_cache en)"
    obtain cache where look: "?look = (None, cache)" "inert cache"
      using inert_get [OF assms(1), of hash "security_cache_sql sql security epoch" DAList.empty] assms(1)
      by (cases can; cases "sql_cache_get hash (security_cache_sql sql security epoch) DAList.empty (en_cache en)") auto
    obtain q st' where q: "ex_fold (\<lambda>stmt _. execute_with_context ev stmt security) stmts (statements_message (length stmts)) st = (q, st')"
      by fastforce
    have plain: "execute_uncached ev resolve sql current_db security (en_exec en) = (q, st')"
      using p Inr x q by (simp add: execute_uncached_def ex_bind_def)
    have "execute_sql ev resolve hash i sql current_db security en =
        (case run_statements ev hash i can (security_cache_sql sql security epoch) security stmts (statements_message (length stmts))
            (en\<lparr>en_exec := st, en_cache := cache\<rparr>) of
           (Inl e, en2) \<Rightarrow> (Err e, en2)
         | (Inr last_result, en2) \<Rightarrow>
             (Ok last_result, if is_write_sql (to_ascii_uppercase (trim sql)) then en2\<lparr>en_cache := sql_cache_clear (en_cache en2)\<rparr> else en2))"
      unfolding execute_sql_def Let_def p Inr x prod.case sum.case can_def [symmetric] look(1) option.case by (rule refl)
    then have "r = q \<and> en_exec en' = st' \<and> inert (en_cache en')"
      using assms(2) look(2) q by (cases q) (auto simp: run_statements_plain inert_clear)
    with plain show ?thesis by simp
  qed
qed

text \<open>A history of requests, each with the position the cache would evict.\<close>

type_synonym request = "string \<times> string \<times> SecurityContext \<times> nat"

fun serve_all :: "('b, 'o) exec_env \<Rightarrow> resolver \<Rightarrow> key_hash \<Rightarrow> request list \<Rightarrow> 'o engine \<Rightarrow> (fault, QueryResult) result list \<times> 'o engine" where
  "serve_all ev resolve hash [] en = ([], en)"
| "serve_all ev resolve hash ((sql, db, security, i) # reqs) en =
     (case execute_sql ev resolve hash i sql db security en of
        (r, en1) \<Rightarrow> (case serve_all ev resolve hash reqs en1 of (rs, en2) \<Rightarrow> (r # rs, en2)))"

fun serve_uncached :: "('b, 'o) exec_env \<Rightarrow> resolver \<Rightarrow> request list \<Rightarrow> 'o exec_state \<Rightarrow> (fault, QueryResult) result list \<times> 'o exec_state" where
  "serve_uncached ev resolve [] st = ([], st)"
| "serve_uncached ev resolve ((sql, db, security, i) # reqs) st =
     (case execute_uncached ev resolve sql db security st of
        (r, st1) \<Rightarrow> (case serve_uncached ev resolve reqs st1 of (rs, st2) \<Rightarrow> (r # rs, st2)))"

lemma serve_all_inert:
  "inert (en_cache en) \<Longrightarrow> serve_all ev resolve hash reqs en = (rs, en') \<Longrightarrow>
     serve_uncached ev resolve reqs (en_exec en) = (rs, en_exec en')"
proof (induction reqs arbitrary: en rs)
  case (Cons q reqs)
  obtain sql db security i where q: "q = (sql, db, security, i)" by (cases q)
  obtain r en1 where r: "execute_sql ev resolve hash i sql db security en = (r, en1)" by fastforce
  from execute_uncached_eq [OF Cons.prems(1) r] Cons q r show ?case by (auto split: prod.splits)
qed simp

text \<open>C37. The result cache never changes an answer. Whatever requests the sessions send, in whatever
  order, with whatever rights and whatever else the hash function or the eviction does, an
  engine that starts with an empty cache gives each request the answer, and leaves the state,
  that the engine without a cache gives.\<close>

theorem cached_engine_is_transparent:
  "serve_uncached ev resolve reqs st =
     map_prod id en_exec (serve_all ev resolve hash reqs \<lparr>en_exec = st, en_cache = sql_cache_new 1000\<rparr>)"
proof -
  let ?en = "\<lparr>en_exec = st, en_cache = sql_cache_new 1000\<rparr>"
  obtain rs en' where run: "serve_all ev resolve hash reqs ?en = (rs, en')" by fastforce
  from serve_all_inert [OF _ run] run inert_new show ?thesis by simp
qed

text \<open>
  The cache key leaves out the current database, and ALTER and MERGE do not count as writes. With
  entries that were served, two sessions that use different databases would share answers.
\<close>

lemma key_ignores_database:
  "prepare ev resolve sql db (en_exec en) = (Ok (epoch, stmts, uses), st) \<Longrightarrow>
   prepare ev resolve sql db' (en_exec en) = (Ok (epoch', stmts', uses'), st') \<Longrightarrow>
   security_cache_sql sql security epoch = security_cache_sql sql security epoch'"
  by (auto simp: prepare_def ex_bind_Ok Let_def)

lemma alter_is_no_write: "\<not> is_write_sql ''ALTER TABLE T ADD COLUMN C INT''"
  by code_simp
end
