(* ===== verification/Rust_Arith.thy ===== *)
theory Rust_Arith
  imports Rust_Float
begin

text \<open>
  The arithmetic of \<^verbatim>\<open>f64\<close> that the estimates of the coordinator use: sum, product and quotient with
  one rounding to nearest, ties to even, the truncating cast \<^verbatim>\<open>as u64\<close>, and printing without
  decimals. The exact result is a fraction of the unit 2 to the power -1074, which \<open>f64_pack\<close> rounds.
\<close>

definition f64_unit :: nat where
  "f64_unit = 2 ^ 1074"

definition f64_nan :: f64 where
  "f64_nan = 0x7FF8000000000000"

definition f64_inf :: "bool \<Rightarrow> f64" where
  "f64_inf neg = (if neg then 0xFFF0000000000000 else 0x7FF0000000000000)"

definition f64_max :: f64 where
  "f64_max = 0x7FEFFFFFFFFFFFFF"

definition f64_sign :: "f64 \<Rightarrow> bool" where
  "f64_sign x \<longleftrightarrow> unat x \<ge> 2 ^ 63"

definition round_div :: "nat \<Rightarrow> nat \<Rightarrow> nat" where
  "round_div a b =
     (let q = a div b; r = a mod b in q + (if 2 * r > b \<or> (2 * r = b \<and> odd q) then 1 else 0))"

text \<open>The pattern of the double nearest to \<open>p / q\<close> units; the largest exponent is the infinity.\<close>

definition f64_mag_bits :: "nat \<Rightarrow> nat \<Rightarrow> nat" where
  "f64_mag_bits p q =
     (let k = nlog (p div q) - 52 in min (k * 2 ^ 52 + round_div p (q * 2 ^ k)) (2047 * 2 ^ 52))"

definition f64_pack :: "bool \<Rightarrow> nat \<Rightarrow> nat \<Rightarrow> f64" where
  "f64_pack neg p q = of_nat ((if neg then 2 ^ 63 else 0) + f64_mag_bits p q)"

text \<open>A decimal literal \<open>p / q\<close> of the source.\<close>

definition f64_lit :: "nat \<Rightarrow> nat \<Rightarrow> f64" where
  "f64_lit p q = f64_pack False (p * f64_unit) q"

definition f64_add :: "f64 \<Rightarrow> f64 \<Rightarrow> f64" where
  "f64_add x y =
     (case (f64_val x, f64_val y) of
        (FNaN, _) \<Rightarrow> f64_nan
      | (_, FNaN) \<Rightarrow> f64_nan
      | (FPosInf, FNegInf) \<Rightarrow> f64_nan
      | (FNegInf, FPosInf) \<Rightarrow> f64_nan
      | (FPosInf, _) \<Rightarrow> f64_inf False
      | (_, FPosInf) \<Rightarrow> f64_inf False
      | (FNegInf, _) \<Rightarrow> f64_inf True
      | (_, FNegInf) \<Rightarrow> f64_inf True
      | (FFin a, FFin b) \<Rightarrow>
          if a + b = 0 then f64_pack (f64_sign x \<and> f64_sign y) 0 1
          else f64_pack (a + b < 0) (nat \<bar>a + b\<bar>) 1)"

definition f64_mul :: "f64 \<Rightarrow> f64 \<Rightarrow> f64" where
  "f64_mul x y =
     (let neg = (f64_sign x \<noteq> f64_sign y) in
      case (f64_val x, f64_val y) of
        (FNaN, _) \<Rightarrow> f64_nan
      | (_, FNaN) \<Rightarrow> f64_nan
      | (FFin a, FFin b) \<Rightarrow> f64_pack neg (nat \<bar>a * b\<bar>) f64_unit
      | (FFin a, _) \<Rightarrow> if a = 0 then f64_nan else f64_inf neg
      | (_, FFin b) \<Rightarrow> if b = 0 then f64_nan else f64_inf neg
      | _ \<Rightarrow> f64_inf neg)"

definition f64_div :: "f64 \<Rightarrow> f64 \<Rightarrow> f64" where
  "f64_div x y =
     (let neg = (f64_sign x \<noteq> f64_sign y) in
      case (f64_val x, f64_val y) of
        (FNaN, _) \<Rightarrow> f64_nan
      | (_, FNaN) \<Rightarrow> f64_nan
      | (FFin a, FFin b) \<Rightarrow>
          if b = 0 then (if a = 0 then f64_nan else f64_inf neg)
          else f64_pack neg (nat \<bar>a\<bar> * f64_unit) (nat \<bar>b\<bar>)
      | (FFin a, _) \<Rightarrow> f64_pack neg 0 1
      | (_, FFin b) \<Rightarrow> f64_inf neg
      | _ \<Rightarrow> f64_nan)"

definition f64_sub :: "f64 \<Rightarrow> f64 \<Rightarrow> f64" where
  "f64_sub x y = f64_add x (y XOR 0x8000000000000000)"

text \<open>The cast \<^verbatim>\<open>as u64\<close> drops the fraction and saturates.\<close>

definition f64_to_u64 :: "f64 \<Rightarrow> u64" where
  "f64_to_u64 x =
     (case f64_val x of
        FNaN \<Rightarrow> 0 | FNegInf \<Rightarrow> 0 | FPosInf \<Rightarrow> - 1
      | FFin a \<Rightarrow> of_nat (min (nat a div f64_unit) (2 ^ 64 - 1)))"

definition u64_as_f64 :: "u64 \<Rightarrow> f64" where
  "u64_as_f64 w = f64_of_int (int (unat w))"

text \<open>The format \<^verbatim>\<open>{:.0}\<close>: the nearest integer, ties to even, with the sign of the value.\<close>

definition f64_show0 :: "f64 \<Rightarrow> string" where
  "f64_show0 x =
     (case f64_val x of
        FNaN \<Rightarrow> ''NaN'' | FPosInf \<Rightarrow> ''inf'' | FNegInf \<Rightarrow> ''-inf''
      | FFin a \<Rightarrow> (if f64_sign x then ''-'' else []) @ show_nat (round_div (nat \<bar>a\<bar>) f64_unit))"

end
