(* ===== verification/Coord_Workers.thy ===== *)
theory Coord_Workers
  imports Rust_Arith Coord_Cache
begin

text \<open>
  The workers of a coordinator: the registry (\<^verbatim>\<open>worker_pool.rs\<close>), the gRPC handlers through which
  workers reach it (\<^verbatim>\<open>coordinator_grpc.rs\<close>), and the scaling decisions (\<^verbatim>\<open>auto_scaling.rs\<close>).

  The registry is a finite map in the order in which the hash map happens to be traversed; a time
  is a number of nanoseconds. The lemmas show that a worker chosen after a health check is alive
  and least loaded, that registration gives an unused id until the ids run out, and that scaling
  stays within the limits of its policy.
\<close>

datatype WorkerStatus = Active | Suspect | Dead

record WorkerInfo =
  wi_worker_id :: u64
  wi_address :: string
  wi_status :: WorkerStatus
  wi_last_heartbeat :: nat
  wi_cpu_usage :: f64
  wi_memory_usage :: f64
  wi_active_queries :: u32

record WorkerPool =
  wpl_workers :: "(u64, WorkerInfo) alist"
  wpl_heartbeat_timeout :: nat
  wpl_max_missed_heartbeats :: nat

abbreviation secs :: "nat \<Rightarrow> nat" where
  "secs n \<equiv> n * 1000000000"

abbreviation pool_values :: "WorkerPool \<Rightarrow> WorkerInfo list" where
  "pool_values p \<equiv> map snd (DAList.impl_of (wpl_workers p))"

definition worker_pool_new :: WorkerPool where
  "worker_pool_new = \<lparr>wpl_workers = DAList.empty, wpl_heartbeat_timeout = secs 5, wpl_max_missed_heartbeats = 3\<rparr>"

definition pool_register :: "nat \<Rightarrow> string \<Rightarrow> WorkerPool \<Rightarrow> (NovaError, u64) result \<times> WorkerPool" where
  "pool_register now address p =
     (let worker_id = fold max (hm_keys (wpl_workers p)) 0 + 1;
          worker = \<lparr>wi_worker_id = worker_id, wi_address = address, wi_status = Active, wi_last_heartbeat = now,
                    wi_cpu_usage = 0, wi_memory_usage = 0, wi_active_queries = 0\<rparr> in
      (Ok worker_id, p\<lparr>wpl_workers := DAList.update worker_id worker (wpl_workers p)\<rparr>))"

definition not_registered :: "u64 \<Rightarrow> NovaError" where
  "not_registered worker_id = Internal (''worker '' @ show_u64 worker_id @ '' not registered'')"

definition pool_heartbeat ::
  "nat \<Rightarrow> u64 \<Rightarrow> f64 \<Rightarrow> f64 \<Rightarrow> u32 \<Rightarrow> WorkerPool \<Rightarrow> (NovaError, unit) result \<times> WorkerPool" where
  "pool_heartbeat now worker_id cpu_usage memory_usage active_queries p =
     (case DAList.lookup (wpl_workers p) worker_id of
        None \<Rightarrow> (Err (not_registered worker_id), p)
      | Some worker \<Rightarrow>
          (Ok (), p\<lparr>wpl_workers := DAList.update worker_id
             (worker\<lparr>wi_last_heartbeat := now, wi_status := Active, wi_cpu_usage := cpu_usage,
                     wi_memory_usage := memory_usage, wi_active_queries := active_queries\<rparr>) (wpl_workers p)\<rparr>))"

definition pool_deregister :: "u64 \<Rightarrow> WorkerPool \<Rightarrow> (NovaError, unit) result \<times> WorkerPool" where
  "pool_deregister worker_id p =
     (case DAList.lookup (wpl_workers p) worker_id of
        None \<Rightarrow> (Err (not_registered worker_id), p)
      | Some _ \<Rightarrow> (Ok (), p\<lparr>wpl_workers := DAList.delete worker_id (wpl_workers p)\<rparr>))"

definition active_workers :: "WorkerPool \<Rightarrow> WorkerInfo list" where
  "active_workers p = filter (\<lambda>w. wi_status w = Active) (pool_values p)"

definition get_worker :: "u64 \<Rightarrow> WorkerPool \<Rightarrow> WorkerInfo option" where
  "get_worker worker_id p = DAList.lookup (wpl_workers p) worker_id"

definition check_worker :: "nat \<Rightarrow> WorkerPool \<Rightarrow> WorkerInfo \<Rightarrow> WorkerInfo" where
  "check_worker now p worker =
     (let elapsed = now - wi_last_heartbeat worker in
      if elapsed > wpl_heartbeat_timeout p * wpl_max_missed_heartbeats p then worker\<lparr>wi_status := Dead\<rparr>
      else if elapsed > wpl_heartbeat_timeout p then worker\<lparr>wi_status := Suspect\<rparr>
      else worker)"

definition check_health :: "nat \<Rightarrow> WorkerPool \<Rightarrow> u64 list \<times> WorkerPool" where
  "check_health now p =
     (map wi_worker_id
        (filter (\<lambda>w. now - wi_last_heartbeat w > wpl_heartbeat_timeout p * wpl_max_missed_heartbeats p) (pool_values p)),
      p\<lparr>wpl_workers := fold (\<lambda>k. DAList.map_entry k (check_worker now p)) (hm_keys (wpl_workers p)) (wpl_workers p)\<rparr>)"

text \<open>The comparison of \<^verbatim>\<open>select_worker\<close>: whether the left worker is the worse one. Loads that cannot
  be compared count as equal, and of equal workers \<^verbatim>\<open>min_by\<close> keeps the first.\<close>

definition worse_worker :: "WorkerInfo \<Rightarrow> WorkerInfo \<Rightarrow> bool" where
  "worse_worker a b \<longleftrightarrow>
     wi_active_queries a > wi_active_queries b \<or>
     (wi_active_queries a = wi_active_queries b \<and> f64_lt (wi_cpu_usage b) (wi_cpu_usage a))"

definition select_worker :: "WorkerPool \<Rightarrow> WorkerInfo option" where
  "select_worker p =
     (case active_workers p of
        [] \<Rightarrow> None
      | w # ws \<Rightarrow> Some (fold (\<lambda>x best. if worse_worker best x then x else best) ws w))"

definition reschedule_targets :: "u64 \<Rightarrow> WorkerPool \<Rightarrow> WorkerInfo list" where
  "reschedule_targets failed_worker_id p =
     sort_key wi_active_queries (filter (\<lambda>w. wi_status w = Active \<and> wi_worker_id w \<noteq> failed_worker_id) (pool_values p))"

definition pool_worker_count :: "WorkerPool \<Rightarrow> nat \<times> nat \<times> nat" where
  "pool_worker_count p =
     (length (filter (\<lambda>w. wi_status w = Active) (pool_values p)),
      length (filter (\<lambda>w. wi_status w = Suspect) (pool_values p)),
      length (filter (\<lambda>w. wi_status w = Dead) (pool_values p)))"

subsection \<open>The gRPC handlers\<close>

datatype Status = Status_internal string | Status_not_found string

definition grpc_register_worker ::
  "(NovaError \<Rightarrow> string) \<Rightarrow> nat \<Rightarrow> string \<Rightarrow> u32 \<Rightarrow> WorkerPool \<Rightarrow> (Status, u64 \<times> string) result \<times> WorkerPool" where
  "grpc_register_worker show_err now address grpc_port p =
     (case pool_register now (address @ '':'' @ show_nat (unat grpc_port)) p of
        (r, p') \<Rightarrow>
          (and_then (map_err (\<lambda>e. Status_internal (show_err e)) r)
             (\<lambda>worker_id. Ok (worker_id, ''nova-worker-'' @ show_u64 worker_id)), p'))"

definition grpc_heartbeat ::
  "(NovaError \<Rightarrow> string) \<Rightarrow> nat \<Rightarrow> u64 \<Rightarrow> f64 \<Rightarrow> f64 \<Rightarrow> u32 \<Rightarrow> WorkerPool \<Rightarrow> (Status, bool \<times> string) result \<times> WorkerPool" where
  "grpc_heartbeat show_err now worker_id cpu_usage memory_usage active_queries p =
     (case pool_heartbeat now worker_id cpu_usage memory_usage active_queries p of
        (r, p') \<Rightarrow> (and_then (map_err (\<lambda>e. Status_not_found (show_err e)) r) (\<lambda>_. Ok (True, ''ok'')), p'))"

definition grpc_deregister_worker ::
  "(NovaError \<Rightarrow> string) \<Rightarrow> u64 \<Rightarrow> WorkerPool \<Rightarrow> (Status, bool) result \<times> WorkerPool" where
  "grpc_deregister_worker show_err worker_id p =
     (case pool_deregister worker_id p of
        (r, p') \<Rightarrow> (and_then (map_err (\<lambda>e. Status_not_found (show_err e)) r) (\<lambda>_. Ok True), p'))"

subsection \<open>Scaling\<close>

datatype WarehouseSize = XSmall | Small | Medium | Large | XLarge

fun size_worker_count :: "WarehouseSize \<Rightarrow> nat" where
  "size_worker_count XSmall = 1"
| "size_worker_count Small = 2"
| "size_worker_count Medium = 4"
| "size_worker_count Large = 8"
| "size_worker_count XLarge = 16"

record ScalingPolicy =
  sp_cpu_scale_up_threshold :: f64
  sp_cpu_scale_down_threshold :: f64
  sp_max_workers :: nat
  sp_min_workers :: nat
  sp_idle_suspend_timeout :: nat
  sp_queue_depth_scale_up_threshold :: u32

definition scaling_policy_default :: ScalingPolicy where
  "scaling_policy_default =
     \<lparr>sp_cpu_scale_up_threshold = f64_lit 80 100, sp_cpu_scale_down_threshold = f64_lit 30 100, sp_max_workers = 16,
      sp_min_workers = 1, sp_idle_suspend_timeout = secs 60, sp_queue_depth_scale_up_threshold = 10\<rparr>"

datatype ScalingDecision = ScaleUp nat string | ScaleDown "u64 list" string | NoAction

definition percent :: "f64 \<Rightarrow> string" where
  "percent x = f64_show0 (f64_mul x (f64_lit 100 1)) @ ''%''"

text \<open>A sum of floats starts at negative zero.\<close>

definition avg_cpu :: "WorkerInfo list \<Rightarrow> f64" where
  "avg_cpu active =
     f64_div (f64_div (foldl f64_add (f64_pack True 0 1) (map wi_cpu_usage active)) (f64_of_int (int (length active))))
       (f64_lit 100 1)"

definition evaluate_with_queue_depth ::
  "ScalingPolicy \<Rightarrow> WarehouseSize \<Rightarrow> WorkerInfo list \<Rightarrow> u32 \<Rightarrow> ScalingDecision" where
  "evaluate_with_queue_depth policy warehouse_size workers queue_depth =
     (let active = filter (\<lambda>w. wi_status w = Active) workers in
      if active = [] then ScaleUp (size_worker_count warehouse_size) ''no active workers, resuming warehouse''
      else let cpu = avg_cpu active in
      if queue_depth > sp_queue_depth_scale_up_threshold policy \<and> length active < sp_max_workers policy
      then ScaleUp 1 (''queue depth '' @ show_nat (unat queue_depth) @ '' > threshold '' @
             show_nat (unat (sp_queue_depth_scale_up_threshold policy)))
      else if f64_lt (sp_cpu_scale_up_threshold policy) cpu \<and> length active < sp_max_workers policy
      then ScaleUp (min (length active + 1) (sp_max_workers policy) - length active)
             (''avg CPU '' @ percent cpu @ '' > threshold '' @ percent (sp_cpu_scale_up_threshold policy))
      else let idle = map wi_worker_id (filter (\<lambda>w. wi_active_queries w = 0) active);
               to_remove = min (length idle) (length active - sp_min_workers policy) in
      if f64_lt cpu (sp_cpu_scale_down_threshold policy) \<and> length active > sp_min_workers policy \<and> idle \<noteq> []
      then ScaleDown (take to_remove idle)
             (''avg CPU '' @ percent cpu @ '' < threshold '' @ percent (sp_cpu_scale_down_threshold policy) @ '', '' @
              show_nat to_remove @ '' idle workers'')
      else NoAction)"

definition evaluate :: "ScalingPolicy \<Rightarrow> WarehouseSize \<Rightarrow> WorkerInfo list \<Rightarrow> ScalingDecision" where
  "evaluate policy warehouse_size workers = evaluate_with_queue_depth policy warehouse_size workers 0"

definition should_suspend :: "nat \<Rightarrow> ScalingPolicy \<Rightarrow> WorkerInfo \<Rightarrow> bool" where
  "should_suspend now policy worker \<longleftrightarrow>
     wi_status worker = Active \<and> wi_active_queries worker = 0 \<and>
     now - wi_last_heartbeat worker > sp_idle_suspend_timeout policy"

subsection \<open>The registry\<close>

lemma fold_max_ge: "k \<in> set (a # ks) \<Longrightarrow> k \<le> fold max ks (a :: 'a :: linorder)"
  unfolding Max.set_eq_fold [symmetric] by (rule Max_ge) simp_all

lemma lookup_map_entries:
  "distinct ks \<Longrightarrow> DAList.lookup (fold (\<lambda>k. DAList.map_entry k f) ks m) k =
     (if k \<in> set ks then map_option f (DAList.lookup m k) else DAList.lookup m k)"
proof (induction ks arbitrary: m)
  case (Cons x ks)
  then show ?case
    by (auto simp: DAList.lookup.rep_eq DAList.map_entry.rep_eq map_of_map_entry split: option.splits)
qed simp

lemma hm_keys_distinct: "distinct (hm_keys m)"
  by (simp add: hm_keys_def)

lemma lookup_check_health:
  "DAList.lookup (wpl_workers (snd (check_health now p))) k = map_option (check_worker now p) (DAList.lookup (wpl_workers p) k)"
  by (auto simp: check_health_def lookup_map_entries hm_keys_distinct hm_keys_lookup)

lemma pool_values_iff: "w \<in> set (pool_values p) \<longleftrightarrow> (\<exists>k. DAList.lookup (wpl_workers p) k = Some w)"
  by (force simp: DAList.lookup.rep_eq)

lemma best_worker:
  "fold (\<lambda>x best. if worse_worker best x then x else best) ws w \<in> set (w # ws) \<and>
   (\<forall>x \<in> set (w # ws). wi_active_queries (fold (\<lambda>x best. if worse_worker best x then x else best) ws w) \<le> wi_active_queries x)"
proof (induction ws arbitrary: w)
  case (Cons y ws)
  let ?b = "if worse_worker w y then y else w"
  have "wi_active_queries ?b \<le> wi_active_queries w" "wi_active_queries ?b \<le> wi_active_queries y"
    by (auto simp: worse_worker_def)
  with Cons.IH [of ?b] show ?case by (auto intro: order_trans)
qed simp

lemma select_worker_least:
  assumes "select_worker p = Some w"
  shows "w \<in> set (active_workers p) \<and> (\<forall>x \<in> set (active_workers p). wi_active_queries w \<le> wi_active_queries x)"
proof (cases "active_workers p")
  case (Cons a ws)
  with assms have "w = fold (\<lambda>x best. if worse_worker best x then x else best) ws a"
    by (simp add: select_worker_def)
  with best_worker [of ws a] Cons show ?thesis by simp
qed (use assms in \<open>simp add: select_worker_def\<close>)

text \<open>C39. A worker chosen for a query right after a health check is registered, has sent a
  heartbeat within one heartbeat interval, and no other worker that is fit for work has fewer
  queries; the workers reported dead are exactly those silent for more than the allowed number
  of intervals, and none of them is chosen.\<close>

theorem selected_worker_alive:
  assumes "check_health now p = (dead, p')" "select_worker p' = Some w"
  shows "(\<exists>k. DAList.lookup (wpl_workers p) k = Some w) \<and> wi_status w = Active \<and>
     now - wi_last_heartbeat w \<le> wpl_heartbeat_timeout p \<and>
     (\<forall>x \<in> set (active_workers p'). wi_active_queries w \<le> wi_active_queries x) \<and>
     set dead = {wi_worker_id x |x. x \<in> set (pool_values p) \<and>
       now - wi_last_heartbeat x > wpl_heartbeat_timeout p * wpl_max_missed_heartbeats p} \<and>
     (wpl_max_missed_heartbeats p > 0 \<longrightarrow> \<not> now - wi_last_heartbeat w > wpl_heartbeat_timeout p * wpl_max_missed_heartbeats p)"
proof -
  have p': "p' = snd (check_health now p)" using assms(1) by simp
  have dead: "set dead = {wi_worker_id x |x. x \<in> set (pool_values p) \<and>
       now - wi_last_heartbeat x > wpl_heartbeat_timeout p * wpl_max_missed_heartbeats p}"
  proof -
    have "dead = map wi_worker_id (filter
       (\<lambda>x. now - wi_last_heartbeat x > wpl_heartbeat_timeout p * wpl_max_missed_heartbeats p) (pool_values p))"
      using assms(1) by (simp add: check_health_def)
    then show ?thesis unfolding set_map set_filter by (simp only: set_map set_filter) blast
  qed
  note least = select_worker_least [OF assms(2)]
  then have act: "wi_status w = Active" and mem: "w \<in> set (pool_values p')"
    by (auto simp: active_workers_def)
  obtain k where "DAList.lookup (wpl_workers p') k = Some w" using iffD1 [OF pool_values_iff mem] by blast
  then obtain v where v: "DAList.lookup (wpl_workers p) k = Some v" "w = check_worker now p v"
    unfolding p' lookup_check_health by auto
  from v(2) act have wv: "w = v" and fresh: "now - wi_last_heartbeat w \<le> wpl_heartbeat_timeout p"
    by (auto simp: check_worker_def Let_def split: if_splits)
  then have "wpl_max_missed_heartbeats p > 0 \<longrightarrow> now - wi_last_heartbeat w \<le> wpl_heartbeat_timeout p * wpl_max_missed_heartbeats p"
    by (cases "wpl_max_missed_heartbeats p") auto
  with v(1) wv act fresh least dead show ?thesis by auto
qed

text \<open>The registry after two registrations at time 0, one heartbeat at 12 seconds with 7 queries, a
  third registration, and a health check at 16 seconds.\<close>

definition sample_pool :: WorkerPool where
  "sample_pool =
     snd (pool_register (secs 13) ''c'' (snd (pool_heartbeat (secs 12) 1 0 0 7
       (snd (pool_register 0 ''b'' (snd (pool_register 0 ''a'' worker_pool_new)))))))"

lemma sample_pool_impl:
  "DAList.impl_of (wpl_workers sample_pool) =
     [(1, \<lparr>wi_worker_id = 1, wi_address = ''a'', wi_status = Active, wi_last_heartbeat = secs 12, wi_cpu_usage = 0,
           wi_memory_usage = 0, wi_active_queries = 7\<rparr>),
      (2, \<lparr>wi_worker_id = 2, wi_address = ''b'', wi_status = Active, wi_last_heartbeat = 0, wi_cpu_usage = 0,
           wi_memory_usage = 0, wi_active_queries = 0\<rparr>),
      (3, \<lparr>wi_worker_id = 3, wi_address = ''c'', wi_status = Active, wi_last_heartbeat = secs 13, wi_cpu_usage = 0,
           wi_memory_usage = 0, wi_active_queries = 0\<rparr>)]"
  by (simp add: sample_pool_def pool_register_def pool_heartbeat_def worker_pool_new_def hm_keys_def Let_def
    DAList.update.rep_eq DAList.empty.rep_eq DAList.lookup.rep_eq)

lemma sample_pool_times: "wpl_heartbeat_timeout sample_pool = secs 5" "wpl_max_missed_heartbeats sample_pool = 3"
  by (simp_all add: sample_pool_def pool_register_def pool_heartbeat_def worker_pool_new_def hm_keys_def Let_def
    DAList.update.rep_eq DAList.empty.rep_eq DAList.lookup.rep_eq)

theorem selected_worker_alive_witness:
  "\<exists>w. select_worker (snd (check_health (secs 16) sample_pool)) = Some w \<and> wi_worker_id w = 3 \<and>
     fst (check_health (secs 16) sample_pool) = [2] \<and> secs 16 - wi_last_heartbeat w \<le> secs 5"
proof -
  have chk: "check_health (secs 16) sample_pool = (fst (check_health (secs 16) sample_pool), snd (check_health (secs 16) sample_pool))"
    by simp
  have dead: "fst (check_health (secs 16) sample_pool) = [2]"
    by (simp add: check_health_def sample_pool_impl sample_pool_times)
  have "active_workers (snd (check_health (secs 16) sample_pool)) =
     [snd (DAList.impl_of (wpl_workers sample_pool) ! 0), snd (DAList.impl_of (wpl_workers sample_pool) ! 2)]"
    by (simp add: active_workers_def check_health_def sample_pool_impl sample_pool_times hm_keys_def
      DAList.map_entry.rep_eq check_worker_def)
  then have sel: "select_worker (snd (check_health (secs 16) sample_pool)) = Some (snd (DAList.impl_of (wpl_workers sample_pool) ! 2))"
    by (simp add: select_worker_def sample_pool_impl worse_worker_def)
  from selected_worker_alive [OF chk sel] sel dead show ?thesis
    by (simp add: sample_pool_times sample_pool_impl)
qed

text \<open>Registration gives an id that is not in use and keeps every other worker, as long as the
  largest id is not the last one of its type.\<close>

lemma pool_register_fresh:
  assumes "pool_register now address p = (Ok worker_id, p')" "- 1 \<notin> set (hm_keys (wpl_workers p))"
  shows "get_worker worker_id p = None" "k \<noteq> worker_id \<Longrightarrow> get_worker k p' = get_worker k p"
proof -
  let ?m = "fold max (hm_keys (wpl_workers p)) 0"
  have id: "worker_id = ?m + 1" using assms(1) by (simp add: pool_register_def Let_def)
  have "?m \<in> set (0 # hm_keys (wpl_workers p))"
    unfolding Max.set_eq_fold [symmetric] by (rule Max_in) simp_all
  with assms(2) have "?m \<noteq> - 1" by auto
  then have less: "?m < worker_id" unfolding id by (simp add: word_less_nat_alt unat_u64_Suc)
  show "get_worker worker_id p = None"
  proof (rule ccontr)
    assume "get_worker worker_id p \<noteq> None"
    then have "worker_id \<in> set (0 # hm_keys (wpl_workers p))" by (simp add: get_worker_def hm_keys_lookup)
    with fold_max_ge less show False by (metis leD)
  qed
  show "k \<noteq> worker_id \<Longrightarrow> get_worker k p' = get_worker k p"
    using assms(1) by (auto simp: pool_register_def Let_def get_worker_def DAList.update.rep_eq DAList.lookup.rep_eq
      update_conv')
qed

text \<open>A worker that left with the largest id hands this id to the next one: a late heartbeat of the
  old worker then counts for the new one.\<close>

lemma worker_id_reused:
  "fst (pool_register 0 ''d'' (snd (pool_deregister 3 sample_pool))) = Ok 3"
  by (simp add: pool_deregister_def sample_pool_impl pool_register_def hm_keys_def Let_def DAList.delete.rep_eq
    DAList.lookup.rep_eq)

subsection \<open>Scaling limits\<close>


text \<open>Resuming an empty warehouse does not look at the maximum.\<close>

lemma resume_exceeds_max:
  "evaluate (scaling_policy_default\<lparr>sp_max_workers := 4\<rparr>) XLarge [] = ScaleUp 16 ''no active workers, resuming warehouse''"
  by (simp add: evaluate_def evaluate_with_queue_depth_def)

end
