(* ===== verification/Spec2Isabelle.thy ===== *)
theory Spec2Isabelle
  imports Meta_Security_Props Coord_Background Coord_Engine Coord_Workers Mysql_Server
begin

text \<open>
  Verification of nova-core, a columnar SQL database. Clients speak the MySQL protocol to the
  coordinator, which parses and authorises statements and executes them; the catalogue, the
  security data, the list of micro-partitions and the change log are kept in FoundationDB,
  the rows in Parquet files of an object store.

  \<^bold>\<open>The parts and where they are modelled.\<close> Paths are below \<^verbatim>\<open>src/crates\<close>.

  \<^item> \<open>Nova_Prelude\<close>, \<open>Nova_Types\<close>, \<open>Rust_Float\<close>: Rust's integers, results, strings and doubles, and
    the data model of \<^verbatim>\<open>nova-common\<close>. A struct is a record whose fields carry a short prefix, an enum
    a datatype, \<^verbatim>\<open>u64\<close> a 64-bit word; \<open>Err\<close> and \<open>Ok\<close> are the two sides of a sum. Arithmetic that the
    source leaves unchecked is word arithmetic, saturating calls are \<open>sat_add\<close>, \<open>sat_sub\<close>, \<open>sat_mul\<close>.
  \<^item> \<open>Fdb_Tuple\<close>, \<open>Fdb_Kv\<close>: keys and the key-value helpers of \<^verbatim>\<open>metadata/fdb_store.rs\<close>. The
    database is an association list without duplicate keys; an operation (\<open>op\<close>) maps a store to a result
    and a store. The client library is an argument \<open>fdb\<close> constrained by the locale \<open>fdb_client\<close>: it
    packs tuples in order, returns ranges of at most the given size in key order, and runs the
    body of a transaction on one snapshot. The locale is interpreted on a concrete client.
  \<^item> \<open>Meta_Records\<close>, \<open>Meta_Mp\<close>, \<open>Meta_Catalog\<close>, \<open>Meta_Stream\<close>, \<open>Meta_Cdc\<close>: the operations of
    \<^verbatim>\<open>fdb_store.rs\<close> on partitions, transactions, databases, schemas, tables, functions, streams, change
    records, clones and dynamic tables. \<open>Meta_Security\<close>, \<open>Meta_Security_Props\<close>: \<^verbatim>\<open>security_impl.rs\<close>.
  \<^item> \<open>Storage_Data\<close>: \<^verbatim>\<open>mp_writer.rs\<close>, \<^verbatim>\<open>mp_reader.rs\<close>, \<^verbatim>\<open>cdc.rs\<close> over an object store. Arrow and Parquet are
    the argument \<open>plane\<close> with the locale \<open>data_plane\<close>: what was written is read back.
  \<^item> \<open>Exec_Access\<close>, \<open>Exec_Batch\<close>, \<open>Exec_State\<close>, \<open>Exec_Dml\<close>, \<open>Exec_Ddl\<close>, \<open>Exec_Stream\<close>,
    \<open>Exec_Statement\<close>: \<^verbatim>\<open>nova-coordinator/src/executor.rs\<close>, from the access decision and the row-level
    work to the dispatch \<open>execute_with_context\<close>. A statement (\<open>ex\<close>) runs on the metadata store, the
    object store, the open transaction and a counter of the clock and id readings; it ends with a
    result, an error or a panic, and the state is kept in all three cases.
  \<^item> \<open>Coord_Rbac\<close> (\<^verbatim>\<open>rbac.rs\<close>, \<^verbatim>\<open>auth.rs\<close>), \<open>Coord_Cache\<close> (\<^verbatim>\<open>cache.rs\<close>, \<^verbatim>\<open>result_cache.rs\<close>), \<open>Coord_Prune\<close>
    (\<^verbatim>\<open>mp_pruning.rs\<close>, \<^verbatim>\<open>optimizer.rs\<close>), \<open>Coord_Background\<close> (\<^verbatim>\<open>txn_manager.rs\<close>, \<^verbatim>\<open>compaction.rs\<close>,
    \<^verbatim>\<open>dynamic_table_scheduler.rs\<close>), \<open>Coord_Engine\<close> (\<^verbatim>\<open>nova_engine.rs\<close>, \<^verbatim>\<open>planner.rs\<close>, \<^verbatim>\<open>scheduler.rs\<close>),
    \<open>Coord_Workers\<close> over the arithmetic of \<open>Rust_Arith\<close> (\<^verbatim>\<open>worker_pool.rs\<close>, \<^verbatim>\<open>coordinator_grpc.rs\<close>, \<^verbatim>\<open>auto_scaling.rs\<close>).
  \<^item> \<open>Mysql_Codec\<close>, \<open>Mysql_Types\<close>, \<open>Mysql_Auth\<close>, \<open>Mysql_Session\<close>, \<open>Mysql_Server\<close>: the files of
    \<^verbatim>\<open>nova-coordinator/src/mysql_protocol\<close>, over a connection that is a pair of byte lists.

  \<^bold>\<open>What is shown.\<close>

  \<^item> Access: a statement that the session may not run is refused and changes nothing, a SELECT that
    answers was allowed on everything it reads, and the decision is the one of the role model; no
    command changes the user or the roles of a session, and with authentication on no statement
    runs before the password check, which accepts exactly the right password.
  \<^item> Data: an insert adds exactly its rows, a delete keeps exactly the unmatched rows, an update
    rewrites the matched ones, and a failed change leaves every visible row; pruning keeps every
    partition with a matching row in the range where doubles are exact.
  \<^item> Change streams: below the watermark the change log is complete under every interleaving of
    allocations and commits, and a committed read of a stream delivers each change once.
  \<^item> Catalogue and security data: the indexes agree with the records, roles stay acyclic, every
    change moves the security epoch, and non-empty containers are not dropped.
  \<^item> Protocol: packets, length-encoded values, rows and handshake responses are read back as
    written; a hostile handshake can panic only in its connection attributes.
  \<^item> Caches: each cache returns only what was stored and within its bound; invalidation removes
    exactly the dependent entries; the engine answers as if it had no result cache.
  \<^item> Workers: a worker chosen after a health check is alive and least loaded, and scaling stays
    within the limits of its policy.
  \<^item> Lemmas outside the list of properties record where the code does not do what it means to, on
    concrete inputs: \<open>flush_loses_rows\<close>, \<open>refresh_adds_nothing\<close>, \<open>clone_mps_collide\<close>,
    \<open>gc_deletes_nothing\<close>, \<open>out_of_order_commit_blocks\<close>, \<open>schemas_of_id_255\<close> and others.

  \<^bold>\<open>Interfaces.\<close> \<open>bitset_spec\<close> (privilege words), \<open>tuple_layer\<close> and \<open>fdb_client\<close> (client library),
  \<open>paired_index\<close> (an entry and its reverse entry), \<open>byte_codec\<close> (encoder and decoder), \<open>bounded_cache\<close>,
  \<open>data_plane\<close> and \<open>row_plane\<close> (Arrow and Parquet). The lemmas of the clients are proved in the locale
  and reach the properties through its interpretations.

  \<^bold>\<open>Bounds.\<close> No definition has fuel: loops are recursions on lists or have a termination proof
  (the breadth-first searches of the role graph visit each role once). A range read returns at most as
  many pairs as the client's batch holds, which is a hypothesis where a property needs the whole range.

  \<^bold>\<open>Assumptions.\<close> One call of an operation is not interleaved with another inside the model, except
  for the change log, whose steps interleave freely. Case mapping is that of ASCII. The n-th reading
  of the clock and of the id source are functions of n. Hash functions (SHA-1, SHA-256, Argon2, the
  default hasher), the parser with the analyzer, and the DataFusion query are arguments.

  \<^bold>\<open>Not modelled.\<close> \<^verbatim>\<open>parser.rs\<close>, the resolution in \<^verbatim>\<open>analyzer.rs\<close> and \<^verbatim>\<open>function_runtime.rs\<close> walk the syntax
  trees of the sqlparser crate and build DataFusion expressions; the worker crate and \<^verbatim>\<open>grpc_client.rs\<close>
  adapt generated and third-party interfaces; \<^verbatim>\<open>raft_transport.rs\<close> does so for
  openraft, whose requests \<^verbatim>\<open>raft.rs\<close> applies; \<^verbatim>\<open>mysql_server.rs\<close> is a superseded listener. No statement reaches
  \<^verbatim>\<open>distributed.rs\<close>, \<^verbatim>\<open>runtime_filter.rs\<close>, \<^verbatim>\<open>cbo.rs\<close>, \<^verbatim>\<open>optimizer_rules.rs\<close>, \<^verbatim>\<open>ha.rs\<close>, \<^verbatim>\<open>backup.rs\<close>, the storage \<^verbatim>\<open>cache.rs\<close>,
  \<^verbatim>\<open>monitoring.rs\<close>, \<^verbatim>\<open>statistics.rs\<close> and \<^verbatim>\<open>advanced_stats.rs\<close>: they are helpers, counters and estimates that
  only tests or start-up code use. The command line is start-up code.
\<close>

end
